(* ===== verification/Prelude.thy ===== *)
theory Prelude
  imports Main "HOL-Library.Finite_Map"
begin

text \<open>
  The prelude: what every pallet of the development shares.

  \<^item> \<^bold>\<open>Results.\<close> A Rust \<open>Result<T, E>\<close> is the sum \<open>'e + 'a\<close> (\<open>Inl\<close> the error); \<open>bindE\<close> is the
    \<open>?\<close> operator, \<open>ensure\<close> the macro \<open>ensure!\<close>, \<open>ok_or\<close> the method of \<open>Option\<close>. FRAME runs every
    extrinsic in a storage transaction: an error rolls all its writes back. A handler therefore
    returns either an error and no state, or the new state.
  \<^item> \<^bold>\<open>Integers.\<close> A Rust unsigned integer of width \<open>w\<close> is a \<open>nat\<close> with the behaviour at \<open>2 ^ w\<close> written out:
    \<open>sat_add\<close>, \<open>sat_mul\<close> and \<open>sat_inc\<close> stop at the maximum, \<open>checked_add\<close> is \<open>None\<close> there, and
    truncating subtraction on \<open>nat\<close> is \<open>saturating_sub\<close>.
  \<^item> \<^bold>\<open>Storage.\<close> A \<open>StorageMap\<close> is a finite map (\<open>fmap\<close>): \<open>fmlookup\<close> is \<open>get\<close> of an \<open>OptionQuery\<close>
    map, \<open>get_or\<close> that of a \<open>ValueQuery\<close> map, \<open>fmupd\<close> is \<open>insert\<close>, \<open>fmdrop\<close> is \<open>remove\<close>. A double
    map is a finite map on pairs.
  \<^item> \<^bold>\<open>Runs.\<close> The locale \<open>pallet_machine\<close> is the interface of a pallet as a transactional state machine:
    an invariant that every guarded successful step keeps holds after every run.
\<close>

subsection \<open>Results\<close>

named_theorems res_simps \<open>when a guarded computation succeeds\<close>
named_theorems sat_simps \<open>saturating and checked arithmetic\<close>

definition bindE :: "'e + 'a \<Rightarrow> ('a \<Rightarrow> 'e + 'b) \<Rightarrow> 'e + 'b" where
  "bindE m f = (case m of Inl e \<Rightarrow> Inl e | Inr x \<Rightarrow> f x)"

definition ensure :: "bool \<Rightarrow> 'e \<Rightarrow> 'e + unit" where
  "ensure b e = (if b then Inr () else Inl e)"

definition ok_or :: "'a option \<Rightarrow> 'e \<Rightarrow> 'e + 'a" where
  "ok_or m e = (case m of None \<Rightarrow> Inl e | Some x \<Rightarrow> Inr x)"

definition map_err :: "('e \<Rightarrow> 'f) \<Rightarrow> 'e + 'a \<Rightarrow> 'f + 'a" where
  "map_err f m = (case m of Inl e \<Rightarrow> Inl (f e) | Inr x \<Rightarrow> Inr x)"

definition is_ok :: "'e + 'a \<Rightarrow> bool" where
  "is_ok m = (case m of Inl _ \<Rightarrow> False | Inr _ \<Rightarrow> True)"

lemma bindE_simps [simp]: "bindE (Inl e) f = Inl e" "bindE (Inr x) f = f x"
  by (simp_all add: bindE_def)

lemma ensure_simps [simp]: "ensure True e = Inr ()" "ensure False e = Inl e"
  by (simp_all add: ensure_def)

lemma ok_or_simps [simp]: "ok_or None e = Inl e" "ok_or (Some x) e = Inr x"
  by (simp_all add: ok_or_def)

lemma map_err_simps [simp]: "map_err f (Inl e) = Inl (f e)" "map_err f (Inr x) = Inr x"
  by (simp_all add: map_err_def)

lemma is_ok_simps [simp]: "\<not> is_ok (Inl e)" "is_ok (Inr x)"
  by (simp_all add: is_ok_def)

lemma bindE_Inr [res_simps]: "bindE m f = Inr y \<longleftrightarrow> (\<exists>x. m = Inr x \<and> f x = Inr y)"
  by (cases m) simp_all

lemma ensure_Inr [res_simps]: "ensure b e = Inr u \<longleftrightarrow> b"
  by (cases b) simp_all

lemma ok_or_Inr [res_simps]: "ok_or m e = Inr x \<longleftrightarrow> m = Some x"
  by (cases m) simp_all

lemma map_err_Inr [res_simps]: "map_err f m = Inr x \<longleftrightarrow> m = Inr x"
  by (cases m) simp_all

lemma ensure_Inl [res_simps]: "ensure b e = Inl e' \<longleftrightarrow> \<not> b \<and> e' = e"
  by (cases b) auto

lemma ok_or_Inl [res_simps]: "ok_or m e = Inl e' \<longleftrightarrow> m = None \<and> e' = e"
  by (cases m) auto

lemma is_ok_iff: "is_ok m \<longleftrightarrow> (\<exists>x. m = Inr x)"
  by (cases m) simp_all

lemma bindE_ensure [simp]: "b \<Longrightarrow> bindE (ensure b e) f = f ()"
  by simp

text \<open>
  A dispatch error is a bad origin, an arithmetic error, an error of the pallet's own enum, or an
  error passed on from a service the pallet is configured with (\<open>'x\<close>).
\<close>

datatype ('e, 'x) dispatch_error =
  BadOrigin | ArithmeticOverflow | Module 'e | Foreign 'x

subsection \<open>Fixed-width arithmetic\<close>

definition max_of :: "nat \<Rightarrow> nat" where
  "max_of w = 2 ^ w - 1"

definition sat_add :: "nat \<Rightarrow> nat \<Rightarrow> nat \<Rightarrow> nat" where
  "sat_add w a b = min (a + b) (max_of w)"

definition sat_mul :: "nat \<Rightarrow> nat \<Rightarrow> nat \<Rightarrow> nat" where
  "sat_mul w a b = min (a * b) (max_of w)"

definition sat_inc :: "nat \<Rightarrow> nat \<Rightarrow> nat" where
  "sat_inc w a = sat_add w a 1"

definition checked_add :: "nat \<Rightarrow> nat \<Rightarrow> nat \<Rightarrow> nat option" where
  "checked_add w a b = (if a + b \<le> max_of w then Some (a + b) else None)"

lemma max_of_less: "max_of w < 2 ^ w"
  by (simp add: max_of_def)

lemma le_max_of_iff: "a \<le> max_of w \<longleftrightarrow> a < 2 ^ w"
proof -
  have "(0::nat) < 2 ^ w" by simp
  then show ?thesis unfolding max_of_def by linarith
qed

lemma sat_add_le [simp]: "sat_add w a b \<le> max_of w"
  by (simp add: sat_add_def)

lemma sat_mul_le [simp]: "sat_mul w a b \<le> max_of w"
  by (simp add: sat_mul_def)

lemma sat_inc_le [simp]: "sat_inc w a \<le> max_of w"
  by (simp add: sat_inc_def)

lemma sat_add_exact: "a + b \<le> max_of w \<Longrightarrow> sat_add w a b = a + b"
  by (simp add: sat_add_def)

lemma sat_mul_exact: "a * b \<le> max_of w \<Longrightarrow> sat_mul w a b = a * b"
  by (simp add: sat_mul_def)

lemma sat_inc_exact: "a < max_of w \<Longrightarrow> sat_inc w a = Suc a"
  by (simp add: sat_inc_def sat_add_def)

lemma sat_add_ge: "a \<le> max_of w \<Longrightarrow> a \<le> sat_add w a b"
  by (simp add: sat_add_def)

lemma sat_inc_ge: "a \<le> max_of w \<Longrightarrow> a \<le> sat_inc w a"
  by (simp add: sat_inc_def sat_add_ge)

lemma sat_add_upper: "sat_add w a b \<le> a + b"
  by (simp add: sat_add_def)

lemma checked_add_Some [sat_simps]:
  "checked_add w a b = Some c \<longleftrightarrow> c = a + b \<and> a + b \<le> max_of w"
  by (auto simp: checked_add_def)

lemma checked_add_None [sat_simps]: "checked_add w a b = None \<longleftrightarrow> max_of w < a + b"
  by (auto simp: checked_add_def)

lemma sat_add_mono: "a \<le> a' \<Longrightarrow> b \<le> b' \<Longrightarrow> sat_add w a b \<le> sat_add w a' b'"
  unfolding sat_add_def by linarith

lemma sat_mul_mono: "a \<le> a' \<Longrightarrow> b \<le> b' \<Longrightarrow> sat_mul w a b \<le> sat_mul w a' b'"
  unfolding sat_mul_def by (metis min.mono mult_le_mono order_refl)

lemma sat_add_assoc: "sat_add w (sat_add w a b) c = sat_add w a (b + c)"
  by (simp add: sat_add_def)

lemmas sat_defs = sat_add_def sat_mul_def sat_inc_def checked_add_def max_of_def

text \<open>Adding up a list with saturation is the saturated sum.\<close>

lemma fold_sat_add:
  "a \<le> max_of w \<Longrightarrow> fold (\<lambda>x acc. sat_add w acc (f x)) xs a = min (a + sum_list (map f xs)) (max_of w)"
proof (induction xs arbitrary: a)
  case Nil
  then show ?case by simp
next
  case (Cons x xs)
  have "fold (\<lambda>x acc. sat_add w acc (f x)) (x # xs) a
      = min (sat_add w a (f x) + sum_list (map f xs)) (max_of w)"
    using Cons.IH[of "sat_add w a (f x)"] by simp
  then show ?case by (simp add: sat_add_def)
qed

subsection \<open>Weights\<close>

record weight =
  ref_time :: nat
  proof_size :: nat

definition zero_weight :: weight where
  "zero_weight = \<lparr>ref_time = 0, proof_size = 0\<rparr>"

definition all_lte :: "weight \<Rightarrow> weight \<Rightarrow> bool" where
  "all_lte a b \<longleftrightarrow> ref_time a \<le> ref_time b \<and> proof_size a \<le> proof_size b"

definition weight_add :: "weight \<Rightarrow> weight \<Rightarrow> weight" where
  "weight_add a b = \<lparr>ref_time = sat_add 64 (ref_time a) (ref_time b),
                     proof_size = sat_add 64 (proof_size a) (proof_size b)\<rparr>"

text \<open>\<open>WeightMeter::try_consume\<close>, on the weight that remains.\<close>

definition try_consume :: "weight \<Rightarrow> weight \<Rightarrow> weight option" where
  "try_consume remaining w =
     (if all_lte w remaining
      then Some \<lparr>ref_time = ref_time remaining - ref_time w,
                 proof_size = proof_size remaining - proof_size w\<rparr>
      else None)"

lemma all_lte_refl [simp]: "all_lte a a"
  by (simp add: all_lte_def)

subsection \<open>Post-dispatch information\<close>

datatype pays = Pays_Yes | Pays_No

record post_info =
  actual_weight :: "weight option"
  pays_fee :: pays

definition pays_info :: "pays \<Rightarrow> post_info" where
  "pays_info p = \<lparr>actual_weight = None, pays_fee = p\<rparr>"

subsection \<open>Bytes\<close>

text \<open>
  A fixed-size byte array or a byte vector is a \<open>string\<close>, a list of 8-bit characters. Aliases,
  contexts and collection identifiers are 32-byte arrays; the code compares them and nothing else.
\<close>

type_synonym bytes = string
type_synonym alias_id = bytes
type_synonym context_id = bytes
type_synonym coll_id = bytes
type_synonym balance = nat
type_synonym block_number = nat
type_synonym secs = nat

subsection \<open>Storage maps\<close>

type_synonym ('k, 'v) storage_map = "('k, 'v) fmap"

abbreviation contains_key :: "('k, 'v) storage_map \<Rightarrow> 'k \<Rightarrow> bool" where
  "contains_key m k \<equiv> fmlookup m k \<noteq> None"

definition get_or :: "'v \<Rightarrow> ('k, 'v) storage_map \<Rightarrow> 'k \<Rightarrow> 'v" where
  "get_or d m k = (case fmlookup m k of None \<Rightarrow> d | Some v \<Rightarrow> v)"

lemma get_or_upd [simp]: "get_or d (fmupd k v m) k' = (if k = k' then v else get_or d m k')"
  by (simp add: get_or_def)

lemma get_or_drop [simp]: "get_or d (fmdrop k m) k' = (if k = k' then d else get_or d m k')"
  by (simp add: get_or_def)

lemma get_or_empty [simp]: "get_or d fmempty k = d"
  by (simp add: get_or_def)

lemma get_or_Some: "fmlookup m k = Some v \<Longrightarrow> get_or d m k = v"
  by (simp add: get_or_def)

lemma get_or_None: "fmlookup m k = None \<Longrightarrow> get_or d m k = d"
  by (simp add: get_or_def)

lemma fmdrop_fmupd_eq: "fmdrop k (fmupd k v m) = fmdrop k m"
  by (rule fmap_ext) simp

lemma fmupd_fmdrop_eq: "fmupd k v (fmdrop k m) = fmupd k v m"
  by (rule fmap_ext) simp

lemma fmupd_same: "fmlookup m k = Some v \<Longrightarrow> fmupd k v m = m"
  by (rule fmap_ext) auto

text \<open>The sum of a measure over the entries of a map.\<close>

definition fmsum :: "('k \<Rightarrow> 'v \<Rightarrow> nat) \<Rightarrow> ('k, 'v) fmap \<Rightarrow> nat" where
  "fmsum f m = (\<Sum>k\<in>fmdom' m. f k (the (fmlookup m k)))"

lemma fmsum_empty [simp]: "fmsum f fmempty = 0"
  by (simp add: fmsum_def)

lemma fmsum_drop_add:
  "fmlookup m k = Some v \<Longrightarrow> fmsum f (fmdrop k m) + f k v = fmsum f m"
proof -
  assume k: "fmlookup m k = Some v"
  then have mem: "k \<in> fmdom' m" by (simp add: fmdom'I)
  have "fmsum f (fmdrop k m) = (\<Sum>j\<in>fmdom' m - {k}. f j (the (fmlookup m j)))"
    unfolding fmsum_def by (rule sum.cong) auto
  with k show ?thesis
    unfolding fmsum_def by (simp add: sum.remove[OF _ mem])
qed

lemma fmsum_drop_None: "fmlookup m k = None \<Longrightarrow> fmsum f (fmdrop k m) = fmsum f m"
proof -
  assume "fmlookup m k = None"
  then have "fmdrop k m = m" by (intro fmap_ext) auto
  then show ?thesis by simp
qed

lemma fmsum_upd: "fmsum f (fmupd k v m) = fmsum f (fmdrop k m) + f k v"
proof -
  have "fmsum f (fmupd k v m)
      = f k v + (\<Sum>j\<in>fmdom' m - {k}. f j (the (fmlookup (fmupd k v m) j)))"
    by (simp add: fmsum_def sum.insert_remove)
  also have "(\<Sum>j\<in>fmdom' m - {k}. f j (the (fmlookup (fmupd k v m) j))) = fmsum f (fmdrop k m)"
    unfolding fmsum_def by (rule sum.cong) auto
  finally show ?thesis by simp
qed

lemma fmsum_upd_new: "fmlookup m k = None \<Longrightarrow> fmsum f (fmupd k v m) = fmsum f m + f k v"
  by (simp add: fmsum_upd fmsum_drop_None)

lemma fmsum_upd_old:
  "fmlookup m k = Some u \<Longrightarrow> fmsum f (fmupd k v m) + f k u = fmsum f m + f k v"
  using fmsum_drop_add[of m k u f] by (simp add: fmsum_upd)

lemma fmsum_ge: "fmlookup m k = Some v \<Longrightarrow> f k v \<le> fmsum f m"
  using fmsum_drop_add[of m k v f] by simp

lemma fmsum_cong:
  "(\<And>k v. fmlookup m k = Some v \<Longrightarrow> f k v = g k v) \<Longrightarrow> fmsum f m = fmsum g m"
  unfolding fmsum_def by (rule sum.cong) (auto simp: fmlookup_dom'_iff)

lemma fmsum_mono:
  "(\<And>k v. fmlookup m k = Some v \<Longrightarrow> f k v \<le> g k v) \<Longrightarrow> fmsum f m \<le> fmsum g m"
  unfolding fmsum_def by (rule sum_mono) (auto simp: fmlookup_dom'_iff)

lemma fmsum_zero: "(\<And>k v. fmlookup m k = Some v \<Longrightarrow> f k v = 0) \<Longrightarrow> fmsum f m = 0"
  unfolding fmsum_def by (rule sum.neutral) (auto simp: fmlookup_dom'_iff)

lemma fmsum_drop_le: "fmsum f (fmdrop k m) \<le> fmsum f m"
  by (cases "fmlookup m k") (use fmsum_drop_add[of m k _ f] fmsum_drop_None[of m k f] in auto)

lemma fmsum_upd_zero:
  "fmlookup m k = Some u \<Longrightarrow> f k u = f k v \<Longrightarrow> fmsum f (fmupd k v m) = fmsum f m"
  using fmsum_upd_old[of m k u f v] by simp

subsection \<open>Pallets as transactional state machines\<close>

text \<open>
  An operation that fails leaves the storage as it was; a run is a list of operations, each applied
  in the state the one before left.
\<close>

definition exec_op :: "('op \<Rightarrow> 'st \<Rightarrow> 'err + 'st) \<Rightarrow> 'op \<Rightarrow> 'st \<Rightarrow> 'st" where
  "exec_op step c s = (case step c s of Inl _ \<Rightarrow> s | Inr s' \<Rightarrow> s')"

fun exec_all :: "('op \<Rightarrow> 'st \<Rightarrow> 'err + 'st) \<Rightarrow> 'op list \<Rightarrow> 'st \<Rightarrow> 'st" where
  "exec_all step [] s = s"
| "exec_all step (c # cs) s = exec_all step cs (exec_op step c s)"

text \<open>The side conditions of a run hold at each of its steps.\<close>

fun run_ok :: "('op \<Rightarrow> 'st \<Rightarrow> 'err + 'st) \<Rightarrow> ('op \<Rightarrow> 'st \<Rightarrow> bool) \<Rightarrow> 'op list \<Rightarrow> 'st \<Rightarrow> bool" where
  "run_ok step ok [] s = True"
| "run_ok step ok (c # cs) s = (ok c s \<and> run_ok step ok cs (exec_op step c s))"

locale pallet_machine =
  fixes step :: "'op \<Rightarrow> 'st \<Rightarrow> 'err + 'st"
    and ok :: "'op \<Rightarrow> 'st \<Rightarrow> bool"
    and inv :: "'st \<Rightarrow> bool"
  assumes step_inv: "inv s \<Longrightarrow> ok c s \<Longrightarrow> step c s = Inr s' \<Longrightarrow> inv s'"
begin

lemma exec_op_inv: "inv s \<Longrightarrow> ok c s \<Longrightarrow> inv (exec_op step c s)"
  by (auto simp: exec_op_def split: sum.splits intro: step_inv)

lemma exec_all_inv: "inv s \<Longrightarrow> run_ok step ok cs s \<Longrightarrow> inv (exec_all step cs s)"
  by (induction cs arbitrary: s) (auto intro: exec_op_inv)

end

end
