(* ===== verification/Reality.thy ===== *)
theory Reality
  imports Prelude
begin

text \<open>
  The shared vocabulary of \<^verbatim>\<open>support/src/traits/reality.rs\<close>: ring exponents, ring status and positions, the
  mutation mode of a collection's rings, recognition histories and their tenure, contextual aliases,
  judgements and statements. Each \<open>impl\<close> method is a function of the same name. \<open>BoundedVec\<close> is a
  list; its bound is checked where the code inserts.
\<close>

subsection \<open>Rings\<close>

type_synonym personal_id = nat
type_synonym ring_index = nat
type_synonym revision_index = nat
type_synonym page_index = nat

datatype ring_exponent = R2e9 | R2e10 | R2e14

fun exponent :: "ring_exponent \<Rightarrow> nat" where
  "exponent R2e9 = 9"
| "exponent R2e10 = 10"
| "exponent R2e14 = 14"

fun new_from_exponent :: "nat \<Rightarrow> nat + ring_exponent" where
  "new_from_exponent n =
     (if n = 9 then Inr R2e9 else if n = 10 then Inr R2e10 else if n = 14 then Inr R2e14 else Inl n)"

definition max_ring_exponent :: ring_exponent where
  "max_ring_exponent = R2e14"

definition all_ring_exponents :: "ring_exponent list" where
  "all_ring_exponents = [R2e9, R2e10, R2e14]"

text \<open>The derived order compares the discriminants.\<close>

instantiation ring_exponent :: linorder
begin

definition less_eq_ring_exponent :: "ring_exponent \<Rightarrow> ring_exponent \<Rightarrow> bool" where
  "less_eq_ring_exponent a b \<longleftrightarrow> exponent a \<le> exponent b"

definition less_ring_exponent :: "ring_exponent \<Rightarrow> ring_exponent \<Rightarrow> bool" where
  "less_ring_exponent a b \<longleftrightarrow> exponent a < exponent b"

instance
proof
  fix x y z :: ring_exponent
  show "(x < y) = (x \<le> y \<and> \<not> y \<le> x)"
    by (auto simp: less_eq_ring_exponent_def less_ring_exponent_def)
  show "x \<le> x" by (simp add: less_eq_ring_exponent_def)
  show "x \<le> y \<Longrightarrow> y \<le> z \<Longrightarrow> x \<le> z" by (simp add: less_eq_ring_exponent_def)
  show "x \<le> y \<Longrightarrow> y \<le> x \<Longrightarrow> x = y"
    by (cases x; cases y) (simp_all add: less_eq_ring_exponent_def)
  show "x \<le> y \<or> y \<le> x" by (auto simp: less_eq_ring_exponent_def)
qed

end

lemma new_from_exponent_exponent [simp]: "new_from_exponent (exponent e) = Inr e"
  by (cases e) simp_all

lemma new_from_exponent_Inr: "new_from_exponent n = Inr e \<longleftrightarrow> exponent e = n"
  by (cases e) auto

lemma ring_exponent_le_max: "e \<le> max_ring_exponent"
  by (cases e) (simp_all add: max_ring_exponent_def less_eq_ring_exponent_def)

datatype ring_mode = AppendOnly | Flexible

record ring_status =
  total :: nat
  included :: nat
  immutable_since :: "secs option"

definition default_ring_status :: ring_status where
  "default_ring_status = \<lparr>total = 0, included = 0, immutable_since = None\<rparr>"

datatype ring_position =
  Onboarding (queue_page: page_index) (queued_at: secs)
| Included (pos_ring: ring_index) (pos_page: page_index) (pos_slot: nat)
| Suspended

fun suspended :: "ring_position \<Rightarrow> bool" where
  "suspended Suspended = True"
| "suspended _ = False"

fun position_ring_index :: "ring_position \<Rightarrow> ring_index option" where
  "position_ring_index (Included r _ _) = Some r"
| "position_ring_index _ = None"

lemma suspended_iff [simp]: "suspended p \<longleftrightarrow> p = Suspended"
  by (cases p) simp_all

subsection \<open>The mutation mode of the rings of a collection\<close>

datatype ring_mutation_mode = ModeAppendOnly | Mutating nat

record ring_members_state =
  mode :: ring_mutation_mode

definition default_ring_members_state :: ring_members_state where
  "default_ring_members_state = \<lparr>mode = ModeAppendOnly\<rparr>"

definition append_only :: "ring_members_state \<Rightarrow> bool" where
  "append_only st = (case mode st of ModeAppendOnly \<Rightarrow> True | Mutating _ \<Rightarrow> False)"

definition mutating :: "ring_members_state \<Rightarrow> bool" where
  "mutating st = (case mode st of ModeAppendOnly \<Rightarrow> False | Mutating _ \<Rightarrow> True)"

text \<open>The counter is a \<open>u8\<close>: the 256th concurrent session is refused.\<close>

definition start_mutation_session :: "ring_members_state \<Rightarrow> ring_members_state + ring_members_state" where
  "start_mutation_session st =
     (case mode st of
        ModeAppendOnly \<Rightarrow> Inr (st\<lparr>mode := Mutating 1\<rparr>)
      | Mutating n \<Rightarrow>
          (case checked_add 8 n 1 of
             None \<Rightarrow> Inl st
           | Some n' \<Rightarrow> Inr (st\<lparr>mode := Mutating n'\<rparr>)))"

definition end_mutation_session :: "ring_members_state \<Rightarrow> ring_members_state + ring_members_state" where
  "end_mutation_session st =
     (case mode st of
        ModeAppendOnly \<Rightarrow> Inl st
      | Mutating n \<Rightarrow>
          Inr (st\<lparr>mode := (if n = 1 then ModeAppendOnly else Mutating (n - 1))\<rparr>))"

text \<open>
  The specification of the mode is a counter of open sessions. The representation never holds the
  value \<open>Mutating 0\<close>.
\<close>

definition session_count :: "ring_members_state \<Rightarrow> nat" where
  "session_count st = (case mode st of ModeAppendOnly \<Rightarrow> 0 | Mutating n \<Rightarrow> n)"

definition session_wf :: "ring_members_state \<Rightarrow> bool" where
  "session_wf st \<longleftrightarrow> mode st \<noteq> Mutating 0 \<and> session_count st \<le> max_of 8"

lemma max_of_8: "max_of 8 = 255"
  by (simp add: max_of_def)

lemma session_wf_default [simp]: "session_wf default_ring_members_state"
  by (simp add: session_wf_def session_count_def default_ring_members_state_def)

lemma append_only_iff_count: "session_wf st \<Longrightarrow> append_only st \<longleftrightarrow> session_count st = 0"
  by (auto simp: append_only_def session_count_def session_wf_def split: ring_mutation_mode.splits)

lemma mutating_iff: "mutating st \<longleftrightarrow> \<not> append_only st"
  by (simp add: mutating_def append_only_def split: ring_mutation_mode.splits)

lemma start_session_refines:
  assumes "session_wf st"
  shows "(case start_mutation_session st of
            Inr st' \<Rightarrow> session_wf st' \<and> session_count st' = session_count st + 1
          | Inl st' \<Rightarrow> st' = st \<and> session_count st = 255)"
  using assms
  by (cases "mode st")
     (auto simp: start_mutation_session_def session_wf_def session_count_def sat_simps max_of_8
           split: option.splits)

lemma end_session_refines:
  assumes "session_wf st"
  shows "(case end_mutation_session st of
            Inr st' \<Rightarrow> session_wf st' \<and> session_count st = session_count st' + 1
          | Inl st' \<Rightarrow> st' = st \<and> session_count st = 0)"
  using assms
  by (cases "mode st")
     (auto simp: end_mutation_session_def session_wf_def session_count_def max_of_8)

subsection \<open>Recognition histories\<close>

definition MAX_RECOGNITION_PERIODS :: nat where
  "MAX_RECOGNITION_PERIODS = 8"

record recognition_period =
  period_start :: secs
  period_end :: secs

definition duration_secs :: "recognition_period \<Rightarrow> nat" where
  "duration_secs p = period_end p - period_start p"

record recognition_history =
  recognized_since :: "secs option"
  periods :: "recognition_period list"
  settled :: nat

definition open_since :: "secs \<Rightarrow> recognition_history" where
  "open_since now = \<lparr>recognized_since = Some now, periods = [], settled = 0\<rparr>"

definition open_history :: "recognition_history \<Rightarrow> secs \<Rightarrow> secs + recognition_history" where
  "open_history h now =
     (case recognized_since h of
        Some since \<Rightarrow> Inl since
      | None \<Rightarrow> Inr (h\<lparr>recognized_since := Some now\<rparr>))"

text \<open>
  \<open>force_insert_keep_right\<close> at the end of a bounded vector appends, and gives up the first element
  where the vector is full.
\<close>

definition force_push :: "nat \<Rightarrow> 'a list \<Rightarrow> 'a \<Rightarrow> 'a list \<times> 'a option" where
  "force_push bound xs x =
     (if length xs < bound then (xs @ [x], None)
      else (case xs of [] \<Rightarrow> ([], None) | y # ys \<Rightarrow> (ys @ [x], Some y)))"

definition close_history ::
  "recognition_history \<Rightarrow> secs \<Rightarrow> (recognition_period \<times> recognition_history) option" where
  "close_history h now =
     (case recognized_since h of
        None \<Rightarrow> None
      | Some start \<Rightarrow>
          (let p = \<lparr>period_start = start, period_end = max now start\<rparr>;
               (ps, evicted) = force_push MAX_RECOGNITION_PERIODS (periods h) p;
               st = (case evicted of
                       None \<Rightarrow> settled h
                     | Some oldest \<Rightarrow> sat_add 64 (settled h) (duration_secs oldest))
           in Some (p, \<lparr>recognized_since = None, periods = ps, settled = st\<rparr>)))"

definition tenure :: "recognition_history \<Rightarrow> secs \<Rightarrow> nat" where
  "tenure h now =
     (let closed = fold (\<lambda>p acc. sat_add 64 acc (duration_secs p)) (periods h) (settled h);
          op = (case recognized_since h of None \<Rightarrow> 0 | Some since \<Rightarrow> now - since)
      in sat_add 64 closed op)"

definition history_wf :: "recognition_history \<Rightarrow> bool" where
  "history_wf h \<longleftrightarrow> length (periods h) \<le> MAX_RECOGNITION_PERIODS \<and> settled h \<le> max_of 64"

definition history_open :: "recognition_history \<Rightarrow> bool" where
  "history_open h \<longleftrightarrow> recognized_since h \<noteq> None"

text \<open>The tenure in one formula: everything ever recognized, saturated once.\<close>

definition recognized_total :: "recognition_history \<Rightarrow> secs \<Rightarrow> nat" where
  "recognized_total h now =
     settled h + sum_list (map duration_secs (periods h))
     + (case recognized_since h of None \<Rightarrow> 0 | Some since \<Rightarrow> now - since)"

lemma tenure_eq:
  assumes "history_wf h"
  shows "tenure h now = min (recognized_total h now) (max_of 64)"
proof -
  have "fold (\<lambda>p acc. sat_add 64 acc (duration_secs p)) (periods h) (settled h)
      = min (settled h + sum_list (map duration_secs (periods h))) (max_of 64)"
    using assms by (intro fold_sat_add) (simp add: history_wf_def)
  then show ?thesis
    by (simp add: tenure_def recognized_total_def sat_add_def Let_def split: option.splits)
qed

lemma open_since_wf [simp]: "history_wf (open_since now)" "history_open (open_since now)"
  by (simp_all add: history_wf_def open_since_def history_open_def)

lemma open_history_Inr:
  "open_history h now = Inr h' \<longleftrightarrow> \<not> history_open h \<and> h' = h\<lparr>recognized_since := Some now\<rparr>"
  by (auto simp: open_history_def history_open_def split: option.splits)

lemma open_history_wf: "history_wf h \<Longrightarrow> open_history h now = Inr h' \<Longrightarrow> history_wf h' \<and> history_open h'"
  by (auto simp: open_history_Inr history_wf_def history_open_def)

lemma close_history_None: "close_history h now = None \<longleftrightarrow> \<not> history_open h"
  by (simp add: close_history_def history_open_def Let_def split: option.splits prod.splits)

lemma close_history_closes: "close_history h now = Some (p, h') \<Longrightarrow> \<not> history_open h'"
  by (auto simp: close_history_def history_open_def Let_def split: option.splits prod.splits)

lemma force_push_length:
  "force_push bound xs x = (ys, ev) \<Longrightarrow> length xs \<le> bound \<Longrightarrow> length ys \<le> bound"
  by (auto simp: force_push_def split: list.splits if_splits)

lemma close_history_wf: "history_wf h \<Longrightarrow> close_history h now = Some (p, h') \<Longrightarrow> history_wf h'"
  by (auto simp: close_history_def history_wf_def Let_def split: option.splits prod.splits
           dest: force_push_length)

text \<open>Folding the oldest period into \<open>settled\<close> loses nothing (up to saturation).\<close>

lemma close_history_total:
  assumes wf: "history_wf h" and close: "close_history h now = Some (p, h')"
  shows "min (recognized_total h' t) (max_of 64) = min (recognized_total h now) (max_of 64)"
proof -
  from close obtain start where st: "recognized_since h = Some start"
    by (auto simp: close_history_def split: option.splits)
  have dur: "duration_secs \<lparr>period_start = start, period_end = max now start\<rparr> = now - start"
    by (simp add: duration_secs_def max_def)
  show ?thesis
  proof (cases "length (periods h) < MAX_RECOGNITION_PERIODS")
    case True
    with close st dur show ?thesis
      by (auto simp: close_history_def recognized_total_def force_push_def Let_def)
  next
    case False
    then obtain q qs where ps: "periods h = q # qs"
      by (cases "periods h") (auto simp: MAX_RECOGNITION_PERIODS_def)
    with False close st dur show ?thesis
      by (auto simp: close_history_def recognized_total_def force_push_def Let_def sat_add_def)
  qed
qed

subsection \<open>Contextual aliases\<close>

record contextual_alias =
  ca_alias :: alias_id
  ca_context :: context_id

record revised_alias =
  ra_revision :: revision_index
  ra_ring :: ring_index
  ra_alias :: alias_id

record revised_contextual_alias =
  rca_revision :: revision_index
  rca_ring :: ring_index
  rca_ca :: contextual_alias

definition supersedes :: "revised_contextual_alias \<Rightarrow> revised_contextual_alias \<Rightarrow> bool" where
  "supersedes a b \<longleftrightarrow> rca_ca a = rca_ca b \<and> rca_ring a = rca_ring b \<and> rca_revision a \<ge> rca_revision b"

lemma supersedes_refl [simp]: "supersedes a a"
  by (simp add: supersedes_def)

lemma supersedes_trans: "supersedes a b \<Longrightarrow> supersedes b c \<Longrightarrow> supersedes a c"
  by (auto simp: supersedes_def)

lemma supersedes_antisym: "supersedes a b \<Longrightarrow> supersedes b a \<Longrightarrow> a = (b :: revised_contextual_alias)"
  by (auto simp: supersedes_def intro: revised_contextual_alias.equality)

definition PEOPLE_IDENTIFIER :: coll_id where
  "PEOPLE_IDENTIFIER = ''pop:polkadot.network/people     ''"

definition PEOPLE_LITE_IDENTIFIER :: coll_id where
  "PEOPLE_LITE_IDENTIFIER = ''pop:polkadot.network/people-lite''"

lemma identifiers_32_bytes:
  "length PEOPLE_IDENTIFIER = 32" "length PEOPLE_LITE_IDENTIFIER = 32"
  "PEOPLE_IDENTIFIER \<noteq> PEOPLE_LITE_IDENTIFIER"
  by (simp_all add: PEOPLE_IDENTIFIER_def PEOPLE_LITE_IDENTIFIER_def)

subsection \<open>Judgements and statements\<close>

datatype truth = Truth_True | Truth_False

datatype judgement = Truth truth | Contempt

lemma judgement_cases [case_names true false contempt]:
  obtains "j = Truth Truth_True" | "j = Truth Truth_False" | "j = Contempt"
  by (cases j) (metis truth.exhaust)+

fun matches_intent :: "judgement \<Rightarrow> judgement \<Rightarrow> bool" where
  "matches_intent (Truth Truth_True) (Truth Truth_True) = True"
| "matches_intent (Truth Truth_False) (Truth Truth_False) = True"
| "matches_intent Contempt Contempt = True"
| "matches_intent _ _ = False"

lemma matches_intent_iff [simp]: "matches_intent a b \<longleftrightarrow> a = b"
  by (induction a b rule: matches_intent.induct) auto

datatype ink_spec =
  DesignedElective nat nat
| ProceduralAccount nat bytes
| ProceduralPersonal nat personal_id
| Procedural nat bytes

datatype social = Twitter bytes | Github bytes | Discord bytes

fun eq_platform :: "social \<Rightarrow> social \<Rightarrow> bool" where
  "eq_platform (Twitter _) (Twitter _) = True"
| "eq_platform (Github _) (Github _) = True"
| "eq_platform (Discord _) (Discord _) = True"
| "eq_platform _ _ = False"

datatype statement =
  ProofOfInk ink_spec bytes bool
| IdentityCredential social bytes
| UsernameValid bytes

record callback =
  cb_pallet_index :: nat
  cb_call_index :: nat

subsection \<open>Properties\<close>

text \<open>
  Closing a recognition history keeps the tenure. Whatever is evicted from the bounded list of
  periods is added to the settled time, so the tenure read at any later time is the tenure at the moment of
  closing, at the limit of \<open>u64\<close> too; the history is closed and well formed.
\<close>

theorem close_history_keeps_tenure:
  assumes "history_wf h" and "close_history h now = Some (p, h')"
  shows "tenure h' t = tenure h now \<and> \<not> history_open h' \<and> history_wf h'
    \<and> recognized_since h = Some (period_start p)"
proof -
  have wf': "history_wf h'" by (rule close_history_wf[OF assms])
  have "tenure h' t = tenure h now"
    using close_history_total[OF assms, of t] tenure_eq[OF wf', of t] tenure_eq[OF assms(1), of now] by simp
  moreover have "recognized_since h = Some (period_start p)"
    using assms(2) by (auto simp: close_history_def Let_def split: option.splits prod.splits)
  ultimately show ?thesis using wf' close_history_closes[OF assms(2)] by blast
qed

lemma close_history_keeps_tenure_witness:
  "tenure (snd (the (close_history \<lparr>recognized_since = Some 100,
      periods = replicate 8 \<lparr>period_start = 10, period_end = 20\<rparr>, settled = 7\<rparr> 150))) 999 = 137"
proof -
  let ?h = "\<lparr>recognized_since = Some 100, periods = replicate 8 \<lparr>period_start = 10, period_end = 20\<rparr>, settled = 7\<rparr>"
  obtain p h' where c: "close_history ?h 150 = Some (p, h')"
    by (cases "close_history ?h 150") (auto simp: close_history_None history_open_def)
  have "tenure h' 999 = tenure ?h 150"
    using close_history_keeps_tenure[OF _ c, of 999]
    by (simp add: history_wf_def MAX_RECOGNITION_PERIODS_def max_of_def)
  moreover have "tenure ?h 150 = 137"
    by (simp add: tenure_eq history_wf_def recognized_total_def duration_secs_def sum_list_replicate
        MAX_RECOGNITION_PERIODS_def max_of_def)
  ultimately show ?thesis by (simp add: c)
qed

text \<open>
  the mutation mode of a collection counts the open mutation sessions. A session starts unless 255 are
  open and ends unless none is, a refused request returns the state unchanged, and the collection is
  append-only exactly when no session is open.
\<close>

theorem mutation_mode_counts_sessions:
  assumes "session_wf st"
  shows "(case start_mutation_session st of
            Inr st' \<Rightarrow> session_wf st' \<and> session_count st' = session_count st + 1
          | Inl st' \<Rightarrow> st' = st \<and> session_count st = 255)
    \<and> (case end_mutation_session st of
            Inr st' \<Rightarrow> session_wf st' \<and> session_count st = session_count st' + 1
          | Inl st' \<Rightarrow> st' = st \<and> session_count st = 0)
    \<and> (append_only st \<longleftrightarrow> session_count st = 0) \<and> (mutating st \<longleftrightarrow> 0 < session_count st)"
  using start_session_refines[OF assms] end_session_refines[OF assms] append_only_iff_count[OF assms]
  by (simp add: mutating_iff)

lemma mutation_mode_counts_sessions_witness:
  "\<not> append_only \<lparr>mode = Mutating 255\<rparr> \<and> start_mutation_session \<lparr>mode = Mutating 255\<rparr> = Inl \<lparr>mode = Mutating 255\<rparr>"
  using mutation_mode_counts_sessions[of "\<lparr>mode = Mutating 255\<rparr>"]
  by (simp add: session_wf_def session_count_def max_of_def append_only_def start_mutation_session_def
      checked_add_def)

end
