(* ===== verification/Shared.thy ===== *)
theory Shared
  imports Reality
begin

text \<open>
  Vocabulary of the pallets that hold funds and serve accounts and people: the account or person of
  \<^verbatim>\<open>support/src/identity.rs\<close>, and the arguments of the framework's currency traits.
\<close>

datatype precision = Exact | BestEffort

datatype preservation = Expendable

datatype 'acc account_or_person = Account 'acc | Person alias_id

fun aop_account :: "'acc account_or_person \<Rightarrow> 'acc option" where
  "aop_account (Account a) = Some a"
| "aop_account (Person _) = None"

end
