(* ===== verification/TxPriority.thy ===== *)
theory TxPriority
  imports Prelude
begin

text \<open>
  The priority tiers of \<^verbatim>\<open>support/src/tx_priority.rs\<close> and the shape of a transaction validity: what an
  \<open>authorize\<close> function returns. \<open>provides\<close> is the value whose encoding tags the transaction in the
  pool; \<open>longevity\<close> is the number of blocks the validity lasts, without a limit when none is given; the
  reasons for refusal are those the pallets use.
\<close>

definition CLEANUP :: nat where "CLEANUP = 0"
definition USER_DEFAULT :: nat where "USER_DEFAULT = 1000"
definition BACKGROUND_PROGRESS :: nat where "BACKGROUND_PROGRESS = 1000000"
definition USER_HIGH :: nat where "USER_HIGH = 1000000000"
definition PROTOCOL_LIVENESS :: nat where "PROTOCOL_LIVENESS = 1000000000000"

lemmas tier_defs =
  CLEANUP_def USER_DEFAULT_def BACKGROUND_PROGRESS_def USER_HIGH_def PROTOCOL_LIVENESS_def

lemma tiers_ordered:
  "CLEANUP < USER_DEFAULT" "USER_DEFAULT < BACKGROUND_PROGRESS"
  "BACKGROUND_PROGRESS < USER_HIGH" "USER_HIGH < PROTOCOL_LIVENESS"
  by (simp_all add: tier_defs)

datatype transaction_source = InBlock | Local | External

datatype invalid_transaction =
  InvalidCall | InvalidPayment | InvalidFuture | InvalidStale | InvalidBadSigner | InvalidBadProof | InvalidCustom nat

record 'p valid_transaction =
  tag_prefix :: string
  provides :: 'p
  propagate :: bool
  longevity :: "nat option"
  priority :: nat

end
