(* ===== verification/MobRule.thy ===== *)
theory MobRule
  imports Shared TxPriority
begin

text \<open>
  The pallet \<^verbatim>\<open>pallets/mob-rule/src/lib.rs\<close>: people vote on cases, a case ripens to a verdict, the verdict is
  dispatched as a callback, voters claim points for correct votes and turn points into rewards in
  payout rounds.

  \<open>mob_state\<close> holds the storage items under their names, the number of the last events, and the rest
  of the chain's state as \<open>world\<close>. \<open>mob_config\<close> holds the pallet's \<open>Config\<close>: constants, origin
  checks, and the operations of code outside the repository (the currency, per-thing arithmetic,
  the codec and the dispatch of a runtime call). \<open>mob_env\<close> holds what changes from block to
  block: the clock, the block number and the number of active people. There is one definition per
  extrinsic, per \<open>authorize\<close> function and per hook.
\<close>

subsection \<open>Data\<close>

definition MOB_CONTEXT :: context_id where
  "MOB_CONTEXT = ''pop:polkadot.network/mob-rule   ''"

type_synonym case_index = nat
type_synonym round_index = nat
type_synonym vote_count = nat
type_synonym percent = nat
type_synonym perbill = nat

datatype hold_reason = Payout | Credit

record mob_credit =
  mc_voted :: nat
  mc_cleaned :: nat
  mc_correct :: nat
  mc_credit :: balance

definition default_mob_credit :: mob_credit where
  "default_mob_credit = \<lparr>mc_voted = 0, mc_cleaned = 0, mc_correct = 0, mc_credit = 0\<rparr>"

record vote_tally =
  aye :: nat
  nay :: nat
  contempt :: nat

definition default_vote_tally :: vote_tally where
  "default_vote_tally = \<lparr>aye = 0, nay = 0, contempt = 0\<rparr>"

record vote_count_result =
  vc_verdict :: judgement
  aye_weight :: nat
  nay_weight :: nat
  turnout :: percent
  voter_count :: nat
  definitive :: bool

definition vote_count_result_empty :: vote_count_result where
  "vote_count_result_empty =
     \<lparr>vc_verdict = Truth Truth_False, aye_weight = 0, nay_weight = 0, turnout = 0,
      voter_count = 0, definitive = False\<rparr>"

record case_details =
  cd_statement :: statement
  cd_context :: bytes
  cd_callback :: callback

record open_case =
  oc_since :: secs
  oc_details :: case_details
  oc_tally :: vote_tally

record ripe_case =
  rc_details :: case_details
  rc_verdict :: judgement

record done_case =
  dc_since :: secs
  dc_verdict :: judgement

datatype callback_trigger = TriggerCloseCase | TriggerIntervene

record credit_distribution =
  cd_round :: round_index
  initial_balance :: balance
  remaining_balance :: balance
  total_points :: vote_count
  cd_start :: block_number

record payout_schedule =
  ps_remaining :: round_index
  amount_per_round :: balance
  ps_period :: block_number

datatype ('acc, 'x) mob_event =
  CaseCreated case_index
| CallbackDone "'x + unit"
| CallbackError case_index callback_trigger
| CaseClosed case_index judgement
| Voted case_index alias_id judgement
| VoteCleaned case_index alias_id
| CaseRemoved case_index
| CaseIntervened case_index judgement
| VotesClaimed alias_id "case_index list"
| RewardPayout alias_id 'acc balance
| PayoutRoundStarted round_index balance vote_count
| PayoutRoundsScheduled balance nat block_number
| PayoutScheduleRemoved nat
| CreditClaimed alias_id balance
| PointsCleaned round_index alias_id
| CaseTouched case_index bool
| VotingPenaltyCleared alias_id

datatype mob_error =
  NoSuchCase | NoSuchVote | NotOpen | NotRipe | NotDone | CodecError | DispatchError | Recent
| NoCredit | NoReward | NoPoints | TooManyClaims | NoPayout | ArithOverflow | TooManySchedules
| NoSchedule | NoPenalty | Early | UnderPenalty | CaseExpirationDisabled | CallbackWeightTooLow

datatype mob_invalidity =
  CallbackWeightTooLowTx | CaseNotRipe | CaseNotDone | CaseTooRecent | CaseNotOpen
| CaseExpirationDisabledTx

fun mob_invalidity_code :: "mob_invalidity \<Rightarrow> nat" where
  "mob_invalidity_code CallbackWeightTooLowTx = 55"
| "mob_invalidity_code CaseNotRipe = 56"
| "mob_invalidity_code CaseNotDone = 57"
| "mob_invalidity_code CaseTooRecent = 58"
| "mob_invalidity_code CaseNotOpen = 59"
| "mob_invalidity_code CaseExpirationDisabledTx = 60"

record ('acc, 'x, 'w) mob_state =
  Credits :: "(alias_id, mob_credit) storage_map"
  VotingPenalties :: "(alias_id, block_number) storage_map"
  VotingPoints :: "(round_index \<times> alias_id, nat) storage_map"
  Votes :: "(case_index \<times> alias_id, judgement) storage_map"
  CaseCount :: case_index
  OpenCases :: "(case_index, open_case) storage_map"
  RipeCases :: "(case_index, ripe_case) storage_map"
  DoneCases :: "(case_index, done_case) storage_map"
  AccumulatedPoints :: vote_count
  PayoutDistribution :: "credit_distribution option"
  RoundSchedules :: "payout_schedule list"
  ActiveSince :: "secs option"
  mob_events :: "('acc, 'x) mob_event list"
  world :: 'w

record ('acc, 'x, 'w, 'o, 'call) mob_config =
  ensure_person :: "'o \<Rightarrow> context_id \<Rightarrow> alias_id option"
  ensure_authorized :: "'o \<Rightarrow> bool"
  ensure_signed :: "'o \<Rightarrow> 'acc option"
  intervention_or_root :: "'o \<Rightarrow> bool"
  max_vote_claim_duration :: secs
  min_case_duration :: secs
  max_voting_duration :: secs
  min_turnout_nominal :: nat
  min_turnout_percentage :: percent
  max_payout_round_schedules :: nat
  voting_penalty_duration :: block_number
  pot_account :: 'acc
  max_votes_claimable :: nat
  offchain_work_interval :: block_number
  clean_votes_batch_size :: nat
  votes_open_for_claims_duration :: secs
  minimum_voter_threshold :: nat
  percent_from_rational :: "nat \<Rightarrow> nat \<Rightarrow> percent"
  perbill_from_rational :: "nat \<Rightarrow> nat \<Rightarrow> perbill"
  perbill_mul_floor :: "perbill \<Rightarrow> balance \<Rightarrow> balance"
  currency_hold :: "hold_reason \<Rightarrow> 'acc \<Rightarrow> balance \<Rightarrow> 'w \<Rightarrow> 'x + 'w"
  currency_release :: "hold_reason \<Rightarrow> 'acc \<Rightarrow> balance \<Rightarrow> precision \<Rightarrow> 'w \<Rightarrow> 'x + 'w \<times> balance"
  currency_transfer :: "'acc \<Rightarrow> 'acc \<Rightarrow> balance \<Rightarrow> preservation \<Rightarrow> 'w \<Rightarrow> 'x + 'w \<times> balance"
  curry_call :: "callback \<Rightarrow> case_index \<times> bytes \<times> judgement \<Rightarrow> 'call option"
  call_weight :: "'call \<Rightarrow> weight"
  dispatch_root :: "'call \<Rightarrow> ('acc, 'x, 'w) mob_state \<Rightarrow> ('acc, 'x, 'w) mob_state \<times> ('x + unit) \<times> weight"
  weight_close_case :: weight
  weight_intervene :: weight
  weight_on_poll_base :: weight
  weight_set_active_since :: weight
  weight_kill_active_since :: weight

record mob_env =
  now_secs :: secs
  block_number_now :: block_number
  active_count :: nat

type_synonym ('acc, 'x, 'w) mob_result =
  "(mob_error, 'x) dispatch_error + ('acc, 'x, 'w) mob_state \<times> post_info"

definition deposit_event ::
  "('acc, 'x) mob_event \<Rightarrow> ('acc, 'x, 'w) mob_state \<Rightarrow> ('acc, 'x, 'w) mob_state" where
  "deposit_event e s = s\<lparr>mob_events := mob_events s @ [e]\<rparr>"

subsection \<open>Counting votes\<close>

fun count_vote :: "judgement \<Rightarrow> vote_tally \<Rightarrow> vote_tally" where
  "count_vote (Truth Truth_True) t = t\<lparr>aye := sat_inc 32 (aye t)\<rparr>"
| "count_vote (Truth Truth_False) t = t\<lparr>nay := sat_inc 32 (nay t)\<rparr>"
| "count_vote Contempt t = t\<lparr>contempt := sat_inc 32 (contempt t)\<rparr>"

fun discount_vote :: "judgement \<Rightarrow> vote_tally \<Rightarrow> vote_tally" where
  "discount_vote (Truth Truth_True) t = t\<lparr>aye := aye t - 1\<rparr>"
| "discount_vote (Truth Truth_False) t = t\<lparr>nay := nay t - 1\<rparr>"
| "discount_vote Contempt t = t\<lparr>contempt := contempt t - 1\<rparr>"

definition collapsed :: "('acc, 'x, 'w, 'o, 'call) mob_config \<Rightarrow> vote_tally \<Rightarrow> nat \<Rightarrow> vote_count_result" where
  "collapsed cfg t active_voters =
     (let vote_count = sat_add 32 (sat_add 32 (aye t) (nay t)) (contempt t) in
      if vote_count = 0 then vote_count_result_empty
      else
        (let nay_w = sat_add 32 (nay t) (contempt t);
             remaining_voters = active_voters - vote_count;
             def0 = (remaining_voters = 0);
             (verdict, def) =
               (if aye t > nay_w
                then (Truth Truth_True, def0 \<or> aye t - nay_w > remaining_voters)
                else (if contempt t \<ge> nay t then Contempt else Truth Truth_False,
                      def0 \<or> nay_w - aye t > remaining_voters))
         in \<lparr>vc_verdict = verdict, aye_weight = aye t, nay_weight = nay_w,
             turnout = percent_from_rational cfg vote_count active_voters,
             voter_count = vote_count, definitive = def\<rparr>))"

definition is_passing :: "vote_count_result \<Rightarrow> secs \<Rightarrow> secs \<Rightarrow> bool" where
  "is_passing r max_duration elapsed \<longleftrightarrow>
     (let remaining = max_duration - elapsed;
          total_vote_weight = sat_add 32 (aye_weight r) (nay_weight r)
      in sat_mul 64 (sat_mul 64 max_duration (aye_weight r)) 2
           > sat_mul 64 (sat_add 64 max_duration remaining) total_vote_weight)"

text \<open>The condition under which \<open>vote\<close> and \<open>touch_case\<close> ripen a case; both write it out.\<close>

definition case_ripens :: "('acc, 'x, 'w, 'o, 'call) mob_config \<Rightarrow> mob_env \<Rightarrow> open_case \<Rightarrow> bool" where
  "case_ripens cfg env cs \<longleftrightarrow>
     (let secs = now_secs env - oc_since cs;
          r = collapsed cfg (oc_tally cs) (active_count env)
      in (turnout r \<ge> min_turnout_percentage cfg \<and> voter_count r \<ge> min_turnout_nominal cfg) \<and>
         secs > min_case_duration cfg \<and>
         (definitive r \<or> is_passing r (max_voting_duration cfg) secs))"

definition collapsed_verdict :: "('acc, 'x, 'w, 'o, 'call) mob_config \<Rightarrow> mob_env \<Rightarrow> open_case \<Rightarrow> judgement" where
  "collapsed_verdict cfg env cs = vc_verdict (collapsed cfg (oc_tally cs) (active_count env))"

subsection \<open>Validation\<close>

definition validate_close_case ::
  "case_index \<Rightarrow> ('acc, 'x, 'w) mob_state \<Rightarrow> (mob_error, 'x) dispatch_error + ripe_case" where
  "validate_close_case c s = ok_or (fmlookup (RipeCases s) c) (Module NotRipe)"

definition validate_clean_vote ::
  "('acc, 'x, 'w, 'o, 'call) mob_config \<Rightarrow> mob_env \<Rightarrow> case_index \<Rightarrow> alias_id
     \<Rightarrow> ('acc, 'x, 'w) mob_state \<Rightarrow> (mob_error, 'x) dispatch_error + judgement" where
  "validate_clean_vote cfg env c voter s =
     bindE (ensure (\<not> contains_key (OpenCases s) c \<and> \<not> contains_key (RipeCases s) c) (Module NotDone)) (\<lambda>_.
     bindE (case fmlookup (DoneCases s) c of
              None \<Rightarrow> Inr ()
            | Some d \<Rightarrow>
                ensure (now_secs env > sat_add 64 (votes_open_for_claims_duration cfg) (dc_since d))
                  (Module Recent)) (\<lambda>_.
     ok_or (fmlookup (Votes s) (c, voter)) (Module NoSuchVote)))"

definition validate_reap_case ::
  "('acc, 'x, 'w, 'o, 'call) mob_config \<Rightarrow> mob_env \<Rightarrow> case_index
     \<Rightarrow> ('acc, 'x, 'w) mob_state \<Rightarrow> (mob_error, 'x) dispatch_error + done_case" where
  "validate_reap_case cfg env c s =
     bindE (ok_or (fmlookup (DoneCases s) c) (Module NotDone)) (\<lambda>d.
     bindE (ensure (now_secs env > sat_add 64 (dc_since d) (max_vote_claim_duration cfg)) (Module Recent)) (\<lambda>_.
     Inr d))"

definition validate_timeout_case ::
  "('acc, 'x, 'w, 'o, 'call) mob_config \<Rightarrow> mob_env \<Rightarrow> case_index
     \<Rightarrow> ('acc, 'x, 'w) mob_state \<Rightarrow> (mob_error, 'x) dispatch_error + open_case" where
  "validate_timeout_case cfg env c s =
     bindE (ok_or (fmlookup (OpenCases s) c) (Module NotOpen)) (\<lambda>cs.
     bindE (ok_or (ActiveSince s) (Module CaseExpirationDisabled)) (\<lambda>active_since.
     bindE (ensure (now_secs env - max (oc_since cs) active_since \<ge> max_voting_duration cfg)
              (Module Recent)) (\<lambda>_.
     Inr cs)))"

subsection \<open>Callbacks\<close>

definition callback_weight ::
  "('acc, 'x, 'w, 'o, 'call) mob_config \<Rightarrow> case_index \<Rightarrow> callback \<Rightarrow> bytes \<Rightarrow> judgement \<Rightarrow> weight" where
  "callback_weight cfg c cb ctx verdict =
     (case curry_call cfg cb (c, ctx, verdict) of
        Some call \<Rightarrow> call_weight cfg call
      | None \<Rightarrow> zero_weight)"

definition dispatch_callback ::
  "('acc, 'x, 'w, 'o, 'call) mob_config \<Rightarrow> case_index \<Rightarrow> callback \<Rightarrow> bytes \<Rightarrow> judgement
     \<Rightarrow> callback_trigger \<Rightarrow> weight \<Rightarrow> ('acc, 'x, 'w) mob_state
     \<Rightarrow> (mob_error, 'x) dispatch_error + ('acc, 'x, 'w) mob_state \<times> weight" where
  "dispatch_callback cfg c cb ctx verdict trigger max_callback_weight s =
     (case curry_call cfg cb (c, ctx, verdict) of
        None \<Rightarrow> Inr (deposit_event (CallbackError c trigger) s, zero_weight)
      | Some call \<Rightarrow>
          bindE (ensure (all_lte (call_weight cfg call) max_callback_weight) (Module CallbackWeightTooLow)) (\<lambda>_.
            let (s', result, actual_weight) = dispatch_root cfg call s
            in Inr (deposit_event (CallbackDone result) s', actual_weight)))"

subsection \<open>Voting\<close>

definition vote ::
  "('acc, 'x, 'w, 'o, 'call) mob_config \<Rightarrow> mob_env \<Rightarrow> 'o \<Rightarrow> case_index \<Rightarrow> judgement
     \<Rightarrow> ('acc, 'x, 'w) mob_state \<Rightarrow> ('acc, 'x, 'w) mob_result" where
  "vote cfg env origin c opinion s =
     bindE (ok_or (ensure_person cfg origin MOB_CONTEXT) BadOrigin) (\<lambda>voter.
     bindE (ensure (opinion \<noteq> Contempt \<or> \<not> contains_key (VotingPenalties s) voter) (Module UnderPenalty)) (\<lambda>_.
     bindE (ok_or (fmlookup (OpenCases s) c) (Module NotOpen)) (\<lambda>cs.
       let s1 = s\<lparr>OpenCases := fmdrop c (OpenCases s)\<rparr>;
           credit = get_or default_mob_credit (Credits s) voter;
           (tally, credit', pays) =
             (case fmlookup (Votes s) (c, voter) of
                Some old_opinion \<Rightarrow> (discount_vote old_opinion (oc_tally cs), credit, Pays_Yes)
              | None \<Rightarrow> (oc_tally cs, credit\<lparr>mc_voted := sat_inc 32 (mc_voted credit)\<rparr>, Pays_No));
           cs' = cs\<lparr>oc_tally := count_vote opinion tally\<rparr>;
           s2 = s1\<lparr>Votes := fmupd (c, voter) opinion (Votes s1)\<rparr>;
           s3 = (if case_ripens cfg env cs'
                 then s2\<lparr>RipeCases := fmupd c \<lparr>rc_details = oc_details cs',
                                              rc_verdict = collapsed_verdict cfg env cs'\<rparr> (RipeCases s2)\<rparr>
                 else s2\<lparr>OpenCases := fmupd c cs' (OpenCases s2)\<rparr>);
           s4 = s3\<lparr>Credits := fmupd voter credit' (Credits s3)\<rparr>
       in Inr (deposit_event (Voted c voter opinion) s4, pays_info pays))))"

definition touch_case ::
  "('acc, 'x, 'w, 'o, 'call) mob_config \<Rightarrow> mob_env \<Rightarrow> 'o \<Rightarrow> case_index
     \<Rightarrow> ('acc, 'x, 'w) mob_state \<Rightarrow> ('acc, 'x, 'w) mob_result" where
  "touch_case cfg env origin c s =
     bindE (ok_or (ensure_signed cfg origin) BadOrigin) (\<lambda>_.
     bindE (ok_or (fmlookup (OpenCases s) c) (Module NotOpen)) (\<lambda>cs.
       let s1 = s\<lparr>OpenCases := fmdrop c (OpenCases s)\<rparr>
       in if case_ripens cfg env cs
          then Inr (deposit_event (CaseTouched c True)
                      (s1\<lparr>RipeCases := fmupd c \<lparr>rc_details = oc_details cs,
                                              rc_verdict = collapsed_verdict cfg env cs\<rparr> (RipeCases s1)\<rparr>),
                    pays_info Pays_No)
          else Inr (deposit_event (CaseTouched c False) (s1\<lparr>OpenCases := fmupd c cs (OpenCases s1)\<rparr>),
                    pays_info Pays_Yes)))"

subsection \<open>The life of a case\<close>

definition judge_statement ::
  "mob_env \<Rightarrow> statement \<Rightarrow> bytes \<Rightarrow> callback \<Rightarrow> ('acc, 'x, 'w) mob_state
     \<Rightarrow> (mob_error, 'x) dispatch_error + ('acc, 'x, 'w) mob_state \<times> case_index" where
  "judge_statement env st ctx cb s =
     (let ticket = CaseCount s;
          s1 = s\<lparr>CaseCount := sat_inc 32 (CaseCount s)\<rparr>;
          status = \<lparr>oc_since = now_secs env,
                    oc_details = \<lparr>cd_statement = st, cd_context = ctx, cd_callback = cb\<rparr>,
                    oc_tally = default_vote_tally\<rparr>;
          s2 = s1\<lparr>OpenCases := fmupd ticket status (OpenCases s1)\<rparr>
      in Inr (deposit_event (CaseCreated ticket) s2, ticket))"

definition close_case ::
  "('acc, 'x, 'w, 'o, 'call) mob_config \<Rightarrow> mob_env \<Rightarrow> 'o \<Rightarrow> case_index \<Rightarrow> weight
     \<Rightarrow> ('acc, 'x, 'w) mob_state \<Rightarrow> ('acc, 'x, 'w) mob_result" where
  "close_case cfg env origin c max_callback_weight s =
     bindE (ensure (ensure_authorized cfg origin) BadOrigin) (\<lambda>_.
     bindE (validate_close_case c s) (\<lambda>rc.
       let s1 = s\<lparr>RipeCases := fmdrop c (RipeCases s)\<rparr> in
     bindE (dispatch_callback cfg c (cd_callback (rc_details rc)) (cd_context (rc_details rc))
              (rc_verdict rc) TriggerCloseCase max_callback_weight s1) (\<lambda>(s2, cb_weight).
       let s3 = s2\<lparr>DoneCases := fmupd c \<lparr>dc_since = now_secs env, dc_verdict = rc_verdict rc\<rparr> (DoneCases s2)\<rparr>
       in Inr (deposit_event (CaseClosed c (rc_verdict rc)) s3,
               \<lparr>actual_weight = Some (weight_add (weight_close_case cfg) cb_weight), pays_fee = Pays_Yes\<rparr>))))"

definition intervene ::
  "('acc, 'x, 'w, 'o, 'call) mob_config \<Rightarrow> mob_env \<Rightarrow> 'o \<Rightarrow> case_index \<Rightarrow> judgement \<Rightarrow> weight
     \<Rightarrow> ('acc, 'x, 'w) mob_state \<Rightarrow> ('acc, 'x, 'w) mob_result" where
  "intervene cfg env origin c verdict max_callback_weight s =
     bindE (ensure (intervention_or_root cfg origin) BadOrigin) (\<lambda>_.
     bindE (ok_or (fmlookup (OpenCases s) c) (Module NotOpen)) (\<lambda>cs.
       let s1 = s\<lparr>OpenCases := fmdrop c (OpenCases s)\<rparr> in
     bindE (dispatch_callback cfg c (cd_callback (oc_details cs)) (cd_context (oc_details cs))
              verdict TriggerIntervene max_callback_weight s1) (\<lambda>(s2, cb_weight).
       let s3 = s2\<lparr>DoneCases := fmupd c \<lparr>dc_since = now_secs env, dc_verdict = verdict\<rparr> (DoneCases s2)\<rparr>
       in Inr (deposit_event (CaseIntervened c verdict) s3,
               \<lparr>actual_weight = Some (weight_add (weight_intervene cfg) cb_weight), pays_fee = Pays_No\<rparr>))))"

definition force_ripen_case ::
  "('acc, 'x, 'w, 'o, 'call) mob_config \<Rightarrow> mob_env \<Rightarrow> 'o \<Rightarrow> case_index
     \<Rightarrow> ('acc, 'x, 'w) mob_state \<Rightarrow> ('acc, 'x, 'w) mob_result" where
  "force_ripen_case cfg env origin c s =
     bindE (ensure (ensure_authorized cfg origin) BadOrigin) (\<lambda>_.
     bindE (validate_timeout_case cfg env c s) (\<lambda>cs.
       let s1 = s\<lparr>OpenCases := fmdrop c (OpenCases s)\<rparr>;
           verdict = collapsed_verdict cfg env cs;
           s2 = s1\<lparr>RipeCases := fmupd c \<lparr>rc_details = oc_details cs, rc_verdict = verdict\<rparr> (RipeCases s1)\<rparr>
       in Inr (deposit_event (CaseClosed c verdict) s2, pays_info Pays_Yes)))"

definition reap_case ::
  "('acc, 'x, 'w, 'o, 'call) mob_config \<Rightarrow> mob_env \<Rightarrow> 'o \<Rightarrow> case_index
     \<Rightarrow> ('acc, 'x, 'w) mob_state \<Rightarrow> ('acc, 'x, 'w) mob_result" where
  "reap_case cfg env origin c s =
     bindE (ensure (ensure_authorized cfg origin) BadOrigin) (\<lambda>_.
     bindE (validate_reap_case cfg env c s) (\<lambda>_.
     Inr (deposit_event (CaseRemoved c) (s\<lparr>DoneCases := fmdrop c (DoneCases s)\<rparr>), pays_info Pays_Yes)))"

subsection \<open>Claiming and cleaning votes\<close>

text \<open>A vote is rewarded when it matches the verdict, and also a ``nay'' on a contemptuous case.\<close>

definition vote_rewarded :: "judgement \<Rightarrow> judgement \<Rightarrow> bool" where
  "vote_rewarded verdict v \<longleftrightarrow>
     matches_intent verdict v \<or> (verdict = Contempt \<and> v = Truth Truth_False)"

text \<open>The loop of \<open>do_claim_votes\<close>: it takes each vote and counts the correct ones.\<close>

fun claim_loop ::
  "mob_env \<Rightarrow> alias_id \<Rightarrow> case_index list \<Rightarrow> nat \<Rightarrow> ('acc, 'x, 'w) mob_state
     \<Rightarrow> (mob_error, 'x) dispatch_error + ('acc, 'x, 'w) mob_state \<times> nat" where
  "claim_loop env voter [] correct s = Inr (s, correct)"
| "claim_loop env voter (c # cs) correct s =
     bindE (ok_or (fmlookup (Votes s) (c, voter)) (Module NoSuchVote)) (\<lambda>v.
       let s1 = s\<lparr>Votes := fmdrop (c, voter) (Votes s)\<rparr> in
     bindE (ok_or (fmlookup (DoneCases s1) c) (Module NotDone)) (\<lambda>d.
       if vote_rewarded (dc_verdict d) v then claim_loop env voter cs (sat_inc 32 correct) s1
       else if v = Contempt
         then claim_loop env voter cs correct
                (s1\<lparr>VotingPenalties := fmupd voter (block_number_now env) (VotingPenalties s1)\<rparr>)
       else claim_loop env voter cs correct s1))"

text \<open>The round in which points earned now become claimable.\<close>

definition next_round :: "('acc, 'x, 'w) mob_state \<Rightarrow> round_index" where
  "next_round s = (case PayoutDistribution s of None \<Rightarrow> 0 | Some d \<Rightarrow> sat_add 32 (cd_round d) 1)"

definition do_claim_votes ::
  "('acc, 'x, 'w, 'o, 'call) mob_config \<Rightarrow> mob_env \<Rightarrow> alias_id \<Rightarrow> case_index list
     \<Rightarrow> ('acc, 'x, 'w) mob_state \<Rightarrow> (mob_error, 'x) dispatch_error + ('acc, 'x, 'w) mob_state" where
  "do_claim_votes cfg env voter case_indices s =
     bindE (ensure (length case_indices \<le> max_votes_claimable cfg) (Module TooManyClaims)) (\<lambda>_.
       let credit = get_or default_mob_credit (Credits s) voter;
           current_round = next_round s in
     bindE (claim_loop env voter case_indices 0 s) (\<lambda>(s1, correct_votes).
       let credit' = credit\<lparr>mc_cleaned := sat_add 32 (mc_cleaned credit) (length case_indices),
                            mc_correct := sat_add 32 (mc_correct credit) correct_votes\<rparr>;
           points = get_or 0 (VotingPoints s1) (current_round, voter);
           s2 = s1\<lparr>VotingPoints := fmupd (current_round, voter) (sat_add 32 points correct_votes) (VotingPoints s1)\<rparr>;
           s3 = s2\<lparr>AccumulatedPoints := sat_add 64 (AccumulatedPoints s2) correct_votes\<rparr>;
           s4 = s3\<lparr>Credits := fmupd voter credit' (Credits s3)\<rparr>
       in Inr (deposit_event (VotesClaimed voter case_indices) s4)))"

definition claim_vote ::
  "('acc, 'x, 'w, 'o, 'call) mob_config \<Rightarrow> mob_env \<Rightarrow> 'o \<Rightarrow> case_index
     \<Rightarrow> ('acc, 'x, 'w) mob_state \<Rightarrow> ('acc, 'x, 'w) mob_result" where
  "claim_vote cfg env origin c s =
     bindE (ok_or (ensure_person cfg origin MOB_CONTEXT) BadOrigin) (\<lambda>voter.
     bindE (do_claim_votes cfg env voter [c] s) (\<lambda>s'. Inr (s', pays_info Pays_No)))"

definition claim_votes ::
  "('acc, 'x, 'w, 'o, 'call) mob_config \<Rightarrow> mob_env \<Rightarrow> 'o \<Rightarrow> case_index list
     \<Rightarrow> ('acc, 'x, 'w) mob_state \<Rightarrow> ('acc, 'x, 'w) mob_result" where
  "claim_votes cfg env origin case_indices s =
     bindE (ok_or (ensure_person cfg origin MOB_CONTEXT) BadOrigin) (\<lambda>voter.
     bindE (do_claim_votes cfg env voter case_indices s) (\<lambda>s'. Inr (s', pays_info Pays_No)))"

definition clean_vote_inner ::
  "('acc, 'x, 'w, 'o, 'call) mob_config \<Rightarrow> mob_env \<Rightarrow> case_index \<Rightarrow> alias_id
     \<Rightarrow> ('acc, 'x, 'w) mob_state \<Rightarrow> (mob_error, 'x) dispatch_error + ('acc, 'x, 'w) mob_state" where
  "clean_vote_inner cfg env c voter s =
     bindE (validate_clean_vote cfg env c voter s) (\<lambda>v.
       let maybe_verdict = map_option dc_verdict (fmlookup (DoneCases s) c);
           s1 = s\<lparr>Votes := fmdrop (c, voter) (Votes s)\<rparr>;
           credit0 = get_or default_mob_credit (Credits s1) voter;
           credit1 = credit0\<lparr>mc_cleaned := sat_inc 32 (mc_cleaned credit0)\<rparr>;
           (credit2, s2) =
             (case maybe_verdict of
                None \<Rightarrow> (credit1, s1)
              | Some verdict \<Rightarrow>
                  if vote_rewarded verdict v
                  then (credit1\<lparr>mc_correct := sat_inc 32 (mc_correct credit1)\<rparr>, s1)
                  else if v = Contempt
                  then (credit1, s1\<lparr>VotingPenalties := fmupd voter (block_number_now env) (VotingPenalties s1)\<rparr>)
                  else (credit1, s1));
           s3 = s2\<lparr>Credits := fmupd voter credit2 (Credits s2)\<rparr>
       in Inr (deposit_event (VoteCleaned c voter) s3))"

definition clean_vote ::
  "('acc, 'x, 'w, 'o, 'call) mob_config \<Rightarrow> mob_env \<Rightarrow> 'o \<Rightarrow> case_index \<Rightarrow> alias_id
     \<Rightarrow> ('acc, 'x, 'w) mob_state \<Rightarrow> ('acc, 'x, 'w) mob_result" where
  "clean_vote cfg env origin c voter s =
     bindE (ensure (ensure_authorized cfg origin) BadOrigin) (\<lambda>_.
     bindE (clean_vote_inner cfg env c voter s) (\<lambda>s'. Inr (s', pays_info Pays_Yes)))"

definition clean_vote_signed ::
  "('acc, 'x, 'w, 'o, 'call) mob_config \<Rightarrow> mob_env \<Rightarrow> 'o \<Rightarrow> case_index \<Rightarrow> alias_id
     \<Rightarrow> ('acc, 'x, 'w) mob_state \<Rightarrow> ('acc, 'x, 'w) mob_result" where
  "clean_vote_signed cfg env origin c voter s =
     bindE (ok_or (ensure_signed cfg origin) BadOrigin) (\<lambda>_.
     bindE (clean_vote_inner cfg env c voter s) (\<lambda>s'. Inr (s', pays_info Pays_No)))"

definition clear_voting_penalty ::
  "('acc, 'x, 'w, 'o, 'call) mob_config \<Rightarrow> mob_env \<Rightarrow> 'o
     \<Rightarrow> ('acc, 'x, 'w) mob_state \<Rightarrow> ('acc, 'x, 'w) mob_result" where
  "clear_voting_penalty cfg env origin s =
     bindE (ok_or (ensure_person cfg origin MOB_CONTEXT) BadOrigin) (\<lambda>who.
     bindE (ok_or (fmlookup (VotingPenalties s) who) (Module NoPenalty)) (\<lambda>start.
       let s1 = s\<lparr>VotingPenalties := fmdrop who (VotingPenalties s)\<rparr> in
     bindE (ensure (sat_add 32 start (voting_penalty_duration cfg) \<le> block_number_now env) (Module Early)) (\<lambda>_.
     Inr (deposit_event (VotingPenaltyCleared who) s1, pays_info Pays_No))))"

subsection \<open>Payout rounds\<close>

definition payout_rewards ::
  "('acc, 'x, 'w, 'o, 'call) mob_config \<Rightarrow> 'o \<Rightarrow> 'acc
     \<Rightarrow> ('acc, 'x, 'w) mob_state \<Rightarrow> ('acc, 'x, 'w) mob_result" where
  "payout_rewards cfg origin destination s =
     bindE (ok_or (ensure_person cfg origin MOB_CONTEXT) BadOrigin) (\<lambda>voter.
       let mob_credit = get_or default_mob_credit (Credits s) voter in
     bindE (ensure (mc_credit mob_credit \<noteq> 0) (Module NoCredit)) (\<lambda>_.
       let payout_amount = mc_credit mob_credit;
           mob_credit' = mob_credit\<lparr>mc_credit := 0\<rparr> in
     bindE (map_err Foreign (currency_release cfg Credit (pot_account cfg) payout_amount Exact (world s)))
       (\<lambda>(w1, released).
     bindE (map_err Foreign (currency_transfer cfg (pot_account cfg) destination released Expendable w1))
       (\<lambda>(w2, transferred).
       let s1 = s\<lparr>world := w2, Credits := fmupd voter mob_credit' (Credits s)\<rparr>
       in Inr (deposit_event (RewardPayout voter destination transferred) s1, pays_info Pays_No)))))"

definition start_payout_round ::
  "('acc, 'x, 'w, 'o, 'call) mob_config \<Rightarrow> mob_env \<Rightarrow> 'o
     \<Rightarrow> ('acc, 'x, 'w) mob_state \<Rightarrow> ('acc, 'x, 'w) mob_result" where
  "start_payout_round cfg env origin s =
     bindE (ensure (intervention_or_root cfg origin) BadOrigin) (\<lambda>_.
       let points = AccumulatedPoints s in
     bindE (ensure (points > 0) (Module NoPoints)) (\<lambda>_.
     bindE (case RoundSchedules s of [] \<Rightarrow> Inl (Module NoSchedule) | sch # rest \<Rightarrow> Inr (sch, rest))
       (\<lambda>(schedule, later).
     bindE (ensure (case PayoutDistribution s of
                      None \<Rightarrow> True
                    | Some d \<Rightarrow> sat_add 32 (cd_start d) (ps_period schedule) \<le> block_number_now env)
              (Module Recent)) (\<lambda>_.
       let schedule' = schedule\<lparr>ps_remaining := ps_remaining schedule - 1\<rparr> in
     bindE (case PayoutDistribution s of
              None \<Rightarrow> Inr (world s)
            | Some d \<Rightarrow>
                bindE (map_err Foreign (currency_release cfg Payout (pot_account cfg) (remaining_balance d)
                                          BestEffort (world s))) (\<lambda>(w', _). Inr w')) (\<lambda>w.
       let rnd = next_round s;
           initial = amount_per_round schedule';
           cdist = \<lparr>cd_round = rnd, initial_balance = initial, remaining_balance = initial,
                   total_points = points, cd_start = block_number_now env\<rparr>;
           schedules = (if ps_remaining schedule' = 0 then later else schedule' # later);
           s1 = s\<lparr>world := w, PayoutDistribution := Some cdist, AccumulatedPoints := 0,
                  RoundSchedules := schedules\<rparr>
       in Inr (deposit_event (PayoutRoundStarted rnd initial points) s1, pays_info Pays_No))))))"

definition schedule_payout_rounds ::
  "('acc, 'x, 'w, 'o, 'call) mob_config \<Rightarrow> 'o \<Rightarrow> balance \<Rightarrow> nat \<Rightarrow> block_number
     \<Rightarrow> ('acc, 'x, 'w) mob_state \<Rightarrow> ('acc, 'x, 'w) mob_result" where
  "schedule_payout_rounds cfg origin amount count period s =
     bindE (ensure (intervention_or_root cfg origin) BadOrigin) (\<lambda>_.
     bindE (map_err Foreign (currency_hold cfg Payout (pot_account cfg) (sat_mul 128 amount count) (world s)))
       (\<lambda>w.
     bindE (ensure (length (RoundSchedules s) < max_payout_round_schedules cfg) (Module TooManySchedules)) (\<lambda>_.
       let s1 = s\<lparr>world := w,
                  RoundSchedules := RoundSchedules s @
                    [\<lparr>ps_remaining = count, amount_per_round = amount, ps_period = period\<rparr>]\<rparr>
       in Inr (deposit_event (PayoutRoundsScheduled amount count period) s1, pays_info Pays_No))))"

definition remove_payout_schedule ::
  "('acc, 'x, 'w, 'o, 'call) mob_config \<Rightarrow> 'o \<Rightarrow> nat
     \<Rightarrow> ('acc, 'x, 'w) mob_state \<Rightarrow> ('acc, 'x, 'w) mob_result" where
  "remove_payout_schedule cfg origin index s =
     bindE (ensure (intervention_or_root cfg origin) BadOrigin) (\<lambda>_.
     bindE (ensure (index < length (RoundSchedules s)) (Module NoSchedule)) (\<lambda>_.
       let schedule = RoundSchedules s ! index;
           schedules = take index (RoundSchedules s) @ drop (Suc index) (RoundSchedules s);
           amount_to_release = sat_mul 128 (amount_per_round schedule) (ps_remaining schedule) in
     bindE (map_err Foreign (currency_release cfg Payout (pot_account cfg) amount_to_release BestEffort (world s)))
       (\<lambda>(w, _).
       let s1 = s\<lparr>world := w, RoundSchedules := schedules\<rparr>
       in Inr (deposit_event (PayoutScheduleRemoved index) s1, pays_info Pays_No))))"

text \<open>What a holder of \<open>points\<close> may claim from a distribution.\<close>

definition claimable_amount ::
  "('acc, 'x, 'w, 'o, 'call) mob_config \<Rightarrow> credit_distribution \<Rightarrow> nat \<Rightarrow> balance" where
  "claimable_amount cfg d points =
     perbill_mul_floor cfg (perbill_from_rational cfg points (total_points d)) (initial_balance d)"

definition claim_credit ::
  "('acc, 'x, 'w, 'o, 'call) mob_config \<Rightarrow> 'o
     \<Rightarrow> ('acc, 'x, 'w) mob_state \<Rightarrow> ('acc, 'x, 'w) mob_result" where
  "claim_credit cfg origin s =
     bindE (ok_or (ensure_person cfg origin MOB_CONTEXT) BadOrigin) (\<lambda>voter.
     bindE (ok_or (PayoutDistribution s) (Module NoReward)) (\<lambda>d.
       let mob_credit = get_or default_mob_credit (Credits s) voter;
           points = get_or 0 (VotingPoints s) (cd_round d, voter);
           s1 = s\<lparr>VotingPoints := fmdrop (cd_round d, voter) (VotingPoints s)\<rparr> in
     bindE (ensure (points > 0) (Module NoPoints)) (\<lambda>_.
       let claimable = claimable_amount cfg d points in
     bindE (map_err Foreign (currency_release cfg Payout (pot_account cfg) claimable BestEffort (world s1)))
       (\<lambda>(w1, actual_released).
       let d' = d\<lparr>remaining_balance := remaining_balance d - actual_released\<rparr> in
     bindE (map_err Foreign (currency_hold cfg Credit (pot_account cfg) actual_released w1)) (\<lambda>w2.
     bindE (ok_or (checked_add 128 (mc_credit mob_credit) actual_released) (Module ArithOverflow)) (\<lambda>credit'.
       let s2 = s1\<lparr>world := w2,
                   Credits := fmupd voter (mob_credit\<lparr>mc_credit := credit'\<rparr>) (Credits s1),
                   PayoutDistribution := Some d'\<rparr>
       in Inr (deposit_event (CreditClaimed voter actual_released) s2, pays_info Pays_No)))))))"

definition clean_points ::
  "('acc, 'x, 'w, 'o, 'call) mob_config \<Rightarrow> 'o \<Rightarrow> round_index \<Rightarrow> alias_id
     \<Rightarrow> ('acc, 'x, 'w) mob_state \<Rightarrow> ('acc, 'x, 'w) mob_result" where
  "clean_points cfg origin rnd voter s =
     bindE (ok_or (ensure_signed cfg origin) BadOrigin) (\<lambda>_.
     bindE (ok_or (PayoutDistribution s) (Module NoPayout)) (\<lambda>d.
     bindE (ensure (rnd < cd_round d) (Module NoPayout)) (\<lambda>_.
     bindE (ensure (contains_key (VotingPoints s) (rnd, voter)) (Module NoPoints)) (\<lambda>_.
       let s1 = s\<lparr>VotingPoints := fmdrop (rnd, voter) (VotingPoints s)\<rparr>
       in Inr (deposit_event (PointsCleaned rnd voter) s1, pays_info Pays_No)))))"

subsection \<open>Hooks\<close>

text \<open>\<open>do_on_poll\<close> takes the weight left in the meter and returns what is left after it.\<close>

definition do_on_poll ::
  "('acc, 'x, 'w, 'o, 'call) mob_config \<Rightarrow> mob_env \<Rightarrow> weight \<Rightarrow> ('acc, 'x, 'w) mob_state
     \<Rightarrow> ('acc, 'x, 'w) mob_state \<times> weight" where
  "do_on_poll cfg env meter s =
     (case try_consume meter (weight_on_poll_base cfg) of
        None \<Rightarrow> (s, meter)
      | Some meter1 \<Rightarrow>
          if ActiveSince s = None \<and> active_count env \<ge> minimum_voter_threshold cfg
          then (case try_consume meter1 (weight_set_active_since cfg) of
                  None \<Rightarrow> (s, meter1)
                | Some meter2 \<Rightarrow> (s\<lparr>ActiveSince := Some (now_secs env)\<rparr>, meter2))
          else if ActiveSince s \<noteq> None \<and> active_count env < minimum_voter_threshold cfg
          then (case try_consume meter1 (weight_kill_active_since cfg) of
                  None \<Rightarrow> (s, meter1)
                | Some meter2 \<Rightarrow> (s\<lparr>ActiveSince := None\<rparr>, meter2))
          else (s, meter1))"

text \<open>\<open>on_poll\<close> spends at most half of the weight that remains.\<close>

definition on_poll ::
  "('acc, 'x, 'w, 'o, 'call) mob_config \<Rightarrow> mob_env \<Rightarrow> weight \<Rightarrow> ('acc, 'x, 'w) mob_state
     \<Rightarrow> ('acc, 'x, 'w) mob_state \<times> weight" where
  "on_poll cfg env remaining s =
     (let budget = \<lparr>ref_time = ref_time remaining div 2, proof_size = proof_size remaining div 2\<rparr>;
          (s', left_over) = do_on_poll cfg env budget s
      in (s', \<lparr>ref_time = ref_time remaining - (ref_time budget - ref_time left_over),
               proof_size = proof_size remaining - (proof_size budget - proof_size left_over)\<rparr>))"

text \<open>The votes of an alias; \<open>votes\<close> is the storage in iteration order.\<close>

definition voted_on ::
  "((case_index \<times> alias_id) \<times> judgement) list \<Rightarrow> alias_id \<Rightarrow> bool
     \<Rightarrow> ('acc, 'x, 'w) mob_state \<Rightarrow> case_index list" where
  "voted_on votes voter done_only s =
     filter (\<lambda>c. \<not> done_only \<or> contains_key (DoneCases s) c)
       (map fst (filter (\<lambda>(_, a). a = voter) (map fst votes)))"

text \<open>
  \<open>votes_to_clean\<close> walks the votes in iteration order and collects, per case, at most its share of
  the batch. The \<open>BTreeMap\<close> is the list of its entries by case index, kept sorted on insertion.
\<close>

fun btree_push :: "nat \<Rightarrow> case_index \<Rightarrow> alias_id \<Rightarrow> (case_index \<times> alias_id list) list
     \<Rightarrow> (case_index \<times> alias_id list) list \<times> bool" where
  "btree_push lim c v [] = ([(c, [v])], True)"
| "btree_push lim c v ((d, vs) # rest) =
     (if c = d then (if length vs < lim then ((d, vs @ [v]) # rest, True) else ((d, vs) # rest, False))
      else if c < d then ((c, [v]) # (d, vs) # rest, True)
      else (let (rest', added) = btree_push lim c v rest in ((d, vs) # rest', added)))"

definition vote_cleanable ::
  "('acc, 'x, 'w, 'o, 'call) mob_config \<Rightarrow> mob_env \<Rightarrow> ('acc, 'x, 'w) mob_state \<Rightarrow> case_index \<Rightarrow> bool" where
  "vote_cleanable cfg env s c =
     (case fmlookup (DoneCases s) c of
        None \<Rightarrow> False
      | Some d \<Rightarrow> now_secs env > sat_add 64 (votes_open_for_claims_duration cfg) (dc_since d))"

fun clean_loop ::
  "(case_index \<Rightarrow> bool) \<Rightarrow> nat \<Rightarrow> nat \<Rightarrow> ((case_index \<times> alias_id) \<times> judgement) list
     \<Rightarrow> nat \<Rightarrow> (case_index \<times> alias_id list) list \<Rightarrow> (case_index \<times> alias_id list) list" where
  "clean_loop cleanable limit lim [] n acc = acc"
| "clean_loop cleanable limit lim (((c, v), _) # votes) n acc =
     (let (acc', n') = (if cleanable c
                        then (let (acc1, added) = btree_push lim c v acc in (acc1, if added then n + 1 else n))
                        else (acc, n))
      in if n' \<ge> limit then acc' else clean_loop cleanable limit lim votes n' acc')"

definition votes_to_clean ::
  "('acc, 'x, 'w, 'o, 'call) mob_config \<Rightarrow> mob_env \<Rightarrow> ((case_index \<times> alias_id) \<times> judgement) list
     \<Rightarrow> ('acc, 'x, 'w) mob_state \<Rightarrow> (case_index \<times> alias_id list) list" where
  "votes_to_clean cfg env votes s =
     (let limit = clean_votes_batch_size cfg;
          done_cases_len = fcard (fmdom (DoneCases s))
      in if done_cases_len = 0 then []
         else clean_loop (vote_cleanable cfg env s) limit (limit div done_cases_len) votes 0 [])"

subsection \<open>Authorization\<close>

datatype mob_call =
  CallCloseCase case_index weight
| CallCleanVote case_index alias_id
| CallReapCase case_index
| CallForceRipenCase case_index

definition authorize_close_case ::
  "('acc, 'x, 'w, 'o, 'call) mob_config \<Rightarrow> case_index \<Rightarrow> weight \<Rightarrow> ('acc, 'x, 'w) mob_state
     \<Rightarrow> invalid_transaction + case_index valid_transaction" where
  "authorize_close_case cfg c max_callback_weight s =
     bindE (map_err (\<lambda>_. InvalidCustom (mob_invalidity_code CaseNotRipe))
              (validate_close_case c s :: (mob_error, 'x) dispatch_error + ripe_case)) (\<lambda>rc.
     bindE (ensure (all_lte (callback_weight cfg c (cd_callback (rc_details rc)) (cd_context (rc_details rc))
                               (rc_verdict rc)) max_callback_weight)
              (InvalidCustom (mob_invalidity_code CallbackWeightTooLowTx))) (\<lambda>_.
     Inr \<lparr>tag_prefix = ''PersonhoodMobRuleCaseClosing'', provides = c, propagate = True,
          longevity = None, priority = BACKGROUND_PROGRESS\<rparr>))"

definition authorize_clean_vote ::
  "('acc, 'x, 'w, 'o, 'call) mob_config \<Rightarrow> mob_env \<Rightarrow> transaction_source \<Rightarrow> case_index \<Rightarrow> alias_id
     \<Rightarrow> ('acc, 'x, 'w) mob_state \<Rightarrow> invalid_transaction + (case_index \<times> alias_id) valid_transaction" where
  "authorize_clean_vote cfg env source c voter s =
     bindE (ensure (source = Local \<or> source = InBlock) InvalidBadSigner) (\<lambda>_.
     bindE (map_err (\<lambda>e. if e = Module Recent then InvalidFuture else InvalidStale)
              (validate_clean_vote cfg env c voter s)) (\<lambda>_.
     Inr \<lparr>tag_prefix = ''PersonhoodMobRuleVoteCleaning'', provides = (c, voter), propagate = True,
          longevity = None, priority = CLEANUP\<rparr>))"

definition authorize_reap_case ::
  "('acc, 'x, 'w, 'o, 'call) mob_config \<Rightarrow> mob_env \<Rightarrow> case_index \<Rightarrow> ('acc, 'x, 'w) mob_state
     \<Rightarrow> invalid_transaction + case_index valid_transaction" where
  "authorize_reap_case cfg env c s =
     bindE (map_err (\<lambda>e. InvalidCustom (mob_invalidity_code
                 (if e = Module NotDone then CaseNotDone
                  else if e = Module Recent then CaseTooRecent else CaseNotDone)))
              (validate_reap_case cfg env c s)) (\<lambda>_.
     Inr \<lparr>tag_prefix = ''PersonhoodMobRuleCaseReaping'', provides = c, propagate = True,
          longevity = None, priority = CLEANUP\<rparr>)"

definition authorize_force_ripen_case ::
  "('acc, 'x, 'w, 'o, 'call) mob_config \<Rightarrow> mob_env \<Rightarrow> case_index \<Rightarrow> ('acc, 'x, 'w) mob_state
     \<Rightarrow> invalid_transaction + case_index valid_transaction" where
  "authorize_force_ripen_case cfg env c s =
     bindE (map_err (\<lambda>e. InvalidCustom (mob_invalidity_code
                 (if e = Module NotOpen then CaseNotOpen
                  else if e = Module CaseExpirationDisabled then CaseExpirationDisabledTx
                  else if e = Module Recent then CaseTooRecent else CaseNotOpen)))
              (validate_timeout_case cfg env c s)) (\<lambda>_.
     Inr \<lparr>tag_prefix = ''PersonhoodMobRuleCaseTimeout'', provides = c, propagate = True,
          longevity = None, priority = BACKGROUND_PROGRESS\<rparr>)"

text \<open>
  The transactions a run of the offchain worker submits, as a set: it walks the hashed storage
  maps, and nothing depends on the order except the batch of votes, which takes the votes in the
  iteration order given.
\<close>

definition offchain_worker ::
  "('acc, 'x, 'w, 'o, 'call) mob_config \<Rightarrow> mob_env \<Rightarrow> ((case_index \<times> alias_id) \<times> judgement) list
     \<Rightarrow> ('acc, 'x, 'w) mob_state \<Rightarrow> mob_call set" where
  "offchain_worker cfg env votes s =
     (if offchain_work_interval cfg = 0 \<or> block_number_now env mod offchain_work_interval cfg \<noteq> 0 then {}
      else {CallCloseCase c (callback_weight cfg c (cd_callback (rc_details rc)) (cd_context (rc_details rc))
                               (rc_verdict rc)) | c rc.
              fmlookup (RipeCases s) c = Some rc \<and>
              is_ok (validate_close_case c s :: (mob_error, 'x) dispatch_error + ripe_case)}
           \<union> {CallCleanVote c v | c v vs. (c, vs) \<in> set (votes_to_clean cfg env votes s) \<and> v \<in> set vs}
           \<union> {CallReapCase c | c. c |\<in>| fmdom (DoneCases s) \<and> is_ok (validate_reap_case cfg env c s)}
           \<union> {CallForceRipenCase c | c. c |\<in>| fmdom (OpenCases s) \<and> is_ok (validate_timeout_case cfg env c s)})"

end
