(* ===== verification/MobRule_Example.thy ===== *)
theory MobRule_Example
  imports MobRule
begin

text \<open>
  A concrete configuration of the mob-rule pallet on which the properties of the pallet are
  evaluated: an origin is a person, a signed account, an authorized call or root; the world is the
  pair of the balances held for payouts and for credit in the pot account; the per-thing types are
  computed as fractions of 100 and of a billion, rounded down; a callback dispatches a call that
  changes nothing.
\<close>

datatype ex_origin = ExPerson alias_id | ExSigned nat | ExAuthorized | ExRoot

type_synonym ex_world = "balance \<times> balance"

fun ex_hold :: "hold_reason \<Rightarrow> nat \<Rightarrow> balance \<Rightarrow> ex_world \<Rightarrow> unit + ex_world" where
  "ex_hold Payout _ x (p, c) = Inr (p + x, c)"
| "ex_hold Credit _ x (p, c) = Inr (p, c + x)"

fun ex_release :: "hold_reason \<Rightarrow> nat \<Rightarrow> balance \<Rightarrow> precision \<Rightarrow> ex_world \<Rightarrow> unit + ex_world \<times> balance" where
  "ex_release Payout _ x BestEffort (p, c) = Inr ((p - x, c), min x p)"
| "ex_release Credit _ x BestEffort (p, c) = Inr ((p, c - x), min x c)"
| "ex_release Payout _ x Exact (p, c) = (if x \<le> p then Inr ((p - x, c), x) else Inl ())"
| "ex_release Credit _ x Exact (p, c) = (if x \<le> c then Inr ((p, c - x), x) else Inl ())"

definition ex_cfg :: "(nat, unit, ex_world, ex_origin, unit) mob_config" where
  "ex_cfg = \<lparr>
     ensure_person = (\<lambda>org _. case org of ExPerson a \<Rightarrow> Some a | _ \<Rightarrow> None),
     ensure_authorized = (\<lambda>org. org = ExAuthorized),
     ensure_signed = (\<lambda>org. case org of ExSigned a \<Rightarrow> Some a | _ \<Rightarrow> None),
     intervention_or_root = (\<lambda>org. org = ExRoot),
     max_vote_claim_duration = 1000,
     min_case_duration = 10,
     max_voting_duration = 100,
     min_turnout_nominal = 1,
     min_turnout_percentage = 10,
     max_payout_round_schedules = 4,
     voting_penalty_duration = 50,
     pot_account = 0,
     max_votes_claimable = 8,
     offchain_work_interval = 5,
     clean_votes_batch_size = 4,
     votes_open_for_claims_duration = 500,
     minimum_voter_threshold = 3,
     percent_from_rational = (\<lambda>p q. if q = 0 then 100 else min 100 (p * 100 div q)),
     perbill_from_rational = (\<lambda>p q. if q = 0 then 1000000000 else min 1000000000 (p * 1000000000 div q)),
     perbill_mul_floor = (\<lambda>f x. f * x div 1000000000),
     currency_hold = ex_hold,
     currency_release = ex_release,
     currency_transfer = (\<lambda>_ _ x _ w. Inr (w, x)),
     curry_call = (\<lambda>_ _. Some ()),
     call_weight = (\<lambda>_. \<lparr>ref_time = 7, proof_size = 2\<rparr>),
     dispatch_root = (\<lambda>_ s. (s, Inr (), \<lparr>ref_time = 7, proof_size = 2\<rparr>)),
     weight_close_case = \<lparr>ref_time = 1, proof_size = 1\<rparr>,
     weight_intervene = \<lparr>ref_time = 1, proof_size = 1\<rparr>,
     weight_on_poll_base = \<lparr>ref_time = 1, proof_size = 1\<rparr>,
     weight_set_active_since = \<lparr>ref_time = 1, proof_size = 1\<rparr>,
     weight_kill_active_since = \<lparr>ref_time = 1, proof_size = 1\<rparr>\<rparr>"

definition ex_env :: mob_env where
  "ex_env = \<lparr>now_secs = 2000, block_number_now = 10, active_count = 5\<rparr>"

definition genesis :: "'w \<Rightarrow> ('acc, 'x, 'w) mob_state" where
  "genesis w = \<lparr>Credits = fmempty, VotingPenalties = fmempty, VotingPoints = fmempty, Votes = fmempty,
     CaseCount = 0, OpenCases = fmempty, RipeCases = fmempty, DoneCases = fmempty,
     AccumulatedPoints = 0, PayoutDistribution = None, RoundSchedules = [], ActiveSince = None,
     mob_events = [], world = w\<rparr>"

definition ex_details :: case_details where
  "ex_details = \<lparr>cd_statement = UsernameValid ''u'', cd_context = ''x'',
                cd_callback = \<lparr>cb_pallet_index = 7, cb_call_index = 2\<rparr>\<rparr>"

text \<open>An open case with two votes, a ripe case, and a done case with two votes, in round 1.\<close>

definition ex_state :: "(nat, unit, ex_world) mob_state" where
  "ex_state = (genesis (1000, 0))\<lparr>
     CaseCount := 3,
     OpenCases := fmupd 0 \<lparr>oc_since = 1800, oc_details = ex_details,
                           oc_tally = \<lparr>aye = 1, nay = 0, contempt = 1\<rparr>\<rparr> fmempty,
     RipeCases := fmupd 1 \<lparr>rc_details = ex_details, rc_verdict = Truth Truth_True\<rparr> fmempty,
     DoneCases := fmupd 2 \<lparr>dc_since = 900, dc_verdict = Contempt\<rparr> fmempty,
     Votes := fmupd (0, ''a'') (Truth Truth_True) (fmupd (0, ''b'') Contempt
                (fmupd (2, ''a'') (Truth Truth_False) (fmupd (2, ''b'') (Truth Truth_True) fmempty))),
     VotingPoints := fmupd (1, ''a'') 3 (fmupd (2, ''b'') 1 fmempty),
     AccumulatedPoints := 1,
     PayoutDistribution := Some \<lparr>cd_round = 1, initial_balance = 1000, remaining_balance = 800,
                                total_points = 4, cd_start = 1\<rparr>,
     RoundSchedules := [\<lparr>ps_remaining = 2, amount_per_round = 100, ps_period = 5\<rparr>],
     ActiveSince := Some 1700\<rparr>"

end
