(* ===== verification/MobRule_Tally.thy ===== *)
theory MobRule_Tally
  imports MobRule_Example
begin

text \<open>
  What the counting of votes of \<^verbatim>\<open>pallets/mob-rule/src/lib.rs\<close> promises: when a result is definitive no
  remaining voter can turn a passing case into a failing one or back, and the approval a case needs
  falls linearly from all of the votes to half of them.
\<close>

definition votes_cast :: "vote_tally \<Rightarrow> nat" where
  "votes_cast t = aye t + nay t + contempt t"

text \<open>\<open>t'\<close> is reached from \<open>t\<close> when people who have not voted yet vote.\<close>

definition more_votes :: "vote_tally \<Rightarrow> vote_tally \<Rightarrow> bool" where
  "more_votes t t' \<longleftrightarrow> aye t \<le> aye t' \<and> nay t \<le> nay t' \<and> contempt t \<le> contempt t'"

definition passes :: "vote_tally \<Rightarrow> bool" where
  "passes t \<longleftrightarrow> nay t + contempt t < aye t"

subsection \<open>The verdict of a tally\<close>

lemma votes_cast_exact:
  assumes "votes_cast t \<le> max_of 32"
  shows "sat_add 32 (aye t) (nay t) = aye t + nay t"
    "sat_add 32 (nay t) (contempt t) = nay t + contempt t"
    "sat_add 32 (aye t + nay t) (contempt t) = votes_cast t"
    "sat_add 32 (aye t) (nay t + contempt t) = votes_cast t"
  using assms by (simp_all add: votes_cast_def sat_add_exact)

lemma collapsed_verdict_eq:
  assumes "votes_cast t \<le> max_of 32"
  shows "vc_verdict (collapsed cfg t n) =
    (if passes t then Truth Truth_True
     else if votes_cast t \<noteq> 0 \<and> nay t \<le> contempt t then Contempt
     else Truth Truth_False)"
  using votes_cast_exact[OF assms]
  by (auto simp: collapsed_def passes_def votes_cast_def vote_count_result_empty_def Let_def)

lemma collapsed_definitive_eq:
  assumes "votes_cast t \<le> max_of 32"
  shows "definitive (collapsed cfg t n) \<longleftrightarrow>
    votes_cast t \<noteq> 0 \<and>
    (n \<le> votes_cast t \<or>
     (if passes t then n - votes_cast t < aye t - (nay t + contempt t)
      else n - votes_cast t < nay t + contempt t - aye t))"
  using votes_cast_exact[OF assms]
  by (auto simp: collapsed_def passes_def votes_cast_def vote_count_result_empty_def Let_def)

lemma collapsed_weights:
  assumes "votes_cast t \<le> max_of 32"
  shows "aye_weight (collapsed cfg t n) = aye t"
    and "nay_weight (collapsed cfg t n) = nay t + contempt t"
    and "voter_count (collapsed cfg t n) = votes_cast t"
  using votes_cast_exact[OF assms]
  by (auto simp: collapsed_def votes_cast_def vote_count_result_empty_def Let_def)

lemma definitive_keeps_passing:
  assumes "votes_cast t' \<le> n" "n \<le> max_of 32" "more_votes t t'" "definitive (collapsed cfg t n)"
  shows "passes t' \<longleftrightarrow> passes t"
proof -
  have le: "votes_cast t \<le> votes_cast t'"
    using assms(3) by (simp add: more_votes_def votes_cast_def)
  then have b: "votes_cast t \<le> max_of 32" using assms by linarith
  note d = assms(4)[unfolded collapsed_definitive_eq[OF b]]
  show ?thesis
  proof (cases "passes t")
    case True
    with d assms(1,3) le show ?thesis
      unfolding passes_def votes_cast_def more_votes_def by auto
  next
    case False
    with d assms(1,3) le show ?thesis
      unfolding passes_def votes_cast_def more_votes_def by auto
  qed
qed

subsection \<open>The threshold\<close>

lemma is_passing_linear:
  assumes D: "D < 2 ^ 31" and w: "aye_weight r + nay_weight r \<le> max_of 32"
  shows "is_passing r D e \<longleftrightarrow>
    (D + (D - e)) * (aye_weight r + nay_weight r) < 2 * (D * aye_weight r)"
proof -
  let ?a = "aye_weight r" and ?t = "aye_weight r + nay_weight r"
  have m32: "max_of 32 = 4294967295" and m64: "max_of 64 = 18446744073709551615"
    by (simp_all add: max_of_def)
  have DD: "D \<le> 2147483647" using D by simp
  have t: "?t \<le> 4294967295" and a: "?a \<le> 4294967295" using w m32 by auto
  have ma: "D * ?a \<le> 2147483647 * 4294967295" using DD a by (rule mult_le_mono)
  have mt: "(D + (D - e)) * ?t \<le> 4294967294 * 4294967295"
    by (rule mult_le_mono) (use DD t in auto)
  have "sat_mul 64 D ?a = D * ?a" using ma by (simp add: sat_mul_exact m64)
  moreover have "sat_mul 64 (D * ?a) 2 = D * ?a * 2" using ma by (simp add: sat_mul_exact m64)
  moreover have "sat_add 64 D (D - e) = D + (D - e)" using DD by (simp add: sat_add_exact m64)
  moreover have "sat_mul 64 (D + (D - e)) ?t = (D + (D - e)) * ?t" using mt by (simp add: sat_mul_exact m64)
  moreover have "sat_add 32 ?a (nay_weight r) = ?t" using w by (simp add: sat_add_exact)
  ultimately show ?thesis by (simp add: is_passing_def Let_def mult.commute)
qed

lemma threshold_falls:
  "e \<le> e' \<Longrightarrow> (D + (D - e')) * (t :: nat) \<le> (D + (D - e)) * t"
  by (rule mult_le_mono1) simp

subsection \<open>Properties\<close>

text \<open>
  C4: a definitive result cannot be flipped between passing and failing: whatever the people who have
  not voted yet vote, the verdict is ``true'' afterwards exactly when it is ``true'' now.
\<close>

theorem definitive_outcome_final:
  assumes "votes_cast t' \<le> active" and "active \<le> max_of 32" and "more_votes t t'"
    and "definitive (collapsed cfg t active)"
  shows "vc_verdict (collapsed cfg t' active') = Truth Truth_True
     \<longleftrightarrow> vc_verdict (collapsed cfg t active'') = Truth Truth_True"
proof -
  have "votes_cast t \<le> votes_cast t'"
    using assms(3) by (simp add: more_votes_def votes_cast_def)
  with assms(1,2) have "votes_cast t \<le> max_of 32" "votes_cast t' \<le> max_of 32" by linarith+
  then show ?thesis
    using definitive_keeps_passing[OF assms] by (simp add: collapsed_verdict_eq)
qed

lemma definitive_outcome_final_witness:
  "vc_verdict (collapsed ex_cfg \<lparr>aye = 5, nay = 1, contempt = 3\<rparr> 9) = Truth Truth_True"
proof -
  have "vc_verdict (collapsed ex_cfg \<lparr>aye = 5, nay = 1, contempt = 3\<rparr> 9) = Truth Truth_True
      \<longleftrightarrow> vc_verdict (collapsed ex_cfg \<lparr>aye = 5, nay = 1, contempt = 1\<rparr> 9) = Truth Truth_True"
    by (rule definitive_outcome_final[where active = 9])
       (simp_all add: votes_cast_def more_votes_def collapsed_def sat_defs Let_def)
  then show ?thesis by (simp add: collapsed_def sat_defs Let_def)
qed

text \<open>
  ``definitive'' does not fix the verdict itself. With four votes against and four in contempt out
  of nine voters the result is definitive and contemptuous; one more vote against makes the case
  false.
\<close>

theorem definitive_verdict_not_final:
  "definitive (collapsed cfg \<lparr>aye = 0, nay = 4, contempt = 4\<rparr> 9)
   \<and> vc_verdict (collapsed cfg \<lparr>aye = 0, nay = 4, contempt = 4\<rparr> 9) = Contempt
   \<and> vc_verdict (collapsed cfg (count_vote (Truth Truth_False) \<lparr>aye = 0, nay = 4, contempt = 4\<rparr>) 9)
       = Truth Truth_False"
  by (simp add: collapsed_def sat_defs Let_def)

text \<open>
  C5: the approval needed falls linearly with the time elapsed, computed without overflow: the
  case passes when twice the ``aye'' share exceeds one plus the share of time remaining. So nothing
  passes at once, a passing tally keeps passing, and after the maximum duration a bare majority is enough.
\<close>

theorem passing_threshold:
  assumes D: "0 < D" "D < 2 ^ 31" and votes: "votes_cast t \<le> max_of 32"
  shows "(is_passing (collapsed cfg t n) D e \<longleftrightarrow> (D + (D - e)) * votes_cast t < 2 * (D * aye t))
    \<and> \<not> is_passing (collapsed cfg t n) D 0
    \<and> (e \<le> e' \<and> is_passing (collapsed cfg t n) D e \<longrightarrow> is_passing (collapsed cfg t n) D e')
    \<and> (is_passing (collapsed cfg t n) D (D + x) \<longleftrightarrow> votes_cast t < 2 * aye t)"
proof -
  note w = collapsed_weights[OF votes, of cfg n]
  have sum: "aye_weight (collapsed cfg t n) + nay_weight (collapsed cfg t n) = votes_cast t"
    by (simp add: w votes_cast_def)
  have lin: "is_passing (collapsed cfg t n) D e \<longleftrightarrow> (D + (D - e)) * votes_cast t < 2 * (D * aye t)" for e
    using is_passing_linear[OF D(2), of "collapsed cfg t n" e] votes sum w(1) by simp
  have "D * aye t \<le> D * votes_cast t" by (simp add: votes_cast_def)
  then have "\<not> (D + (D - 0)) * votes_cast t < 2 * (D * aye t)"
    unfolding add_mult_distrib diff_zero by linarith
  then have zero: "\<not> is_passing (collapsed cfg t n) D 0"
    by (simp add: lin)
  have mono: "e \<le> e' \<and> is_passing (collapsed cfg t n) D e \<longrightarrow> is_passing (collapsed cfg t n) D e'"
    unfolding lin by (blast intro: le_less_trans[OF threshold_falls])
  have "(D + (D - (D + x))) * votes_cast t < 2 * (D * aye t) \<longleftrightarrow> D * votes_cast t < D * (2 * aye t)"
    by (simp add: algebra_simps)
  then have late: "is_passing (collapsed cfg t n) D (D + x) \<longleftrightarrow> votes_cast t < 2 * aye t"
    using D(1) by (simp add: lin)
  show ?thesis using lin zero mono late by blast
qed

lemma passing_threshold_witness:
  "\<not> is_passing (collapsed ex_cfg \<lparr>aye = 3, nay = 1, contempt = 1\<rparr> 9) 100 79
   \<and> is_passing (collapsed ex_cfg \<lparr>aye = 3, nay = 1, contempt = 1\<rparr> 9) 100 (100 + 1)"
  using passing_threshold[of 100 "\<lparr>aye = 3, nay = 1, contempt = 1\<rparr>" ex_cfg 9 79 79 1]
  by (simp add: votes_cast_def max_of_def)

end
