(* ===== verification/MobRule_Invariant.thy ===== *)
theory MobRule_Invariant
  imports MobRule_Example
begin

text \<open>
  The invariant of the mob-rule pallet and its preservation by every operation of
  \<^verbatim>\<open>pallets/mob-rule/src/lib.rs\<close>.

  \<^item> \<open>phases_ok\<close>: a case is in at most one of the maps of open, ripe and done cases, and every case and
    every vote belongs to an index below \<open>CaseCount\<close>.
  \<^item> \<open>tallies_ok\<close>: the tally of an open case counts the votes stored for it.
  \<^item> \<open>points_ok\<close>: the accumulated points cover the voting points of the coming round, the total of the
    current distribution covers those of the current round, and no points lie beyond the coming round.
  \<^item> \<open>payout_ok\<close>: what remains of a distribution covers every claim that is still possible.

  \<open>mob_op\<close> lists all entry points of the pallet, \<open>mob_step\<close> applies one. The locale \<open>pallet_machine\<close>
  is interpreted on it.
\<close>

subsection \<open>The invariant\<close>

definition phases_ok :: "('acc, 'x, 'w) mob_state \<Rightarrow> bool" where
  "phases_ok s \<longleftrightarrow>
     (\<forall>c. contains_key (OpenCases s) c \<longrightarrow>
        c < CaseCount s \<and> \<not> contains_key (RipeCases s) c \<and> \<not> contains_key (DoneCases s) c) \<and>
     (\<forall>c. contains_key (RipeCases s) c \<longrightarrow> c < CaseCount s \<and> \<not> contains_key (DoneCases s) c) \<and>
     (\<forall>c. contains_key (DoneCases s) c \<longrightarrow> c < CaseCount s) \<and>
     (\<forall>c v. contains_key (Votes s) (c, v) \<longrightarrow> c < CaseCount s)"

definition votes_for :: "(case_index \<times> alias_id, judgement) storage_map \<Rightarrow> case_index \<Rightarrow> judgement \<Rightarrow> nat" where
  "votes_for vs c j = fmsum (\<lambda>(c', _) j'. if c' = c \<and> j' = j then 1 else 0) vs"

definition votes_total :: "(case_index \<times> alias_id, judgement) storage_map \<Rightarrow> nat" where
  "votes_total vs = fmsum (\<lambda>_ _. 1) vs"

definition tally_of :: "(case_index \<times> alias_id, judgement) storage_map \<Rightarrow> case_index \<Rightarrow> vote_tally" where
  "tally_of vs c = \<lparr>aye = votes_for vs c (Truth Truth_True), nay = votes_for vs c (Truth Truth_False),
                   contempt = votes_for vs c Contempt\<rparr>"

definition tallies_ok :: "('acc, 'x, 'w) mob_state \<Rightarrow> bool" where
  "tallies_ok s \<longleftrightarrow> (\<forall>c oc. fmlookup (OpenCases s) c = Some oc \<longrightarrow> oc_tally oc = tally_of (Votes s) c)"

definition round_points :: "(round_index \<times> alias_id, nat) storage_map \<Rightarrow> round_index \<Rightarrow> nat" where
  "round_points vp r = fmsum (\<lambda>(r', _) n. if r' = r then n else 0) vp"

definition points_ok :: "('acc, 'x, 'w) mob_state \<Rightarrow> bool" where
  "points_ok s \<longleftrightarrow>
     round_points (VotingPoints s) (next_round s) \<le> AccumulatedPoints s \<and>
     (\<forall>r v. contains_key (VotingPoints s) (r, v) \<longrightarrow> r \<le> next_round s) \<and>
     (\<forall>d. PayoutDistribution s = Some d \<longrightarrow>
        cd_round d < next_round s \<and> 0 < total_points d \<and>
        round_points (VotingPoints s) (cd_round d) \<le> total_points d)"

definition payout_ok :: "('acc, 'x, 'w) mob_state \<Rightarrow> bool" where
  "payout_ok s \<longleftrightarrow>
     (\<forall>d. PayoutDistribution s = Some d \<longrightarrow>
        initial_balance d * round_points (VotingPoints s) (cd_round d)
          \<le> remaining_balance d * total_points d)"

definition mob_inv :: "('acc, 'x, 'w) mob_state \<Rightarrow> bool" where
  "mob_inv s \<longleftrightarrow> phases_ok s \<and> tallies_ok s \<and> points_ok s \<and> payout_ok s"

lemma mob_inv_genesis: "mob_inv (genesis w)"
  by (simp add: mob_inv_def genesis_def phases_ok_def tallies_ok_def points_ok_def payout_ok_def
      round_points_def)

text \<open>The invariant reads eight storage items; every other update keeps it.\<close>

lemma next_round_cong [simp]:
  "next_round (s\<lparr>Votes := a1\<rparr>) = next_round s" "next_round (s\<lparr>Credits := a2\<rparr>) = next_round s"
  "next_round (s\<lparr>VotingPenalties := a3\<rparr>) = next_round s" "next_round (s\<lparr>VotingPoints := a4\<rparr>) = next_round s"
  "next_round (s\<lparr>CaseCount := a5\<rparr>) = next_round s" "next_round (s\<lparr>OpenCases := a6\<rparr>) = next_round s"
  "next_round (s\<lparr>RipeCases := a7\<rparr>) = next_round s" "next_round (s\<lparr>DoneCases := a8\<rparr>) = next_round s"
  "next_round (s\<lparr>AccumulatedPoints := a9\<rparr>) = next_round s"
  "next_round (s\<lparr>RoundSchedules := a10\<rparr>) = next_round s"
  "next_round (s\<lparr>ActiveSince := a11\<rparr>) = next_round s" "next_round (s\<lparr>mob_events := a12\<rparr>) = next_round s"
  "next_round (s\<lparr>world := a13\<rparr>) = next_round s"
  by (simp_all add: next_round_def)

lemma mob_inv_irrelevant [simp]:
  "mob_inv (s\<lparr>Credits := a\<rparr>) = mob_inv s"
  "mob_inv (s\<lparr>VotingPenalties := b\<rparr>) = mob_inv s"
  "mob_inv (s\<lparr>RoundSchedules := c\<rparr>) = mob_inv s"
  "mob_inv (s\<lparr>ActiveSince := d\<rparr>) = mob_inv s"
  "mob_inv (s\<lparr>mob_events := e\<rparr>) = mob_inv s"
  "mob_inv (s\<lparr>world := f\<rparr>) = mob_inv s"
  "mob_inv (deposit_event ev s) = mob_inv s"
  by (simp_all add: mob_inv_def phases_ok_def tallies_ok_def points_ok_def payout_ok_def deposit_event_def)

lemma deposit_event_frame [simp]:
  "OpenCases (deposit_event e s) = OpenCases s" "RipeCases (deposit_event e s) = RipeCases s"
  "DoneCases (deposit_event e s) = DoneCases s" "Votes (deposit_event e s) = Votes s"
  "CaseCount (deposit_event e s) = CaseCount s" "VotingPoints (deposit_event e s) = VotingPoints s"
  "AccumulatedPoints (deposit_event e s) = AccumulatedPoints s"
  "PayoutDistribution (deposit_event e s) = PayoutDistribution s"
  "Credits (deposit_event e s) = Credits s" "VotingPenalties (deposit_event e s) = VotingPenalties s"
  "RoundSchedules (deposit_event e s) = RoundSchedules s" "ActiveSince (deposit_event e s) = ActiveSince s"
  "world (deposit_event e s) = world s" "mob_events (deposit_event e s) = mob_events s @ [e]"
  "next_round (deposit_event e s) = next_round s"
  by (simp_all add: deposit_event_def)

lemma mob_inv_phase_exclusive:
  assumes "mob_inv s"
  shows "contains_key (OpenCases s) c \<Longrightarrow> \<not> contains_key (RipeCases s) c"
    and "contains_key (OpenCases s) c \<Longrightarrow> \<not> contains_key (DoneCases s) c"
    and "contains_key (RipeCases s) c \<Longrightarrow> \<not> contains_key (DoneCases s) c"
  using assms unfolding mob_inv_def phases_ok_def by blast+

subsection \<open>Sums over votes and points\<close>

lemma votes_for_upd_new:
  "fmlookup vs (c, v) = None \<Longrightarrow>
   votes_for (fmupd (c, v) j vs) c' j' = votes_for vs c' j' + (if c' = c \<and> j' = j then 1 else 0)"
  by (auto simp: votes_for_def fmsum_upd_new)

lemma votes_for_upd_old:
  "fmlookup vs (c, v) = Some k \<Longrightarrow>
   votes_for (fmupd (c, v) j vs) c' j' + (if c' = c \<and> j' = k then 1 else 0)
     = votes_for vs c' j' + (if c' = c \<and> j' = j then 1 else 0)"
  using fmsum_upd_old[of vs "(c, v)" k "\<lambda>(x, _) j''. if x = c' \<and> j'' = j' then 1 else 0" j]
  by (auto simp: votes_for_def)

lemma votes_for_drop_other: "c \<noteq> c' \<Longrightarrow> votes_for (fmdrop (c, v) vs) c' j = votes_for vs c' j"
  using fmsum_drop_add[of vs "(c, v)" _ "\<lambda>(x, _) j''. if x = c' \<and> j'' = j then 1 else 0"]
    fmsum_drop_None[of vs "(c, v)"]
  by (cases "fmlookup vs (c, v)") (auto simp: votes_for_def)

lemma votes_for_le_total: "votes_for vs c j \<le> votes_total vs"
  unfolding votes_for_def votes_total_def by (rule fmsum_mono) auto

lemma votes_for_pos: "fmlookup vs (c, v) = Some j \<Longrightarrow> 0 < votes_for vs c j"
  using fmsum_ge[of vs "(c, v)" j "\<lambda>(x, _) j''. if x = c \<and> j'' = j then 1 else 0"]
  by (auto simp: votes_for_def)

lemma votes_for_none: "(\<And>v. fmlookup vs (c, v) = None) \<Longrightarrow> votes_for vs c j = 0"
  unfolding votes_for_def by (rule fmsum_zero) auto

lemma round_points_upd:
  "round_points (fmupd (r, v) n vp) r' + (if r' = r then get_or 0 vp (r, v) else 0)
     = round_points vp r' + (if r' = r then n else 0)"
proof (cases "fmlookup vp (r, v)")
  case None
  then show ?thesis by (auto simp: round_points_def fmsum_upd_new get_or_def)
next
  case (Some k)
  then show ?thesis
    using fmsum_upd_old[of vp "(r, v)" k "\<lambda>(x, _) m. if x = r' then m else 0" n]
    by (auto simp: round_points_def get_or_def)
qed

lemma round_points_drop:
  "round_points (fmdrop (r, v) vp) r' + (if r' = r then get_or 0 vp (r, v) else 0) = round_points vp r'"
proof (cases "fmlookup vp (r, v)")
  case None
  then show ?thesis by (simp add: round_points_def fmsum_drop_None get_or_def)
next
  case (Some k)
  then show ?thesis
    using fmsum_drop_add[of vp "(r, v)" k "\<lambda>(x, _) m. if x = r' then m else 0"]
    by (auto simp: round_points_def get_or_def split: if_splits)
qed

lemma round_points_none: "(\<And>v. fmlookup vp (r, v) = None) \<Longrightarrow> round_points vp r = 0"
  unfolding round_points_def by (rule fmsum_zero) auto

subsection \<open>Moving a case between phases\<close>

lemma inv_drop_open: "mob_inv s \<Longrightarrow> mob_inv (s\<lparr>OpenCases := fmdrop c (OpenCases s)\<rparr>)"
  by (auto simp: mob_inv_def phases_ok_def tallies_ok_def points_ok_def payout_ok_def)

lemma inv_drop_ripe: "mob_inv s \<Longrightarrow> mob_inv (s\<lparr>RipeCases := fmdrop c (RipeCases s)\<rparr>)"
  by (auto simp: mob_inv_def phases_ok_def tallies_ok_def points_ok_def payout_ok_def)

lemma inv_drop_done: "mob_inv s \<Longrightarrow> mob_inv (s\<lparr>DoneCases := fmdrop c (DoneCases s)\<rparr>)"
  by (auto simp: mob_inv_def phases_ok_def tallies_ok_def points_ok_def payout_ok_def)

lemma inv_add_ripe:
  "mob_inv s \<Longrightarrow> c < CaseCount s \<Longrightarrow> \<not> contains_key (OpenCases s) c \<Longrightarrow> \<not> contains_key (DoneCases s) c \<Longrightarrow>
   mob_inv (s\<lparr>RipeCases := fmupd c rc (RipeCases s)\<rparr>)"
  by (auto simp: mob_inv_def phases_ok_def tallies_ok_def points_ok_def payout_ok_def)

lemma inv_add_done:
  "mob_inv s \<Longrightarrow> c < CaseCount s \<Longrightarrow> \<not> contains_key (OpenCases s) c \<Longrightarrow> \<not> contains_key (RipeCases s) c \<Longrightarrow>
   mob_inv (s\<lparr>DoneCases := fmupd c dc (DoneCases s)\<rparr>)"
  by (auto simp: mob_inv_def phases_ok_def tallies_ok_def points_ok_def payout_ok_def)

lemma inv_open_to_ripe:
  assumes "mob_inv s" "contains_key (OpenCases s) c"
  shows "mob_inv (s\<lparr>OpenCases := fmdrop c (OpenCases s), RipeCases := fmupd c rc (RipeCases s)\<rparr>)"
proof -
  have "\<not> contains_key (DoneCases s) c" "c < CaseCount s"
    using assms unfolding mob_inv_def phases_ok_def by blast+
  then show ?thesis
    using inv_add_ripe[OF inv_drop_open[OF assms(1), of c], of c rc] by simp
qed

lemma inv_new_case:
  assumes inv: "mob_inv s" and room: "CaseCount s < max_of 32" and t: "oc_tally oc = default_vote_tally"
  shows "mob_inv (s\<lparr>CaseCount := sat_inc 32 (CaseCount s), OpenCases := fmupd (CaseCount s) oc (OpenCases s)\<rparr>)"
proof -
  have none: "fmlookup (Votes s) (CaseCount s, v) = None" for v
    using inv unfolding mob_inv_def phases_ok_def by blast
  have "tally_of (Votes s) (CaseCount s) = default_vote_tally"
    by (simp add: tally_of_def default_vote_tally_def votes_for_none[OF none])
  with inv t room show ?thesis
    unfolding mob_inv_def phases_ok_def tallies_ok_def points_ok_def payout_ok_def
    by (auto simp: sat_inc_exact less_Suc_eq)
qed

text \<open>One vote, first or changed, is one vote in the tally of its case.\<close>

lemma tally_of_vote_new:
  assumes "fmlookup vs (c, v) = None" "votes_total vs < max_of 32"
  shows "tally_of (fmupd (c, v) j vs) c = count_vote j (tally_of vs c)"
proof -
  have "votes_for vs c k < max_of 32" for k
    using votes_for_le_total[of vs c k] assms(2) by linarith
  then show ?thesis
    by (cases j rule: judgement_cases)
       (auto simp: tally_of_def votes_for_upd_new[OF assms(1)] sat_inc_exact)
qed

lemma tally_of_vote_old:
  assumes k: "fmlookup vs (c, v) = Some k" and room: "votes_total vs < max_of 32"
  shows "tally_of (fmupd (c, v) j vs) c = count_vote j (discount_vote k (tally_of vs c))"
proof -
  have bound: "votes_for vs c i < max_of 32" for i
    using votes_for_le_total[of vs c i] room by linarith
  have pos: "0 < votes_for vs c k" using k by (rule votes_for_pos)
  have eq: "votes_for (fmupd (c, v) j vs) c i + (if i = k then 1 else 0)
      = votes_for vs c i + (if i = j then 1 else 0)" for i
    using votes_for_upd_old[OF k, of j c i] by simp
  show ?thesis
    using pos eq[of "Truth Truth_True"] eq[of "Truth Truth_False"] eq[of Contempt]
      bound[of "Truth Truth_True"] bound[of "Truth Truth_False"] bound[of Contempt]
    by (cases j rule: judgement_cases; cases k rule: judgement_cases)
       (auto simp: tally_of_def sat_inc_exact)
qed

lemma tally_of_vote_other: "c \<noteq> c' \<Longrightarrow> tally_of (fmupd (c, v) j vs) c' = tally_of vs c'"
  using votes_for_upd_old[of vs c v _ j c'] votes_for_upd_new[of vs c v j c']
  by (cases "fmlookup vs (c, v)") (auto simp: tally_of_def)

lemma tally_of_drop_other: "c \<noteq> c' \<Longrightarrow> tally_of (fmdrop (c, v) vs) c' = tally_of vs c'"
  by (simp add: tally_of_def votes_for_drop_other)

lemma phases_ok_vote: "phases_ok s \<Longrightarrow> fmlookup (Votes s) (c, v) = Some j \<Longrightarrow> c < CaseCount s"
  unfolding phases_ok_def by blast

lemma phases_ok_votes:
  "phases_ok s \<Longrightarrow> (\<And>c v j. fmlookup vs (c, v) = Some j \<Longrightarrow> c < CaseCount s) \<Longrightarrow> phases_ok (s\<lparr>Votes := vs\<rparr>)"
  by (auto simp: phases_ok_def)

lemma inv_vote_stays_open:
  assumes inv: "mob_inv s" and op: "fmlookup (OpenCases s) c = Some cs"
    and t: "oc_tally cs' = tally_of (fmupd (c, v) j (Votes s)) c"
  shows "mob_inv (s\<lparr>Votes := fmupd (c, v) j (Votes s), OpenCases := fmupd c cs' (OpenCases s)\<rparr>)"
  using assms
  by (auto simp: mob_inv_def phases_ok_def tallies_ok_def points_ok_def payout_ok_def tally_of_vote_other)
     blast

lemma inv_drop_vote:
  assumes inv: "mob_inv s" and nop: "\<not> contains_key (OpenCases s) c"
  shows "mob_inv (s\<lparr>Votes := fmdrop (c, v) (Votes s)\<rparr>)"
proof -
  have "tally_of (fmdrop (c, v) (Votes s)) c' = tally_of (Votes s) c'"
    if "fmlookup (OpenCases s) c' = Some oc" for c' oc
    using nop that by (intro tally_of_drop_other) auto
  with inv have "tallies_ok (s\<lparr>Votes := fmdrop (c, v) (Votes s)\<rparr>)"
    unfolding mob_inv_def tallies_ok_def by fastforce
  moreover have "phases_ok (s\<lparr>Votes := fmdrop (c, v) (Votes s)\<rparr>)"
    using inv by (intro phases_ok_votes) (auto simp: mob_inv_def split: if_splits dest: phases_ok_vote)
  ultimately show ?thesis
    using inv by (simp add: mob_inv_def points_ok_def payout_ok_def)
qed

subsection \<open>Callbacks\<close>

text \<open>
  A callback is a call of another pallet. It reaches the pallet only through \<open>judge_statement\<close>, and
  it may change the rest of the chain's state.
\<close>

inductive callback_run :: "('acc, 'x, 'w) mob_state \<Rightarrow> ('acc, 'x, 'w) mob_state \<Rightarrow> bool" where
  cb_refl: "callback_run s s"
| cb_world: "callback_run s s' \<Longrightarrow> callback_run s (s'\<lparr>world := w\<rparr>)"
| cb_judge: "callback_run s s' \<Longrightarrow> CaseCount s' < max_of 32
    \<Longrightarrow> (judge_statement env st ctx cb s' :: (mob_error, 'x) dispatch_error + _) = Inr (s'', t)
    \<Longrightarrow> callback_run s s''"

definition callbacks_local :: "('acc, 'x, 'w, 'o, 'call) mob_config \<Rightarrow> bool" where
  "callbacks_local cfg \<longleftrightarrow> (\<forall>call s. callback_run s (fst (dispatch_root cfg call s)))"

lemma judge_statement_eq:
  "judge_statement env st ctx cb s = Inr (s', t) \<longleftrightarrow>
   t = CaseCount s \<and>
   s' = deposit_event (CaseCreated t)
     (s\<lparr>CaseCount := sat_inc 32 (CaseCount s),
        OpenCases := fmupd t \<lparr>oc_since = now_secs env,
            oc_details = \<lparr>cd_statement = st, cd_context = ctx, cd_callback = cb\<rparr>,
            oc_tally = default_vote_tally\<rparr> (OpenCases s)\<rparr>)"
  by (auto simp: judge_statement_def Let_def)

lemma inv_judge_statement:
  "mob_inv s \<Longrightarrow> CaseCount s < max_of 32 \<Longrightarrow> judge_statement env st ctx cb s = Inr (s', t) \<Longrightarrow> mob_inv s'"
  by (simp add: judge_statement_eq inv_new_case)

text \<open>A callback keeps the invariant and leaves every existing case in its phase.\<close>

lemma callback_run_keeps:
  assumes "callback_run s s'" "mob_inv s"
  shows "mob_inv s' \<and> CaseCount s \<le> CaseCount s' \<and>
    (\<forall>c < CaseCount s. fmlookup (OpenCases s') c = fmlookup (OpenCases s) c) \<and>
    RipeCases s' = RipeCases s \<and> DoneCases s' = DoneCases s \<and> Votes s' = Votes s"
  using assms
proof (induction rule: callback_run.induct)
  case (cb_judge s s' env st ctx cb s'' t)
  then have inv: "mob_inv s''" by (blast intro: inv_judge_statement)
  from cb_judge have "CaseCount s \<le> CaseCount s'" by simp
  with cb_judge inv show ?case
    by (auto simp: judge_statement_eq sat_inc_exact)
qed simp_all

lemma dispatch_callback_keeps:
  assumes cfg: "callbacks_local cfg" and inv: "mob_inv s"
    and d: "dispatch_callback cfg c cb ctx verdict tr w s = Inr (s', w')"
  shows "mob_inv s' \<and> CaseCount s \<le> CaseCount s' \<and>
    (\<forall>c < CaseCount s. fmlookup (OpenCases s') c = fmlookup (OpenCases s) c) \<and>
    RipeCases s' = RipeCases s \<and> DoneCases s' = DoneCases s \<and> Votes s' = Votes s"
proof (cases "curry_call cfg cb (c, ctx, verdict)")
  case None
  with d inv show ?thesis by (auto simp: dispatch_callback_def)
next
  case (Some call)
  obtain s1 r aw where disp: "dispatch_root cfg call s = (s1, r, aw)" by (metis prod_cases3)
  with cfg have "callback_run s s1" unfolding callbacks_local_def by (metis fst_conv)
  from callback_run_keeps[OF this inv] d Some disp show ?thesis
    by (auto simp: dispatch_callback_def res_simps)
qed

subsection \<open>The life of a case\<close>

lemma upd_open_votes:
  "(s :: ('acc, 'x, 'w) mob_state)\<lparr>OpenCases := a, Votes := b\<rparr> = s\<lparr>Votes := b, OpenCases := a\<rparr>"
  by simp

lemma vote_inv:
  assumes inv: "mob_inv s" and room: "votes_total (Votes s) < max_of 32"
    and v: "vote cfg env origin c opinion s = Inr (s', info)"
  shows "mob_inv s'"
proof -
  from v obtain voter cs where op: "fmlookup (OpenCases s) c = Some cs"
    and voter: "ensure_person cfg origin MOB_CONTEXT = Some voter"
    by (auto simp: vote_def res_simps)
  define tally where "tally = (case fmlookup (Votes s) (c, voter) of
      Some old \<Rightarrow> discount_vote old (oc_tally cs) | None \<Rightarrow> oc_tally cs)"
  define cs' where "cs' = cs\<lparr>oc_tally := count_vote opinion tally\<rparr>"
  let ?V = "fmupd (c, voter) opinion (Votes s)"
  have ct: "oc_tally cs = tally_of (Votes s) c"
    using inv op by (auto simp: mob_inv_def tallies_ok_def)
  have t: "oc_tally cs' = tally_of ?V c"
    by (cases "fmlookup (Votes s) (c, voter)")
       (simp_all add: cs'_def tally_def ct tally_of_vote_new tally_of_vote_old room)
  have stay: "mob_inv (s\<lparr>Votes := ?V, OpenCases := fmupd c cs' (OpenCases s)\<rparr>)" (is "mob_inv ?stay")
    by (rule inv_vote_stays_open[OF inv op t])
  have "mob_inv (s\<lparr>Votes := ?V, OpenCases := fmdrop c (OpenCases s), RipeCases := fmupd c rc (RipeCases s)\<rparr>)" for rc
    using inv_open_to_ripe[OF stay, of c rc] by (simp add: fmdrop_fmupd_eq)
  moreover obtain cr where "s' = deposit_event (Voted c voter opinion)
      ((if case_ripens cfg env cs'
        then s\<lparr>Votes := ?V, OpenCases := fmdrop c (OpenCases s),
               RipeCases := fmupd c \<lparr>rc_details = oc_details cs', rc_verdict = collapsed_verdict cfg env cs'\<rparr>
                 (RipeCases s)\<rparr>
        else ?stay)\<lparr>Credits := cr\<rparr>)"
    using v voter op
    by (cases "fmlookup (Votes s) (c, voter)"; cases "case_ripens cfg env cs'")
       (auto simp: vote_def res_simps Let_def fmupd_fmdrop_eq cs'_def tally_def upd_open_votes)
  ultimately show ?thesis using stay by simp
qed

lemma touch_case_inv:
  "mob_inv s \<Longrightarrow> touch_case cfg env origin c s = Inr (s', info) \<Longrightarrow> mob_inv s'"
proof -
  assume inv: "mob_inv s" and t: "touch_case cfg env origin c s = Inr (s', info)"
  from t obtain cs where cs: "fmlookup (OpenCases s) c = Some cs"
    by (auto simp: touch_case_def res_simps)
  then have "fmupd c cs (OpenCases s) = OpenCases s" by (rule fmupd_same)
  with t cs inv inv_open_to_ripe[OF inv, of c] show ?thesis
    by (auto simp: touch_case_def res_simps Let_def fmupd_fmdrop_eq split: if_splits)
qed

lemma close_case_inv:
  assumes cfg: "callbacks_local cfg" and inv: "mob_inv s"
    and c: "close_case cfg env origin c w s = Inr (s', info)"
  shows "mob_inv s'"
proof -
  from c obtain rc s2 cw where rc: "fmlookup (RipeCases s) c = Some rc"
    and d: "dispatch_callback cfg c (cd_callback (rc_details rc)) (cd_context (rc_details rc)) (rc_verdict rc)
        TriggerCloseCase w (s\<lparr>RipeCases := fmdrop c (RipeCases s)\<rparr>) = Inr (s2, cw)"
    and s': "s' = deposit_event (CaseClosed c (rc_verdict rc))
        (s2\<lparr>DoneCases := fmupd c \<lparr>dc_since = now_secs env, dc_verdict = rc_verdict rc\<rparr> (DoneCases s2)\<rparr>)"
    by (auto simp: close_case_def validate_close_case_def res_simps)
  note k = dispatch_callback_keeps[OF cfg inv_drop_ripe[OF inv] d]
  have "c < CaseCount s" "\<not> contains_key (OpenCases s) c"
    using inv rc unfolding mob_inv_def phases_ok_def by blast+
  with k have "mob_inv s2" "c < CaseCount s2" "\<not> contains_key (OpenCases s2) c" "\<not> contains_key (RipeCases s2) c"
    by auto
  then show ?thesis unfolding s' by (simp add: inv_add_done)
qed

lemma intervene_inv:
  assumes cfg: "callbacks_local cfg" and inv: "mob_inv s"
    and c: "intervene cfg env origin c verdict w s = Inr (s', info)"
  shows "mob_inv s'"
proof -
  from c obtain cs s2 cw where cs: "fmlookup (OpenCases s) c = Some cs"
    and d: "dispatch_callback cfg c (cd_callback (oc_details cs)) (cd_context (oc_details cs)) verdict
        TriggerIntervene w (s\<lparr>OpenCases := fmdrop c (OpenCases s)\<rparr>) = Inr (s2, cw)"
    and s': "s' = deposit_event (CaseIntervened c verdict)
        (s2\<lparr>DoneCases := fmupd c \<lparr>dc_since = now_secs env, dc_verdict = verdict\<rparr> (DoneCases s2)\<rparr>)"
    by (auto simp: intervene_def res_simps)
  note k = dispatch_callback_keeps[OF cfg inv_drop_open[OF inv] d]
  have "c < CaseCount s" "\<not> contains_key (RipeCases s) c"
    using inv cs unfolding mob_inv_def phases_ok_def by blast+
  with k have "mob_inv s2" "c < CaseCount s2" "\<not> contains_key (OpenCases s2) c" "\<not> contains_key (RipeCases s2) c"
    by auto
  then show ?thesis unfolding s' by (simp add: inv_add_done)
qed

lemma force_ripen_case_inv:
  "mob_inv s \<Longrightarrow> force_ripen_case cfg env origin c s = Inr (s', info) \<Longrightarrow> mob_inv s'"
  by (auto simp: force_ripen_case_def validate_timeout_case_def res_simps Let_def
      intro!: inv_open_to_ripe)

lemma reap_case_inv:
  "mob_inv s \<Longrightarrow> reap_case cfg env origin c s = Inr (s', info) \<Longrightarrow> mob_inv s'"
  by (auto simp: reap_case_def res_simps intro!: inv_drop_done)

lemma clean_vote_inner_inv:
  "mob_inv s \<Longrightarrow> clean_vote_inner cfg env c voter s = Inr s' \<Longrightarrow> mob_inv s'"
  using inv_drop_vote[of s c voter]
  by (auto simp: clean_vote_inner_def validate_clean_vote_def res_simps Let_def
      split: option.splits if_splits)

lemma clear_voting_penalty_inv:
  "mob_inv s \<Longrightarrow> clear_voting_penalty cfg env origin s = Inr (s', info) \<Longrightarrow> mob_inv s'"
  by (auto simp: clear_voting_penalty_def res_simps Let_def)

lemma on_poll_inv: "mob_inv s \<Longrightarrow> mob_inv (fst (on_poll cfg env w s))"
  by (auto simp: on_poll_def do_on_poll_def Let_def split: option.splits prod.splits if_splits)

subsection \<open>Claims\<close>

lemma claim_loop_inv:
  assumes "claim_loop env voter cs k s = Inr (s', n)" "mob_inv s"
  shows "mob_inv s' \<and> VotingPoints s' = VotingPoints s \<and> AccumulatedPoints s' = AccumulatedPoints s \<and>
    PayoutDistribution s' = PayoutDistribution s \<and> next_round s' = next_round s \<and>
    Credits s' = Credits s \<and> n \<le> k + length cs"
  using assms
proof (induction cs arbitrary: k s)
  case (Cons c cs)
  from Cons.prems(1) obtain v d where v: "fmlookup (Votes s) (c, voter) = Some v"
    and d: "fmlookup (DoneCases s) c = Some d"
    by (auto simp: res_simps Let_def)
  define s1 where "s1 = s\<lparr>Votes := fmdrop (c, voter) (Votes s)\<rparr>"
  have "\<not> contains_key (OpenCases s) c"
    using mob_inv_phase_exclusive(2)[OF Cons.prems(2), of c] d by (metis option.distinct(1))
  then have s1: "mob_inv s1" unfolding s1_def by (rule inv_drop_vote[OF Cons.prems(2)])
  have fr: "VotingPoints s1 = VotingPoints s" "AccumulatedPoints s1 = AccumulatedPoints s"
    "PayoutDistribution s1 = PayoutDistribution s" "next_round s1 = next_round s" "Credits s1 = Credits s"
    "DoneCases s1 = DoneCases s"
    by (simp_all add: s1_def)
  have inc: "sat_inc 32 k \<le> k + 1" by (simp add: sat_inc_def sat_add_def)
  show ?case
  proof (cases "vote_rewarded (dc_verdict d) v")
    case True
    with Cons.prems(1) v d have loop: "claim_loop env voter cs (sat_inc 32 k) s1 = Inr (s', n)"
      by (simp add: s1_def Let_def)
    from Cons.IH[OF loop] s1 inc fr show ?thesis by simp
  next
    case False
    show ?thesis
    proof (cases "v = Contempt")
      case True
      with False Cons.prems(1) v d
      have loop: "claim_loop env voter cs k
          (s1\<lparr>VotingPenalties := fmupd voter (block_number_now env) (VotingPenalties s1)\<rparr>) = Inr (s', n)"
        by (simp add: s1_def Let_def)
      from Cons.IH[OF loop] s1 fr show ?thesis by simp
    next
      case nc: False
      with False Cons.prems(1) v d have loop: "claim_loop env voter cs k s1 = Inr (s', n)"
        by (simp add: s1_def Let_def)
      from Cons.IH[OF loop] s1 fr show ?thesis by simp
    qed
  qed
qed simp

text \<open>Points are added for the coming round only.\<close>

lemma inv_add_points:
  assumes inv: "mob_inv s" and room: "AccumulatedPoints s + n \<le> max_of 64"
  shows "mob_inv (s\<lparr>VotingPoints := fmupd (next_round s, v)
             (sat_add 32 (get_or 0 (VotingPoints s) (next_round s, v)) n) (VotingPoints s),
           AccumulatedPoints := sat_add 64 (AccumulatedPoints s) n\<rparr>)" (is "mob_inv ?s'")
proof -
  let ?r = "next_round s" and ?old = "get_or 0 (VotingPoints s) (next_round s, v)"
  have up: "sat_add 32 ?old n \<le> ?old + n" by (rule sat_add_upper)
  note upd = round_points_upd[of ?r v "sat_add 32 ?old n" "VotingPoints s"]
  from inv have p: "points_ok s" and q: "payout_ok s" by (simp_all add: mob_inv_def)
  have other: "round_points (VotingPoints ?s') (cd_round d) = round_points (VotingPoints s) (cd_round d)"
    if "PayoutDistribution s = Some d" for d
    using upd[of "cd_round d"] p that by (auto simp: points_ok_def)
  have "round_points (VotingPoints ?s') ?r \<le> round_points (VotingPoints s) ?r + n"
    using upd[of ?r] up by simp
  moreover have "sat_add 64 (AccumulatedPoints s) n = AccumulatedPoints s + n"
    using room by (rule sat_add_exact)
  ultimately have "points_ok ?s'"
    using p other by (auto simp: points_ok_def)
  moreover have "payout_ok ?s'" using q other by (auto simp: payout_ok_def)
  ultimately show ?thesis
    using inv by (simp add: mob_inv_def phases_ok_def tallies_ok_def)
qed

lemma do_claim_votes_inv:
  assumes inv: "mob_inv s" and room: "AccumulatedPoints s + length cs \<le> max_of 64"
    and c: "do_claim_votes cfg env voter cs s = Inr s'"
  shows "mob_inv s'"
proof -
  from c obtain s1 n where loop: "claim_loop env voter cs 0 s = Inr (s1, n)"
    by (auto simp: do_claim_votes_def res_simps Let_def)
  note k = claim_loop_inv[OF loop inv]
  then have "mob_inv s1" "AccumulatedPoints s1 + n \<le> max_of 64" using room by auto
  from inv_add_points[OF this, of voter] show ?thesis
    using c loop k by (auto simp: do_claim_votes_def res_simps Let_def)
qed

subsection \<open>Payout rounds\<close>

text \<open>
  The documented behaviour of the code outside the repository that the payouts rely on:
  \<open>Perbill::from_rational\<close> and \<open>mul_floor\<close> round down, and a best-effort release gives at most what it is
  asked for.
\<close>

definition payout_laws :: "('acc, 'x, 'w, 'o, 'call) mob_config \<Rightarrow> bool" where
  "payout_laws cfg \<longleftrightarrow>
     (\<forall>p q. 0 < q \<longrightarrow> p \<le> q \<longrightarrow> perbill_from_rational cfg p q * q \<le> p * 1000000000) \<and>
     (\<forall>f x. perbill_mul_floor cfg f x * 1000000000 \<le> f * x) \<and>
     (\<forall>r a x w w' y. currency_release cfg r a x BestEffort w = Inr (w', y) \<longrightarrow> y \<le> x)"

lemma claimable_share:
  assumes "payout_laws cfg" "0 < total_points d" "p \<le> total_points d"
  shows "claimable_amount cfg d p * total_points d \<le> initial_balance d * p"
proof -
  let ?f = "perbill_from_rational cfg p (total_points d)" and ?c = "claimable_amount cfg d p"
  let ?T = "total_points d" and ?I = "initial_balance d"
  have f: "?f * ?T \<le> p * 1000000000" and c: "?c * 1000000000 \<le> ?f * ?I"
    using assms unfolding payout_laws_def claimable_amount_def by blast+
  have "(?c * ?T) * 1000000000 = (?c * 1000000000) * ?T" by simp
  also have "\<dots> \<le> (?f * ?I) * ?T" using c by (rule mult_le_mono1)
  also have "\<dots> = (?f * ?T) * ?I" by simp
  also have "\<dots> \<le> (p * 1000000000) * ?I" using f by (rule mult_le_mono1)
  finally have "(?c * ?T) * 1000000000 \<le> (?I * p) * 1000000000" by (simp add: mult_ac)
  then show ?thesis by simp
qed

lemma points_le_round: "get_or 0 vp (r, v) \<le> round_points vp r"
  using round_points_drop[of r v vp r] by simp

text \<open>One claim takes no more than its share, and leaves enough for the others.\<close>

lemma claim_covered:
  assumes laws: "payout_laws cfg" and inv: "mob_inv s" and d: "PayoutDistribution s = Some d"
  shows "claimable_amount cfg d (get_or 0 (VotingPoints s) (cd_round d, v)) \<le> remaining_balance d"
    and "x \<le> claimable_amount cfg d (get_or 0 (VotingPoints s) (cd_round d, v)) \<Longrightarrow>
         initial_balance d * round_points (fmdrop (cd_round d, v) (VotingPoints s)) (cd_round d)
           \<le> (remaining_balance d - x) * total_points d"
proof -
  let ?p = "get_or 0 (VotingPoints s) (cd_round d, v)" and ?P = "round_points (VotingPoints s) (cd_round d)"
  let ?P' = "round_points (fmdrop (cd_round d, v) (VotingPoints s)) (cd_round d)"
  have T: "0 < total_points d" "?P \<le> total_points d"
    and cov: "initial_balance d * ?P \<le> remaining_balance d * total_points d"
    using inv d unfolding mob_inv_def points_ok_def payout_ok_def by blast+
  have split: "?P' + ?p = ?P" using round_points_drop[of "cd_round d" v "VotingPoints s" "cd_round d"] by simp
  then have share: "claimable_amount cfg d ?p * total_points d \<le> initial_balance d * ?p"
    using claimable_share[OF laws T(1)] T(2) by simp
  have "initial_balance d * ?p \<le> initial_balance d * ?P" using split by simp
  with share cov have "claimable_amount cfg d ?p * total_points d \<le> remaining_balance d * total_points d"
    by linarith
  then show "claimable_amount cfg d ?p \<le> remaining_balance d" using T(1) by simp
  assume x: "x \<le> claimable_amount cfg d ?p"
  then have "x * total_points d \<le> initial_balance d * ?p"
    using share by (meson le_trans mult_le_mono1)
  moreover have "initial_balance d * ?P' + initial_balance d * ?p = initial_balance d * ?P"
    by (simp flip: split add: add_mult_distrib2)
  ultimately show "initial_balance d * ?P' \<le> (remaining_balance d - x) * total_points d"
    using cov by (simp add: diff_mult_distrib)
qed

lemma inv_drop_points:
  assumes inv: "mob_inv s"
  shows "mob_inv (s\<lparr>VotingPoints := fmdrop (r, v) (VotingPoints s)\<rparr>)"
proof -
  let ?vp = "fmdrop (r, v) (VotingPoints s)"
  have le: "round_points ?vp r' \<le> round_points (VotingPoints s) r'" for r'
    using round_points_drop[of r v "VotingPoints s" r'] by linarith
  have p: "points_ok s" and q: "payout_ok s" using inv by (simp_all add: mob_inv_def)
  have "r' \<le> next_round s" if "fmlookup (VotingPoints s) (r', v') = Some n" for r' v' n
    using p that unfolding points_ok_def by blast
  then have "points_ok (s\<lparr>VotingPoints := ?vp\<rparr>)"
    using p le_trans[OF le] unfolding points_ok_def by auto
  moreover have "initial_balance d * round_points ?vp (cd_round d) \<le> remaining_balance d * total_points d"
    if "PayoutDistribution s = Some d" for d
    using q that order_trans[OF mult_le_mono2[OF le]] by (auto simp: payout_ok_def)
  then have "payout_ok (s\<lparr>VotingPoints := ?vp\<rparr>)" by (simp add: payout_ok_def)
  ultimately show ?thesis
    using inv by (simp add: mob_inv_def phases_ok_def tallies_ok_def)
qed

lemma payout_rewards_inv:
  "mob_inv s \<Longrightarrow> payout_rewards cfg origin dst s = Inr (s', info) \<Longrightarrow> mob_inv s'"
  by (auto simp: payout_rewards_def res_simps Let_def)

lemma schedule_payout_rounds_inv:
  "mob_inv s \<Longrightarrow> schedule_payout_rounds cfg origin amount count period s = Inr (s', info) \<Longrightarrow> mob_inv s'"
  by (auto simp: schedule_payout_rounds_def res_simps Let_def)

lemma remove_payout_schedule_inv:
  "mob_inv s \<Longrightarrow> remove_payout_schedule cfg origin i s = Inr (s', info) \<Longrightarrow> mob_inv s'"
  by (auto simp: remove_payout_schedule_def res_simps Let_def)

lemma clean_points_inv:
  "mob_inv s \<Longrightarrow> clean_points cfg origin r v s = Inr (s', info) \<Longrightarrow> mob_inv s'"
  by (auto simp: clean_points_def res_simps Let_def intro: inv_drop_points)

lemma start_payout_round_eq:
  assumes "start_payout_round cfg env origin s = Inr (s', info)"
  obtains sch later w where "RoundSchedules s = sch # later" "0 < AccumulatedPoints s"
    "s' = deposit_event (PayoutRoundStarted (next_round s) (amount_per_round sch) (AccumulatedPoints s))
      (s\<lparr>world := w,
         PayoutDistribution := Some \<lparr>cd_round = next_round s, initial_balance = amount_per_round sch,
           remaining_balance = amount_per_round sch, total_points = AccumulatedPoints s,
           cd_start = block_number_now env\<rparr>,
         AccumulatedPoints := 0,
         RoundSchedules := (if ps_remaining sch \<le> Suc 0 then later
                            else sch\<lparr>ps_remaining := ps_remaining sch - Suc 0\<rparr> # later)\<rparr>)"
proof (cases "PayoutDistribution s")
  case None
  with assms that[of _ _ "world s"] show thesis
    by (auto simp: start_payout_round_def res_simps Let_def split: list.splits)
next
  case (Some d)
  with assms that show thesis
    by (auto simp: start_payout_round_def res_simps Let_def split: list.splits)
qed

text \<open>Starting a round turns the accumulated points into the total of the new distribution.\<close>

lemma start_payout_round_inv:
  assumes inv: "mob_inv s" and room: "next_round s < max_of 32"
    and st: "start_payout_round cfg env origin s = Inr (s', info)"
  shows "mob_inv s'"
proof -
  from st obtain sch later w where s': "0 < AccumulatedPoints s"
    "s' = deposit_event (PayoutRoundStarted (next_round s) (amount_per_round sch) (AccumulatedPoints s))
      (s\<lparr>world := w,
         PayoutDistribution := Some \<lparr>cd_round = next_round s, initial_balance = amount_per_round sch,
           remaining_balance = amount_per_round sch, total_points = AccumulatedPoints s,
           cd_start = block_number_now env\<rparr>,
         AccumulatedPoints := 0,
         RoundSchedules := (if ps_remaining sch \<le> Suc 0 then later
                            else sch\<lparr>ps_remaining := ps_remaining sch - Suc 0\<rparr> # later)\<rparr>)"
    by (rule start_payout_round_eq)
  have nr: "next_round s' = Suc (next_round s)"
    using room unfolding s'(2) by (simp add: next_round_def sat_add_exact)
  have p: "points_ok s" using inv by (simp add: mob_inv_def)
  have old: "r \<le> next_round s" if "fmlookup (VotingPoints s) (r, v) = Some n" for r v n
    using p that unfolding points_ok_def by blast
  then have "round_points (VotingPoints s) (Suc (next_round s)) = 0"
    by (metis round_points_none not_less_eq_eq option.exhaust order_refl)
  moreover have "round_points (VotingPoints s) (next_round s) \<le> AccumulatedPoints s"
    using p by (simp add: points_ok_def)
  ultimately have "points_ok s'"
    using s'(1) nr by (auto simp: points_ok_def s'(2) intro: le_SucI old)
  moreover have "payout_ok s'"
    using p by (simp add: payout_ok_def points_ok_def s'(2))
  ultimately show ?thesis
    using inv by (simp add: mob_inv_def phases_ok_def tallies_ok_def s'(2))
qed

lemma claim_credit_eq:
  assumes "claim_credit cfg origin s = Inr (s', info)"
  obtains voter d w1 x w2 where
    "ensure_person cfg origin MOB_CONTEXT = Some voter" "PayoutDistribution s = Some d"
    "0 < get_or 0 (VotingPoints s) (cd_round d, voter)"
    "currency_release cfg Payout (pot_account cfg)
       (claimable_amount cfg d (get_or 0 (VotingPoints s) (cd_round d, voter))) BestEffort (world s) = Inr (w1, x)"
    "currency_hold cfg Credit (pot_account cfg) x w1 = Inr w2"
    "mc_credit (get_or default_mob_credit (Credits s) voter) + x \<le> max_of 128"
    "s' = deposit_event (CreditClaimed voter x)
      (s\<lparr>VotingPoints := fmdrop (cd_round d, voter) (VotingPoints s), world := w2,
         Credits := fmupd voter ((get_or default_mob_credit (Credits s) voter)
           \<lparr>mc_credit := mc_credit (get_or default_mob_credit (Credits s) voter) + x\<rparr>) (Credits s),
         PayoutDistribution := Some (d\<lparr>remaining_balance := remaining_balance d - x\<rparr>)\<rparr>)"
  using assms by (auto simp: claim_credit_def res_simps sat_simps Let_def)

lemma inv_claim_credit:
  assumes laws: "payout_laws cfg" and inv: "mob_inv s" and d: "PayoutDistribution s = Some d"
    and x: "x \<le> claimable_amount cfg d (get_or 0 (VotingPoints s) (cd_round d, v))"
  shows "mob_inv (s\<lparr>VotingPoints := fmdrop (cd_round d, v) (VotingPoints s),
         PayoutDistribution := Some (d\<lparr>remaining_balance := remaining_balance d - x\<rparr>)\<rparr>)" (is "mob_inv ?s'")
proof -
  let ?s1 = "s\<lparr>VotingPoints := fmdrop (cd_round d, v) (VotingPoints s)\<rparr>"
  have inv1: "mob_inv ?s1" using inv by (rule inv_drop_points)
  have nr: "next_round ?s' = next_round s" using d by (simp add: next_round_def)
  have "points_ok ?s'" using inv1 d nr by (simp add: mob_inv_def points_ok_def)
  moreover have "payout_ok ?s'"
    using claim_covered(2)[OF laws inv d x] by (simp add: payout_ok_def)
  ultimately show ?thesis
    using inv by (simp add: mob_inv_def phases_ok_def tallies_ok_def)
qed

lemma upd_payout:
  "(s :: ('acc, 'x, 'w) mob_state)\<lparr>world := a, Credits := b, PayoutDistribution := c\<rparr>
     = s\<lparr>PayoutDistribution := c, world := a, Credits := b\<rparr>"
  by simp

lemma claim_credit_inv:
  assumes laws: "payout_laws cfg" and inv: "mob_inv s" and c: "claim_credit cfg origin s = Inr (s', info)"
  shows "mob_inv s'"
  using c
proof (rule claim_credit_eq)
  fix voter d w1 x w2
  assume d: "PayoutDistribution s = Some d"
    and rel: "currency_release cfg Payout (pot_account cfg)
       (claimable_amount cfg d (get_or 0 (VotingPoints s) (cd_round d, voter))) BestEffort (world s) = Inr (w1, x)"
    and s': "s' = deposit_event (CreditClaimed voter x)
      (s\<lparr>VotingPoints := fmdrop (cd_round d, voter) (VotingPoints s), world := w2,
         Credits := fmupd voter ((get_or default_mob_credit (Credits s) voter)
           \<lparr>mc_credit := mc_credit (get_or default_mob_credit (Credits s) voter) + x\<rparr>) (Credits s),
         PayoutDistribution := Some (d\<lparr>remaining_balance := remaining_balance d - x\<rparr>)\<rparr>)"
  have "x \<le> claimable_amount cfg d (get_or 0 (VotingPoints s) (cd_round d, voter))"
    using laws rel unfolding payout_laws_def by blast
  from inv_claim_credit[OF laws inv d this]
  have "mob_inv ((s\<lparr>VotingPoints := fmdrop (cd_round d, voter) (VotingPoints s),
         PayoutDistribution := Some (d\<lparr>remaining_balance := remaining_balance d - x\<rparr>)\<rparr>)\<lparr>world := w2,
         Credits := fmupd voter ((get_or default_mob_credit (Credits s) voter)
           \<lparr>mc_credit := mc_credit (get_or default_mob_credit (Credits s) voter) + x\<rparr>) (Credits s)\<rparr>)"
    by (simp only: mob_inv_irrelevant)
  then show "mob_inv s'" unfolding s' upd_payout by simp
qed

lemma claim_vote_inv:
  "mob_inv s \<Longrightarrow> AccumulatedPoints s + 1 \<le> max_of 64 \<Longrightarrow> claim_vote cfg env origin c s = Inr (s', info) \<Longrightarrow> mob_inv s'"
  by (auto simp: claim_vote_def res_simps intro!: do_claim_votes_inv[of s "[c]"])

lemma claim_votes_inv:
  "mob_inv s \<Longrightarrow> AccumulatedPoints s + length cs \<le> max_of 64 \<Longrightarrow> claim_votes cfg env origin cs s = Inr (s', info)
   \<Longrightarrow> mob_inv s'"
  by (auto simp: claim_votes_def res_simps intro: do_claim_votes_inv)

lemma clean_vote_inv: "mob_inv s \<Longrightarrow> clean_vote cfg env origin c v s = Inr (s', info) \<Longrightarrow> mob_inv s'"
  by (auto simp: clean_vote_def res_simps intro: clean_vote_inner_inv)

lemma clean_vote_signed_inv:
  "mob_inv s \<Longrightarrow> clean_vote_signed cfg env origin c v s = Inr (s', info) \<Longrightarrow> mob_inv s'"
  by (auto simp: clean_vote_signed_def res_simps intro: clean_vote_inner_inv)

subsection \<open>The pallet as a machine\<close>

datatype ('acc, 'o, 'w) mob_op =
  OpVote 'o case_index judgement
| OpTouchCase 'o case_index
| OpJudgeStatement statement bytes callback
| OpCloseCase 'o case_index weight
| OpIntervene 'o case_index judgement weight
| OpForceRipen 'o case_index
| OpReapCase 'o case_index
| OpCleanVote 'o case_index alias_id
| OpCleanVoteSigned 'o case_index alias_id
| OpClaimVote 'o case_index
| OpClaimVotes 'o "case_index list"
| OpClearPenalty 'o
| OpPayoutRewards 'o 'acc
| OpStartRound 'o
| OpScheduleRounds 'o balance nat block_number
| OpRemoveSchedule 'o nat
| OpClaimCredit 'o
| OpCleanPoints 'o round_index alias_id
| OpPoll weight
| OpWorld 'w

definition new_state :: "'e + 's \<times> 'i \<Rightarrow> 'e + 's" where
  "new_state m = bindE m (\<lambda>(s, _). Inr s)"

lemma new_state_Inr [res_simps]: "new_state m = Inr s \<longleftrightarrow> (\<exists>i. m = Inr (s, i))"
  by (cases m) (auto simp: new_state_def)

fun mob_step ::
  "('acc, 'x, 'w, 'o, 'call) mob_config \<Rightarrow> mob_env \<times> ('acc, 'o, 'w) mob_op \<Rightarrow> ('acc, 'x, 'w) mob_state
     \<Rightarrow> (mob_error, 'x) dispatch_error + ('acc, 'x, 'w) mob_state" where
  "mob_step cfg (env, OpVote org c j) s = new_state (vote cfg env org c j s)"
| "mob_step cfg (env, OpTouchCase org c) s = new_state (touch_case cfg env org c s)"
| "mob_step cfg (env, OpJudgeStatement st ctx cb) s = new_state (judge_statement env st ctx cb s)"
| "mob_step cfg (env, OpCloseCase org c w) s = new_state (close_case cfg env org c w s)"
| "mob_step cfg (env, OpIntervene org c v w) s = new_state (intervene cfg env org c v w s)"
| "mob_step cfg (env, OpForceRipen org c) s = new_state (force_ripen_case cfg env org c s)"
| "mob_step cfg (env, OpReapCase org c) s = new_state (reap_case cfg env org c s)"
| "mob_step cfg (env, OpCleanVote org c v) s = new_state (clean_vote cfg env org c v s)"
| "mob_step cfg (env, OpCleanVoteSigned org c v) s = new_state (clean_vote_signed cfg env org c v s)"
| "mob_step cfg (env, OpClaimVote org c) s = new_state (claim_vote cfg env org c s)"
| "mob_step cfg (env, OpClaimVotes org cs) s = new_state (claim_votes cfg env org cs s)"
| "mob_step cfg (env, OpClearPenalty org) s = new_state (clear_voting_penalty cfg env org s)"
| "mob_step cfg (env, OpPayoutRewards org dst) s = new_state (payout_rewards cfg org dst s)"
| "mob_step cfg (env, OpStartRound org) s = new_state (start_payout_round cfg env org s)"
| "mob_step cfg (env, OpScheduleRounds org amt n p) s = new_state (schedule_payout_rounds cfg org amt n p s)"
| "mob_step cfg (env, OpRemoveSchedule org i) s = new_state (remove_payout_schedule cfg org i s)"
| "mob_step cfg (env, OpClaimCredit org) s = new_state (claim_credit cfg org s)"
| "mob_step cfg (env, OpCleanPoints org r v) s = new_state (clean_points cfg org r v s)"
| "mob_step cfg (env, OpPoll w) s = Inr (fst (on_poll cfg env w s))"
| "mob_step cfg (env, OpWorld w) s = Inr (s\<lparr>world := w\<rparr>)"

text \<open>
  The counters do not reach their maximum: fewer than \<open>2 ^ 32 - 1\<close> cases, stored votes and rounds, and
  the accumulated points stay in a \<open>u64\<close>.
\<close>

fun mob_op_ok ::
  "('acc, 'x, 'w, 'o, 'call) mob_config \<Rightarrow> mob_env \<times> ('acc, 'o, 'w) mob_op \<Rightarrow> ('acc, 'x, 'w) mob_state \<Rightarrow> bool" where
  "mob_op_ok cfg (env, OpVote _ _ _) s = (votes_total (Votes s) < max_of 32)"
| "mob_op_ok cfg (env, OpJudgeStatement _ _ _) s = (CaseCount s < max_of 32)"
| "mob_op_ok cfg (env, OpClaimVote _ _) s = (AccumulatedPoints s + 1 \<le> max_of 64)"
| "mob_op_ok cfg (env, OpClaimVotes _ cs) s = (AccumulatedPoints s + length cs \<le> max_of 64)"
| "mob_op_ok cfg (env, OpStartRound _) s = (next_round s < max_of 32)"
| "mob_op_ok cfg _ s = True"

lemma mob_step_keeps_inv:
  assumes cfg: "callbacks_local cfg" "payout_laws cfg"
    and inv: "mob_inv s" and ok: "mob_op_ok cfg op s" and st: "mob_step cfg op s = Inr s'"
  shows "mob_inv s'"
proof -
  obtain env p where op: "op = (env, p)" by force
  show ?thesis
  proof (cases p)
    case OpVote
    then show ?thesis using ok st op by (auto simp: res_simps intro: vote_inv[OF inv])
  next
    case OpTouchCase
    then show ?thesis using ok st op by (auto simp: res_simps intro: touch_case_inv[OF inv])
  next
    case OpJudgeStatement
    then show ?thesis using ok st op by (auto simp: res_simps intro: inv_judge_statement[OF inv])
  next
    case OpCloseCase
    then show ?thesis using ok st op by (auto simp: res_simps intro: close_case_inv[OF cfg(1) inv])
  next
    case OpIntervene
    then show ?thesis using ok st op by (auto simp: res_simps intro: intervene_inv[OF cfg(1) inv])
  next
    case OpForceRipen
    then show ?thesis using ok st op by (auto simp: res_simps intro: force_ripen_case_inv[OF inv])
  next
    case OpReapCase
    then show ?thesis using ok st op by (auto simp: res_simps intro: reap_case_inv[OF inv])
  next
    case OpCleanVote
    then show ?thesis using ok st op by (auto simp: res_simps intro: clean_vote_inv[OF inv])
  next
    case OpCleanVoteSigned
    then show ?thesis using ok st op by (auto simp: res_simps intro: clean_vote_signed_inv[OF inv])
  next
    case OpClaimVote
    then show ?thesis using ok st op by (auto simp: res_simps intro: claim_vote_inv[OF inv])
  next
    case OpClaimVotes
    then show ?thesis using ok st op by (auto simp: res_simps intro: claim_votes_inv[OF inv])
  next
    case OpClearPenalty
    then show ?thesis using ok st op by (auto simp: res_simps intro: clear_voting_penalty_inv[OF inv])
  next
    case OpPayoutRewards
    then show ?thesis using ok st op by (auto simp: res_simps intro: payout_rewards_inv[OF inv])
  next
    case OpStartRound
    then show ?thesis using ok st op by (auto simp: res_simps intro: start_payout_round_inv[OF inv])
  next
    case OpScheduleRounds
    then show ?thesis using ok st op by (auto simp: res_simps intro: schedule_payout_rounds_inv[OF inv])
  next
    case OpRemoveSchedule
    then show ?thesis using ok st op by (auto simp: res_simps intro: remove_payout_schedule_inv[OF inv])
  next
    case OpClaimCredit
    then show ?thesis using ok st op by (auto simp: res_simps intro: claim_credit_inv[OF cfg(2) inv])
  next
    case OpCleanPoints
    then show ?thesis using ok st op by (auto simp: res_simps intro: clean_points_inv[OF inv])
  next
    case OpPoll
    then show ?thesis using st op on_poll_inv[OF inv] by auto
  next
    case OpWorld
    then show ?thesis using inv st op by auto
  qed
qed

text \<open>A configuration whose callbacks and currency behave, as the carrier of the interpretation.\<close>

definition mob_cfg_ok :: "('acc, 'x, 'w, 'o, 'call) mob_config \<Rightarrow> bool" where
  "mob_cfg_ok cfg \<longleftrightarrow> callbacks_local cfg \<and> payout_laws cfg"

interpretation mob: pallet_machine "mob_step cfg" "mob_op_ok cfg" "\<lambda>s. mob_cfg_ok cfg \<and> mob_inv s"
  for cfg :: "('acc, 'x, 'w, 'o, 'call) mob_config"
  by unfold_locales (auto simp: mob_cfg_ok_def intro: mob_step_keeps_inv)

end
