(* ===== verification/MobRule_Properties.thy ===== *)
theory MobRule_Properties
  imports MobRule_Tally MobRule_Invariant
begin

text \<open>
  The properties of the mob-rule pallet that span its operations: what holds in every reachable
  state, what a claim does, that the validation of unsigned calls agrees with their dispatch, and
  that the offchain worker submits valid calls only.
\<close>

subsection \<open>The example configuration\<close>

lemma ex_callbacks_local: "callbacks_local ex_cfg"
  by (simp add: callbacks_local_def ex_cfg_def cb_refl)

lemma ex_payout_laws: "payout_laws ex_cfg"
proof -
  have "(if q = 0 then 1000000000 else min 1000000000 (p * 1000000000 div q)) * q \<le> p * 1000000000"
    if "0 < q" "p \<le> q" for p q :: nat
  proof -
    have "min 1000000000 (p * 1000000000 div q) * q \<le> (p * 1000000000 div q) * q"
      by (intro mult_le_mono1) simp
    also have "\<dots> \<le> p * 1000000000" by simp
    finally show ?thesis using that by simp
  qed
  moreover have "y \<le> x" if "ex_release r a x BestEffort w = Inr (w', y)" for r a x w w' y
    using that by (cases r; cases w) auto
  ultimately show ?thesis by (simp add: payout_laws_def ex_cfg_def)
qed

lemmas ex_fetch = ex_cfg_def ex_env_def genesis_def MOB_CONTEXT_def ex_details_def

subsection \<open>Claiming votes\<close>

definition rewarded_in :: "('acc, 'x, 'w) mob_state \<Rightarrow> alias_id \<Rightarrow> case_index \<Rightarrow> bool" where
  "rewarded_in s v c =
     (case (fmlookup (Votes s) (c, v), fmlookup (DoneCases s) c) of
        (Some j, Some d) \<Rightarrow> vote_rewarded (dc_verdict d) j
      | _ \<Rightarrow> False)"

definition punished_in :: "('acc, 'x, 'w) mob_state \<Rightarrow> alias_id \<Rightarrow> case_index \<Rightarrow> bool" where
  "punished_in s v c \<longleftrightarrow> fmlookup (Votes s) (c, v) = Some Contempt \<and> \<not> rewarded_in s v c"

definition claimable_in :: "('acc, 'x, 'w) mob_state \<Rightarrow> alias_id \<Rightarrow> case_index \<Rightarrow> bool" where
  "claimable_in s v c \<longleftrightarrow> contains_key (Votes s) (c, v) \<and> contains_key (DoneCases s) c"

lemma claim_loop_frame:
  "claim_loop env voter cs k s = Inr (s', n) \<Longrightarrow>
   VotingPoints s' = VotingPoints s \<and> AccumulatedPoints s' = AccumulatedPoints s \<and> Credits s' = Credits s"
proof (induction cs arbitrary: k s)
  case (Cons c cs)
  from Cons.prems show ?case
    by (auto simp: res_simps Let_def split: if_splits dest: Cons.IH)
qed simp

lemma claim_loop_spec:
  assumes "claim_loop env voter cs k s = Inr (s', n)" "k \<le> max_of 32"
  shows "distinct cs \<and> (\<forall>c \<in> set cs. claimable_in s voter c) \<and>
    n = min (k + length (filter (rewarded_in s voter) cs)) (max_of 32) \<and>
    Votes s' = fmfilter (\<lambda>(c, v). \<not> (c \<in> set cs \<and> v = voter)) (Votes s) \<and>
    VotingPenalties s' = (if \<exists>c \<in> set cs. punished_in s voter c
       then fmupd voter (block_number_now env) (VotingPenalties s) else VotingPenalties s)"
  using assms
proof (induction cs arbitrary: k s)
  case Nil
  then show ?case by (auto intro!: fmap_ext)
next
  case (Cons c cs)
  from Cons.prems(1) obtain v d where v: "fmlookup (Votes s) (c, voter) = Some v"
    and d: "fmlookup (DoneCases s) c = Some d"
    by (auto simp: res_simps Let_def)
  define s1 where "s1 = s\<lparr>Votes := fmdrop (c, voter) (Votes s)\<rparr>"
  define s2 where "s2 = (if punished_in s voter c
    then s1\<lparr>VotingPenalties := fmupd voter (block_number_now env) (VotingPenalties s1)\<rparr> else s1)"
  define k' where "k' = (if rewarded_in s voter c then sat_inc 32 k else k)"
  have rew: "rewarded_in s voter c \<longleftrightarrow> vote_rewarded (dc_verdict d) v"
    and pun: "punished_in s voter c \<longleftrightarrow> v = Contempt \<and> \<not> vote_rewarded (dc_verdict d) v"
    using v d by (simp_all add: rewarded_in_def punished_in_def)
  have loop: "claim_loop env voter cs k' s2 = Inr (s', n)"
    using Cons.prems(1) v d by (auto simp: s1_def s2_def k'_def rew pun Let_def split: if_splits)
  have k': "k' \<le> max_of 32" using Cons.prems(2) by (simp add: k'_def)
  note IH = Cons.IH[OF loop k']
  have vs: "Votes s2 = fmdrop (c, voter) (Votes s)" and ds: "DoneCases s2 = DoneCases s"
    by (simp_all add: s2_def s1_def)
  then have "\<not> claimable_in s2 voter c" by (simp add: claimable_in_def)
  with IH have notin: "c \<notin> set cs" by auto
  have same: "rewarded_in s2 voter c' = rewarded_in s voter c'"
    "punished_in s2 voter c' = punished_in s voter c'" "claimable_in s2 voter c' = claimable_in s voter c'"
    if "c' \<in> set cs" for c'
  proof -
    have "c' \<noteq> c" using that notin by auto
    then show "rewarded_in s2 voter c' = rewarded_in s voter c'"
      "punished_in s2 voter c' = punished_in s voter c'" "claimable_in s2 voter c' = claimable_in s voter c'"
      by (simp_all add: rewarded_in_def punished_in_def claimable_in_def vs ds)
  qed
  then have filt: "filter (rewarded_in s2 voter) cs = filter (rewarded_in s voter) cs"
    by (intro filter_cong) auto
  have ex: "(\<exists>c' \<in> set cs. punished_in s2 voter c') \<longleftrightarrow> (\<exists>c' \<in> set cs. punished_in s voter c')"
    using same(2) by auto
  have num: "n = min (k + length (filter (rewarded_in s voter) (c # cs))) (max_of 32)"
    using IH Cons.prems(2) by (auto simp: filt k'_def sat_inc_def sat_add_def)
  have votes: "Votes s' = fmfilter (\<lambda>(c', v). \<not> (c' \<in> set (c # cs) \<and> v = voter)) (Votes s)"
    using IH by (intro fmap_ext) (auto simp: vs)
  have pen: "VotingPenalties s' = (if \<exists>c' \<in> set (c # cs). punished_in s voter c'
       then fmupd voter (block_number_now env) (VotingPenalties s) else VotingPenalties s)"
  proof (cases "punished_in s voter c")
    case True
    then have "VotingPenalties s2 = fmupd voter (block_number_now env) (VotingPenalties s)"
      by (simp add: s2_def s1_def)
    with IH True show ?thesis by (simp add: ex)
  next
    case False
    then have "VotingPenalties s2 = VotingPenalties s" by (simp add: s2_def s1_def)
    with IH False show ?thesis by (simp add: ex)
  qed
  have "\<forall>c' \<in> set (c # cs). claimable_in s voter c'"
    using IH same(3) v d by (simp add: claimable_in_def)
  moreover have "distinct (c # cs)" using IH notin by simp
  ultimately show ?case using num votes pen by blast
qed

text \<open>
  C3: claiming votes pays every correct vote once. A successful claim names distinct done
  cases the voter has a stored vote on; exactly these votes disappear; the points of the coming
  round grow by the number of rewarded votes; and a contempt vote that was wrong starts a penalty now.
\<close>

theorem claim_votes_exact:
  assumes "do_claim_votes cfg env voter cs s = Inr s'"
  shows "distinct cs \<and> length cs \<le> max_votes_claimable cfg
    \<and> (\<forall>c \<in> set cs. claimable_in s voter c)
    \<and> Votes s' = fmfilter (\<lambda>(c, v). \<not> (c \<in> set cs \<and> v = voter)) (Votes s)
    \<and> (\<exists>correct. correct = min (length (filter (rewarded_in s voter) cs)) (max_of 32)
        \<and> get_or 0 (VotingPoints s') (next_round s, voter)
            = sat_add 32 (get_or 0 (VotingPoints s) (next_round s, voter)) correct
        \<and> AccumulatedPoints s' = sat_add 64 (AccumulatedPoints s) correct
        \<and> mc_correct (get_or default_mob_credit (Credits s') voter)
            = sat_add 32 (mc_correct (get_or default_mob_credit (Credits s) voter)) correct)
    \<and> (\<forall>v. fmlookup (VotingPenalties s') v =
        (if v = voter \<and> (\<exists>c \<in> set cs. punished_in s voter c) then Some (block_number_now env)
         else fmlookup (VotingPenalties s) v))"
proof -
  from assms obtain s1 n where loop: "claim_loop env voter cs 0 s = Inr (s1, n)"
    and len: "length cs \<le> max_votes_claimable cfg"
    by (auto simp: do_claim_votes_def res_simps Let_def)
  note frame = claim_loop_frame[OF loop]
  let ?cr = "get_or default_mob_credit (Credits s) voter"
  have s': "s' = deposit_event (VotesClaimed voter cs)
      (s1\<lparr>VotingPoints := fmupd (next_round s, voter)
           (sat_add 32 (get_or 0 (VotingPoints s1) (next_round s, voter)) n) (VotingPoints s1),
         AccumulatedPoints := sat_add 64 (AccumulatedPoints s1) n,
         Credits := fmupd voter (?cr\<lparr>mc_cleaned := sat_add 32 (mc_cleaned ?cr) (length cs),
           mc_correct := sat_add 32 (mc_correct ?cr) n\<rparr>) (Credits s1)\<rparr>)"
    using assms loop len by (simp add: do_claim_votes_def Let_def)
  show ?thesis
    using claim_loop_spec[OF loop] frame len by (simp add: s')
qed

lemma claim_votes_exact_witness:
  "\<exists>s'. do_claim_votes ex_cfg ex_env ''a'' [2] ex_state = Inr s'
     \<and> get_or 0 (VotingPoints s') (2, ''a'') = 1 \<and> AccumulatedPoints s' = 2"
proof -
  let ?r = "do_claim_votes ex_cfg ex_env ''a'' [2] ex_state"
  have ok: "is_ok ?r"
    by (simp add: do_claim_votes_def ex_fetch ex_state_def vote_rewarded_def next_round_def Let_def)
  then obtain s' where s': "?r = Inr s'" by (auto simp: is_ok_iff)
  have r: "rewarded_in ex_state ''a'' 2" "next_round ex_state = 2"
    "get_or 0 (VotingPoints ex_state) (2, ''a'') = 0" "AccumulatedPoints ex_state = 1"
    by (simp_all add: rewarded_in_def ex_state_def ex_fetch vote_rewarded_def next_round_def sat_defs get_or_def)
  from claim_votes_exact[OF s'] s' r show ?thesis by (auto simp: sat_defs)
qed

subsection \<open>Reachable states\<close>

text \<open>
  C1: in every state reached from genesis by any sequence of the pallet's calls and hooks, a
  case is open, ripe or done but never two of these, its index is below the counter, and the tally
  of an open case is exactly the number of stored votes of each kind.
\<close>

theorem reachable_cases_consistent:
  assumes "callbacks_local cfg" and "payout_laws cfg"
    and "run_ok (mob_step cfg) (mob_op_ok cfg) ops (genesis w)"
    and "s = exec_all (mob_step cfg) ops (genesis w)"
  shows "\<not> (contains_key (OpenCases s) c \<and> contains_key (RipeCases s) c)
    \<and> \<not> (contains_key (OpenCases s) c \<and> contains_key (DoneCases s) c)
    \<and> \<not> (contains_key (RipeCases s) c \<and> contains_key (DoneCases s) c)
    \<and> (contains_key (OpenCases s) c \<or> contains_key (RipeCases s) c \<or> contains_key (DoneCases s) c
        \<longrightarrow> c < CaseCount s)
    \<and> (\<forall>oc. fmlookup (OpenCases s) c = Some oc \<longrightarrow> oc_tally oc = tally_of (Votes s) c)"
proof -
  have "mob_inv s"
    using mob.exec_all_inv[of cfg "genesis w" ops] assms by (simp add: mob_cfg_ok_def mob_inv_genesis)
  then show ?thesis
    unfolding mob_inv_def phases_ok_def tallies_ok_def by blast
qed

definition ex_ops :: "(mob_env \<times> (nat, ex_origin, ex_world) mob_op) list" where
  "ex_ops =
     [(ex_env, OpJudgeStatement (UsernameValid ''u'') ''x'' \<lparr>cb_pallet_index = 7, cb_call_index = 2\<rparr>),
      (ex_env, OpScheduleRounds ExRoot 100 2 5),
      (ex_env, OpIntervene ExRoot 0 Contempt \<lparr>ref_time = 7, proof_size = 2\<rparr>)]"

lemma ex_ops_run:
  "run_ok (mob_step ex_cfg) (mob_op_ok ex_cfg) ex_ops (genesis (0, 0))"
  "contains_key (DoneCases (exec_all (mob_step ex_cfg) ex_ops (genesis (0, 0)))) 0"
  by (simp_all add: ex_ops_def ex_fetch exec_op_def judge_statement_def schedule_payout_rounds_def
      intervene_def dispatch_callback_def new_state_def deposit_event_def max_of_def all_lte_def Let_def)

lemma reachable_cases_consistent_witness:
  "\<not> contains_key (OpenCases (exec_all (mob_step ex_cfg) ex_ops (genesis (0, 0)))) 0"
  using reachable_cases_consistent[OF ex_callbacks_local ex_payout_laws ex_ops_run(1) refl, of 0] ex_ops_run(2)
  by blast

text \<open>
  C2: payouts are solvent in every reachable state. Whatever voters have claimed before, what remains of the
  current distribution covers the claim of any voter, so a claim lowers the remaining balance by exactly
  the amount released and takes the voter's points of the round away.
\<close>

theorem reachable_payout_solvent:
  assumes "callbacks_local cfg" and "payout_laws cfg"
    and "run_ok (mob_step cfg) (mob_op_ok cfg) ops (genesis w)"
    and "s = exec_all (mob_step cfg) ops (genesis w)"
    and "PayoutDistribution s = Some d"
  shows "claimable_amount cfg d (get_or 0 (VotingPoints s) (cd_round d, v)) \<le> remaining_balance d
    \<and> (claim_credit cfg origin s = Inr (s', info) \<longrightarrow>
        (\<exists>voter x. ensure_person cfg origin MOB_CONTEXT = Some voter
          \<and> 0 < get_or 0 (VotingPoints s) (cd_round d, voter)
          \<and> x \<le> claimable_amount cfg d (get_or 0 (VotingPoints s) (cd_round d, voter))
          \<and> \<not> contains_key (VotingPoints s') (cd_round d, voter)
          \<and> mc_credit (get_or default_mob_credit (Credits s') voter)
              = mc_credit (get_or default_mob_credit (Credits s) voter) + x
          \<and> (\<exists>d'. PayoutDistribution s' = Some d' \<and> remaining_balance d' + x = remaining_balance d)))"
proof -
  have inv: "mob_inv s"
    using mob.exec_all_inv[of cfg "genesis w" ops] assms by (simp add: mob_cfg_ok_def mob_inv_genesis)
  note cov = claim_covered(1)[OF assms(2) inv assms(5)]
  have "\<exists>voter x. ensure_person cfg origin MOB_CONTEXT = Some voter
          \<and> 0 < get_or 0 (VotingPoints s) (cd_round d, voter)
          \<and> x \<le> claimable_amount cfg d (get_or 0 (VotingPoints s) (cd_round d, voter))
          \<and> \<not> contains_key (VotingPoints s') (cd_round d, voter)
          \<and> mc_credit (get_or default_mob_credit (Credits s') voter)
              = mc_credit (get_or default_mob_credit (Credits s) voter) + x
          \<and> (\<exists>d'. PayoutDistribution s' = Some d' \<and> remaining_balance d' + x = remaining_balance d)"
    if cl: "claim_credit cfg origin s = Inr (s', info)"
    using cl
  proof (rule claim_credit_eq)
    fix voter e w1 x w2
    assume a: "ensure_person cfg origin MOB_CONTEXT = Some voter" "PayoutDistribution s = Some e"
      "0 < get_or 0 (VotingPoints s) (cd_round e, voter)"
      "currency_release cfg Payout (pot_account cfg)
         (claimable_amount cfg e (get_or 0 (VotingPoints s) (cd_round e, voter))) BestEffort (world s) = Inr (w1, x)"
      "s' = deposit_event (CreditClaimed voter x)
        (s\<lparr>VotingPoints := fmdrop (cd_round e, voter) (VotingPoints s), world := w2,
           Credits := fmupd voter ((get_or default_mob_credit (Credits s) voter)
             \<lparr>mc_credit := mc_credit (get_or default_mob_credit (Credits s) voter) + x\<rparr>) (Credits s),
           PayoutDistribution := Some (e\<lparr>remaining_balance := remaining_balance e - x\<rparr>)\<rparr>)"
    have e: "e = d" using a(2) assms(5) by simp
    have x: "x \<le> claimable_amount cfg d (get_or 0 (VotingPoints s) (cd_round d, voter))"
      using assms(2) a(4) unfolding payout_laws_def e by blast
    with cov[of voter] have "remaining_balance d - x + x = remaining_balance d" by simp
    with a(1,3) x show ?thesis
      unfolding a(5) e by (intro exI[of _ voter] exI[of _ x]) simp
  qed
  with cov show ?thesis by blast
qed

definition ex_payout_ops :: "(mob_env \<times> (nat, ex_origin, ex_world) mob_op) list" where
  "ex_payout_ops =
     [(ex_env, OpJudgeStatement (UsernameValid ''u'') ''x'' \<lparr>cb_pallet_index = 7, cb_call_index = 2\<rparr>),
      (ex_env, OpVote (ExPerson ''a'') 0 Contempt),
      (ex_env, OpIntervene ExRoot 0 Contempt \<lparr>ref_time = 7, proof_size = 2\<rparr>),
      (ex_env, OpClaimVote (ExPerson ''a'') 0),
      (ex_env, OpScheduleRounds ExRoot 100 2 5),
      (ex_env, OpStartRound ExRoot)]"

lemma CaseCount_genesis [simp]: "CaseCount (genesis w) = 0"
  by (simp add: genesis_def)

text \<open>The states of this run, one after each operation.\<close>

definition ex_p1 :: "(nat, unit, ex_world) mob_state" where
  "ex_p1 = (genesis (0, 0))\<lparr>CaseCount := 1,
     OpenCases := fmupd 0 \<lparr>oc_since = 2000, oc_details = ex_details, oc_tally = default_vote_tally\<rparr> fmempty,
     mob_events := [CaseCreated 0]\<rparr>"

definition ex_p2 :: "(nat, unit, ex_world) mob_state" where
  "ex_p2 = ex_p1\<lparr>Credits := fmupd ''a'' (default_mob_credit\<lparr>mc_voted := 1\<rparr>) fmempty,
     Votes := fmupd (0, ''a'') Contempt fmempty,
     OpenCases := fmupd 0 \<lparr>oc_since = 2000, oc_details = ex_details,
                           oc_tally = default_vote_tally\<lparr>contempt := 1\<rparr>\<rparr> fmempty,
     mob_events := mob_events ex_p1 @ [Voted 0 ''a'' Contempt]\<rparr>"

definition ex_p3 :: "(nat, unit, ex_world) mob_state" where
  "ex_p3 = ex_p2\<lparr>OpenCases := fmempty,
     DoneCases := fmupd 0 \<lparr>dc_since = 2000, dc_verdict = Contempt\<rparr> fmempty,
     mob_events := mob_events ex_p2 @ [CallbackDone (Inr ()), CaseIntervened 0 Contempt]\<rparr>"

definition ex_p4 :: "(nat, unit, ex_world) mob_state" where
  "ex_p4 = ex_p3\<lparr>Votes := fmempty, VotingPoints := fmupd (0, ''a'') 1 fmempty, AccumulatedPoints := 1,
     Credits := fmupd ''a'' \<lparr>mc_voted = 1, mc_cleaned = 1, mc_correct = 1, mc_credit = 0\<rparr> (Credits ex_p3),
     mob_events := mob_events ex_p3 @ [VotesClaimed ''a'' [0]]\<rparr>"

definition ex_p5 :: "(nat, unit, ex_world) mob_state" where
  "ex_p5 = ex_p4\<lparr>RoundSchedules := [\<lparr>ps_remaining = 2, amount_per_round = 100, ps_period = 5\<rparr>],
     world := (200, 0), mob_events := mob_events ex_p4 @ [PayoutRoundsScheduled 100 2 5]\<rparr>"

definition ex_p6 :: "(nat, unit, ex_world) mob_state" where
  "ex_p6 = ex_p5\<lparr>RoundSchedules := [\<lparr>ps_remaining = 1, amount_per_round = 100, ps_period = 5\<rparr>],
     PayoutDistribution := Some \<lparr>cd_round = 0, initial_balance = 100, remaining_balance = 100,
                                total_points = 1, cd_start = 10\<rparr>,
     AccumulatedPoints := 0, mob_events := mob_events ex_p5 @ [PayoutRoundStarted 0 100 1]\<rparr>"

lemmas ex_eval = ex_fetch deposit_event_def new_state_def sat_defs get_or_def Let_def

lemma ex_p_steps:
  "mob_step ex_cfg (ex_env, OpJudgeStatement (UsernameValid ''u'') ''x'' \<lparr>cb_pallet_index = 7, cb_call_index = 2\<rparr>)
     (genesis (0, 0)) = Inr ex_p1"
  "mob_step ex_cfg (ex_env, OpVote (ExPerson ''a'') 0 Contempt) ex_p1 = Inr ex_p2"
  "mob_step ex_cfg (ex_env, OpIntervene ExRoot 0 Contempt \<lparr>ref_time = 7, proof_size = 2\<rparr>) ex_p2 = Inr ex_p3"
  "mob_step ex_cfg (ex_env, OpClaimVote (ExPerson ''a'') 0) ex_p3 = Inr ex_p4"
  "mob_step ex_cfg (ex_env, OpScheduleRounds ExRoot 100 2 5) ex_p4 = Inr ex_p5"
  "mob_step ex_cfg (ex_env, OpStartRound ExRoot) ex_p5 = Inr ex_p6"
  subgoal by (simp add: ex_eval ex_p1_def judge_statement_def)
  subgoal by (simp add: ex_eval ex_p2_def ex_p1_def vote_def case_ripens_def default_vote_tally_def
      default_mob_credit_def fmupd_fmdrop_eq)
  subgoal by (simp add: ex_eval ex_p3_def ex_p2_def ex_p1_def intervene_def dispatch_callback_def all_lte_def
      fmdrop_fmupd_eq)
  subgoal by (simp add: ex_eval ex_p4_def ex_p3_def ex_p2_def ex_p1_def claim_vote_def do_claim_votes_def
      next_round_def vote_rewarded_def default_mob_credit_def fmdrop_fmupd_eq)
  subgoal by (simp add: ex_eval ex_p5_def ex_p4_def ex_p3_def ex_p2_def ex_p1_def schedule_payout_rounds_def)
  subgoal by (simp add: ex_eval ex_p6_def ex_p5_def ex_p4_def ex_p3_def ex_p2_def ex_p1_def
      start_payout_round_def next_round_def)
  done

lemma ex_payout_run:
  "run_ok (mob_step ex_cfg) (mob_op_ok ex_cfg) ex_payout_ops (genesis (0, 0))"
  "exec_all (mob_step ex_cfg) ex_payout_ops (genesis (0, 0)) = ex_p6"
  "PayoutDistribution ex_p6
     = Some \<lparr>cd_round = 0, initial_balance = 100, remaining_balance = 100, total_points = 1, cd_start = 10\<rparr>"
proof -
  have "votes_total (Votes ex_p1) = 0" "AccumulatedPoints ex_p3 = 0" "next_round ex_p5 = 0"
    by (simp_all add: ex_p1_def ex_p2_def ex_p3_def ex_p4_def ex_p5_def genesis_def votes_total_def next_round_def)
  then show "run_ok (mob_step ex_cfg) (mob_op_ok ex_cfg) ex_payout_ops (genesis (0, 0))"
    by (simp add: ex_payout_ops_def exec_op_def ex_p_steps max_of_def del: mob_step.simps)
  show "exec_all (mob_step ex_cfg) ex_payout_ops (genesis (0, 0)) = ex_p6"
    by (simp add: ex_payout_ops_def exec_op_def ex_p_steps del: mob_step.simps)
  show "PayoutDistribution ex_p6
     = Some \<lparr>cd_round = 0, initial_balance = 100, remaining_balance = 100, total_points = 1, cd_start = 10\<rparr>"
    by (simp add: ex_p6_def)
qed

lemma reachable_payout_solvent_witness:
  "claimable_amount ex_cfg \<lparr>cd_round = 0, initial_balance = 100, remaining_balance = 100, total_points = 1,
     cd_start = 10\<rparr>
     (get_or 0 (VotingPoints ex_p6) (0, ''a'')) \<le> 100"
  using reachable_payout_solvent[OF ex_callbacks_local ex_payout_laws ex_payout_run(1) ex_payout_run(2)[symmetric]
      ex_payout_run(3), of "''a''"]
  by simp

subsection \<open>Unsigned calls\<close>

definition authorize_call ::
  "('acc, 'x, 'w, 'o, 'call) mob_config \<Rightarrow> mob_env \<Rightarrow> transaction_source \<Rightarrow> mob_call
     \<Rightarrow> ('acc, 'x, 'w) mob_state \<Rightarrow> bool" where
  "authorize_call cfg env src call s =
     (case call of
        CallCloseCase c w \<Rightarrow> is_ok (authorize_close_case cfg c w s)
      | CallCleanVote c v \<Rightarrow> is_ok (authorize_clean_vote cfg env src c v s)
      | CallReapCase c \<Rightarrow> is_ok (authorize_reap_case cfg env c s)
      | CallForceRipenCase c \<Rightarrow> is_ok (authorize_force_ripen_case cfg env c s))"

definition dispatch_call ::
  "('acc, 'x, 'w, 'o, 'call) mob_config \<Rightarrow> mob_env \<Rightarrow> 'o \<Rightarrow> mob_call
     \<Rightarrow> ('acc, 'x, 'w) mob_state \<Rightarrow> ('acc, 'x, 'w) mob_result" where
  "dispatch_call cfg env origin call s =
     (case call of
        CallCloseCase c w \<Rightarrow> close_case cfg env origin c w s
      | CallCleanVote c v \<Rightarrow> clean_vote cfg env origin c v s
      | CallReapCase c \<Rightarrow> reap_case cfg env origin c s
      | CallForceRipenCase c \<Rightarrow> force_ripen_case cfg env origin c s)"

lemma is_ok_bindE: "is_ok (bindE m f) \<longleftrightarrow> (\<exists>x. m = Inr x \<and> is_ok (f x))"
  by (cases m) simp_all

lemma is_ok_bindE_ensure: "is_ok (bindE (ensure b e) f) \<longleftrightarrow> b \<and> is_ok (f ())"
  by (cases b) simp_all

lemma is_ok_bindE_last: "is_ok (bindE m (\<lambda>_. Inr y)) = is_ok m"
  by (cases m) simp_all

lemma is_ok_map_err: "is_ok (map_err f m) = is_ok m"
  by (cases m) simp_all

lemma is_ok_ensure: "is_ok (ensure b e) = b"
  by (cases b) simp_all

lemma dispatch_callback_ok:
  "is_ok (dispatch_callback cfg c cb ctx v tr w s)
     \<longleftrightarrow> curry_call cfg cb (c, ctx, v) = None \<or> all_lte (callback_weight cfg c cb ctx v) w"
  by (auto simp: dispatch_callback_def callback_weight_def is_ok_bindE res_simps split: option.splits prod.splits)

lemma clean_vote_ok:
  "is_ok (clean_vote cfg env origin c v s) \<longleftrightarrow>
     ensure_authorized cfg origin \<and> is_ok (validate_clean_vote cfg env c v s)"
proof -
  have "is_ok (clean_vote_inner cfg env c v s) = is_ok (validate_clean_vote cfg env c v s)"
    by (cases "validate_clean_vote cfg env c v s") (simp_all add: clean_vote_inner_def Let_def split: prod.split)
  then show ?thesis
    by (cases "clean_vote_inner cfg env c v s") (auto simp: clean_vote_def is_ok_bindE res_simps)
qed

lemma close_case_ok:
  "is_ok (close_case cfg env origin c w s) \<longleftrightarrow>
   ensure_authorized cfg origin \<and>
   (\<exists>rc. fmlookup (RipeCases s) c = Some rc \<and>
      all_lte (callback_weight cfg c (cd_callback (rc_details rc)) (cd_context (rc_details rc)) (rc_verdict rc)) w)"
proof -
  have z: "callback_weight cfg c cb ctx v = zero_weight" if "curry_call cfg cb (c, ctx, v) = None" for cb ctx v
    using that by (simp add: callback_weight_def)
  have le: "all_lte zero_weight w" by (simp add: all_lte_def zero_weight_def)
  have cb: "(\<exists>a b. dispatch_callback cfg c (cd_callback (rc_details rc)) (cd_context (rc_details rc)) (rc_verdict rc)
        TriggerCloseCase w s1 = Inr (a, b)) \<longleftrightarrow>
      all_lte (callback_weight cfg c (cd_callback (rc_details rc)) (cd_context (rc_details rc)) (rc_verdict rc)) w"
    for rc s1
    using dispatch_callback_ok[of cfg c "cd_callback (rc_details rc)" "cd_context (rc_details rc)" "rc_verdict rc"
        TriggerCloseCase w s1] z le by (auto simp: is_ok_iff)
  show ?thesis
    by (auto simp: close_case_def validate_close_case_def is_ok_bindE res_simps cb split: prod.splits)
qed



subsection \<open>The offchain worker\<close>

definition batch_size :: "(case_index \<times> alias_id list) list \<Rightarrow> nat" where
  "batch_size acc = sum_list (map (length \<circ> snd) acc)"

definition batch_votes :: "(case_index \<times> alias_id list) list \<Rightarrow> (case_index \<times> alias_id) set" where
  "batch_votes acc = {(c, v). \<exists>vs. (c, vs) \<in> set acc \<and> v \<in> set vs}"

lemma batch_votes_simps [simp]:
  "batch_votes [] = {}"
  "batch_votes ((c, vs) # acc) = Pair c ` set vs \<union> batch_votes acc"
  by (auto simp: batch_votes_def)

lemma btree_push_spec:
  "btree_push lim c v acc = (acc', added) \<Longrightarrow>
   batch_size acc' = batch_size acc + (if added then 1 else 0) \<and>
   batch_votes acc' = batch_votes acc \<union> (if added then {(c, v)} else {})"
proof (induction acc arbitrary: acc')
  case Nil
  then show ?case by (auto simp: batch_size_def)
next
  case (Cons x acc)
  obtain d vs where x: "x = (d, vs)" by force
  obtain r a where r: "btree_push lim c v acc = (r, a)" by force
  from Cons.prems Cons.IH[of r] r show ?case
    unfolding x by (auto simp: batch_size_def Let_def split: if_splits)
qed

lemma clean_loop_spec:
  assumes "batch_size acc = n" "n < limit \<or> n = 0"
  shows "batch_size (clean_loop ok limit lim votes n acc) \<le> max 1 limit \<and>
    batch_votes (clean_loop ok limit lim votes n acc) \<subseteq> batch_votes acc \<union> {(c, v). ok c \<and> (c, v) \<in> fst ` set votes}"
  using assms
proof (induction votes arbitrary: n acc)
  case Nil
  then show ?case by auto
next
  case (Cons x votes)
  obtain c v j where x: "x = ((c, v), j)" by (metis prod.exhaust)
  obtain acc1 added where push: "btree_push lim c v acc = (acc1, added)" by force
  define acc' where "acc' = (if ok c then acc1 else acc)"
  define n' where "n' = (if ok c \<and> added then n + 1 else n)"
  have step: "clean_loop ok limit lim (x # votes) n acc
      = (if n' \<ge> limit then acc' else clean_loop ok limit lim votes n' acc')"
    by (simp add: x push acc'_def n'_def)
  have acc': "batch_size acc' = n'"
    "batch_votes acc' \<subseteq> batch_votes acc \<union> {(c, v). ok c \<and> (c, v) \<in> fst ` set (x # votes)}"
    using btree_push_spec[OF push] Cons.prems(1) by (auto simp: acc'_def n'_def x)
  show ?case
  proof (cases "n' \<ge> limit")
    case True
    have "n' \<le> max 1 limit" using Cons.prems(2) by (auto simp: n'_def)
    with True step acc' show ?thesis by simp
  next
    case False
    then have "n' < limit \<or> n' = 0" by simp
    note IH = Cons.IH[OF acc'(1) this]
    have "{(c, v). ok c \<and> (c, v) \<in> fst ` set votes} \<subseteq> {(c, v). ok c \<and> (c, v) \<in> fst ` set (x # votes)}"
      by auto
    with IH acc'(2) have "batch_votes (clean_loop ok limit lim votes n' acc')
        \<subseteq> batch_votes acc \<union> {(c, v). ok c \<and> (c, v) \<in> fst ` set (x # votes)}"
      by blast
    with False step IH show ?thesis by simp
  qed
qed

lemma votes_to_clean_spec:
  "batch_size (votes_to_clean cfg env votes s) \<le> max 1 (clean_votes_batch_size cfg) \<and>
   batch_votes (votes_to_clean cfg env votes s)
     \<subseteq> {(c, v). vote_cleanable cfg env s c \<and> (c, v) \<in> fst ` set votes}"
  using clean_loop_spec[of "[]" 0 "clean_votes_batch_size cfg" "vote_cleanable cfg env s"
      "clean_votes_batch_size cfg div fcard (fmdom (DoneCases s))" votes]
  by (simp add: votes_to_clean_def Let_def batch_size_def)

lemma vote_cleanable_valid:
  assumes inv: "mob_inv s" and c: "vote_cleanable cfg env s c" and v: "fmlookup (Votes s) (c, voter) = Some j"
  shows "is_ok (validate_clean_vote cfg env c voter s)"
proof -
  from c obtain d where d: "fmlookup (DoneCases s) c = Some d"
    "now_secs env > sat_add 64 (votes_open_for_claims_duration cfg) (dc_since d)"
    by (auto simp: vote_cleanable_def split: option.splits)
  then have "fmlookup (OpenCases s) c = None" "fmlookup (RipeCases s) c = None"
    using mob_inv_phase_exclusive[OF inv, of c] by (metis option.distinct(1))+
  with d v show ?thesis by (simp add: validate_clean_vote_def)
qed

text \<open>
  C7: the offchain worker submits valid work only. Whatever the order in which the storage of votes is
  iterated, every call it submits passes its \<open>authorize\<close> function as a local transaction,
  and a run submits at most the configured batch of vote cleanings (one, when the batch is zero).
\<close>

theorem offchain_worker_valid:
  assumes "mob_inv s" and "\<forall>x \<in> set votes. fmlookup (Votes s) (fst x) = Some (snd x)"
    and "call \<in> offchain_worker cfg env votes s"
  shows "authorize_call cfg env Local call s
    \<and> batch_size (votes_to_clean cfg env votes s) \<le> max 1 (clean_votes_batch_size cfg)"
proof -
  have "authorize_call cfg env Local call s"
  proof (cases call)
    case (CallCloseCase c w)
    with assms(3) show ?thesis
      by (auto simp: offchain_worker_def authorize_call_def authorize_close_case_def validate_close_case_def
          split: if_splits)
  next
    case (CallCleanVote c v)
    with assms(3) have "(c, v) \<in> batch_votes (votes_to_clean cfg env votes s)"
      by (auto simp: offchain_worker_def batch_votes_def split: if_splits)
    then have ok: "vote_cleanable cfg env s c" and "(c, v) \<in> fst ` set votes"
      using votes_to_clean_spec[of cfg env votes s] by auto
    then obtain j where "fmlookup (Votes s) (c, v) = Some j" using assms(2) by fastforce
    from vote_cleanable_valid[OF assms(1) ok this] show ?thesis
      by (simp add: CallCleanVote authorize_call_def authorize_clean_vote_def is_ok_bindE_last is_ok_map_err)
  next
    case (CallReapCase c)
    with assms(3) show ?thesis
      by (auto simp: offchain_worker_def authorize_call_def authorize_reap_case_def is_ok_bindE_last
          is_ok_map_err split: if_splits)
  next
    case (CallForceRipenCase c)
    with assms(3) show ?thesis
      by (auto simp: offchain_worker_def authorize_call_def authorize_force_ripen_case_def is_ok_bindE_last
          is_ok_map_err split: if_splits)
  qed
  with votes_to_clean_spec[of cfg env votes s] show ?thesis by blast
qed

lemma offchain_worker_valid_witness:
  "authorize_call ex_cfg ex_env Local (CallCleanVote 0 ''a'')
     (ex_p3\<lparr>DoneCases := fmupd 0 \<lparr>dc_since = 900, dc_verdict = Contempt\<rparr> fmempty\<rparr>)"
    (is "authorize_call _ _ _ _ ?s")
proof -
  let ?votes = "[((0, ''a''), Contempt)]"
  have f: "Votes ?s = fmupd (0, ''a'') Contempt fmempty" "OpenCases ?s = fmempty" "RipeCases ?s = fmempty"
    "CaseCount ?s = 1" "VotingPoints ?s = fmempty" "PayoutDistribution ?s = None"
    by (simp_all add: ex_p3_def ex_p2_def ex_p1_def genesis_def)
  have "mob_inv ?s"
    by (auto simp: mob_inv_def phases_ok_def tallies_ok_def points_ok_def payout_ok_def f round_points_def
        next_round_def split: if_splits)
  moreover have "CallCleanVote 0 ''a'' \<in> offchain_worker ex_cfg ex_env ?votes ?s"
    by (simp add: offchain_worker_def votes_to_clean_def vote_cleanable_def ex_cfg_def ex_env_def f sat_defs)
  ultimately show ?thesis
    using offchain_worker_valid[of ?s ?votes "CallCleanVote 0 ''a''" ex_cfg ex_env] f by simp
qed

subsection \<open>Rounds without funds\<close>

text \<open>
  A schedule of zero rounds holds no funds, yet the next payout round is started from it with the
  full amount per round as its balance.
\<close>

theorem zero_round_schedule_starts_unfunded:
  assumes "intervention_or_root cfg origin" and "0 < max_payout_round_schedules cfg"
    and "RoundSchedules s = []" and "PayoutDistribution s = None" and "0 < AccumulatedPoints s"
    and "currency_hold cfg Payout (pot_account cfg) 0 (world s) = Inr w"
  shows "\<exists>s1 s2 i1 i2. schedule_payout_rounds cfg origin amount 0 period s = Inr (s1, i1)
    \<and> world s1 = w
    \<and> start_payout_round cfg env origin s1 = Inr (s2, i2) \<and> world s2 = w
    \<and> PayoutDistribution s2 = Some \<lparr>cd_round = 0, initial_balance = amount, remaining_balance = amount,
         total_points = AccumulatedPoints s, cd_start = block_number_now env\<rparr>"
  using assms
  by (simp add: schedule_payout_rounds_def start_payout_round_def sat_mul_def Let_def next_round_def)

lemma zero_round_schedule_starts_unfunded_witness:
  "\<exists>s1 s2 i1 i2. schedule_payout_rounds ex_cfg ExRoot 500 0 3 ex_p4 = Inr (s1, i1)
    \<and> world s1 = (0, 0)
    \<and> start_payout_round ex_cfg ex_env ExRoot s1 = Inr (s2, i2) \<and> world s2 = (0, 0)
    \<and> PayoutDistribution s2 = Some \<lparr>cd_round = 0, initial_balance = 500, remaining_balance = 500,
         total_points = AccumulatedPoints ex_p4, cd_start = block_number_now ex_env\<rparr>"
  by (rule zero_round_schedule_starts_unfunded)
     (simp_all add: ex_cfg_def ex_p4_def ex_p3_def ex_p2_def ex_p1_def genesis_def)

end
