(* ===== verification/Members_State.thy ===== *)
theory Members_State
  imports Reality TxPriority "HOL-Library.Option_ord"
begin

text \<open>
  The data of the pallet \<^verbatim>\<open>pallets/members/src/lib.rs\<close> (types in \<^verbatim>\<open>types.rs\<close>): collections of member
  keys, the onboarding queue of each collection, and its rings with their roots.

  The ring cryptography, the chunks it needs, the origin checks and the weights are fields of
  \<open>members_config\<close>. Keys of members are \<open>'m\<close>, ring roots \<open>'r\<close>, the intermediate values of a
  root under construction \<open>'i\<close>. A call of the hook \<open>OnRingRootChange\<close> is an entry of the list
  \<open>root_changes\<close>. A failed \<open>defensive!\<close> or \<open>defensive_assert!\<close> logs and goes on, as in a production
  build.
\<close>

definition BUILD_MAX_ENTRIES :: nat where
  "BUILD_MAX_ENTRIES = 10"

definition OFFCHAIN_WORKER_OLD_ROOT_CLEANUP_LIMIT :: nat where
  "OFFCHAIN_WORKER_OLD_ROOT_CLEANUP_LIMIT = 1000"

definition ORPHANED_MEMBERS_REMOVAL_LIMIT :: nat where
  "ORPHANED_MEMBERS_REMOVAL_LIMIT = 500"

text \<open>The parsed arguments of \<open>RingRootOp\<close>, and \<open>RingRoot\<close>, \<open>OldRoot\<close> of \<^verbatim>\<open>types.rs\<close>.\<close>

datatype 'r ring_root_op = Built revision_index 'r | Deleted

record ('r, 'i) ring_root =
  rr_root :: 'r
  rr_revision :: revision_index
  rr_intermediate :: 'i

record 'r old_root =
  or_root :: 'r
  archived_at :: secs

datatype ('acc, 'loc) collection_owner = OwnerExternal 'loc | OwnerLocal 'acc

record ('acc, 'loc) collection_info =
  ci_owner :: "('acc, 'loc) collection_owner"
  ci_mode :: ring_mode
  ci_ring_size :: ring_exponent
  self_inclusion_delay :: "secs option"

datatype 'm queue_merge_action =
  Merge page_index page_index "'m list" "'m list"
| NoAction

datatype 'm members_event =
  MemberAdded 'm
| MemberRemoved 'm
| CollectionMarkedForDeletionEv coll_id
| CollectionDeleted coll_id
| RingBuilt coll_id ring_index
| MembersOnboarded coll_id
| RingsMerged coll_id ring_index ring_index
| OnboardingSizeSet coll_id nat
| MemberSelfIncluded coll_id 'm
| OldRootCleanedUp coll_id ring_index revision_index

datatype members_error =
  NotMember | NoRoot | InvalidProof | Incomplete | TooManyMembers | KeyAlreadyInUse | KeyNotFound
| CouldNotPush | InvalidRing | SuspensionsPending | RingAboveMergeThreshold | InvalidSuspensions
| NoRemovalSession | CouldNotStartRemovalSession | RemovalSessionInProgress | KeyAlreadySuspended
| InvalidOnboardingSize | InvalidMemberKey | CollectionNotFound | CollectionAlreadyExists
| IdentifierRetired | TooManyCollections | InvalidRingSizeForFlexible | InvalidRingExponent
| PrematureOnboarding | CollectionMarkedForDeletion | NotCollectionOwner | NotOnboarding
| NothingToBuild | CollectionNotFlexible

datatype authorize_invalidity = TransactionNotLocal

fun authorize_invalidity_code :: "authorize_invalidity \<Rightarrow> nat" where
  "authorize_invalidity_code TransactionNotLocal = 35"

datatype 'm members_origin =
  MemberAlias coll_id revised_contextual_alias
| SelfInclude 'm

subsection \<open>Storage\<close>

record ('acc, 'loc, 'm, 'r, 'i) members_state =
  Collections :: "(coll_id, ('acc, 'loc) collection_info) storage_map"
  RetiredIdentifiers :: "(coll_id, unit) storage_map"
  SuspendedCollections :: "(coll_id, ('acc, 'loc) collection_info) storage_map"
  IdentifiersOf :: "(('acc, 'loc) collection_owner, coll_id list) storage_map"
  Root :: "(coll_id \<times> ring_index, ('r, 'i) ring_root) storage_map"
  OldRoots :: "(coll_id \<times> ring_index \<times> revision_index, 'r old_root) storage_map"
  CurrentRingIndex :: "(coll_id, ring_index) storage_map"
  OnboardingSize :: "(coll_id, nat) storage_map"
  RingKeys :: "(coll_id \<times> ring_index \<times> page_index, 'm list) storage_map"
  RingKeysStatus :: "(coll_id \<times> ring_index, ring_status) storage_map"
  PendingSuspensions :: "(coll_id \<times> ring_index, nat list) storage_map"
  ActiveMembers :: "(coll_id, nat) storage_map"
  Members :: "(coll_id \<times> 'm, ring_position) storage_map"
  RingsState :: "(coll_id, ring_members_state) storage_map"
  StaleRings :: "(coll_id \<times> ring_index, unit) storage_map"
  QueuePageIndices :: "(coll_id, page_index \<times> page_index) storage_map"
  OnboardingQueue :: "(coll_id \<times> page_index, 'm list) storage_map"
  RingDeletionQueue :: "(coll_id \<times> ring_index \<times> page_index, unit) storage_map"
  members_events :: "'m members_event list"
  root_changes :: "(coll_id \<times> ring_index \<times> 'r ring_root_op) list"

definition members_genesis :: "('acc, 'loc, 'm, 'r, 'i) members_state" where
  "members_genesis = \<lparr>Collections = fmempty, RetiredIdentifiers = fmempty, SuspendedCollections = fmempty,
     IdentifiersOf = fmempty, Root = fmempty, OldRoots = fmempty, CurrentRingIndex = fmempty,
     OnboardingSize = fmempty, RingKeys = fmempty, RingKeysStatus = fmempty, PendingSuspensions = fmempty,
     ActiveMembers = fmempty, Members = fmempty, RingsState = fmempty, StaleRings = fmempty,
     QueuePageIndices = fmempty, OnboardingQueue = fmempty, RingDeletionQueue = fmempty,
     members_events = [], root_changes = []\<rparr>"

record ('acc, 'm, 'r, 'i, 'o, 'chunk, 'cap, 'proof) members_config =
  ring_capacity :: "ring_exponent \<Rightarrow> nat"
  max_collections :: nat
  onboarding_queue_page_size :: nat
  max_flexible_ring_exponent :: ring_exponent
  ring_building_member_limit :: nat
  old_root_retention_duration :: secs
  offchain_worker_interval :: block_number
  m_signed :: "'o \<Rightarrow> 'acc option"
  m_authorized :: "'o \<Rightarrow> bool"
  manager_or_root :: "'o \<Rightarrow> bool"
  as_members_origin :: "'o \<Rightarrow> 'm members_origin option"
  to_capacity :: "ring_exponent \<Rightarrow> 'cap option"
  start_members :: "'cap \<Rightarrow> 'i"
  push_members :: "'i \<Rightarrow> 'm list \<Rightarrow> (nat \<Rightarrow> nat \<Rightarrow> 'chunk list option) \<Rightarrow> 'i option"
  finish_members :: "'i \<Rightarrow> 'r"
  get_chunks :: "ring_exponent \<Rightarrow> nat \<Rightarrow> nat \<Rightarrow> 'chunk list option"
  is_member_valid :: "'m \<Rightarrow> bool"
  crypto_validate :: "'cap \<Rightarrow> 'proof \<Rightarrow> 'r \<Rightarrow> context_id \<Rightarrow> bytes \<Rightarrow> alias_id option"
  crypto_batch_validate :: "('proof \<times> 'cap \<times> 'r \<times> bytes \<times> bytes) list \<Rightarrow> alias_id list option"
  crypto_validate_multi :: "'cap \<Rightarrow> 'proof \<Rightarrow> 'r \<Rightarrow> context_id list \<Rightarrow> bytes \<Rightarrow> alias_id list option"
  w_remove_suspended_keys :: "nat \<Rightarrow> weight"
  w_delete_ring_page :: "nat \<Rightarrow> weight"
  w_enqueue_ring_deletion :: "nat \<Rightarrow> weight"
  w_delete_queue_page :: "nat \<Rightarrow> weight"
  w_finalize_deletion :: weight
  w_remove_orphaned :: "nat \<Rightarrow> weight"
  w_mark_ring_stale :: weight
  w_clean_up_old_roots :: "nat \<Rightarrow> weight"
  w_build_ring_r2e9 :: "nat \<Rightarrow> weight"
  w_build_ring_r2e10 :: "nat \<Rightarrow> weight"
  w_build_ring_r2e14 :: "nat \<Rightarrow> weight"
  w_onboard_members :: weight

text \<open>Errors passed on to the caller: the pallet's own, or \<open>ArithmeticOverflow\<close>.\<close>

type_synonym members_err = "(members_error, unit) dispatch_error"

definition members_deposit ::
  "'m members_event \<Rightarrow> ('acc, 'loc, 'm, 'r, 'i) members_state \<Rightarrow> ('acc, 'loc, 'm, 'r, 'i) members_state" where
  "members_deposit e s = s\<lparr>members_events := members_events s @ [e]\<rparr>"

definition on_ring_root_change ::
  "coll_id \<Rightarrow> ring_index \<Rightarrow> 'r ring_root_op \<Rightarrow> ('acc, 'loc, 'm, 'r, 'i) members_state
     \<Rightarrow> ('acc, 'loc, 'm, 'r, 'i) members_state" where
  "on_ring_root_change ident ring op s = s\<lparr>root_changes := root_changes s @ [(ident, ring, op)]\<rparr>"

text \<open>The reads of value maps, with the default of the type.\<close>

abbreviation current_ring :: "('acc, 'loc, 'm, 'r, 'i) members_state \<Rightarrow> coll_id \<Rightarrow> ring_index" where
  "current_ring s ident \<equiv> get_or 0 (CurrentRingIndex s) ident"

abbreviation key_page :: "('acc, 'loc, 'm, 'r, 'i) members_state \<Rightarrow> coll_id \<Rightarrow> ring_index \<Rightarrow> page_index \<Rightarrow> 'm list" where
  "key_page s ident ring page \<equiv> get_or [] (RingKeys s) (ident, ring, page)"

abbreviation status_of :: "('acc, 'loc, 'm, 'r, 'i) members_state \<Rightarrow> coll_id \<Rightarrow> ring_index \<Rightarrow> ring_status" where
  "status_of s ident ring \<equiv> get_or default_ring_status (RingKeysStatus s) (ident, ring)"

abbreviation pending_of :: "('acc, 'loc, 'm, 'r, 'i) members_state \<Rightarrow> coll_id \<Rightarrow> ring_index \<Rightarrow> nat list" where
  "pending_of s ident ring \<equiv> get_or [] (PendingSuspensions s) (ident, ring)"

abbreviation rings_mode :: "('acc, 'loc, 'm, 'r, 'i) members_state \<Rightarrow> coll_id \<Rightarrow> ring_members_state" where
  "rings_mode s ident \<equiv> get_or default_ring_members_state (RingsState s) ident"

abbreviation queue_ends :: "('acc, 'loc, 'm, 'r, 'i) members_state \<Rightarrow> coll_id \<Rightarrow> page_index \<times> page_index" where
  "queue_ends s ident \<equiv> get_or (0, 0) (QueuePageIndices s) ident"

abbreviation queue_page_of :: "('acc, 'loc, 'm, 'r, 'i) members_state \<Rightarrow> coll_id \<Rightarrow> page_index \<Rightarrow> 'm list" where
  "queue_page_of s ident page \<equiv> get_or [] (OnboardingQueue s) (ident, page)"

text \<open>\<open>checked_add(1).unwrap_or(0)\<close> on a page index.\<close>

definition next_page :: "page_index \<Rightarrow> page_index" where
  "next_page p = (case checked_add 32 p 1 of None \<Rightarrow> 0 | Some q \<Rightarrow> q)"

text \<open>\<open>BoundedVec::try_push\<close>.\<close>

definition try_push :: "nat \<Rightarrow> 'a list \<Rightarrow> 'a \<Rightarrow> 'a list option" where
  "try_push bound xs x = (if length xs < bound then Some (xs @ [x]) else None)"

lemma try_push_Some: "try_push bound xs x = Some ys \<longleftrightarrow> length xs < bound \<and> ys = xs @ [x]"
  by (auto simp: try_push_def)

lemma next_page_exact: "p < max_of 32 \<Longrightarrow> next_page p = Suc p"
  by (simp add: next_page_def checked_add_def)

subsection \<open>Constants\<close>

definition flexible_ring_capacity :: "('acc, 'm, 'r, 'i, 'o, 'chunk, 'cap, 'proof) members_config \<Rightarrow> nat" where
  "flexible_ring_capacity cfg = ring_capacity cfg (max_flexible_ring_exponent cfg)"

definition max_pages_per_ring ::
  "('acc, 'm, 'r, 'i, 'o, 'chunk, 'cap, 'proof) members_config \<Rightarrow> ring_exponent \<Rightarrow> nat" where
  "max_pages_per_ring cfg e =
     (let page_size = flexible_ring_capacity cfg;
          max_ring_capacity = ring_capacity cfg e
      in sat_add 32 (max_ring_capacity div page_size) (if max_ring_capacity mod page_size = 0 then 0 else 1))"

definition ring_pages_absolute_upper_limit ::
  "('acc, 'm, 'r, 'i, 'o, 'chunk, 'cap, 'proof) members_config \<Rightarrow> nat" where
  "ring_pages_absolute_upper_limit cfg =
     (let page_size = flexible_ring_capacity cfg;
          max_capacity = ring_capacity cfg max_ring_exponent
      in sat_add 32 (max_capacity div page_size) (if max_capacity mod page_size = 0 then 0 else 1))"

fun build_ring_weight ::
  "('acc, 'm, 'r, 'i, 'o, 'chunk, 'cap, 'proof) members_config \<Rightarrow> ring_exponent \<Rightarrow> nat \<Rightarrow> weight" where
  "build_ring_weight cfg R2e9 n = w_build_ring_r2e9 cfg n"
| "build_ring_weight cfg R2e10 n = w_build_ring_r2e10 cfg n"
| "build_ring_weight cfg R2e14 n = w_build_ring_r2e14 cfg n"

definition self_inclusion_time_tolerance :: secs where
  "self_inclusion_time_tolerance = 600"

definition fetch_chunks ::
  "('acc, 'm, 'r, 'i, 'o, 'chunk, 'cap, 'proof) members_config \<Rightarrow> ring_exponent
     \<Rightarrow> nat \<Rightarrow> nat \<Rightarrow> 'chunk list option" where
  "fetch_chunks cfg e a b = get_chunks cfg e (min a (max_of 32)) (min b (max_of 32))"

definition add_member_background_weight ::
  "('acc, 'm, 'r, 'i, 'o, 'chunk, 'cap, 'proof) members_config \<Rightarrow> weight" where
  "add_member_background_weight cfg =
     (let n = flexible_ring_capacity cfg;
          w = weight_add (w_onboard_members cfg) (w_build_ring_r2e14 cfg n)
      in \<lparr>ref_time = ref_time w div n, proof_size = proof_size w div n\<rparr>)"

end
