(* ===== verification/Members_Ops.thy ===== *)
theory Members_Ops
  imports Members_State
begin

text \<open>
  The internal operations of \<^verbatim>\<open>pallets/members/src/lib.rs\<close>: the top ring, the onboarding queue, building
  and archiving roots, suspensions and deletion. A function that returns a \<open>Result\<close> is rolled back
  with its caller when it fails; the others return the new state.
\<close>

type_synonym ('acc, 'm, 'r, 'i, 'o, 'chunk, 'cap, 'proof) mcfg =
  "('acc, 'm, 'r, 'i, 'o, 'chunk, 'cap, 'proof) members_config"
type_synonym ('acc, 'loc, 'm, 'r, 'i) mst = "('acc, 'loc, 'm, 'r, 'i) members_state"

subsection \<open>The top ring\<close>

definition available_ring ::
  "('acc, 'm, 'r, 'i, 'o, 'chunk, 'cap, 'proof) mcfg \<Rightarrow> coll_id \<Rightarrow> nat \<Rightarrow> ('acc, 'loc, 'm, 'r, 'i) mst
     \<Rightarrow> (ring_index \<times> page_index \<times> 'm list \<times> ring_status) \<times> ('acc, 'loc, 'm, 'r, 'i) mst" where
  "available_ring cfg ident max_ring_size s =
     (let page_size = flexible_ring_capacity cfg;
          ring = current_ring s ident;
          st = status_of s ident ring;
          page = total st div page_size;
          keys = key_page s ident ring page
      in if page * page_size + length keys \<ge> max_ring_size
         then (let ring' = sat_inc 32 ring;
                   s' = s\<lparr>CurrentRingIndex := fmupd ident ring' (CurrentRingIndex s)\<rparr>
               in ((ring', 0, key_page s' ident ring' 0, st), s'))
         else ((ring, page, keys, st), s))"

definition ring_paged_keys_and_info ::
  "coll_id \<Rightarrow> ring_index \<Rightarrow> page_index \<Rightarrow> ('acc, 'loc, 'm, 'r, 'i) mst \<Rightarrow> 'm list \<times> ring_status" where
  "ring_paged_keys_and_info ident ring page s = (key_page s ident ring page, status_of s ident ring)"

subsection \<open>Conditions\<close>

definition should_build_ring ::
  "coll_id \<Rightarrow> ring_index \<Rightarrow> nat \<Rightarrow> ('acc, 'loc, 'm, 'r, 'i) mst \<Rightarrow> nat option" where
  "should_build_ring ident ring limit s =
     (if contains_key (SuspendedCollections s) ident then None
      else if \<not> append_only (rings_mode s ident) then None
      else if contains_key (PendingSuspensions s) (ident, ring) then None
      else (let st = status_of s ident ring;
                to_include = min (total st - included st) limit
            in if to_include = 0 then None else Some to_include))"

definition should_onboard_members ::
  "coll_id \<Rightarrow> ring_index \<Rightarrow> ring_status \<Rightarrow> nat \<Rightarrow> nat \<Rightarrow> nat \<Rightarrow> nat \<Rightarrow> ('acc, 'loc, 'm, 'r, 'i) mst
     \<Rightarrow> (nat \<times> bool) option" where
  "should_onboard_members ident ring st open_slots available onboarding_size max_ring_size s =
     (if contains_key (SuspendedCollections s) ident then None
      else if \<not> append_only (rings_mode s ident) then None
      else if contains_key (PendingSuspensions s) (ident, ring) then None
      else (let to_include = min available open_slots in
            if to_include = 0 then None
            else (let can_onboard_with_cohort =
                        (to_include \<ge> onboarding_size \<and>
                         sat_add 32 (total st) to_include \<le> max_ring_size - onboarding_size);
                      ring_filled = (open_slots = to_include)
                  in if ring_filled \<or> can_onboard_with_cohort then Some (to_include, ring_filled) else None)))"

definition should_remove_suspended_keys ::
  "coll_id \<Rightarrow> ring_index \<Rightarrow> bool \<Rightarrow> ('acc, 'loc, 'm, 'r, 'i) mst \<Rightarrow> bool" where
  "should_remove_suspended_keys ident ring check_rings_state s =
     (if contains_key (SuspendedCollections s) ident then False
      else if check_rings_state \<and> \<not> append_only (rings_mode s ident) then False
      else length (pending_of s ident ring) \<noteq> 0)"

definition should_merge_queue_pages ::
  "('acc, 'm, 'r, 'i, 'o, 'chunk, 'cap, 'proof) mcfg \<Rightarrow> coll_id \<Rightarrow> ('acc, 'loc, 'm, 'r, 'i) mst
     \<Rightarrow> 'm queue_merge_action" where
  "should_merge_queue_pages cfg ident s =
     (if contains_key (SuspendedCollections s) ident then NoAction
      else (let (initial_head, tail) = queue_ends s ident;
                first_key_page = queue_page_of s ident initial_head
            in if initial_head = tail then NoAction
               else (let new_head = next_page initial_head;
                         second_key_page = queue_page_of s ident new_head
                     in if length first_key_page + length second_key_page > onboarding_queue_page_size cfg
                        then NoAction
                        else Merge initial_head new_head first_key_page second_key_page)))"

subsection \<open>Roots\<close>

definition archive_root ::
  "secs \<Rightarrow> coll_id \<Rightarrow> ring_index \<Rightarrow> ('acc, 'loc, 'm, 'r, 'i) mst \<Rightarrow> bool \<times> ('acc, 'loc, 'm, 'r, 'i) mst" where
  "archive_root now ident ring s =
     (case fmlookup (Root s) (ident, ring) of
        None \<Rightarrow> (False, s)
      | Some root \<Rightarrow>
          (True, s\<lparr>Root := fmdrop (ident, ring) (Root s),
                   OldRoots := fmupd (ident, ring, rr_revision root)
                     \<lparr>or_root = rr_root root, archived_at = now\<rparr> (OldRoots s)\<rparr>))"

text \<open>
  The loop of \<open>build_ring\<close> collects the keys that are not yet included, page by page. A page that is
  shorter than the status says yields fewer keys than are counted, as \<open>skip\<close> and \<open>take\<close> do.
\<close>

function build_loop ::
  "nat \<Rightarrow> (page_index \<Rightarrow> 'm list) \<Rightarrow> ring_status \<Rightarrow> nat \<Rightarrow> 'm list \<Rightarrow> 'm list \<times> ring_status" where
  "build_loop page_size pages st to_include keys_to_push =
     (if to_include = 0 then (keys_to_push, st)
      else (let keys = pages (included st div page_size);
                included_in_page = included st mod page_size;
                unincluded = min (total st - included st) (page_size - included_in_page);
                to_push = min to_include unincluded
            in if to_push = 0 then (keys_to_push, st)
               else build_loop page_size pages (st\<lparr>included := sat_add 32 (included st) to_push\<rparr>)
                      (to_include - to_push) (keys_to_push @ take to_push (drop included_in_page keys))))"
  by pat_completeness auto
termination
  by (relation "measure (\<lambda>(_, _, _, n, _). n)") (auto simp: Let_def)

declare build_loop.simps [simp del]

definition build_ring ::
  "('acc, 'm, 'r, 'i, 'o, 'chunk, 'cap, 'proof) mcfg \<Rightarrow> secs \<Rightarrow> coll_id \<Rightarrow> ring_index \<Rightarrow> nat
     \<Rightarrow> ('acc, 'loc, 'm, 'r, 'i) mst \<Rightarrow> members_err + ('acc, 'loc, 'm, 'r, 'i) mst" where
  "build_ring cfg now ident ring to_include s =
     bindE (ok_or (fmlookup (Collections s) ident) (Module CollectionNotFound)) (\<lambda>info.
     bindE (ok_or (to_capacity cfg (ci_ring_size info)) (Module InvalidRingExponent)) (\<lambda>capacity.
     bindE (case fmlookup (Root s) (ident, ring) of
              Some root \<Rightarrow>
                bindE (ok_or (checked_add 32 (rr_revision root) 1) ArithmeticOverflow) (\<lambda>rv.
                  Inr (rv, rr_intermediate root, Some (rr_revision root, rr_root root)))
            | None \<Rightarrow> Inr (0, start_members cfg capacity, None)) (\<lambda>(next_revision, intermediate, original).
     let (keys_to_push, st) = build_loop (flexible_ring_capacity cfg) (\<lambda>p. key_page s ident ring p)
                                (status_of s ident ring) to_include [] in
     bindE (ok_or (push_members cfg intermediate keys_to_push (fetch_chunks cfg (ci_ring_size info)))
              (Module CouldNotPush)) (\<lambda>intermediate'.
     let complete = (included st = total st);
         st' = (if complete \<and> ci_mode info = AppendOnly \<and> total st = ring_capacity cfg (ci_ring_size info)
                then st\<lparr>immutable_since := Some now\<rparr> else st);
         s1 = (if complete then s\<lparr>StaleRings := fmdrop (ident, ring) (StaleRings s)\<rparr> else s);
         s2 = s1\<lparr>RingKeysStatus := fmupd (ident, ring) st' (RingKeysStatus s1)\<rparr>;
         root = finish_members cfg intermediate';
         s3 = s2\<lparr>Root := fmupd (ident, ring) \<lparr>rr_root = root, rr_revision = next_revision,
                                            rr_intermediate = intermediate'\<rparr> (Root s2)\<rparr>;
         s4 = (case original of
                 None \<Rightarrow> s3
               | Some (rv, old) \<Rightarrow>
                   s3\<lparr>OldRoots := fmupd (ident, ring, rv) \<lparr>or_root = old, archived_at = now\<rparr> (OldRoots s3)\<rparr>)
     in Inr (members_deposit (RingBuilt ident ring)
               (on_ring_root_change ident ring (Built next_revision root) s4))))))"

subsection \<open>Onboarding\<close>

fun onboard_keys ::
  "nat \<Rightarrow> coll_id \<Rightarrow> ring_index \<Rightarrow> 'm list \<Rightarrow> page_index \<Rightarrow> 'm list \<Rightarrow> ('acc, 'loc, 'm, 'r, 'i) mst
     \<Rightarrow> members_err + page_index \<times> 'm list \<times> ('acc, 'loc, 'm, 'r, 'i) mst" where
  "onboard_keys page_size ident ring [] page keys s = Inr (page, keys, s)"
| "onboard_keys page_size ident ring (k # ks) page keys s =
     bindE (ensure (contains_key (Members s) (ident, k)) (Module KeyNotFound)) (\<lambda>_.
       let s1 = s\<lparr>Members := fmupd (ident, k) (Included ring page (length keys)) (Members s)\<rparr> in
     bindE (ok_or (try_push page_size keys k) (Module TooManyMembers)) (\<lambda>keys1.
       if length keys1 \<ge> page_size
       then (let s2 = s1\<lparr>RingKeys := fmupd (ident, ring, page) keys1 (RingKeys s1)\<rparr>;
                 page' = sat_inc 32 page
             in onboard_keys page_size ident ring ks page' (key_page s2 ident ring page') s2)
       else onboard_keys page_size ident ring ks page keys1 s1))"

text \<open>What \<open>onboard_members\<close> puts back into the queue.\<close>

definition requeue ::
  "('acc, 'm, 'r, 'i, 'o, 'chunk, 'cap, 'proof) mcfg \<Rightarrow> coll_id \<Rightarrow> page_index \<Rightarrow> page_index \<Rightarrow> page_index
     \<Rightarrow> 'm list \<Rightarrow> ('acc, 'loc, 'm, 'r, 'i) mst \<Rightarrow> ('acc, 'loc, 'm, 'r, 'i) mst" where
  "requeue cfg ident old_head head tail remaining s =
     (let page_size = onboarding_queue_page_size cfg in
      if length remaining > page_size
      then (let split_idx = length remaining - page_size
            in s\<lparr>OnboardingQueue := fmupd (ident, head) (drop split_idx remaining)
                   (fmupd (ident, old_head) (take split_idx remaining) (OnboardingQueue s)),
                 QueuePageIndices := fmupd ident (old_head, tail) (QueuePageIndices s)\<rparr>)
      else if remaining \<noteq> []
      then s\<lparr>OnboardingQueue := fmupd (ident, head) remaining (fmdrop (ident, old_head) (OnboardingQueue s)),
             QueuePageIndices := fmupd ident (head, tail) (QueuePageIndices s)\<rparr>
      else (let queue = fmdrop (ident, head) (OnboardingQueue s);
                queue' = (if old_head \<noteq> head then fmdrop (ident, old_head) queue else queue);
                head' = (if head \<noteq> tail then next_page head else head)
            in s\<lparr>OnboardingQueue := queue',
                 QueuePageIndices := fmupd ident (head', tail) (QueuePageIndices s)\<rparr>))"

definition onboard_members ::
  "('acc, 'm, 'r, 'i, 'o, 'chunk, 'cap, 'proof) mcfg \<Rightarrow> coll_id \<Rightarrow> bool
     \<Rightarrow> ('acc, 'loc, 'm, 'r, 'i) mst \<Rightarrow> members_err + ('acc, 'loc, 'm, 'r, 'i) mst \<times> bool" where
  "onboard_members cfg ident must_build s =
     bindE (ok_or (fmlookup (Collections s) ident) (Module CollectionNotFound)) (\<lambda>info.
     let max_ring_size = ring_capacity cfg (ci_ring_size info);
         page_size = flexible_ring_capacity cfg;
         ((ring, page, keys, st), s1) = available_ring cfg ident max_ring_size s;
         open_slots = max_ring_size - sat_add 32 (length keys) (page * page_size);
         (old_head, tail) = queue_ends s1 ident;
         first = queue_page_of s1 ident old_head;
         two_pages = (length first < open_slots \<and> old_head \<noteq> tail);
         head = (if two_pages then next_page old_head else old_head);
         keys_to_include = (if two_pages then first @ queue_page_of s1 ident head else first)
     in case should_onboard_members ident ring st open_slots (length keys_to_include)
               (get_or 0 (OnboardingSize s1) ident) max_ring_size s1 of
          None \<Rightarrow> if must_build then Inl (Module PrematureOnboarding) else Inr (s, False)
        | Some (to_include, ring_filled) \<Rightarrow>
            bindE (onboard_keys page_size ident ring (take to_include keys_to_include) page keys s1)
              (\<lambda>(page', keys', s2).
            let s3 = (if keys' \<noteq> [] then s2\<lparr>RingKeys := fmupd (ident, ring, page') keys' (RingKeys s2)\<rparr> else s2);
                s4 = s3\<lparr>ActiveMembers := fmupd ident (sat_add 32 (get_or 0 (ActiveMembers s3) ident) to_include)
                                            (ActiveMembers s3),
                        RingKeysStatus := fmupd (ident, ring) (st\<lparr>total := sat_add 32 (total st) to_include\<rparr>)
                                            (RingKeysStatus s3),
                        StaleRings := fmupd (ident, ring) () (StaleRings s3)\<rparr>;
                s5 = (if ring_filled
                      then s4\<lparr>CurrentRingIndex := fmupd ident (sat_inc 32 (current_ring s4 ident)) (CurrentRingIndex s4)\<rparr>
                      else s4);
                s6 = requeue cfg ident old_head head tail (drop to_include keys_to_include) s5
            in Inr (members_deposit (MembersOnboarded ident) s6, True)))"

definition push_to_onboarding_queue ::
  "('acc, 'm, 'r, 'i, 'o, 'chunk, 'cap, 'proof) mcfg \<Rightarrow> secs \<Rightarrow> coll_id \<Rightarrow> 'm
     \<Rightarrow> ('acc, 'loc, 'm, 'r, 'i) mst \<Rightarrow> members_err + ('acc, 'loc, 'm, 'r, 'i) mst" where
  "push_to_onboarding_queue cfg now ident key s =
     (let (head, tail) = queue_ends s ident in
      bindE (case try_push (onboarding_queue_page_size cfg) (queue_page_of s ident tail) key of
               Some keys \<Rightarrow> Inr (tail, keys)
             | None \<Rightarrow>
                 (let tail' = next_page tail
                  in bindE (ensure (tail' \<noteq> head) (Module TooManyMembers)) (\<lambda>_. Inr (tail', [key]))))
        (\<lambda>(tail', keys).
      Inr (members_deposit (MemberAdded key)
        (s\<lparr>QueuePageIndices := fmupd ident (head, tail') (QueuePageIndices s),
           OnboardingQueue := fmupd (ident, tail') keys (OnboardingQueue s),
           Members := fmupd (ident, key) (Onboarding tail' now) (Members s)\<rparr>))))"

definition merge_queue_pages ::
  "('acc, 'm, 'r, 'i, 'o, 'chunk, 'cap, 'proof) mcfg \<Rightarrow> coll_id \<Rightarrow> page_index \<Rightarrow> page_index \<Rightarrow> 'm list \<Rightarrow> 'm list
     \<Rightarrow> ('acc, 'loc, 'm, 'r, 'i) mst \<Rightarrow> members_err + ('acc, 'loc, 'm, 'r, 'i) mst" where
  "merge_queue_pages cfg ident initial_head new_head first_page second_page s =
     bindE (ensure (\<forall>k \<in> set first_page. contains_key (Members s) (ident, k)) (Module KeyNotFound)) (\<lambda>_.
     bindE (ensure (length first_page + length second_page \<le> onboarding_queue_page_size cfg) (Module TooManyMembers)) (\<lambda>_.
     Inr (s\<lparr>Members := fold (\<lambda>k m. case fmlookup m (ident, k) of
                               Some (Onboarding _ t) \<Rightarrow> fmupd (ident, k) (Onboarding new_head t) m
                             | _ \<Rightarrow> m) first_page (Members s),
            OnboardingQueue := fmupd (ident, new_head) (first_page @ second_page)
                                 (fmdrop (ident, initial_head) (OnboardingQueue s)),
            QueuePageIndices := fmupd ident (new_head, snd (queue_ends s ident)) (QueuePageIndices s)\<rparr>)))"

definition do_self_include ::
  "('acc, 'm, 'r, 'i, 'o, 'chunk, 'cap, 'proof) mcfg \<Rightarrow> coll_id \<Rightarrow> 'm
     \<Rightarrow> ('acc, 'loc, 'm, 'r, 'i) mst \<Rightarrow> members_err + ('acc, 'loc, 'm, 'r, 'i) mst" where
  "do_self_include cfg ident member s =
     bindE (ok_or (fmlookup (Collections s) ident) (Module CollectionNotFound)) (\<lambda>info.
     let max_ring_size = ring_capacity cfg (ci_ring_size info) in
     bindE (ensure (append_only (rings_mode s ident)) (Module RemovalSessionInProgress)) (\<lambda>_.
     bindE (ok_or (fmlookup (Members s) (ident, member)) (Module NotMember)) (\<lambda>position.
     bindE (case position of Onboarding page _ \<Rightarrow> Inr page | _ \<Rightarrow> Inl (Module NotOnboarding)) (\<lambda>queue_page.
     let keys = queue_page_of s ident queue_page in
     bindE (ensure (member \<in> set keys) (Module KeyNotFound)) (\<lambda>_.
     let keys' = remove1 member keys;
         (head, tail) = queue_ends s ident;
         s1 = (if keys' = []
               then s\<lparr>OnboardingQueue := fmdrop (ident, queue_page) (OnboardingQueue s),
                      QueuePageIndices :=
                        fmupd ident (if head = queue_page \<and> head \<noteq> tail then next_page queue_page else head, tail)
                          (QueuePageIndices s)\<rparr>
               else s\<lparr>OnboardingQueue := fmupd (ident, queue_page) keys' (OnboardingQueue s)\<rparr>);
         ((ring, page, ring_keys, st), s2) = available_ring cfg ident max_ring_size s1 in
     bindE (ok_or (try_push (flexible_ring_capacity cfg) ring_keys member) (Module TooManyMembers)) (\<lambda>ring_keys'.
     let st' = st\<lparr>total := sat_add 32 (total st) 1\<rparr>;
         s3 = s2\<lparr>RingKeys := fmupd (ident, ring, page) ring_keys' (RingKeys s2),
                 Members := fmupd (ident, member) (Included ring page (length ring_keys)) (Members s2),
                 RingKeysStatus := fmupd (ident, ring) st' (RingKeysStatus s2),
                 ActiveMembers := fmupd ident (sat_add 32 (get_or 0 (ActiveMembers s2) ident) 1) (ActiveMembers s2),
                 StaleRings := fmupd (ident, ring) () (StaleRings s2)\<rparr>
     in Inr (if total st' \<ge> max_ring_size
             then s3\<lparr>CurrentRingIndex := fmupd ident (sat_inc 32 (current_ring s3 ident)) (CurrentRingIndex s3)\<rparr>
             else s3)))))))"

subsection \<open>Suspensions\<close>

text \<open>\<open>binary_search\<close> and \<open>try_insert\<close> on a sorted list of indices.\<close>

definition index_insert :: "nat \<Rightarrow> nat list \<Rightarrow> nat list option" where
  "index_insert x xs = (if x \<in> set xs then None else Some (takeWhile (\<lambda>y. y < x) xs @ x # dropWhile (\<lambda>y. y < x) xs))"

fun queue_member_suspensions_loop ::
  "nat \<Rightarrow> coll_id \<Rightarrow> 'm list \<Rightarrow> ('acc, 'loc, 'm, 'r, 'i) mst \<Rightarrow> members_err + ('acc, 'loc, 'm, 'r, 'i) mst" where
  "queue_member_suspensions_loop page_size ident [] s = Inr s"
| "queue_member_suspensions_loop page_size ident (key # rest) s =
     bindE (ok_or (fmlookup (Members s) (ident, key)) (Module InvalidSuspensions)) (\<lambda>position.
     bindE (case position of
              Included ring page slot \<Rightarrow>
                bindE (ok_or (index_insert slot (pending_of s ident ring)) (Module KeyAlreadySuspended)) (\<lambda>ixs.
                bindE (ensure (length ixs \<le> page_size) (Module TooManyMembers)) (\<lambda>_.
                Inr (s\<lparr>PendingSuspensions := fmupd (ident, ring) ixs (PendingSuspensions s)\<rparr>)))
            | Onboarding page _ \<Rightarrow>
                (let keys = queue_page_of s ident page
                 in Inr (if key \<in> set keys
                         then s\<lparr>OnboardingQueue := fmupd (ident, page) (remove1 key keys) (OnboardingQueue s)\<rparr>
                         else s))
            | Suspended \<Rightarrow> Inr s) (\<lambda>s1.
     queue_member_suspensions_loop page_size ident rest
       (s1\<lparr>Members := fmupd (ident, key) Suspended (Members s1)\<rparr>)))"

definition queue_member_suspensions ::
  "('acc, 'm, 'r, 'i, 'o, 'chunk, 'cap, 'proof) mcfg \<Rightarrow> coll_id \<Rightarrow> 'm list
     \<Rightarrow> ('acc, 'loc, 'm, 'r, 'i) mst \<Rightarrow> members_err + ('acc, 'loc, 'm, 'r, 'i) mst" where
  "queue_member_suspensions cfg ident suspensions s =
     bindE (ensure (mutating (rings_mode s ident)) (Module NoRemovalSession)) (\<lambda>_.
     queue_member_suspensions_loop (flexible_ring_capacity cfg) ident suspensions s)"

text \<open>
  The loop of \<open>remove_suspended_keys\<close> walks the keys of the page (\<open>i\<close> counts them) and the suspended
  indices together; the last component tells whether it stopped early, on a page that is full.
\<close>

fun remove_loop ::
  "nat \<Rightarrow> coll_id \<Rightarrow> ring_index \<Rightarrow> 'm list \<Rightarrow> nat \<Rightarrow> nat list \<Rightarrow> 'm list \<Rightarrow> ('acc, 'loc, 'm, 'r, 'i) mst
     \<Rightarrow> 'm list \<times> ('acc, 'loc, 'm, 'r, 'i) mst \<times> bool" where
  "remove_loop page_size ident ring [] i ixs new s = (new, s, False)"
| "remove_loop page_size ident ring (key # keys) i ixs new s =
     (if ixs \<noteq> [] \<and> i = hd ixs
      then remove_loop page_size ident ring keys (Suc i) (tl ixs) new (members_deposit (MemberRemoved key) s)
      else (let s1 = (case fmlookup (Members s) (ident, key) of
                        Some (Included r page _) \<Rightarrow>
                          if ring \<noteq> r then s
                          else s\<lparr>Members := fmupd (ident, key) (Included r page (length new)) (Members s)\<rparr>
                      | _ \<Rightarrow> s)
            in case try_push page_size new key of
                 None \<Rightarrow> (new, s1, True)
               | Some new' \<Rightarrow> remove_loop page_size ident ring keys (Suc i) ixs new' s1))"

definition remove_suspended_keys ::
  "('acc, 'm, 'r, 'i, 'o, 'chunk, 'cap, 'proof) mcfg \<Rightarrow> secs \<Rightarrow> coll_id \<Rightarrow> ring_index
     \<Rightarrow> ('acc, 'loc, 'm, 'r, 'i) mst \<Rightarrow> ('acc, 'loc, 'm, 'r, 'i) mst \<times> weight" where
  "remove_suspended_keys cfg now ident ring s =
     (case Option.bind (fmlookup (Collections s) ident) (\<lambda>info. to_capacity cfg (ci_ring_size info)) of
        None \<Rightarrow> (s, w_remove_suspended_keys cfg (flexible_ring_capacity cfg))
      | Some capacity \<Rightarrow>
          (let (new, s1, stopped) = remove_loop (flexible_ring_capacity cfg) ident ring (key_page s ident ring 0) 0
                                      (pending_of s ident ring) [] s
           in if stopped then (s1, w_remove_suspended_keys cfg (length new))
              else
                (let st = status_of s1 ident ring;
                     suspended_count = total st - length new;
                     s2 = s1\<lparr>RingKeysStatus := fmupd (ident, ring) (st\<lparr>total := length new, included := 0\<rparr>)
                               (RingKeysStatus s1),
                             ActiveMembers := fmupd ident (get_or 0 (ActiveMembers s1) ident - suspended_count)
                               (ActiveMembers s1),
                             RingKeys := (if new = [] then fmdrop (ident, ring, 0) (RingKeys s1)
                                          else fmupd (ident, ring, 0) new (RingKeys s1))\<rparr>;
                     s3 = (case fmlookup (Root s2) (ident, ring) of
                             None \<Rightarrow> s2
                           | Some root \<Rightarrow>
                               s2\<lparr>Root := fmupd (ident, ring)
                                    \<lparr>rr_root = finish_members cfg (start_members cfg capacity),
                                     rr_revision = sat_add 32 (rr_revision root) 1,
                                     rr_intermediate = start_members cfg capacity\<rparr> (Root s2),
                                  OldRoots := fmupd (ident, ring, rr_revision root)
                                    \<lparr>or_root = rr_root root, archived_at = now\<rparr> (OldRoots s2)\<rparr>);
                     s4 = (if length new > 0 then s3\<lparr>StaleRings := fmupd (ident, ring) () (StaleRings s3)\<rparr> else s3)
                 in (s4\<lparr>PendingSuspensions := fmdrop (ident, ring) (PendingSuspensions s4)\<rparr>,
                     w_remove_suspended_keys cfg (length new)))))"

subsection \<open>Deletion\<close>

fun delete_page_members ::
  "coll_id \<Rightarrow> ring_index \<Rightarrow> page_index \<Rightarrow> 'm list \<Rightarrow> nat \<Rightarrow> (coll_id \<times> 'm, ring_position) storage_map
     \<Rightarrow> (coll_id \<times> 'm, ring_position) storage_map" where
  "delete_page_members ident ring page [] i m = m"
| "delete_page_members ident ring page (k # ks) i m =
     delete_page_members ident ring page ks (Suc i)
       (if fmlookup m (ident, k) = Some (Included ring page i) then fmdrop (ident, k) m else m)"

definition delete_ring_page ::
  "coll_id \<Rightarrow> ring_index \<Rightarrow> page_index \<Rightarrow> ('acc, 'loc, 'm, 'r, 'i) mst \<Rightarrow> ('acc, 'loc, 'm, 'r, 'i) mst \<times> nat" where
  "delete_ring_page ident ring page s =
     (let keys = key_page s ident ring page
      in (s\<lparr>Members := delete_page_members ident ring page keys 0 (Members s),
            RingKeys := fmdrop (ident, ring, page) (RingKeys s)\<rparr>, length keys))"

definition enqueue_ring_for_deletion ::
  "('acc, 'm, 'r, 'i, 'o, 'chunk, 'cap, 'proof) mcfg \<Rightarrow> secs \<Rightarrow> coll_id \<Rightarrow> ring_index
     \<Rightarrow> ('acc, 'loc, 'm, 'r, 'i) mst \<Rightarrow> ('acc, 'loc, 'm, 'r, 'i) mst \<times> nat" where
  "enqueue_ring_for_deletion cfg now ident ring s =
     (let (archived, s1) = archive_root now ident ring s;
          s2 = (if archived then on_ring_root_change ident ring Deleted s1 else s1);
          st = status_of s2 ident ring;
          s3 = s2\<lparr>StaleRings := fmdrop (ident, ring) (StaleRings s2),
                  PendingSuspensions := fmdrop (ident, ring) (PendingSuspensions s2),
                  RingKeysStatus := fmdrop (ident, ring) (RingKeysStatus s2)\<rparr>
      in if total st = 0 then (s3, 0)
         else (let page_size = flexible_ring_capacity cfg;
                   page_count = total st div page_size + (if total st mod page_size = 0 then 0 else 1)
               in (s3\<lparr>ActiveMembers := fmupd ident (get_or 0 (ActiveMembers s3) ident - total st) (ActiveMembers s3),
                      RingDeletionQueue := fold (\<lambda>p. fmupd (ident, ring, p) ()) [0..<page_count] (RingDeletionQueue s3)\<rparr>,
                   page_count)))"

definition delete_onboarding_queue_page ::
  "coll_id \<Rightarrow> page_index \<Rightarrow> ('acc, 'loc, 'm, 'r, 'i) mst \<Rightarrow> ('acc, 'loc, 'm, 'r, 'i) mst \<times> nat" where
  "delete_onboarding_queue_page ident page s =
     (let keys = queue_page_of s ident page
      in (s\<lparr>OnboardingQueue := fmdrop (ident, page) (OnboardingQueue s),
            Members := fold (\<lambda>k. fmdrop (ident, k)) keys (Members s)\<rparr>, length keys))"

definition finalize_collection_deletion ::
  "coll_id \<Rightarrow> ('acc, 'loc, 'm, 'r, 'i) mst \<Rightarrow> ('acc, 'loc, 'm, 'r, 'i) mst" where
  "finalize_collection_deletion ident s =
     (let maybe_owner = map_option ci_owner (fmlookup (SuspendedCollections s) ident);
          s1 = s\<lparr>SuspendedCollections := fmdrop ident (SuspendedCollections s),
                 CurrentRingIndex := fmdrop ident (CurrentRingIndex s),
                 OnboardingSize := fmdrop ident (OnboardingSize s),
                 ActiveMembers := fmdrop ident (ActiveMembers s),
                 RingsState := fmdrop ident (RingsState s),
                 QueuePageIndices := fmdrop ident (QueuePageIndices s)\<rparr>;
          s2 = (case maybe_owner of
                  None \<Rightarrow> s1
                | Some own \<Rightarrow>
                    (case fmlookup (IdentifiersOf s1) own of
                       None \<Rightarrow> s1
                     | Some ids \<Rightarrow>
                         s1\<lparr>IdentifiersOf := fmupd own (filter (\<lambda>i. i \<noteq> ident) ids) (IdentifiersOf s1)\<rparr>))
      in members_deposit (CollectionDeleted ident) s2)"

subsection \<open>Proofs of membership\<close>

definition ring_revision :: "coll_id \<Rightarrow> ring_index \<Rightarrow> ('acc, 'loc, 'm, 'r, 'i) mst \<Rightarrow> revision_index option" where
  "ring_revision ident ring s = map_option rr_revision (fmlookup (Root s) (ident, ring))"

definition get_root_at_revision ::
  "('acc, 'm, 'r, 'i, 'o, 'chunk, 'cap, 'proof) mcfg \<Rightarrow> secs \<Rightarrow> coll_id \<Rightarrow> ring_index \<Rightarrow> revision_index
     \<Rightarrow> ('acc, 'loc, 'm, 'r, 'i) mst \<Rightarrow> members_err + 'r" where
  "get_root_at_revision cfg now ident ring revision s =
     (let current_root = fmlookup (Root s) (ident, ring);
          current = (case current_root of
                       Some root \<Rightarrow> if rr_revision root = revision then Some (rr_root root) else None
                     | None \<Rightarrow> None)
      in case current of
           Some root \<Rightarrow> Inr root
         | None \<Rightarrow>
             bindE (ensure (current_root \<noteq> None) (Module NoRoot)) (\<lambda>_.
             bindE (ok_or (fmlookup (OldRoots s) (ident, ring, revision)) (Module NoRoot)) (\<lambda>old.
             if now < sat_add 64 (archived_at old) (old_root_retention_duration cfg)
             then Inr (or_root old) else Inl (Module NoRoot))))"

definition is_revision_valid ::
  "('acc, 'm, 'r, 'i, 'o, 'chunk, 'cap, 'proof) mcfg \<Rightarrow> secs \<Rightarrow> coll_id \<Rightarrow> ring_index \<Rightarrow> revision_index
     \<Rightarrow> ('acc, 'loc, 'm, 'r, 'i) mst \<Rightarrow> bool" where
  "is_revision_valid cfg now ident ring revision s =
     (if \<not> contains_key (Collections s) ident then False
      else (case fmlookup (Root s) (ident, ring) of
              None \<Rightarrow> False
            | Some root \<Rightarrow>
                if rr_revision root = revision then True
                else (case fmlookup (OldRoots s) (ident, ring, revision) of
                        None \<Rightarrow> False
                      | Some old \<Rightarrow> now < sat_add 64 (archived_at old) (old_root_retention_duration cfg))))"

definition revision_source_time ::
  "coll_id \<Rightarrow> ring_index \<Rightarrow> revision_index \<Rightarrow> ('acc, 'loc, 'm, 'r, 'i) mst \<Rightarrow> secs option" where
  "revision_source_time ident ring revision s = map_option archived_at (fmlookup (OldRoots s) (ident, ring, revision))"

definition verify_membership ::
  "('acc, 'm, 'r, 'i, 'o, 'chunk, 'cap, 'proof) mcfg \<Rightarrow> secs \<Rightarrow> coll_id \<Rightarrow> 'proof \<Rightarrow> ring_index
     \<Rightarrow> revision_index \<Rightarrow> context_id \<Rightarrow> bytes \<Rightarrow> ('acc, 'loc, 'm, 'r, 'i) mst \<Rightarrow> members_err + contextual_alias" where
  "verify_membership cfg now ident proof ring revision ctx msg s =
     bindE (ok_or (fmlookup (Collections s) ident) (Module CollectionNotFound)) (\<lambda>info.
     bindE (ok_or (to_capacity cfg (ci_ring_size info)) (Module InvalidRingExponent)) (\<lambda>capacity.
     bindE (get_root_at_revision cfg now ident ring revision s) (\<lambda>root.
     bindE (ok_or (crypto_validate cfg capacity proof root ctx msg) (Module InvalidProof)) (\<lambda>al.
     Inr \<lparr>ca_alias = al, ca_context = ctx\<rparr>))))"

text \<open>A batch item is a proof, its context and its message. A context must have 32 bytes.\<close>

definition verify_memberships_in_ring ::
  "('acc, 'm, 'r, 'i, 'o, 'chunk, 'cap, 'proof) mcfg \<Rightarrow> secs \<Rightarrow> coll_id \<Rightarrow> ring_index \<Rightarrow> revision_index
     \<Rightarrow> ('proof \<times> bytes \<times> bytes) list \<Rightarrow> ('acc, 'loc, 'm, 'r, 'i) mst \<Rightarrow> members_err + contextual_alias list" where
  "verify_memberships_in_ring cfg now ident ring revision items s =
     bindE (ok_or (fmlookup (Collections s) ident) (Module CollectionNotFound)) (\<lambda>info.
     bindE (ok_or (to_capacity cfg (ci_ring_size info)) (Module InvalidRingExponent)) (\<lambda>capacity.
     bindE (get_root_at_revision cfg now ident ring revision s) (\<lambda>root.
     bindE (ok_or (crypto_batch_validate cfg (map (\<lambda>(p, c, m). (p, capacity, root, c, m)) items)) (Module InvalidProof)) (\<lambda>als.
     let pairs = zip als (map (fst \<circ> snd) items) in
     bindE (ensure (\<forall>(_, c) \<in> set pairs. length c = 32) (Module InvalidProof)) (\<lambda>_.
     Inr (map (\<lambda>(al, c). \<lparr>ca_alias = al, ca_context = c\<rparr>) pairs))))))"

definition verify_membership_multi_context ::
  "('acc, 'm, 'r, 'i, 'o, 'chunk, 'cap, 'proof) mcfg \<Rightarrow> secs \<Rightarrow> coll_id \<Rightarrow> 'proof \<Rightarrow> ring_index
     \<Rightarrow> revision_index \<Rightarrow> context_id list \<Rightarrow> bytes \<Rightarrow> ('acc, 'loc, 'm, 'r, 'i) mst
     \<Rightarrow> members_err + contextual_alias list" where
  "verify_membership_multi_context cfg now ident proof ring revision ctxs msg s =
     bindE (ok_or (fmlookup (Collections s) ident) (Module CollectionNotFound)) (\<lambda>info.
     bindE (ok_or (to_capacity cfg (ci_ring_size info)) (Module InvalidRingExponent)) (\<lambda>capacity.
     bindE (get_root_at_revision cfg now ident ring revision s) (\<lambda>root.
     bindE (ok_or (crypto_validate_multi cfg capacity proof root ctxs msg) (Module InvalidProof)) (\<lambda>als.
     Inr (map (\<lambda>(al, c). \<lparr>ca_alias = al, ca_context = c\<rparr>) (zip als ctxs))))))"

end
