(* ===== verification/Members_Calls.thy ===== *)
theory Members_Calls
  imports Members_Ops
begin

text \<open>
  The calls of \<^verbatim>\<open>pallets/members/src/lib.rs\<close>: the extrinsics with their \<open>authorize\<close> functions, the
  traits \<open>AppendOnlyMembers\<close>, \<open>FlexibleMembers\<close> and \<open>RingRootsProvider\<close> through which other pallets
  use it, and the offchain worker.
\<close>

type_synonym ('acc, 'loc, 'm, 'r, 'i) members_result =
  "members_err + ('acc, 'loc, 'm, 'r, 'i) mst \<times> post_info"

subsection \<open>Signed calls\<close>

text \<open>\<open>merge_rings\<close> moves the keys of page 0 of the target ring to the end of page 0 of the base ring.\<close>

fun merge_keys ::
  "nat \<Rightarrow> coll_id \<Rightarrow> ring_index \<Rightarrow> 'm list \<Rightarrow> 'm list \<Rightarrow> ('acc, 'loc, 'm, 'r, 'i) mst
     \<Rightarrow> members_err + 'm list \<times> ('acc, 'loc, 'm, 'r, 'i) mst" where
  "merge_keys page_size ident base [] base_keys s = Inr (base_keys, s)"
| "merge_keys page_size ident base (k # ks) base_keys s =
     bindE (ensure (contains_key (Members s) (ident, k)) (Module NotMember)) (\<lambda>_.
       let s1 = s\<lparr>Members := fmupd (ident, k) (Included base 0 (length base_keys)) (Members s)\<rparr> in
     bindE (ok_or (try_push page_size base_keys k) (Module TooManyMembers)) (\<lambda>base_keys'.
       merge_keys page_size ident base ks base_keys' s1))"

definition merge_rings ::
  "('acc, 'm, 'r, 'i, 'o, 'chunk, 'cap, 'proof) mcfg \<Rightarrow> secs \<Rightarrow> 'o \<Rightarrow> coll_id \<Rightarrow> ring_index \<Rightarrow> ring_index
     \<Rightarrow> ('acc, 'loc, 'm, 'r, 'i) mst \<Rightarrow> ('acc, 'loc, 'm, 'r, 'i) members_result" where
  "merge_rings cfg now origin ident base target s =
     bindE (ok_or (m_signed cfg origin) BadOrigin) (\<lambda>_.
     bindE (ok_or (fmlookup (Collections s) ident) (Module CollectionNotFound)) (\<lambda>info.
     let max_ring_size = ring_capacity cfg (ci_ring_size info) in
     bindE (ensure (ci_mode info = Flexible) (Module CollectionNotFlexible)) (\<lambda>_.
     bindE (ensure (append_only (rings_mode s ident)) (Module RemovalSessionInProgress)) (\<lambda>_.
     let current = current_ring s ident in
     bindE (ensure (base \<noteq> target \<and> base \<noteq> current \<and> target \<noteq> current) (Module InvalidRing)) (\<lambda>_.
     let (base_keys, base_status) = ring_paged_keys_and_info ident base 0 s in
     bindE (ensure (base_keys \<noteq> []) (Module InvalidRing)) (\<lambda>_.
     bindE (ensure (length base_keys < max_ring_size div 2) (Module RingAboveMergeThreshold)) (\<lambda>_.
     bindE (ensure (length (pending_of s ident base) = 0) (Module SuspensionsPending)) (\<lambda>_.
     let target_keys = key_page s ident target 0 in
     bindE (ensure (target_keys \<noteq> []) (Module InvalidRing)) (\<lambda>_.
     bindE (ensure (length target_keys < max_ring_size div 2) (Module RingAboveMergeThreshold)) (\<lambda>_.
     bindE (ensure (length (pending_of s ident target) = 0) (Module SuspensionsPending)) (\<lambda>_.
     let base_status' = base_status\<lparr>total := sat_add 32 (total base_status) (length target_keys)\<rparr> in
     bindE (merge_keys (flexible_ring_capacity cfg) ident base target_keys base_keys s) (\<lambda>(base_keys', s1).
     let s2 = s1\<lparr>RingKeys := fmupd (ident, base, 0) base_keys' (RingKeys s1),
                 RingKeysStatus := fmupd (ident, base) base_status' (RingKeysStatus s1)\<rparr>;
         (archived, s3) = archive_root now ident target s2;
         s4 = (if archived then on_ring_root_change ident target Deleted s3 else s3);
         s5 = s4\<lparr>StaleRings := fmdrop (ident, target) (fmupd (ident, base) () (StaleRings s4)),
                 RingKeys := fmdrop (ident, target, 0) (RingKeys s4),
                 RingKeysStatus := fmdrop (ident, target) (RingKeysStatus s4)\<rparr>
     in Inr (members_deposit (RingsMerged ident base target) s5, pays_info Pays_No)))))))))))))"

definition set_onboarding_size ::
  "('acc, 'm, 'r, 'i, 'o, 'chunk, 'cap, 'proof) mcfg \<Rightarrow> 'o \<Rightarrow> coll_id \<Rightarrow> nat
     \<Rightarrow> ('acc, 'loc, 'm, 'r, 'i) mst \<Rightarrow> ('acc, 'loc, 'm, 'r, 'i) members_result" where
  "set_onboarding_size cfg origin ident onboarding_size s =
     bindE (ensure (manager_or_root cfg origin) BadOrigin) (\<lambda>_.
     bindE (ok_or (fmlookup (Collections s) ident) (Module CollectionNotFound)) (\<lambda>info.
     bindE (ensure (onboarding_size \<le> ring_capacity cfg (ci_ring_size info)) (Module InvalidOnboardingSize)) (\<lambda>_.
     Inr (members_deposit (OnboardingSizeSet ident onboarding_size)
            (s\<lparr>OnboardingSize := fmupd ident onboarding_size (OnboardingSize s)\<rparr>), pays_info Pays_No))))"

definition self_include ::
  "('acc, 'm, 'r, 'i, 'o, 'chunk, 'cap, 'proof) mcfg \<Rightarrow> 'o \<Rightarrow> coll_id \<Rightarrow> 'm \<Rightarrow> secs
     \<Rightarrow> ('acc, 'loc, 'm, 'r, 'i) mst \<Rightarrow> ('acc, 'loc, 'm, 'r, 'i) members_result" where
  "self_include cfg origin ident member call_valid_at s =
     bindE (case as_members_origin cfg origin of Some (SelfInclude m) \<Rightarrow> Inr m | _ \<Rightarrow> Inl BadOrigin) (\<lambda>origin_member.
     bindE (ensure (origin_member = member) (Module NotMember)) (\<lambda>_.
     bindE (do_self_include cfg ident member s) (\<lambda>s1.
     Inr (members_deposit (MemberSelfIncluded ident member) s1, pays_info Pays_No))))"

subsection \<open>Authorized calls\<close>

definition build_ring_authorized ::
  "('acc, 'm, 'r, 'i, 'o, 'chunk, 'cap, 'proof) mcfg \<Rightarrow> secs \<Rightarrow> 'o \<Rightarrow> coll_id \<Rightarrow> ring_index \<Rightarrow> ring_exponent
     \<Rightarrow> revision_index option \<Rightarrow> nat \<Rightarrow> nat \<Rightarrow> ('acc, 'loc, 'm, 'r, 'i) mst \<Rightarrow> ('acc, 'loc, 'm, 'r, 'i) members_result" where
  "build_ring_authorized cfg now origin ident ring exp revision to_include discriminator s =
     bindE (ensure (m_authorized cfg origin) BadOrigin) (\<lambda>_.
     bindE (build_ring cfg now ident ring to_include s) (\<lambda>s1. Inr (s1, pays_info Pays_No)))"

definition onboard_members_authorized ::
  "('acc, 'm, 'r, 'i, 'o, 'chunk, 'cap, 'proof) mcfg \<Rightarrow> 'o \<Rightarrow> coll_id \<Rightarrow> ring_index \<Rightarrow> page_index \<Rightarrow> 'm option
     \<Rightarrow> nat \<Rightarrow> ('acc, 'loc, 'm, 'r, 'i) mst \<Rightarrow> ('acc, 'loc, 'm, 'r, 'i) members_result" where
  "onboard_members_authorized cfg origin ident ring head first_member discriminator s =
     bindE (ensure (m_authorized cfg origin) BadOrigin) (\<lambda>_.
     bindE (onboard_members cfg ident True s) (\<lambda>(s1, _). Inr (s1, pays_info Pays_No)))"

definition merge_queue_pages_authorized ::
  "('acc, 'm, 'r, 'i, 'o, 'chunk, 'cap, 'proof) mcfg \<Rightarrow> 'o \<Rightarrow> coll_id \<Rightarrow> page_index \<Rightarrow> page_index
     \<Rightarrow> ('acc, 'loc, 'm, 'r, 'i) mst \<Rightarrow> ('acc, 'loc, 'm, 'r, 'i) members_result" where
  "merge_queue_pages_authorized cfg origin ident initial_head new_head s =
     bindE (ensure (m_authorized cfg origin) BadOrigin) (\<lambda>_.
     bindE (merge_queue_pages cfg ident initial_head new_head (queue_page_of s ident initial_head)
              (queue_page_of s ident new_head) s) (\<lambda>s1. Inr (s1, pays_info Pays_No)))"

definition remove_suspended_keys_authorized ::
  "('acc, 'm, 'r, 'i, 'o, 'chunk, 'cap, 'proof) mcfg \<Rightarrow> secs \<Rightarrow> 'o \<Rightarrow> coll_id \<Rightarrow> ring_index
     \<Rightarrow> revision_index option \<Rightarrow> nat \<Rightarrow> ('acc, 'loc, 'm, 'r, 'i) mst \<Rightarrow> ('acc, 'loc, 'm, 'r, 'i) members_result" where
  "remove_suspended_keys_authorized cfg now origin ident ring revision discriminator s =
     bindE (ensure (m_authorized cfg origin) BadOrigin) (\<lambda>_.
       let (s1, w) = remove_suspended_keys cfg now ident ring s
       in Inr (s1, \<lparr>actual_weight = Some w, pays_fee = Pays_No\<rparr>))"

definition delete_ring_page_authorized ::
  "('acc, 'm, 'r, 'i, 'o, 'chunk, 'cap, 'proof) mcfg \<Rightarrow> 'o \<Rightarrow> coll_id \<Rightarrow> ring_index \<Rightarrow> page_index
     \<Rightarrow> ('acc, 'loc, 'm, 'r, 'i) mst \<Rightarrow> ('acc, 'loc, 'm, 'r, 'i) members_result" where
  "delete_ring_page_authorized cfg origin ident ring page s =
     bindE (ensure (m_authorized cfg origin) BadOrigin) (\<lambda>_.
       let (s1, page_len) = delete_ring_page ident ring page
             (s\<lparr>RingDeletionQueue := fmdrop (ident, ring, page) (RingDeletionQueue s)\<rparr>)
       in Inr (s1, \<lparr>actual_weight = Some (w_delete_ring_page cfg page_len), pays_fee = Pays_No\<rparr>))"

definition enqueue_ring_deletion_authorized ::
  "('acc, 'm, 'r, 'i, 'o, 'chunk, 'cap, 'proof) mcfg \<Rightarrow> secs \<Rightarrow> 'o \<Rightarrow> coll_id \<Rightarrow> ring_index
     \<Rightarrow> ('acc, 'loc, 'm, 'r, 'i) mst \<Rightarrow> ('acc, 'loc, 'm, 'r, 'i) members_result" where
  "enqueue_ring_deletion_authorized cfg now origin ident ring s =
     bindE (ensure (m_authorized cfg origin) BadOrigin) (\<lambda>_.
       let (s1, page_count) = enqueue_ring_for_deletion cfg now ident ring s
       in Inr (s1, \<lparr>actual_weight = Some (w_enqueue_ring_deletion cfg page_count), pays_fee = Pays_Yes\<rparr>))"

definition delete_onboarding_queue_page_authorized ::
  "('acc, 'm, 'r, 'i, 'o, 'chunk, 'cap, 'proof) mcfg \<Rightarrow> 'o \<Rightarrow> coll_id \<Rightarrow> page_index
     \<Rightarrow> ('acc, 'loc, 'm, 'r, 'i) mst \<Rightarrow> ('acc, 'loc, 'm, 'r, 'i) members_result" where
  "delete_onboarding_queue_page_authorized cfg origin ident page s =
     bindE (ensure (m_authorized cfg origin) BadOrigin) (\<lambda>_.
       let (s1, page_len) = delete_onboarding_queue_page ident page s
       in Inr (s1, \<lparr>actual_weight = Some (w_delete_queue_page cfg page_len), pays_fee = Pays_Yes\<rparr>))"

definition finalize_collection_deletion_authorized ::
  "('acc, 'm, 'r, 'i, 'o, 'chunk, 'cap, 'proof) mcfg \<Rightarrow> 'o \<Rightarrow> coll_id
     \<Rightarrow> ('acc, 'loc, 'm, 'r, 'i) mst \<Rightarrow> ('acc, 'loc, 'm, 'r, 'i) members_result" where
  "finalize_collection_deletion_authorized cfg origin ident s =
     bindE (ensure (m_authorized cfg origin) BadOrigin) (\<lambda>_.
     Inr (finalize_collection_deletion ident s,
          \<lparr>actual_weight = Some (w_finalize_deletion cfg), pays_fee = Pays_Yes\<rparr>))"

text \<open>\<open>order\<close> is the order in which the storage prefix of the collection is iterated.\<close>

definition remove_orphaned_members_authorized ::
  "('acc, 'm, 'r, 'i, 'o, 'chunk, 'cap, 'proof) mcfg \<Rightarrow> 'o \<Rightarrow> coll_id \<Rightarrow> 'm list
     \<Rightarrow> ('acc, 'loc, 'm, 'r, 'i) mst \<Rightarrow> ('acc, 'loc, 'm, 'r, 'i) members_result" where
  "remove_orphaned_members_authorized cfg origin ident order s =
     bindE (ensure (m_authorized cfg origin) BadOrigin) (\<lambda>_.
       let drained = take ORPHANED_MEMBERS_REMOVAL_LIMIT order
       in Inr (s\<lparr>Members := fold (\<lambda>k. fmdrop (ident, k)) drained (Members s)\<rparr>,
               \<lparr>actual_weight = Some (w_remove_orphaned cfg (length drained)), pays_fee = Pays_Yes\<rparr>))"

definition mark_ring_stale_authorized ::
  "('acc, 'm, 'r, 'i, 'o, 'chunk, 'cap, 'proof) mcfg \<Rightarrow> 'o \<Rightarrow> coll_id \<Rightarrow> ring_index
     \<Rightarrow> ('acc, 'loc, 'm, 'r, 'i) mst \<Rightarrow> ('acc, 'loc, 'm, 'r, 'i) members_result" where
  "mark_ring_stale_authorized cfg origin ident ring s =
     bindE (ensure (m_authorized cfg origin) BadOrigin) (\<lambda>_.
     Inr (s\<lparr>StaleRings := fmupd (ident, ring) () (StaleRings s)\<rparr>,
          \<lparr>actual_weight = Some (w_mark_ring_stale cfg), pays_fee = Pays_Yes\<rparr>))"

text \<open>The first entry of \<open>OldRoots\<close> of a ring in iteration order: the smallest revision.\<close>

definition old_revisions :: "coll_id \<Rightarrow> ring_index \<Rightarrow> ('acc, 'loc, 'm, 'r, 'i) mst \<Rightarrow> revision_index set" where
  "old_revisions ident ring s =
     (\<lambda>(_, _, rv). rv) ` Set.filter (\<lambda>(i, r, _). i = ident \<and> r = ring) (fmdom' (OldRoots s))"

definition first_old_root ::
  "coll_id \<Rightarrow> ring_index \<Rightarrow> ('acc, 'loc, 'm, 'r, 'i) mst \<Rightarrow> (revision_index \<times> 'r old_root) option" where
  "first_old_root ident ring s =
     (if old_revisions ident ring s = {} then None
      else (let rv = Min (old_revisions ident ring s)
            in map_option (Pair rv) (fmlookup (OldRoots s) (ident, ring, rv))))"

fun clean_up_loop ::
  "secs \<Rightarrow> secs \<Rightarrow> coll_id \<Rightarrow> ring_index \<Rightarrow> nat \<Rightarrow> nat \<Rightarrow> ('acc, 'loc, 'm, 'r, 'i) mst
     \<Rightarrow> ('acc, 'loc, 'm, 'r, 'i) mst \<times> nat" where
  "clean_up_loop now retention ident ring 0 removed s = (s, removed)"
| "clean_up_loop now retention ident ring (Suc n) removed s =
     (case first_old_root ident ring s of
        None \<Rightarrow> (s, removed)
      | Some (rv, old) \<Rightarrow>
          if now < sat_add 64 (archived_at old) retention then (s, removed)
          else clean_up_loop now retention ident ring n (sat_add 32 removed 1)
                 (members_deposit (OldRootCleanedUp ident ring rv)
                    (s\<lparr>OldRoots := fmdrop (ident, ring, rv) (OldRoots s)\<rparr>)))"

definition clean_up_old_roots_authorized ::
  "('acc, 'm, 'r, 'i, 'o, 'chunk, 'cap, 'proof) mcfg \<Rightarrow> secs \<Rightarrow> 'o \<Rightarrow> coll_id \<Rightarrow> ring_index \<Rightarrow> nat
     \<Rightarrow> ('acc, 'loc, 'm, 'r, 'i) mst \<Rightarrow> ('acc, 'loc, 'm, 'r, 'i) members_result" where
  "clean_up_old_roots_authorized cfg now origin ident ring limit s =
     bindE (ensure (m_authorized cfg origin) BadOrigin) (\<lambda>_.
       let (s1, removed) = clean_up_loop now (old_root_retention_duration cfg) ident ring limit 0 s
       in Inr (s1, \<lparr>actual_weight = Some (w_clean_up_old_roots cfg removed), pays_fee = Pays_No\<rparr>))"

subsection \<open>Validation of the authorized calls\<close>

text \<open>
  Each validation returns the transaction validity or the reason it is invalid. The weight that every
  one of them returns is a constant and left out; \<open>ensure_can_build_ring\<close> also returns the tag it requires.
\<close>

definition local_source :: "transaction_source \<Rightarrow> invalid_transaction + unit" where
  "local_source src =
     ensure (src = InBlock \<or> src = Local) (InvalidCustom (authorize_invalidity_code TransactionNotLocal))"

definition ensure_can_build_ring ::
  "('acc, 'm, 'r, 'i, 'o, 'chunk, 'cap, 'proof) mcfg \<Rightarrow> coll_id \<Rightarrow> ring_index \<Rightarrow> ring_exponent
     \<Rightarrow> revision_index option \<Rightarrow> nat \<Rightarrow> ('acc, 'loc, 'm, 'r, 'i) mst
     \<Rightarrow> invalid_transaction + (coll_id \<times> ring_index \<times> revision_index option) valid_transaction
          \<times> (coll_id \<times> ring_index \<times> revision_index option) option" where
  "ensure_can_build_ring cfg ident ring exp revision to_include s =
     bindE (ok_or (fmlookup (Collections s) ident) InvalidStale) (\<lambda>info.
     bindE (ensure (ci_ring_size info = exp) InvalidStale) (\<lambda>_.
     let current = ring_revision ident ring s in
     bindE (ensure (\<not> revision < current) InvalidStale) (\<lambda>_.
     bindE (ok_or (should_build_ring ident ring (ring_building_member_limit cfg) s) InvalidStale) (\<lambda>pending.
     bindE (ensure (to_include \<noteq> 0 \<and> to_include \<le> pending) InvalidStale) (\<lambda>_.
     Inr (\<lparr>tag_prefix = ''members:build-ring'', provides = (ident, ring, revision), propagate = False,
           longevity = None, priority = sat_add 64 PROTOCOL_LIVENESS to_include\<rparr>,
          if revision > current
          then Some (ident, ring, (case revision of Some (Suc n) \<Rightarrow> Some n | _ \<Rightarrow> None))
          else None))))))"

definition can_onboard_members ::
  "('acc, 'm, 'r, 'i, 'o, 'chunk, 'cap, 'proof) mcfg \<Rightarrow> coll_id \<Rightarrow> ring_index \<Rightarrow> page_index
     \<Rightarrow> ('acc, 'loc, 'm, 'r, 'i) mst \<Rightarrow> bool" where
  "can_onboard_members cfg ident ring head s =
     (case fmlookup (Collections s) ident of
        None \<Rightarrow> False
      | Some info \<Rightarrow>
          (let max_ring_size = ring_capacity cfg (ci_ring_size info);
               st = status_of s ident ring;
               open_slots = max_ring_size - total st;
               first_page_len = length (queue_page_of s ident head);
               tail = snd (queue_ends s ident);
               available = (if first_page_len < open_slots \<and> head \<noteq> tail
                            then sat_add 32 first_page_len (length (queue_page_of s ident (next_page head)))
                            else first_page_len)
           in should_onboard_members ident ring st open_slots available
                (get_or 0 (OnboardingSize s) ident) max_ring_size s \<noteq> None))"

definition first_key :: "'m list \<Rightarrow> 'm option" where
  "first_key ks = (case ks of [] \<Rightarrow> None | k # _ \<Rightarrow> Some k)"

definition ensure_can_onboard_members ::
  "('acc, 'm, 'r, 'i, 'o, 'chunk, 'cap, 'proof) mcfg \<Rightarrow> coll_id \<Rightarrow> ring_index \<Rightarrow> page_index \<Rightarrow> 'm option
     \<Rightarrow> ('acc, 'loc, 'm, 'r, 'i) mst
     \<Rightarrow> invalid_transaction + (coll_id \<times> ring_index \<times> page_index \<times> 'm option) valid_transaction" where
  "ensure_can_onboard_members cfg ident ring head first_member s =
     bindE (ensure (ring = current_ring s ident) InvalidStale) (\<lambda>_.
     bindE (ensure (head = fst (queue_ends s ident)) InvalidStale) (\<lambda>_.
     bindE (ensure (can_onboard_members cfg ident ring head s) InvalidStale) (\<lambda>_.
     bindE (ensure (first_member = first_key (queue_page_of s ident head)) InvalidStale) (\<lambda>_.
     Inr \<lparr>tag_prefix = ''members:onboard-members'', provides = (ident, ring, head, first_member),
          propagate = False, longevity = None, priority = PROTOCOL_LIVENESS\<rparr>))))"

definition ensure_can_merge_queue_pages ::
  "('acc, 'm, 'r, 'i, 'o, 'chunk, 'cap, 'proof) mcfg \<Rightarrow> coll_id \<Rightarrow> page_index \<Rightarrow> page_index
     \<Rightarrow> ('acc, 'loc, 'm, 'r, 'i) mst
     \<Rightarrow> invalid_transaction + (coll_id \<times> page_index \<times> page_index) valid_transaction" where
  "ensure_can_merge_queue_pages cfg ident initial_head new_head s =
     bindE (ensure (case should_merge_queue_pages cfg ident s of
                      Merge h n _ _ \<Rightarrow> initial_head = h \<and> new_head = n
                    | NoAction \<Rightarrow> False) InvalidStale) (\<lambda>_.
     Inr \<lparr>tag_prefix = ''members:merge-queue-pages'', provides = (ident, initial_head, new_head),
          propagate = False, longevity = None, priority = PROTOCOL_LIVENESS\<rparr>)"

definition ensure_can_remove_suspended_keys ::
  "coll_id \<Rightarrow> ring_index \<Rightarrow> revision_index option \<Rightarrow> ('acc, 'loc, 'm, 'r, 'i) mst
     \<Rightarrow> invalid_transaction + (coll_id \<times> ring_index \<times> revision_index option) valid_transaction" where
  "ensure_can_remove_suspended_keys ident ring revision s =
     bindE (ensure (should_remove_suspended_keys ident ring True s) InvalidStale) (\<lambda>_.
     let current = ring_revision ident ring s in
     bindE (ensure (\<not> revision < current) InvalidStale) (\<lambda>_.
     bindE (ensure (\<not> revision > current) InvalidFuture) (\<lambda>_.
     Inr \<lparr>tag_prefix = ''members:remove-suspended-keys'', provides = (ident, ring, revision),
          propagate = False, longevity = None, priority = PROTOCOL_LIVENESS\<rparr>)))"

definition ensure_can_delete_ring_page ::
  "coll_id \<Rightarrow> ring_index \<Rightarrow> page_index \<Rightarrow> ('acc, 'loc, 'm, 'r, 'i) mst
     \<Rightarrow> invalid_transaction + (coll_id \<times> ring_index \<times> page_index) valid_transaction" where
  "ensure_can_delete_ring_page ident ring page s =
     bindE (ensure (contains_key (RingDeletionQueue s) (ident, ring, page)) InvalidStale) (\<lambda>_.
     Inr \<lparr>tag_prefix = ''members:delete-ring-page'', provides = (ident, ring, page),
          propagate = False, longevity = None, priority = BACKGROUND_PROGRESS\<rparr>)"

definition ensure_can_enqueue_ring_deletion ::
  "coll_id \<Rightarrow> ring_index \<Rightarrow> ('acc, 'loc, 'm, 'r, 'i) mst
     \<Rightarrow> invalid_transaction + (coll_id \<times> ring_index) valid_transaction" where
  "ensure_can_enqueue_ring_deletion ident ring s =
     bindE (ensure (contains_key (SuspendedCollections s) ident) InvalidStale) (\<lambda>_.
     bindE (ensure (contains_key (RingKeysStatus s) (ident, ring)) InvalidStale) (\<lambda>_.
     Inr \<lparr>tag_prefix = ''members:enqueue-ring-deletion'', provides = (ident, ring),
          propagate = False, longevity = None, priority = BACKGROUND_PROGRESS\<rparr>))"

text \<open>A storage prefix of a collection is empty.\<close>

definition no_status :: "coll_id \<Rightarrow> ('acc, 'loc, 'm, 'r, 'i) mst \<Rightarrow> bool" where
  "no_status ident s \<longleftrightarrow> fBall (fmdom (RingKeysStatus s)) (\<lambda>(i, _). i \<noteq> ident)"

definition no_deletions :: "coll_id \<Rightarrow> ('acc, 'loc, 'm, 'r, 'i) mst \<Rightarrow> bool" where
  "no_deletions ident s \<longleftrightarrow> fBall (fmdom (RingDeletionQueue s)) (\<lambda>(i, _). i \<noteq> ident)"

definition no_queue :: "coll_id \<Rightarrow> ('acc, 'loc, 'm, 'r, 'i) mst \<Rightarrow> bool" where
  "no_queue ident s \<longleftrightarrow> fBall (fmdom (OnboardingQueue s)) (\<lambda>(i, _). i \<noteq> ident)"

definition no_members :: "coll_id \<Rightarrow> ('acc, 'loc, 'm, 'r, 'i) mst \<Rightarrow> bool" where
  "no_members ident s \<longleftrightarrow> fBall (fmdom (Members s)) (\<lambda>(i, _). i \<noteq> ident)"

definition ensure_can_delete_onboarding_queue_page ::
  "coll_id \<Rightarrow> page_index \<Rightarrow> ('acc, 'loc, 'm, 'r, 'i) mst
     \<Rightarrow> invalid_transaction + (coll_id \<times> page_index) valid_transaction" where
  "ensure_can_delete_onboarding_queue_page ident page s =
     bindE (ensure (contains_key (SuspendedCollections s) ident) InvalidStale) (\<lambda>_.
     bindE (ensure (no_status ident s) InvalidFuture) (\<lambda>_.
     bindE (ensure (no_deletions ident s) InvalidFuture) (\<lambda>_.
     bindE (ensure (contains_key (OnboardingQueue s) (ident, page)) InvalidStale) (\<lambda>_.
     Inr \<lparr>tag_prefix = ''members:delete-onboarding-queue-page'', provides = (ident, page),
          propagate = False, longevity = None, priority = BACKGROUND_PROGRESS\<rparr>))))"

definition ensure_can_finalize_collection_deletion ::
  "coll_id \<Rightarrow> ('acc, 'loc, 'm, 'r, 'i) mst \<Rightarrow> invalid_transaction + coll_id valid_transaction" where
  "ensure_can_finalize_collection_deletion ident s =
     bindE (ensure (contains_key (SuspendedCollections s) ident) InvalidStale) (\<lambda>_.
     bindE (ensure (no_status ident s) InvalidFuture) (\<lambda>_.
     bindE (ensure (no_deletions ident s) InvalidFuture) (\<lambda>_.
     bindE (ensure (no_queue ident s) InvalidFuture) (\<lambda>_.
     bindE (ensure (no_members ident s) InvalidFuture) (\<lambda>_.
     Inr \<lparr>tag_prefix = ''members:finalize-collection-deletion'', provides = ident,
          propagate = False, longevity = None, priority = BACKGROUND_PROGRESS\<rparr>)))))"

definition ensure_can_remove_orphaned_members ::
  "coll_id \<Rightarrow> ('acc, 'loc, 'm, 'r, 'i) mst \<Rightarrow> invalid_transaction + coll_id valid_transaction" where
  "ensure_can_remove_orphaned_members ident s =
     bindE (ensure (contains_key (SuspendedCollections s) ident) InvalidStale) (\<lambda>_.
     bindE (ensure (no_status ident s) InvalidFuture) (\<lambda>_.
     bindE (ensure (no_deletions ident s) InvalidFuture) (\<lambda>_.
     bindE (ensure (no_queue ident s) InvalidFuture) (\<lambda>_.
     bindE (ensure (\<not> no_members ident s) InvalidStale) (\<lambda>_.
     Inr \<lparr>tag_prefix = ''members:remove-orphaned-members'', provides = ident,
          propagate = False, longevity = None, priority = CLEANUP\<rparr>)))))"

definition ensure_can_mark_ring_stale ::
  "coll_id \<Rightarrow> ring_index \<Rightarrow> ('acc, 'loc, 'm, 'r, 'i) mst
     \<Rightarrow> invalid_transaction + (coll_id \<times> ring_index) valid_transaction" where
  "ensure_can_mark_ring_stale ident ring s =
     bindE (ensure (\<not> contains_key (SuspendedCollections s) ident) InvalidStale) (\<lambda>_.
     bindE (ensure (\<not> contains_key (StaleRings s) (ident, ring)) InvalidStale) (\<lambda>_.
     bindE (ensure (\<not> total (status_of s ident ring) \<le> included (status_of s ident ring)) InvalidStale) (\<lambda>_.
     Inr \<lparr>tag_prefix = ''members:mark-ring-stale'', provides = (ident, ring),
          propagate = True, longevity = None, priority = BACKGROUND_PROGRESS\<rparr>)))"

definition ensure_can_clean_up_old_roots ::
  "('acc, 'm, 'r, 'i, 'o, 'chunk, 'cap, 'proof) mcfg \<Rightarrow> secs \<Rightarrow> coll_id \<Rightarrow> ring_index
     \<Rightarrow> ('acc, 'loc, 'm, 'r, 'i) mst
     \<Rightarrow> invalid_transaction + (coll_id \<times> ring_index \<times> revision_index) valid_transaction" where
  "ensure_can_clean_up_old_roots cfg now ident ring s =
     (case first_old_root ident ring s of
        None \<Rightarrow> Inl (if contains_key (RingKeysStatus s) (ident, ring) then InvalidFuture else InvalidStale)
      | Some (first_rev, old) \<Rightarrow>
          bindE (ensure (\<not> now < sat_add 64 (archived_at old) (old_root_retention_duration cfg)) InvalidFuture) (\<lambda>_.
          Inr \<lparr>tag_prefix = ''members:clean-up-old-roots'', provides = (ident, ring, first_rev),
               propagate = False, longevity = None, priority = CLEANUP\<rparr>))"

text \<open>
  The authorized calls with their arguments, without the discriminator, which only tells apart
  transactions with otherwise equal arguments.
\<close>

datatype 'm members_call =
  CallBuildRing coll_id ring_index ring_exponent "revision_index option" nat
| CallOnboardMembers coll_id ring_index page_index "'m option"
| CallMergeQueuePages coll_id page_index page_index
| CallRemoveSuspendedKeys coll_id ring_index "revision_index option"
| CallDeleteRingPage coll_id ring_index page_index
| CallEnqueueRingDeletion coll_id ring_index
| CallDeleteOnboardingQueuePage coll_id page_index
| CallFinalizeCollectionDeletion coll_id
| CallRemoveOrphanedMembers coll_id
| CallMarkRingStale coll_id ring_index
| CallCleanUpOldRoots coll_id ring_index nat

definition authorize_members_call ::
  "('acc, 'm, 'r, 'i, 'o, 'chunk, 'cap, 'proof) mcfg \<Rightarrow> secs \<Rightarrow> transaction_source \<Rightarrow> 'm members_call
     \<Rightarrow> ('acc, 'loc, 'm, 'r, 'i) mst \<Rightarrow> bool" where
  "authorize_members_call cfg now src call s =
     (case call of
        CallBuildRing i r e rv n \<Rightarrow> is_ok (local_source src) \<and> is_ok (ensure_can_build_ring cfg i r e rv n s)
      | CallOnboardMembers i r h m \<Rightarrow> is_ok (local_source src) \<and> is_ok (ensure_can_onboard_members cfg i r h m s)
      | CallMergeQueuePages i h n \<Rightarrow> is_ok (local_source src) \<and> is_ok (ensure_can_merge_queue_pages cfg i h n s)
      | CallRemoveSuspendedKeys i r rv \<Rightarrow>
          is_ok (local_source src) \<and> is_ok (ensure_can_remove_suspended_keys i r rv s)
      | CallDeleteRingPage i r p \<Rightarrow> is_ok (local_source src) \<and> is_ok (ensure_can_delete_ring_page i r p s)
      | CallEnqueueRingDeletion i r \<Rightarrow> is_ok (local_source src) \<and> is_ok (ensure_can_enqueue_ring_deletion i r s)
      | CallDeleteOnboardingQueuePage i p \<Rightarrow>
          is_ok (local_source src) \<and> is_ok (ensure_can_delete_onboarding_queue_page i p s)
      | CallFinalizeCollectionDeletion i \<Rightarrow>
          is_ok (local_source src) \<and> is_ok (ensure_can_finalize_collection_deletion i s)
      | CallRemoveOrphanedMembers i \<Rightarrow> is_ok (local_source src) \<and> is_ok (ensure_can_remove_orphaned_members i s)
      | CallMarkRingStale i r \<Rightarrow> is_ok (ensure_can_mark_ring_stale i r s)
      | CallCleanUpOldRoots i r n \<Rightarrow> is_ok (local_source src) \<and> is_ok (ensure_can_clean_up_old_roots cfg now i r s))"

definition dispatch_members_call ::
  "('acc, 'm, 'r, 'i, 'o, 'chunk, 'cap, 'proof) mcfg \<Rightarrow> secs \<Rightarrow> 'o \<Rightarrow> 'm list \<Rightarrow> nat \<Rightarrow> 'm members_call
     \<Rightarrow> ('acc, 'loc, 'm, 'r, 'i) mst \<Rightarrow> ('acc, 'loc, 'm, 'r, 'i) members_result" where
  "dispatch_members_call cfg now origin order discriminator call s =
     (case call of
        CallBuildRing i r e rv n \<Rightarrow> build_ring_authorized cfg now origin i r e rv n discriminator s
      | CallOnboardMembers i r h m \<Rightarrow> onboard_members_authorized cfg origin i r h m discriminator s
      | CallMergeQueuePages i h n \<Rightarrow> merge_queue_pages_authorized cfg origin i h n s
      | CallRemoveSuspendedKeys i r rv \<Rightarrow> remove_suspended_keys_authorized cfg now origin i r rv discriminator s
      | CallDeleteRingPage i r p \<Rightarrow> delete_ring_page_authorized cfg origin i r p s
      | CallEnqueueRingDeletion i r \<Rightarrow> enqueue_ring_deletion_authorized cfg now origin i r s
      | CallDeleteOnboardingQueuePage i p \<Rightarrow> delete_onboarding_queue_page_authorized cfg origin i p s
      | CallFinalizeCollectionDeletion i \<Rightarrow> finalize_collection_deletion_authorized cfg origin i s
      | CallRemoveOrphanedMembers i \<Rightarrow> remove_orphaned_members_authorized cfg origin i order s
      | CallMarkRingStale i r \<Rightarrow> mark_ring_stale_authorized cfg origin i r s
      | CallCleanUpOldRoots i r n \<Rightarrow> clean_up_old_roots_authorized cfg now origin i r n s)"

subsection \<open>The offchain worker\<close>

definition members_offchain_worker ::
  "('acc, 'm, 'r, 'i, 'o, 'chunk, 'cap, 'proof) mcfg \<Rightarrow> secs \<Rightarrow> block_number
     \<Rightarrow> ('acc, 'loc, 'm, 'r, 'i) mst \<Rightarrow> 'm members_call set" where
  "members_offchain_worker cfg now block s =
     (if block mod offchain_worker_interval cfg \<noteq> 0 then {}
      else {CallRemoveSuspendedKeys i r (ring_revision i r s) | i r.
              (i, r) |\<in>| fmdom (PendingSuspensions s) \<and> should_remove_suspended_keys i r True s}
           \<union> {CallMergeQueuePages i h n | i h n.
              i |\<in>| fmdom (Collections s) \<and> (\<exists>ks ls. should_merge_queue_pages cfg i s = Merge h n ks ls)}
           \<union> {CallOnboardMembers i r h m | i r h m.
              i |\<in>| fmdom (Collections s) \<and> r = current_ring s i \<and> h = fst (queue_ends s i) \<and>
              can_onboard_members cfg i r h s \<and> m = first_key (queue_page_of s i h)}
           \<union> {CallBuildRing i r (ci_ring_size info) (ring_revision i r s) n | i r info n.
              (i, r) |\<in>| fmdom (StaleRings s) \<and>
              should_build_ring i r (ring_building_member_limit cfg) s = Some n \<and>
              fmlookup (Collections s) i = Some info}
           \<union> {CallDeleteRingPage i r p | i r p. (i, r, p) |\<in>| fmdom (RingDeletionQueue s)}
           \<union> {CallEnqueueRingDeletion i r | i r.
              i |\<in>| fmdom (SuspendedCollections s) \<and> (i, r) |\<in>| fmdom (RingKeysStatus s)}
           \<union> {CallDeleteOnboardingQueuePage i p | i p.
              i |\<in>| fmdom (SuspendedCollections s) \<and> no_status i s \<and> no_deletions i s \<and>
              (i, p) |\<in>| fmdom (OnboardingQueue s)}
           \<union> {CallRemoveOrphanedMembers i | i.
              i |\<in>| fmdom (SuspendedCollections s) \<and> no_status i s \<and> no_deletions i s \<and> no_queue i s \<and>
              \<not> no_members i s}
           \<union> {CallFinalizeCollectionDeletion i | i.
              i |\<in>| fmdom (SuspendedCollections s) \<and> no_status i s \<and> no_deletions i s \<and> no_queue i s \<and>
              no_members i s}
           \<union> {CallCleanUpOldRoots i r OFFCHAIN_WORKER_OLD_ROOT_CLEANUP_LIMIT | i r.
              (case first_old_root i r s of
                 None \<Rightarrow> False
               | Some (_, old) \<Rightarrow> now \<ge> sat_add 64 (archived_at old) (old_root_retention_duration cfg))})"

subsection \<open>The interface for other pallets\<close>

definition create_collection ::
  "('acc, 'm, 'r, 'i, 'o, 'chunk, 'cap, 'proof) mcfg \<Rightarrow> 'loc \<Rightarrow> coll_id \<Rightarrow> nat \<Rightarrow> ring_mode
     \<Rightarrow> ring_exponent \<Rightarrow> secs option \<Rightarrow> ('acc, 'loc, 'm, 'r, 'i) mst
     \<Rightarrow> members_err + ('acc, 'loc, 'm, 'r, 'i) mst" where
  "create_collection cfg own ident onboarding_size md ring_size delay s =
     bindE (ensure (\<not> contains_key (Collections s) ident \<and> \<not> contains_key (SuspendedCollections s) ident)
              (Module CollectionAlreadyExists)) (\<lambda>_.
     bindE (ensure (\<not> contains_key (RetiredIdentifiers s) ident) (Module IdentifierRetired)) (\<lambda>_.
     bindE (ensure (md = Flexible \<longrightarrow> ring_size \<le> max_flexible_ring_exponent cfg \<and>
                      ring_capacity cfg ring_size \<le> ring_capacity cfg (max_flexible_ring_exponent cfg))
              (Module InvalidRingSizeForFlexible)) (\<lambda>_.
     bindE (ensure (onboarding_size \<le> ring_capacity cfg ring_size) (Module InvalidOnboardingSize)) (\<lambda>_.
     let collection_owner = OwnerExternal own in
     bindE (ok_or (try_push (max_collections cfg) (get_or [] (IdentifiersOf s) collection_owner) ident)
              (Module TooManyCollections)) (\<lambda>ids.
     Inr (s\<lparr>IdentifiersOf := fmupd collection_owner ids (IdentifiersOf s),
            Collections := fmupd ident \<lparr>ci_owner = collection_owner, ci_mode = md, ci_ring_size = ring_size,
                                       self_inclusion_delay = delay\<rparr> (Collections s),
            OnboardingSize := fmupd ident onboarding_size (OnboardingSize s),
            RingsState := fmupd ident default_ring_members_state (RingsState s)\<rparr>))))))"

definition members_active_count :: "coll_id \<Rightarrow> ('acc, 'loc, 'm, 'r, 'i) mst \<Rightarrow> nat" where
  "members_active_count ident s = get_or 0 (ActiveMembers s) ident"

fun add_members_loop ::
  "('acc, 'm, 'r, 'i, 'o, 'chunk, 'cap, 'proof) mcfg \<Rightarrow> secs \<Rightarrow> coll_id \<Rightarrow> 'm list
     \<Rightarrow> ('acc, 'loc, 'm, 'r, 'i) mst \<Rightarrow> members_err + ('acc, 'loc, 'm, 'r, 'i) mst" where
  "add_members_loop cfg now ident [] s = Inr s"
| "add_members_loop cfg now ident (m # ms) s =
     bindE (case fmlookup (Members s) (ident, m) of
              None \<Rightarrow> ensure (is_member_valid cfg m) (Module InvalidMemberKey)
            | Some position \<Rightarrow> ensure (suspended position) (Module KeyAlreadyInUse)) (\<lambda>_.
     bindE (push_to_onboarding_queue cfg now ident m s) (\<lambda>s1.
     add_members_loop cfg now ident ms s1))"

definition add_members ::
  "('acc, 'm, 'r, 'i, 'o, 'chunk, 'cap, 'proof) mcfg \<Rightarrow> secs \<Rightarrow> coll_id \<Rightarrow> 'm list
     \<Rightarrow> ('acc, 'loc, 'm, 'r, 'i) mst \<Rightarrow> members_err + ('acc, 'loc, 'm, 'r, 'i) mst" where
  "add_members cfg now ident ms s =
     bindE (ok_or (fmlookup (Collections s) ident) (Module CollectionNotFound)) (\<lambda>_.
     add_members_loop cfg now ident ms s)"

definition remove_ring ::
  "('acc, 'm, 'r, 'i, 'o, 'chunk, 'cap, 'proof) mcfg \<Rightarrow> secs \<Rightarrow> coll_id \<Rightarrow> ring_index
     \<Rightarrow> ('acc, 'loc, 'm, 'r, 'i) mst \<Rightarrow> members_err + ('acc, 'loc, 'm, 'r, 'i) mst" where
  "remove_ring cfg now ident ring s =
     bindE (ensure (contains_key (Collections s) ident) (Module CollectionNotFound)) (\<lambda>_.
     bindE (ensure (ring \<noteq> current_ring s ident) (Module InvalidRing)) (\<lambda>_.
     if fBex (fmdom (RingDeletionQueue s)) (\<lambda>(i, r, _). i = ident \<and> r = ring) then Inr s
     else Inr (fst (enqueue_ring_for_deletion cfg now ident ring s))))"

definition members_ring_status :: "coll_id \<Rightarrow> ring_index \<Rightarrow> ('acc, 'loc, 'm, 'r, 'i) mst \<Rightarrow> ring_status option" where
  "members_ring_status ident ring s =
     (if contains_key (Collections s) ident then Some (status_of s ident ring) else None)"

definition member_status :: "coll_id \<Rightarrow> 'm \<Rightarrow> ('acc, 'loc, 'm, 'r, 'i) mst \<Rightarrow> ring_position option" where
  "member_status ident m s = fmlookup (Members s) (ident, m)"

fun ring_members_loop :: "nat \<Rightarrow> (page_index \<Rightarrow> 'm list) \<Rightarrow> page_index list \<Rightarrow> 'm list \<Rightarrow> 'm list" where
  "ring_members_loop tot pages [] acc = acc"
| "ring_members_loop tot pages (p # ps) acc =
     (if length acc \<ge> tot then acc else ring_members_loop tot pages ps (acc @ pages p))"

definition ring_members ::
  "('acc, 'm, 'r, 'i, 'o, 'chunk, 'cap, 'proof) mcfg \<Rightarrow> coll_id \<Rightarrow> ring_index
     \<Rightarrow> ('acc, 'loc, 'm, 'r, 'i) mst \<Rightarrow> 'm list" where
  "ring_members cfg ident ring s =
     (case fmlookup (Collections s) ident of
        None \<Rightarrow> []
      | Some info \<Rightarrow>
          ring_members_loop (total (status_of s ident ring)) (\<lambda>p. key_page s ident ring p)
            [0..<Suc (max_pages_per_ring cfg (ci_ring_size info))] [])"

definition delete_collection ::
  "'loc \<Rightarrow> coll_id \<Rightarrow> ('acc, 'loc, 'm, 'r, 'i) mst \<Rightarrow> members_err + ('acc, 'loc, 'm, 'r, 'i) mst" where
  "delete_collection own ident s =
     bindE (ok_or (fmlookup (Collections s) ident) (Module CollectionNotFound)) (\<lambda>info.
     bindE (ensure (ci_owner info = OwnerExternal own) (Module NotCollectionOwner)) (\<lambda>_.
     bindE (ensure (\<not> contains_key (SuspendedCollections s) ident) (Module CollectionMarkedForDeletion)) (\<lambda>_.
     Inr (members_deposit (CollectionMarkedForDeletionEv ident)
            (s\<lparr>Collections := fmdrop ident (Collections s),
               SuspendedCollections := fmupd ident info (SuspendedCollections s),
               RetiredIdentifiers := fmupd ident () (RetiredIdentifiers s)\<rparr>)))))"

definition start_removal_session ::
  "coll_id \<Rightarrow> ('acc, 'loc, 'm, 'r, 'i) mst \<Rightarrow> members_err + ('acc, 'loc, 'm, 'r, 'i) mst" where
  "start_removal_session ident s =
     (if \<not> contains_key (Collections s) ident then Inr s
      else bindE (map_err (\<lambda>_. Module CouldNotStartRemovalSession) (start_mutation_session (rings_mode s ident))) (\<lambda>st.
           Inr (s\<lparr>RingsState := fmupd ident st (RingsState s)\<rparr>)))"

definition end_removal_session ::
  "coll_id \<Rightarrow> ('acc, 'loc, 'm, 'r, 'i) mst \<Rightarrow> members_err + ('acc, 'loc, 'm, 'r, 'i) mst" where
  "end_removal_session ident s =
     (if \<not> contains_key (Collections s) ident then Inr s
      else bindE (map_err (\<lambda>_. Module NoRemovalSession) (end_mutation_session (rings_mode s ident))) (\<lambda>st.
           Inr (s\<lparr>RingsState := fmupd ident st (RingsState s)\<rparr>)))"

definition rings_state :: "coll_id \<Rightarrow> ('acc, 'loc, 'm, 'r, 'i) mst \<Rightarrow> ring_members_state" where
  "rings_state ident s = rings_mode s ident"

definition get_ring_roots ::
  "coll_id \<Rightarrow> ring_index list \<Rightarrow> ('acc, 'loc, 'm, 'r, 'i) mst \<Rightarrow> (ring_index \<times> 'r \<times> revision_index) list" where
  "get_ring_roots ident indices s =
     (if \<not> contains_key (Collections s) ident then []
      else List.map_filter (\<lambda>r. map_option (\<lambda>root. (r, rr_root root, rr_revision root)) (fmlookup (Root s) (ident, r)))
             indices)"

definition next_ring_index :: "coll_id \<Rightarrow> ('acc, 'loc, 'm, 'r, 'i) mst \<Rightarrow> ring_index" where
  "next_ring_index ident s =
     (let i = current_ring s ident in if contains_key (Root s) (ident, i) then sat_add 32 i 1 else i)"

text \<open>\<open>h\<close> is the position of a ring index in the storage order of the prefix, given by its hash.\<close>

definition get_ring_roots_paginated ::
  "(ring_index \<Rightarrow> nat) \<Rightarrow> coll_id \<Rightarrow> ring_index option \<Rightarrow> nat \<Rightarrow> ('acc, 'loc, 'm, 'r, 'i) mst
     \<Rightarrow> (ring_index \<times> 'r \<times> revision_index) list" where
  "get_ring_roots_paginated h ident after_key limit s =
     (let rings = sort_key h (sorted_list_of_set (snd ` Set.filter (\<lambda>(i, _). i = ident) (fmdom' (Root s))));
          later = (case after_key of None \<Rightarrow> rings | Some k \<Rightarrow> filter (\<lambda>r. h k < h r) rings)
      in get_ring_roots ident (take limit later) s)"

end
