(* ===== verification/Members_View.thy ===== *)
theory Members_View
  imports Members_Calls
begin

text \<open>
  One collection seen by itself: the entries of the storage of \<^verbatim>\<open>pallets/members/src/lib.rs\<close> that belong
  to one identifier, as a record of functions, and what makes them consistent.

  \<^item> \<open>status_ok\<close>, \<open>layout_ok\<close>: no ring holds more keys than its capacity or includes more than it
    holds, and the pages of a live ring are filled in order.
  \<^item> \<open>ring_fwd\<close>, \<open>queue_fwd\<close>, \<open>members_back\<close>: every key stored in a ring or in the queue has a member
    record with exactly that position, unless its slot is pending removal, and the other way round.
  \<^item> \<open>queue_shape\<close>: the queue occupies the pages from head to tail.

  An operation that moves keys is a sequence of small steps: keys taken out are in flight (the set
  \<open>X\<close>) until they are placed again.
\<close>

record 'm coll =
  c_keys :: "ring_index \<Rightarrow> page_index \<Rightarrow> 'm list"
  c_status :: "ring_index \<Rightarrow> ring_status option"
  c_pending :: "ring_index \<Rightarrow> nat list"
  c_members :: "'m \<Rightarrow> ring_position option"
  c_queue :: "page_index \<Rightarrow> 'm list"
  c_head :: page_index
  c_tail :: page_index
  c_current :: ring_index
  c_active :: nat
  c_removed :: "ring_index \<Rightarrow> page_index \<Rightarrow> bool"

definition view :: "('acc, 'loc, 'm, 'r, 'i) mst \<Rightarrow> coll_id \<Rightarrow> 'm coll" where
  "view s ident = \<lparr>
     c_keys = (\<lambda>r p. key_page s ident r p),
     c_status = (\<lambda>r. fmlookup (RingKeysStatus s) (ident, r)),
     c_pending = (\<lambda>r. pending_of s ident r),
     c_members = (\<lambda>m. fmlookup (Members s) (ident, m)),
     c_queue = (\<lambda>p. queue_page_of s ident p),
     c_head = fst (queue_ends s ident),
     c_tail = snd (queue_ends s ident),
     c_current = current_ring s ident,
     c_active = get_or 0 (ActiveMembers s) ident,
     c_removed = (\<lambda>r p. contains_key (RingDeletionQueue s) (ident, r, p))\<rparr>"

definition empty_coll :: "'m coll" where
  "empty_coll = \<lparr>c_keys = (\<lambda>_ _. []), c_status = (\<lambda>_. None), c_pending = (\<lambda>_. []), c_members = (\<lambda>_. None),
     c_queue = (\<lambda>_. []), c_head = 0, c_tail = 0, c_current = 0, c_active = 0, c_removed = (\<lambda>_ _. False)\<rparr>"

definition tot :: "'m coll \<Rightarrow> ring_index \<Rightarrow> nat" where
  "tot v r = (case c_status v r of None \<Rightarrow> 0 | Some st \<Rightarrow> total st)"

definition live :: "'m coll \<Rightarrow> ring_index \<Rightarrow> bool" where
  "live v r \<longleftrightarrow> c_status v r \<noteq> None \<or> c_current v \<le> r"

definition status_ok :: "nat \<Rightarrow> 'm coll \<Rightarrow> bool" where
  "status_ok C v \<longleftrightarrow>
     (\<forall>r st. c_status v r = Some st \<longrightarrow> included st \<le> total st \<and> total st \<le> C \<and> r \<le> c_current v)"

definition layout_ok :: "nat \<Rightarrow> 'm coll \<Rightarrow> bool" where
  "layout_ok P v \<longleftrightarrow> (\<forall>r p. live v r \<longrightarrow> length (c_keys v r p) = min P (tot v r - p * P))"

definition slot_pending :: "'m coll \<Rightarrow> ring_index \<Rightarrow> page_index \<Rightarrow> nat \<Rightarrow> bool" where
  "slot_pending v r p i \<longleftrightarrow> p = 0 \<and> i \<in> set (c_pending v r)"

definition ring_fwd :: "'m set \<Rightarrow> 'm coll \<Rightarrow> bool" where
  "ring_fwd X v \<longleftrightarrow> (\<forall>r p i. live v r \<longrightarrow> i < length (c_keys v r p) \<longrightarrow> \<not> slot_pending v r p i \<longrightarrow>
     c_members v (c_keys v r p ! i) = Some (Included r p i) \<and> c_keys v r p ! i \<notin> X)"

definition queue_fwd :: "'m set \<Rightarrow> 'm coll \<Rightarrow> bool" where
  "queue_fwd X v \<longleftrightarrow> (\<forall>q k. k \<in> set (c_queue v q) \<longrightarrow> (\<exists>t. c_members v k = Some (Onboarding q t)) \<and> k \<notin> X)"

definition queue_shape :: "nat \<Rightarrow> 'm coll \<Rightarrow> bool" where
  "queue_shape Q v \<longleftrightarrow>
     c_head v \<le> c_tail v \<and> c_tail v \<le> max_of 32 \<and>
     (\<forall>q. distinct (c_queue v q) \<and> length (c_queue v q) \<le> Q \<and>
        (c_queue v q \<noteq> [] \<longrightarrow> c_head v \<le> q \<and> q \<le> c_tail v))"

definition members_back :: "'m set \<Rightarrow> 'm coll \<Rightarrow> bool" where
  "members_back X v \<longleftrightarrow>
     (\<forall>k q t. k \<notin> X \<longrightarrow> c_members v k = Some (Onboarding q t) \<longrightarrow> k \<in> set (c_queue v q)) \<and>
     (\<forall>k r p i. k \<notin> X \<longrightarrow> c_members v k = Some (Included r p i) \<longrightarrow>
        i < length (c_keys v r p) \<and> c_keys v r p ! i = k \<and> (live v r \<or> c_removed v r p) \<and>
        \<not> slot_pending v r p i)"

definition pending_ok :: "'m coll \<Rightarrow> bool" where
  "pending_ok v \<longleftrightarrow>
     (\<forall>r. sorted (c_pending v r) \<and> distinct (c_pending v r) \<and>
        (\<forall>i \<in> set (c_pending v r). i < length (c_keys v r 0)) \<and>
        (c_pending v r \<noteq> [] \<longrightarrow> c_status v r \<noteq> None))"

definition mode_ok :: "ring_mode \<Rightarrow> nat \<Rightarrow> nat \<Rightarrow> 'm coll \<Rightarrow> bool" where
  "mode_ok m P C v \<longleftrightarrow>
     (m = Flexible \<longrightarrow> C \<le> P \<and> (\<forall>r p. \<not> c_removed v r p)) \<and>
     (m = AppendOnly \<longrightarrow> (\<forall>r. c_pending v r = []))"

definition removed_ok :: "'m coll \<Rightarrow> bool" where
  "removed_ok v \<longleftrightarrow> (\<forall>r p. (c_removed v r p \<longrightarrow> \<not> live v r) \<and> (\<not> live v r \<longrightarrow> c_keys v r p \<noteq> [] \<longrightarrow> c_removed v r p))"

definition coll_ok :: "ring_mode \<Rightarrow> nat \<Rightarrow> nat \<Rightarrow> nat \<Rightarrow> 'm set \<Rightarrow> 'm coll \<Rightarrow> bool" where
  "coll_ok m P Q C X v \<longleftrightarrow> 0 < P \<and> 0 < Q \<and> 0 < C \<and> C \<le> max_of 32 \<and>
     status_ok C v \<and> layout_ok P v \<and> ring_fwd X v \<and> queue_fwd X v \<and> queue_shape Q v \<and>
     members_back X v \<and> pending_ok v \<and> mode_ok m P C v \<and> removed_ok v"

definition active_ok :: "'m coll \<Rightarrow> bool" where
  "active_ok v \<longleftrightarrow> c_active v = (\<Sum>r\<le>c_current v. tot v r)"

definition not_full :: "nat \<Rightarrow> 'm coll \<Rightarrow> bool" where
  "not_full C v \<longleftrightarrow> tot v (c_current v) < C"

lemmas coll_ok_defs = coll_ok_def status_ok_def layout_ok_def ring_fwd_def queue_fwd_def queue_shape_def
  members_back_def pending_ok_def mode_ok_def removed_ok_def

lemma empty_coll_ok:
  "0 < P \<Longrightarrow> 0 < Q \<Longrightarrow> 0 < C \<Longrightarrow> C \<le> max_of 32 \<Longrightarrow> (m = Flexible \<longrightarrow> C \<le> P) \<Longrightarrow>
   coll_ok m P Q C {} empty_coll \<and> active_ok empty_coll \<and> not_full C empty_coll"
  by (simp add: coll_ok_defs active_ok_def not_full_def empty_coll_def tot_def live_def)

text \<open>A change of counters that keeps the totals and the live rings keeps the rest.\<close>

lemma coll_ok_frame:
  assumes ok: "coll_ok m P Q C X v"
    and eq: "live v' = live v" "tot v' = tot v" "c_keys v' = c_keys v" "c_members v' = c_members v"
      "c_queue v' = c_queue v" "c_head v' = c_head v" "c_tail v' = c_tail v" "c_removed v' = c_removed v"
      "c_pending v' = c_pending v"
    and st: "status_ok C v'" and pend: "\<And>r. c_pending v r \<noteq> [] \<Longrightarrow> c_status v' r \<noteq> None"
  shows "coll_ok m P Q C X v'"
proof -
  have sp: "slot_pending v' = slot_pending v" using eq by (simp add: slot_pending_def fun_eq_iff)
  have "layout_ok P v' = layout_ok P v" "ring_fwd X v' = ring_fwd X v" "queue_fwd X v' = queue_fwd X v"
    "queue_shape Q v' = queue_shape Q v" "members_back X v' = members_back X v" "mode_ok m P C v' = mode_ok m P C v"
    "removed_ok v' = removed_ok v"
    by (simp_all only: layout_ok_def ring_fwd_def queue_fwd_def queue_shape_def members_back_def mode_ok_def
        removed_ok_def eq sp)
  moreover have "pending_ok v'" using ok pend unfolding coll_ok_def pending_ok_def eq by blast
  ultimately show ?thesis using ok st by (simp add: coll_ok_def)
qed

subsection \<open>Placing a key in a ring\<close>

definition place :: "nat \<Rightarrow> ring_index \<Rightarrow> 'm \<Rightarrow> 'm coll \<Rightarrow> 'm coll" where
  "place P r k v =
     (let t = tot v r; st = (case c_status v r of None \<Rightarrow> default_ring_status | Some st \<Rightarrow> st) in
      v\<lparr>c_keys := (c_keys v)(r := (c_keys v r)(t div P := c_keys v r (t div P) @ [k])),
        c_status := (c_status v)(r \<mapsto> st\<lparr>total := t + 1\<rparr>),
        c_members := (c_members v)(k \<mapsto> Included r (t div P) (t mod P))\<rparr>)"

lemma place_frame [simp]:
  "c_pending (place P r k v) = c_pending v" "c_queue (place P r k v) = c_queue v"
  "c_head (place P r k v) = c_head v" "c_tail (place P r k v) = c_tail v"
  "c_current (place P r k v) = c_current v" "c_active (place P r k v) = c_active v"
  "c_removed (place P r k v) = c_removed v"
  by (simp_all add: place_def Let_def)

lemma tot_place: "tot (place P r k v) r' = (if r' = r then tot v r + 1 else tot v r')"
  by (simp add: place_def tot_def Let_def)

lemma live_place: "live v r \<Longrightarrow> live (place P r k v) r' = live v r'"
  by (auto simp: place_def live_def Let_def)

lemma page_fill: "0 < P \<Longrightarrow> min P (t - (t div P) * P) = t mod (P::nat)"
  by (metis minus_div_mult_eq_mod min.absorb2 mod_less_divisor less_imp_le)

lemma page_fill_step:
  assumes "0 < (P::nat)"
  shows "min P (Suc t - p * P) = (if p = t div P then min P (t - p * P) + 1 else min P (t - p * P))"
proof (cases p "t div P" rule: linorder_cases)
  case less
  then have "Suc p * P \<le> (t div P) * P" by (intro mult_le_mono1) simp
  also have "\<dots> \<le> t" by simp
  finally show ?thesis using less by simp
next
  case equal
  have "t mod P < P" using assms by simp
  moreover have "t - p * P = t mod P" by (simp add: equal minus_div_mult_eq_mod)
  moreover have "p * P \<le> t" by (simp add: equal)
  ultimately show ?thesis using equal by (simp add: Suc_diff_le)
next
  case greater
  then have "Suc (t div P) * P \<le> p * P" by (intro mult_le_mono1) simp
  moreover have "t < Suc (t div P) * P" using assms by (simp add: dividend_less_div_times)
  ultimately have "Suc t \<le> p * P" by linarith
  then show ?thesis using greater by simp
qed

lemma coll_ok_page_len:
  "coll_ok m P Q C X v \<Longrightarrow> live v r \<Longrightarrow> length (c_keys v r (tot v r div P)) = tot v r mod P"
  by (simp add: coll_ok_def layout_ok_def page_fill)

lemma place_ok:
  assumes ok: "coll_ok m P Q C X v" and k: "k \<in> X" and lr: "live v r" and cur: "r \<le> c_current v"
    and room: "tot v r < C"
  shows "coll_ok m P Q C (X - {k}) (place P r k v)"
proof -
  let ?v = "place P r k v" and ?p = "tot v r div P" and ?i = "tot v r mod P"
  have P: "0 < P" using ok by (simp add: coll_ok_def)
  have len: "length (c_keys v r ?p) = ?i" using coll_ok_page_len[OF ok lr] .
  have keys: "c_keys ?v = (c_keys v)(r := (c_keys v r)(?p := c_keys v r ?p @ [k]))"
    and mem: "c_members ?v = (c_members v)(k \<mapsto> Included r ?p ?i)"
    by (simp_all add: place_def Let_def)
  note live = live_place[OF lr]
  have sp: "slot_pending ?v = slot_pending v" by (simp add: slot_pending_def fun_eq_iff)
  have "status_ok C ?v"
    using ok room cur by (auto simp: coll_ok_def status_ok_def place_def tot_def default_ring_status_def Let_def
        intro: le_SucI split: option.splits)
  moreover have "layout_ok P ?v"
    using ok by (auto simp: coll_ok_def layout_ok_def live keys tot_place page_fill_step[OF P])
  moreover have "ring_fwd (X - {k}) ?v"
    unfolding ring_fwd_def
  proof (intro allI impI)
    fix r' p' i' assume l: "live ?v r'" and i': "i' < length (c_keys ?v r' p')" and np: "\<not> slot_pending ?v r' p' i'"
    show "c_members ?v (c_keys ?v r' p' ! i') = Some (Included r' p' i') \<and> c_keys ?v r' p' ! i' \<notin> X - {k}"
    proof (cases "r' = r \<and> p' = ?p \<and> i' = ?i")
      case True
      then show ?thesis by (simp add: keys mem len nth_append)
    next
      case False
      with i' len have old: "i' < length (c_keys v r' p')" "c_keys ?v r' p' ! i' = c_keys v r' p' ! i'"
        by (auto simp: keys nth_append split: if_splits)
      then have "c_members v (c_keys v r' p' ! i') = Some (Included r' p' i')" "c_keys v r' p' ! i' \<notin> X"
        using ok l np unfolding coll_ok_def ring_fwd_def live sp by blast+
      with old k show ?thesis by (auto simp: mem)
    qed
  qed
  moreover have "queue_fwd (X - {k}) ?v"
    using ok k by (auto simp: coll_ok_def queue_fwd_def mem)
  moreover have "queue_shape Q ?v" using ok by (simp add: coll_ok_def queue_shape_def)
  moreover have "members_back (X - {k}) ?v"
  proof -
    have nopend: "\<not> slot_pending v r ?p ?i"
      using ok len by (fastforce simp: coll_ok_def pending_ok_def slot_pending_def)
    have old: "i' < length (c_keys ?v r' p') \<and> c_keys ?v r' p' ! i' = c_keys v r' p' ! i'"
      if "i' < length (c_keys v r' p')" for r' p' i'
      using that by (auto simp: keys nth_append)
    show ?thesis
      using ok len lr nopend old unfolding coll_ok_def members_back_def live sp
      by (auto simp: mem keys nth_append split: if_splits)
  qed
  moreover have "pending_ok ?v"
    using ok by (fastforce simp: coll_ok_def pending_ok_def place_def Let_def)
  moreover have "mode_ok m P C ?v" using ok by (simp add: coll_ok_def mode_ok_def)
  moreover have "removed_ok ?v" using ok lr by (auto simp: coll_ok_def removed_ok_def live keys)
  ultimately show ?thesis using ok by (simp add: coll_ok_def)
qed

subsection \<open>The onboarding queue\<close>

text \<open>Keys taken out of the queue are in flight.\<close>

lemma dequeue_ok:
  assumes ok: "coll_ok m P Q C X v"
    and sub: "\<And>p. set (q p) \<subseteq> set (c_queue v p)"
    and shape: "queue_shape Q (v\<lparr>c_queue := q, c_head := h, c_tail := t\<rparr>)"
    and Y: "Y = X \<union> {k. \<exists>p. k \<in> set (c_queue v p) \<and> k \<notin> set (q p)}"
  shows "coll_ok m P Q C Y (v\<lparr>c_queue := q, c_head := h, c_tail := t\<rparr>)"
proof -
  let ?v = "v\<lparr>c_queue := q, c_head := h, c_tail := t\<rparr>"
  have live: "live ?v = live v" and sp: "slot_pending ?v = slot_pending v"
    by (simp_all add: live_def slot_pending_def fun_eq_iff)
  have qf: "c_members v k = Some (Onboarding p t)" if "k \<in> set (c_queue v p)" "c_members v k = Some (Onboarding p' t)" for k p p' t
    using ok that by (fastforce simp: coll_ok_def queue_fwd_def)
  have "ring_fwd Y ?v"
    using ok unfolding coll_ok_def ring_fwd_def queue_fwd_def live sp Y by fastforce
  moreover have "queue_fwd Y ?v"
    unfolding queue_fwd_def
  proof (intro allI impI)
    fix p k assume k: "k \<in> set (c_queue ?v p)"
    then have kp: "k \<in> set (c_queue v p)" using sub[of p] by auto
    then obtain t' where t': "c_members v k = Some (Onboarding p t')" "k \<notin> X"
      using ok unfolding coll_ok_def queue_fwd_def by blast
    have "k \<notin> set (q p')" if "k \<in> set (c_queue v p')" "p' \<noteq> p" for p'
      using ok that t'(1) unfolding coll_ok_def queue_fwd_def by fastforce
    moreover have "p' = p" if "k \<in> set (c_queue v p')" for p'
      using ok that t'(1) unfolding coll_ok_def queue_fwd_def by fastforce
    ultimately have "k \<notin> Y" using t'(2) k by (auto simp: Y)
    with t'(1) show "(\<exists>t. c_members ?v k = Some (Onboarding p t)) \<and> k \<notin> Y" by simp
  qed
  moreover have "members_back Y ?v"
    using ok unfolding coll_ok_def members_back_def live sp Y by auto
  moreover have "status_ok C ?v" "layout_ok P ?v" "pending_ok ?v" "mode_ok m P C ?v" "removed_ok ?v"
    using ok unfolding coll_ok_def status_ok_def layout_ok_def pending_ok_def mode_ok_def removed_ok_def live
    by (simp_all add: tot_def)
  ultimately show ?thesis using ok shape by (simp add: coll_ok_def)
qed

lemma fly_ok:
  assumes ok: "coll_ok m P Q C X v" and k: "c_members v k = None \<or> c_members v k = Some Suspended"
  shows "coll_ok m P Q C (insert k X) v"
proof -
  have "ring_fwd (insert k X) v" using ok k unfolding coll_ok_def ring_fwd_def by fastforce
  moreover have "queue_fwd (insert k X) v" using ok k unfolding coll_ok_def queue_fwd_def by fastforce
  moreover have "members_back (insert k X) v" using ok unfolding coll_ok_def members_back_def by blast
  ultimately show ?thesis using ok by (simp add: coll_ok_def)
qed

text \<open>A key in flight gets a position outside rings and queue.\<close>

lemma settle_ok:
  assumes ok: "coll_ok m P Q C X v" and k: "k \<in> X" and pos: "pos = None \<or> pos = Some Suspended"
  shows "coll_ok m P Q C (X - {k}) (v\<lparr>c_members := (c_members v)(k := pos)\<rparr>)"
proof -
  let ?v = "v\<lparr>c_members := (c_members v)(k := pos)\<rparr>"
  have live: "live ?v = live v" and sp: "slot_pending ?v = slot_pending v"
    by (simp_all add: live_def slot_pending_def fun_eq_iff)
  have "ring_fwd (X - {k}) ?v" using ok k unfolding coll_ok_def ring_fwd_def live sp by fastforce
  moreover have "queue_fwd (X - {k}) ?v" using ok k unfolding coll_ok_def queue_fwd_def by auto
  moreover have "members_back (X - {k}) ?v"
    using ok pos unfolding coll_ok_def members_back_def live sp by auto
  moreover have "status_ok C ?v" "layout_ok P ?v" "queue_shape Q ?v" "pending_ok ?v" "mode_ok m P C ?v" "removed_ok ?v"
    using ok unfolding coll_ok_def status_ok_def layout_ok_def queue_shape_def pending_ok_def mode_ok_def
      removed_ok_def live by (simp_all add: tot_def)
  ultimately show ?thesis using ok by (simp add: coll_ok_def)
qed

text \<open>A key in flight is put at the end of a queue page.\<close>

lemma enqueue_ok:
  assumes ok: "coll_ok m P Q C X v" and k: "k \<in> X"
    and room: "length (c_queue v p) < Q" and range: "c_head v \<le> p" "p \<le> max_of 32" and tl: "t = max p (c_tail v)"
  shows "coll_ok m P Q C (X - {k})
    (v\<lparr>c_queue := (c_queue v)(p := c_queue v p @ [k]), c_tail := t, c_members := (c_members v)(k \<mapsto> Onboarding p now)\<rparr>)"
    (is "coll_ok m P Q C _ ?v")
proof -
  have live: "live ?v = live v" and sp: "slot_pending ?v = slot_pending v"
    by (simp_all add: live_def slot_pending_def fun_eq_iff)
  have notin: "k \<notin> set (c_queue v p')" for p' using ok k unfolding coll_ok_def queue_fwd_def by blast
  have "ring_fwd (X - {k}) ?v" using ok k unfolding coll_ok_def ring_fwd_def live sp by fastforce
  moreover have "queue_fwd (X - {k}) ?v"
    using ok k unfolding coll_ok_def queue_fwd_def by auto
  moreover have "members_back (X - {k}) ?v"
    using ok unfolding coll_ok_def members_back_def live sp by auto
  moreover have "queue_shape Q ?v"
    using ok room range notin tl unfolding coll_ok_def queue_shape_def by (auto simp: le_max_iff_disj)
  moreover have "status_ok C ?v" "layout_ok P ?v" "pending_ok ?v" "mode_ok m P C ?v" "removed_ok ?v"
    using ok unfolding coll_ok_def status_ok_def layout_ok_def pending_ok_def mode_ok_def
      removed_ok_def live by (simp_all add: tot_def)
  ultimately show ?thesis using ok by (simp add: coll_ok_def)
qed

subsection \<open>Rings\<close>

text \<open>A root is built: more keys are included, nothing moves.\<close>

lemma include_ok:
  assumes ok: "coll_ok m P Q C X v" and st: "c_status v r = Some st"
    and st': "total st' = total st" "included st' \<le> total st'"
  shows "coll_ok m P Q C X (v\<lparr>c_status := (c_status v)(r \<mapsto> st')\<rparr>)" (is "coll_ok m P Q C X ?v")
proof -
  have live: "live ?v = live v" and tot: "tot ?v = tot v" and sp: "slot_pending ?v = slot_pending v"
    using st st' by (auto simp: live_def tot_def slot_pending_def fun_eq_iff)
  have "status_ok C ?v" using ok st st' unfolding coll_ok_def status_ok_def by auto
  moreover have "c_status ?v r' \<noteq> None" if "c_pending v r' \<noteq> []" for r'
    using ok that unfolding coll_ok_def pending_ok_def by auto
  ultimately show ?thesis by (intro coll_ok_frame[OF ok]) (simp_all add: live tot)
qed

text \<open>A full top ring is closed and the next one opened.\<close>

lemma advance_ok:
  assumes ok: "coll_ok m P Q C X v" and act: "active_ok v" and full: "c_status v (c_current v) \<noteq> None"
  shows "coll_ok m P Q C X (v\<lparr>c_current := Suc (c_current v)\<rparr>) \<and> active_ok (v\<lparr>c_current := Suc (c_current v)\<rparr>)
    \<and> not_full C (v\<lparr>c_current := Suc (c_current v)\<rparr>)" (is "coll_ok m P Q C X ?v \<and> _ \<and> _")
proof -
  have live: "live ?v = live v"
    using full by (auto simp: live_def fun_eq_iff) (metis Suc_leI le_neq_implies_less option.distinct(1))
  have tot: "tot ?v = tot v" and sp: "slot_pending ?v = slot_pending v"
    by (simp_all add: tot_def slot_pending_def fun_eq_iff)
  have new: "c_status v (Suc (c_current v)) = None"
    using ok unfolding coll_ok_def status_ok_def by (metis not_less_eq_eq option.exhaust order_refl)
  have "status_ok C ?v" using ok unfolding coll_ok_def status_ok_def by (auto intro: le_SucI)
  moreover have "c_status ?v r' \<noteq> None" if "c_pending v r' \<noteq> []" for r'
    using ok that unfolding coll_ok_def pending_ok_def by auto
  ultimately have "coll_ok m P Q C X ?v" by (intro coll_ok_frame[OF ok]) (simp_all add: live tot)
  moreover have "active_ok ?v" using act new by (simp add: active_ok_def tot_def)
  moreover have "not_full C ?v" using ok new by (simp add: not_full_def tot_def coll_ok_def)
  ultimately show ?thesis by blast
qed

text \<open>A ring other than the top ring loses its status; its pages wait for deletion.\<close>

lemma remove_ring_ok:
  assumes ok: "coll_ok m P Q C X v" and m: "m = AppendOnly" and r: "r \<noteq> c_current v"
    and R: "\<And>p. p * P < tot v r \<Longrightarrow> R p"
  shows "coll_ok m P Q C X (v\<lparr>c_status := (c_status v)(r := None), c_pending := (c_pending v)(r := []),
    c_removed := (\<lambda>r' p. c_removed v r' p \<or> (r' = r \<and> 0 < tot v r \<and> R p))\<rparr>)" (is "coll_ok m P Q C X ?v")
proof -
  have pend: "c_pending v = (\<lambda>_. [])" using ok m by (auto simp: coll_ok_def mode_ok_def)
  have tot: "tot ?v r' = (if r' = r then 0 else tot v r')" for r' by (simp add: tot_def)
  have live: "live ?v r' \<longleftrightarrow> (if r' = r then c_current v \<le> r else live v r')" for r'
    by (auto simp: live_def)
  have top: "tot v r = 0" if "c_current v \<le> r"
  proof -
    have "c_status v r = None"
      using ok r that unfolding coll_ok_def status_ok_def by (metis le_antisym option.exhaust)
    then show ?thesis by (simp add: tot_def)
  qed
  have sub: "live v r'" if "live ?v r'" for r' using that by (auto simp: live live_def split: if_splits)
  have sp: "\<not> slot_pending ?v r' p i" "\<not> slot_pending v r' p i" for r' p i by (simp_all add: slot_pending_def pend)
  have "status_ok C ?v" "queue_fwd X ?v" "queue_shape Q ?v"
    using ok unfolding coll_ok_def status_ok_def queue_fwd_def queue_shape_def by auto
  moreover have "layout_ok P ?v"
    unfolding layout_ok_def
  proof (intro allI impI)
    fix r' p assume l: "live ?v r'"
    then have "length (c_keys v r' p) = min P (tot v r' - p * P)"
      using ok sub unfolding coll_ok_def layout_ok_def by blast
    moreover have "tot ?v r' = tot v r'" using l top by (auto simp: tot live)
    ultimately show "length (c_keys ?v r' p) = min P (tot ?v r' - p * P)" by simp
  qed
  moreover have "ring_fwd X ?v" using ok sub sp unfolding coll_ok_def ring_fwd_def by simp
  moreover have "members_back X ?v"
  proof -
    have "live ?v r' \<or> c_removed ?v r' p"
      if l: "live v r' \<or> c_removed v r' p" and i: "i < length (c_keys v r' p)" for r' p i
    proof (cases "r' = r \<and> live v r \<and> \<not> c_current v \<le> r")
      case True
      with i ok have "p * P < tot v r" unfolding coll_ok_def layout_ok_def by auto
      with True R show ?thesis by auto
    next
      case False
      with l show ?thesis by (auto simp: live live_def)
    qed
    then show ?thesis
      using ok sp unfolding coll_ok_def members_back_def by simp blast
  qed
  moreover have "pending_ok ?v" using ok by (simp add: coll_ok_def pending_ok_def pend)
  moreover have "mode_ok m P C ?v" using m by (simp add: mode_ok_def pend)
  moreover have "removed_ok ?v"
    unfolding removed_ok_def
  proof (intro allI conjI impI notI)
    fix r' p assume rem: "c_removed ?v r' p" and l: "live ?v r'"
    then have "\<not> c_removed v r' p" using ok sub[OF l] unfolding coll_ok_def removed_ok_def by blast
    with rem have "r' = r" "0 < tot v r" by auto
    moreover have "c_current v \<le> r" using l unfolding live by (simp add: \<open>r' = r\<close>)
    ultimately show False using top by simp
  next
    fix r' p assume l: "\<not> live ?v r'" and keys: "c_keys ?v r' p \<noteq> []"
    show "c_removed ?v r' p"
    proof (cases "live v r'")
      case True
      then have r': "r' = r" using l unfolding live by (auto split: if_splits)
      have "length (c_keys v r p) = min P (tot v r - p * P)"
        using ok True r' unfolding coll_ok_def layout_ok_def by blast
      moreover have "0 < length (c_keys v r p)" using keys r' by simp
      ultimately have "p * P < tot v r" by linarith
      with R[of p] r' show ?thesis by auto
    next
      case False
      then show ?thesis using ok keys unfolding coll_ok_def removed_ok_def by auto
    qed
  qed
  ultimately show ?thesis using ok by (simp add: coll_ok_def)
qed

text \<open>A page of a removed ring is deleted with the member records that point into it.\<close>

lemma delete_page_ok:
  assumes ok: "coll_ok m P Q C X v" and rm: "c_removed v r p"
    and mem: "\<And>k. mem k = (if \<exists>i < length (c_keys v r p). c_keys v r p ! i = k \<and> c_members v k = Some (Included r p i)
                       then None else c_members v k)"
  shows "coll_ok m P Q C X (v\<lparr>c_keys := (c_keys v)(r := (c_keys v r)(p := [])), c_members := mem,
    c_removed := (\<lambda>r' p'. c_removed v r' p' \<and> (r', p') \<noteq> (r, p))\<rparr>)" (is "coll_ok m P Q C X ?v")
proof -
  have nl: "\<not> live v r" using ok rm unfolding coll_ok_def removed_ok_def by blast
  have m: "m = AppendOnly" using ok rm unfolding coll_ok_def mode_ok_def by (cases m) auto
  then have pend: "c_pending v = (\<lambda>_. [])" using ok by (auto simp: coll_ok_def mode_ok_def)
  have live: "live ?v = live v" and tot: "tot ?v = tot v" by (simp_all add: live_def tot_def fun_eq_iff)
  have sp: "\<not> slot_pending ?v r' p i" "\<not> slot_pending v r' p i" for r' p i by (simp_all add: slot_pending_def pend)
  have other: "mem k = pos \<Longrightarrow> pos \<noteq> None \<Longrightarrow> c_members v k = pos" for k pos
    by (simp add: mem split: if_splits)
  have keep: "mem k = c_members v k" if "\<And>i. c_members v k \<noteq> Some (Included r p i)" for k
    using that by (auto simp: mem)
  have "status_ok C ?v" "queue_shape Q ?v" "pending_ok ?v" "mode_ok m P C ?v"
    using ok m unfolding coll_ok_def status_ok_def queue_shape_def pending_ok_def mode_ok_def by (simp_all add: pend)
  moreover have "layout_ok P ?v"
    using ok nl unfolding coll_ok_def layout_ok_def live tot by auto
  moreover have "ring_fwd X ?v"
    unfolding ring_fwd_def live
  proof (intro allI impI)
    fix r' p' i assume l: "live v r'" and i: "i < length (c_keys ?v r' p')"
    have r: "r' \<noteq> r" using l nl by blast
    with ok l i sp(2) have *: "c_members v (c_keys v r' p' ! i) = Some (Included r' p' i)" "c_keys v r' p' ! i \<notin> X"
      unfolding coll_ok_def ring_fwd_def by auto
    with r keep show "c_members ?v (c_keys ?v r' p' ! i) = Some (Included r' p' i) \<and> c_keys ?v r' p' ! i \<notin> X"
      by simp
  qed
  moreover have "queue_fwd X ?v"
    using ok keep unfolding coll_ok_def queue_fwd_def by fastforce
  moreover have "members_back X ?v"
  proof -
    have "(r', p') \<noteq> (r, p)" if k: "k \<notin> X" "mem k = Some (Included r' p' i)" for k r' p' i
    proof
      assume "(r', p') = (r, p)"
      moreover have "c_members v k = Some (Included r' p' i)" using other k(2) by auto
      moreover from this have "i < length (c_keys v r' p') \<and> c_keys v r' p' ! i = k"
        using ok k(1) unfolding coll_ok_def members_back_def by blast
      ultimately show False using k(2) by (auto simp: mem)
    qed
    moreover have "k \<in> set (c_queue v q)" if "k \<notin> X" "mem k = Some (Onboarding q t)" for k q t
      using ok that other[OF that(2)] unfolding coll_ok_def members_back_def by blast
    moreover have "i < length (c_keys v r' p') \<and> c_keys v r' p' ! i = k \<and> (live v r' \<or> c_removed v r' p')"
      if "k \<notin> X" "mem k = Some (Included r' p' i)" for k r' p' i
      using ok that other[OF that(2)] unfolding coll_ok_def members_back_def by blast
    ultimately show ?thesis
      unfolding members_back_def live by (simp add: slot_pending_def pend)
  qed
  moreover have "removed_ok ?v" using ok unfolding coll_ok_def removed_ok_def live by auto
  ultimately show ?thesis using ok by (simp add: coll_ok_def)
qed

subsection \<open>Single-page rings\<close>

lemma flexible_pages:
  assumes ok: "coll_ok Flexible P Q C X v" and i: "i < length (c_keys v r p)"
  shows "p = 0" and "c_status v r \<noteq> None" and "length (c_keys v r 0) = tot v r"
proof -
  have CP: "C \<le> P" and nr: "\<not> c_removed v r p" using ok by (auto simp: coll_ok_def mode_ok_def)
  have l: "live v r" using ok nr i unfolding coll_ok_def removed_ok_def by (metis length_greater_0_conv gr_implies_not0 neq0_conv)
  have len: "length (c_keys v r p') = min P (tot v r - p' * P)" for p'
    using ok l unfolding coll_ok_def layout_ok_def by blast
  have st: "c_status v r \<noteq> None" using i len[of p] by (auto simp: tot_def split: option.splits)
  then have "tot v r \<le> P" using ok CP unfolding coll_ok_def status_ok_def by (fastforce simp: tot_def)
  then show "p = 0"
  proof (cases p)
    case (Suc q)
    then have "P \<le> p * P" by simp
    with \<open>tot v r \<le> P\<close> i len[of p] show ?thesis by linarith
  qed
  show "c_status v r \<noteq> None" by (rule st)
  show "length (c_keys v r 0) = tot v r" using len[of 0] \<open>tot v r \<le> P\<close> by simp
qed

lemma flexible_live_len:
  assumes ok: "coll_ok Flexible P Q C X v" and l: "live v r"
  shows "length (c_keys v r 0) = tot v r" and "tot v r \<le> P" and "p \<noteq> 0 \<Longrightarrow> c_keys v r p = []"
proof -
  have "tot v r \<le> C" using ok unfolding coll_ok_def status_ok_def by (fastforce simp: tot_def split: option.splits)
  then show P: "tot v r \<le> P" using ok by (auto simp: coll_ok_def mode_ok_def)
  have len: "length (c_keys v r p') = min P (tot v r - p' * P)" for p'
    using ok l unfolding coll_ok_def layout_ok_def by blast
  then show "length (c_keys v r 0) = tot v r" using P by simp
  assume "p \<noteq> 0"
  then have "P \<le> p * P" by simp
  then have "length (c_keys v r p) = 0" using len[of p] P by linarith
  then show "c_keys v r p = []" by simp
qed

text \<open>A member of a ring is suspended: the slot is noted.\<close>

lemma suspend_ok:
  assumes ok: "coll_ok Flexible P Q C {} v" and k: "c_members v k = Some (Included r p i)"
    and ixs: "set ixs = insert i (set (c_pending v r))" "sorted ixs" "distinct ixs"
  shows "coll_ok Flexible P Q C {} (v\<lparr>c_pending := (c_pending v)(r := ixs), c_members := (c_members v)(k \<mapsto> Suspended)\<rparr>)"
    (is "coll_ok _ _ _ _ _ ?v")
proof -
  have slot: "i < length (c_keys v r p)" "c_keys v r p ! i = k" "\<not> slot_pending v r p i"
    using ok k unfolding coll_ok_def members_back_def by blast+
  have p: "p = 0" and st: "c_status v r \<noteq> None" using flexible_pages[OF ok slot(1)] by blast+
  have live: "live ?v = live v" and tot: "tot ?v = tot v" by (simp_all add: live_def tot_def fun_eq_iff)
  have sp: "slot_pending ?v r' p' i' \<longleftrightarrow> slot_pending v r' p' i' \<or> (r' = r \<and> p' = 0 \<and> i' = i)" for r' p' i'
    using ixs(1) by (auto simp: slot_pending_def)
  have "status_ok C ?v" "layout_ok P ?v" "queue_shape Q ?v" "mode_ok Flexible P C ?v"
    using ok unfolding coll_ok_def status_ok_def layout_ok_def queue_shape_def mode_ok_def live tot
    by simp_all
  moreover have "removed_ok ?v" using ok unfolding coll_ok_def removed_ok_def live by simp
  moreover have "ring_fwd {} ?v"
    unfolding ring_fwd_def live
  proof (intro allI impI)
    fix r' p' i' assume l: "live v r'" and i': "i' < length (c_keys ?v r' p')" and np: "\<not> slot_pending ?v r' p' i'"
    then have f: "c_members v (c_keys v r' p' ! i') = Some (Included r' p' i')"
      using ok sp unfolding coll_ok_def ring_fwd_def by auto
    moreover have "(r', p', i') \<noteq> (r, p, i)" using np sp[of r' p' i'] p by auto
    ultimately have "c_keys v r' p' ! i' \<noteq> k" using k by auto
    with f show "c_members ?v (c_keys ?v r' p' ! i') = Some (Included r' p' i') \<and> c_keys ?v r' p' ! i' \<notin> {}"
      by simp
  qed
  moreover have "queue_fwd {} ?v" using ok k unfolding coll_ok_def queue_fwd_def by fastforce
  moreover have "members_back {} ?v"
  proof -
    have "c_members v k' = Some (Included r' p' i') \<Longrightarrow> k' \<noteq> k \<Longrightarrow> (r', p', i') \<noteq> (r, 0, i)" for k' r' p' i'
      using ok slot(2) p unfolding coll_ok_def members_back_def by auto
    then show ?thesis
      using ok unfolding coll_ok_def members_back_def live by (auto simp: sp)
  qed
  moreover have "pending_ok ?v"
    using ok ixs slot(1) st p unfolding coll_ok_def pending_ok_def by auto
  ultimately show ?thesis using ok by (simp add: coll_ok_def)
qed

text \<open>The keys of a ring are taken out to be merged into another one.\<close>

lemma take_ring_ok:
  assumes ok: "coll_ok Flexible P Q C X v" and r: "r < c_current v" and np: "c_pending v r = []"
  shows "coll_ok Flexible P Q C (X \<union> set (c_keys v r 0))
    (v\<lparr>c_status := (c_status v)(r := None), c_keys := (c_keys v)(r := (c_keys v r)(0 := []))\<rparr>)"
    (is "coll_ok _ _ _ _ ?Y ?v")
proof -
  have CP: "C \<le> P" and nr: "\<And>r p. \<not> c_removed v r p" using ok by (auto simp: coll_ok_def mode_ok_def)
  have live: "live ?v r' \<longleftrightarrow> r' \<noteq> r \<and> live v r'" for r' using r by (auto simp: live_def)
  have tot: "r' \<noteq> r \<Longrightarrow> tot ?v r' = tot v r'" for r' by (simp add: tot_def)
  have sp: "slot_pending ?v = slot_pending v" by (simp add: slot_pending_def fun_eq_iff)
  have out: "c_members v k = Some (Included r 0 i)" "k \<notin> X"
    if "i < length (c_keys v r 0)" "c_keys v r 0 ! i = k" for i k
  proof -
    have "live v r" using flexible_pages(2)[OF ok that(1)] by (simp add: live_def)
    then show "c_members v k = Some (Included r 0 i)" "k \<notin> X"
      using ok that np unfolding coll_ok_def ring_fwd_def slot_pending_def by auto
  qed
  then have outk: "\<exists>i. c_members v k = Some (Included r 0 i)" if "k \<in> set (c_keys v r 0)" for k
    using that by (metis in_set_conv_nth)
  have empty: "c_keys ?v r p = []" for p
    using flexible_pages(1)[OF ok, of 0 r p] by auto
  have "status_ok C ?v" "queue_shape Q ?v" "mode_ok Flexible P C ?v"
    using ok unfolding coll_ok_def status_ok_def queue_shape_def mode_ok_def by auto
  moreover have "layout_ok P ?v"
    using ok unfolding coll_ok_def layout_ok_def by (auto simp: live tot)
  moreover have "ring_fwd ?Y ?v"
    unfolding ring_fwd_def sp
  proof (intro allI impI)
    fix r' p i assume l: "live ?v r'" and i: "i < length (c_keys ?v r' p)" and n: "\<not> slot_pending v r' p i"
    from l have r': "r' \<noteq> r" "live v r'" by (simp_all add: live)
    with ok i n have f: "c_members v (c_keys v r' p ! i) = Some (Included r' p i)" "c_keys v r' p ! i \<notin> X"
      unfolding coll_ok_def ring_fwd_def by auto
    with outk r'(1) show "c_members ?v (c_keys ?v r' p ! i) = Some (Included r' p i) \<and> c_keys ?v r' p ! i \<notin> ?Y"
      by fastforce
  qed
  moreover have "queue_fwd ?Y ?v"
    using ok outk unfolding coll_ok_def queue_fwd_def by fastforce
  moreover have "members_back ?Y ?v"
  proof -
    have "r' \<noteq> r" if "k \<notin> ?Y" "c_members v k = Some (Included r' p i)" for k r' p i
    proof
      assume "r' = r"
      with that ok have "i < length (c_keys v r p)" "c_keys v r p ! i = k"
        unfolding coll_ok_def members_back_def by auto
      with flexible_pages(1)[OF ok this(1)] that(1) show False by (auto simp: in_set_conv_nth)
    qed
    then show ?thesis
      using ok unfolding coll_ok_def members_back_def sp by (auto simp: live)
  qed
  moreover have "pending_ok ?v"
    using ok np unfolding coll_ok_def pending_ok_def by auto
  moreover have "removed_ok ?v"
    using ok empty nr unfolding coll_ok_def removed_ok_def by (auto simp: live)
  ultimately show ?thesis using ok by (simp add: coll_ok_def)
qed

end
