(* ===== verification/Members_Moves.thy ===== *)
theory Members_Moves
  imports Members_View
begin

text \<open>
  The remaining moves of keys within one collection: the removal of suspended keys, which compacts a
  ring, the merge of the first two pages of the queue, and the counters that follow.
\<close>

subsection \<open>Compacting a ring\<close>

definition kept :: "nat list \<Rightarrow> 'a list \<Rightarrow> 'a list" where
  "kept ixs keys = map ((!) keys) (filter (\<lambda>i. i \<notin> set ixs) [0..<length keys])"

definition kept_from :: "nat \<Rightarrow> nat list \<Rightarrow> 'a list \<Rightarrow> 'a list" where
  "kept_from b ixs keys = map ((!) keys) (filter (\<lambda>i. b + i \<notin> set ixs) [0..<length keys])"

lemma kept_from_0: "kept ixs keys = kept_from 0 ixs keys"
  by (simp add: kept_def kept_from_def)

lemma kept_from_Nil [simp]: "kept_from b ixs [] = []"
  by (simp add: kept_from_def)

lemma kept_from_Cons:
  "kept_from b ixs (k # ks) = (if b \<in> set ixs then [] else [k]) @ kept_from (Suc b) ixs ks"
proof -
  have "[0..<Suc (length ks)] = 0 # map Suc [0..<length ks]"
    by (simp add: map_Suc_upt upt_conv_Cons del: upt_Suc)
  then show ?thesis
    by (simp add: kept_from_def filter_map o_def)
qed

lemma kept_le: "length (kept ixs keys) \<le> length keys"
  unfolding kept_def by (metis diff_zero length_filter_le length_map length_upt)

lemma kept_nth:
  assumes "j < length (kept ixs keys)"
  obtains i where "i < length keys" "i \<notin> set ixs" "kept ixs keys ! j = keys ! i"
proof -
  let ?f = "filter (\<lambda>i. i \<notin> set ixs) [0..<length keys]"
  have "?f ! j \<in> set ?f" using assms by (intro nth_mem) (simp add: kept_def)
  then have "?f ! j < length keys" "?f ! j \<notin> set ixs" unfolding set_filter by auto
  then show thesis using that[of "?f ! j"] assms by (simp add: kept_def)
qed

lemma kept_back:
  assumes "i < length keys" "i \<notin> set ixs"
  shows "keys ! i \<in> set (kept ixs keys)"
  using assms by (auto simp: kept_def)

lemma kept_distinct:
  assumes "\<And>i j. i < length keys \<Longrightarrow> j < length keys \<Longrightarrow> i \<notin> set ixs \<Longrightarrow> j \<notin> set ixs \<Longrightarrow>
    keys ! i = keys ! j \<Longrightarrow> i = j"
  shows "distinct (kept ixs keys)"
  unfolding kept_def by (auto simp: distinct_map intro!: inj_onI assms)

lemma length_kept:
  assumes "distinct ixs" "\<And>i. i \<in> set ixs \<Longrightarrow> i < length keys"
  shows "length (kept ixs keys) = length keys - length ixs"
proof -
  have "length (kept ixs keys) = card (set (filter (\<lambda>i. i \<notin> set ixs) [0..<length keys]))"
    by (simp only: kept_def length_map distinct_card distinct_filter distinct_upt)
  also have "set (filter (\<lambda>i. i \<notin> set ixs) [0..<length keys]) = {0..<length keys} - set ixs" by auto
  also have "card \<dots> = length keys - length ixs"
    using assms by (subst card_Diff_subset) (auto simp: distinct_card)
  finally show ?thesis .
qed

text \<open>The suspended keys of a ring are dropped and the others move up.\<close>

lemma compact_ok:
  assumes ok: "coll_ok Flexible P Q C {} v" and l: "c_status v r = Some st"
    and new: "new = kept (c_pending v r) (c_keys v r 0)"
    and st': "total st' = length new" "included st' = 0"
    and mem: "\<And>k. mem k = (if \<exists>j < length new. new ! j = k then Some (Included r 0 (THE j. j < length new \<and> new ! j = k))
                       else c_members v k)"
  shows "coll_ok Flexible P Q C {} (v\<lparr>c_keys := (c_keys v)(r := (c_keys v r)(0 := new)),
     c_status := (c_status v)(r \<mapsto> st'), c_pending := (c_pending v)(r := []), c_members := mem\<rparr>)"
    (is "coll_ok _ _ _ _ _ ?v")
proof -
  let ?keys = "c_keys v r 0"
  have lr: "live v r" using l by (simp add: live_def)
  note len = flexible_live_len[OF ok lr]
  have fwd: "c_members v (?keys ! i) = Some (Included r 0 i)" if "i < length ?keys" "i \<notin> set (c_pending v r)" for i
    using ok lr that unfolding coll_ok_def ring_fwd_def slot_pending_def by blast
  have dist: "distinct new"
    unfolding new
  proof (rule kept_distinct)
    fix i j assume a: "i < length ?keys" "j < length ?keys" "i \<notin> set (c_pending v r)" "j \<notin> set (c_pending v r)"
      "?keys ! i = ?keys ! j"
    have "Some (Included r 0 i) = c_members v (?keys ! j)" using fwd[OF a(1,3)] unfolding a(5) by (rule sym)
    then show "i = j" unfolding fwd[OF a(2,4)] by simp
  qed
  have newle: "length new \<le> tot v r" using kept_le[of "c_pending v r" ?keys] len(1) by (simp add: new)
  have at: "mem (new ! j) = Some (Included r 0 j)" if j: "j < length new" for j
  proof -
    have "(THE j'. j' < length new \<and> new ! j' = new ! j) = j"
      using j dist by (intro the_equality) (auto simp: nth_eq_iff_index_eq)
    then show ?thesis using j by (auto simp: mem)
  qed
  have inr: "c_members v k = Some (Included r 0 i) \<Longrightarrow> k \<in> set new" for k i
  proof -
    assume k: "c_members v k = Some (Included r 0 i)"
    then have "i < length ?keys" "?keys ! i = k" "i \<notin> set (c_pending v r)"
      using ok unfolding coll_ok_def members_back_def slot_pending_def by blast+
    then show "k \<in> set new" unfolding new by (metis kept_back)
  qed
  have innew: "\<exists>i. c_members v k = Some (Included r 0 i)" if "k \<in> set new" for k
  proof -
    from that obtain j where "j < length new" "new ! j = k" by (auto simp: in_set_conv_nth)
    then show ?thesis using kept_nth[of j "c_pending v r" ?keys] fwd unfolding new by metis
  qed
  have memnot: "k \<notin> set new \<Longrightarrow> mem k = c_members v k" for k by (auto simp: mem in_set_conv_nth)
  have live: "live ?v = live v" using l by (auto simp: live_def fun_eq_iff)
  have tot: "tot ?v r' = (if r' = r then length new else tot v r')" for r' by (simp add: tot_def st')
  have sp: "slot_pending ?v r' p i \<longleftrightarrow> r' \<noteq> r \<and> slot_pending v r' p i" for r' p i by (auto simp: slot_pending_def)
  have "status_ok C ?v"
    using ok newle l st' unfolding coll_ok_def status_ok_def by (auto simp: tot_def intro: order_trans)
  moreover have "layout_ok P ?v"
    unfolding layout_ok_def live
  proof (intro allI impI)
    fix r' p assume l': "live v r'"
    show "length (c_keys ?v r' p) = min P (tot ?v r' - p * P)"
    proof (cases "r' = r")
      case True
      show ?thesis
      proof (cases "p = 0")
        case True
        then show ?thesis using \<open>r' = r\<close> newle len(2) by (simp add: tot)
      next
        case False
        then have "P \<le> p * P" by simp
        then have "length new \<le> p * P" using newle len(2) by linarith
        then show ?thesis using False \<open>r' = r\<close> len(3)[OF False] by (simp add: tot)
      qed
    next
      case False
      then show ?thesis using ok l' unfolding coll_ok_def layout_ok_def by (simp add: tot)
    qed
  qed
  moreover have "ring_fwd {} ?v"
    unfolding ring_fwd_def live
  proof (intro allI impI)
    fix r' p i assume l': "live v r'" and i: "i < length (c_keys ?v r' p)" and np: "\<not> slot_pending ?v r' p i"
    show "c_members ?v (c_keys ?v r' p ! i) = Some (Included r' p i) \<and> c_keys ?v r' p ! i \<notin> {}"
    proof (cases "r' = r")
      case True
      then have "p = 0" using i len(3) by (cases "p = 0") auto
      with True i at show ?thesis by simp
    next
      case False
      then have f: "c_members v (c_keys v r' p ! i) = Some (Included r' p i)"
        using ok l' i np unfolding coll_ok_def ring_fwd_def sp by simp
      then have "c_keys v r' p ! i \<notin> set new" using innew False by fastforce
      with f False show ?thesis by (simp add: memnot)
    qed
  qed
  moreover have "queue_fwd {} ?v"
  proof -
    have "k \<notin> set new" if "k \<in> set (c_queue v q)" for k q
      using that ok innew[of k] unfolding coll_ok_def queue_fwd_def by fastforce
    then show ?thesis using ok memnot unfolding coll_ok_def queue_fwd_def by simp
  qed
  moreover have "queue_shape Q ?v" using ok unfolding coll_ok_def queue_shape_def by simp
  moreover have "members_back {} ?v"
    unfolding members_back_def live
  proof (intro conjI allI impI)
    fix k q t assume "c_members ?v k = Some (Onboarding q t)"
    moreover from this have "k \<notin> set new" using at by (fastforce simp: in_set_conv_nth)
    ultimately show "k \<in> set (c_queue ?v q)"
      using ok memnot unfolding coll_ok_def members_back_def by simp
  next
    fix k r' p i assume k: "c_members ?v k = Some (Included r' p i)"
    have *: "i < length (c_keys ?v r' p) \<and> c_keys ?v r' p ! i = k \<and> (live v r' \<or> c_removed ?v r' p) \<and>
        \<not> slot_pending ?v r' p i"
    proof (cases "k \<in> set new")
      case True
      then obtain j where j: "j < length new" "new ! j = k" by (auto simp: in_set_conv_nth)
      then have "r' = r" "p = 0" "i = j" using at[of j] k by auto
      with j lr show ?thesis by (simp add: sp)
    next
      case False
      then have k': "c_members v k = Some (Included r' p i)" using k by (simp add: memnot)
      then have bk: "i < length (c_keys v r' p) \<and> c_keys v r' p ! i = k \<and> (live v r' \<or> c_removed v r' p) \<and>
        \<not> slot_pending v r' p i" using ok unfolding coll_ok_def members_back_def by blast
      have "r' \<noteq> r"
      proof
        assume "r' = r"
        moreover have "p = 0" using bk flexible_pages(1)[OF ok] by blast
        ultimately show False using inr k' False by blast
      qed
      with bk show ?thesis by (simp add: sp)
    qed
    then show "i < length (c_keys ?v r' p)" "c_keys ?v r' p ! i = k" "live v r' \<or> c_removed ?v r' p"
      "\<not> slot_pending ?v r' p i" by blast+
  qed
  moreover have "pending_ok ?v" using ok unfolding coll_ok_def pending_ok_def by auto
  moreover have "mode_ok Flexible P C ?v" using ok unfolding coll_ok_def mode_ok_def by auto
  moreover have "removed_ok ?v"
    using ok lr unfolding coll_ok_def removed_ok_def live by auto
  ultimately show ?thesis using ok by (simp add: coll_ok_def)
qed

subsection \<open>Merging queue pages\<close>

lemma merge_pages_ok:
  assumes ok: "coll_ok m P Q C {} v" and h: "c_head v < c_tail v"
    and fit: "length (c_queue v (c_head v)) + length (c_queue v (Suc (c_head v))) \<le> Q"
    and q: "q = (c_queue v)(c_head v := [], Suc (c_head v) := c_queue v (c_head v) @ c_queue v (Suc (c_head v)))"
    and mem: "\<And>k. mem k = (case c_members v k of
                  Some (Onboarding p t) \<Rightarrow> if k \<in> set (c_queue v (c_head v)) then Some (Onboarding (Suc (c_head v)) t)
                                          else Some (Onboarding p t)
                | pos \<Rightarrow> pos)"
  shows "coll_ok m P Q C {} (v\<lparr>c_queue := q, c_head := Suc (c_head v), c_members := mem\<rparr>)" (is "coll_ok _ _ _ _ _ ?v")
proof -
  let ?h = "c_head v"
  have live: "live ?v = live v" and sp: "slot_pending ?v = slot_pending v"
    by (simp_all add: live_def slot_pending_def fun_eq_iff)
  have on: "c_members v k = Some (Onboarding p t) \<longleftrightarrow> k \<in> set (c_queue v p) \<and> c_members v k = Some (Onboarding p t)" for k p t
    using ok unfolding coll_ok_def members_back_def by blast
  have qp: "\<exists>t. c_members v k = Some (Onboarding p t)" if "k \<in> set (c_queue v p)" for k p
    using ok that unfolding coll_ok_def queue_fwd_def by blast
  have one: "p = p'" if "k \<in> set (c_queue v p)" "k \<in> set (c_queue v p')" for k p p'
    using qp[OF that(1)] qp[OF that(2)] by auto
  have inc: "mem k = Some (Included r p i) \<longleftrightarrow> c_members v k = Some (Included r p i)" for k r p i
    by (auto simp: mem split: option.splits ring_position.splits)
  have "ring_fwd {} ?v" using ok inc unfolding coll_ok_def ring_fwd_def live sp by simp
  moreover have "queue_fwd {} ?v"
    unfolding queue_fwd_def
  proof (intro allI impI)
    fix p k assume k: "k \<in> set (c_queue ?v p)"
    show "(\<exists>t. c_members ?v k = Some (Onboarding p t)) \<and> k \<notin> {}"
    proof (cases "k \<in> set (c_queue v ?h)")
      case True
      then obtain t where "c_members v k = Some (Onboarding ?h t)" using qp by blast
      moreover have "p = Suc ?h"
        using k one[OF True, of p] by (auto simp: q split: if_splits)
      ultimately show ?thesis using True by (simp add: mem)
    next
      case False
      with k have kp: "k \<in> set (c_queue v p)" by (auto simp: q split: if_splits)
      then obtain t where "c_members v k = Some (Onboarding p t)" using qp by blast
      then show ?thesis using False by (simp add: mem)
    qed
  qed
  moreover have "members_back {} ?v"
    unfolding members_back_def live sp
  proof (intro conjI allI impI)
    fix k p t assume "c_members ?v k = Some (Onboarding p t)"
    then have a: "mem k = Some (Onboarding p t)" by simp
    then obtain p' where p': "c_members v k = Some (Onboarding p' t)"
      by (auto simp: mem split: option.splits ring_position.splits if_splits)
    then have k: "k \<in> set (c_queue v p')" using on by blast
    show "k \<in> set (c_queue ?v p)"
    proof (cases "k \<in> set (c_queue v ?h)")
      case True
      then show ?thesis using a p' by (auto simp: mem q)
    next
      case False
      then have "p = p'" "p' \<noteq> ?h" using a p' k by (auto simp: mem)
      then show ?thesis using k by (auto simp: q)
    qed
  next
    fix k r p i assume "c_members ?v k = Some (Included r p i)"
    then have "c_members v k = Some (Included r p i)" by (simp add: inc)
    then show "i < length (c_keys ?v r p)" "c_keys ?v r p ! i = k" "live v r \<or> c_removed ?v r p"
      "\<not> slot_pending v r p i" using ok unfolding coll_ok_def members_back_def by auto
  qed
  moreover have "queue_shape Q ?v"
  proof -
    have d: "distinct (c_queue v p)" "length (c_queue v p) \<le> Q" "c_queue v p \<noteq> [] \<Longrightarrow> ?h \<le> p \<and> p \<le> c_tail v" for p
      using ok unfolding coll_ok_def queue_shape_def by auto
    have "set (c_queue v ?h) \<inter> set (c_queue v (Suc ?h)) = {}" using one[of _ ?h "Suc ?h"] by auto
    then have "distinct (q p) \<and> length (q p) \<le> Q \<and> (q p \<noteq> [] \<longrightarrow> Suc ?h \<le> p \<and> p \<le> c_tail v)" for p
      using d[of p] d(1)[of ?h] d(1)[of "Suc ?h"] fit h by (auto simp: q) 
    then show ?thesis using ok h unfolding coll_ok_def queue_shape_def by simp
  qed
  moreover have "status_ok C ?v" "layout_ok P ?v" "pending_ok ?v" "mode_ok m P C ?v" "removed_ok ?v"
    using ok unfolding coll_ok_def status_ok_def layout_ok_def pending_ok_def mode_ok_def removed_ok_def live
    by (simp_all add: tot_def)
  ultimately show ?thesis using ok by (simp add: coll_ok_def)
qed

subsection \<open>The member count\<close>

lemma tot_above: "coll_ok m P Q C X v \<Longrightarrow> c_current v < r \<Longrightarrow> tot v r = 0"
  unfolding coll_ok_def status_ok_def tot_def by (fastforce split: option.splits)

lemma active_upd:
  assumes act: "active_ok v" and r: "r \<le> c_current v" and cur: "c_current v' = c_current v"
    and other: "\<And>r'. r' \<noteq> r \<Longrightarrow> tot v' r' = tot v r'" and new: "c_active v' + tot v r = c_active v + tot v' r"
  shows "active_ok v'"
proof -
  have fin: "finite {..c_current v}" and mem: "r \<in> {..c_current v}" using r by auto
  have "(\<Sum>i\<le>c_current v. tot v' i) = tot v' r + (\<Sum>i\<in>{..c_current v} - {r}. tot v' i)"
    by (rule sum.remove[OF fin mem])
  moreover have "(\<Sum>i\<le>c_current v. tot v i) = tot v r + (\<Sum>i\<in>{..c_current v} - {r}. tot v i)"
    by (rule sum.remove[OF fin mem])
  moreover have "(\<Sum>i\<in>{..c_current v} - {r}. tot v' i) = (\<Sum>i\<in>{..c_current v} - {r}. tot v i)"
    by (rule sum.cong) (use other in auto)
  ultimately show ?thesis using act new unfolding active_ok_def cur by linarith
qed

lemma tot_le_active: "active_ok v \<Longrightarrow> r \<le> c_current v \<Longrightarrow> tot v r \<le> c_active v"
  unfolding active_ok_def by (metis atMost_iff finite_atMost member_le_sum zero_le)

lemma active_same:
  "active_ok v \<Longrightarrow> c_current v' = c_current v \<Longrightarrow> c_active v' = c_active v \<Longrightarrow> tot v' = tot v \<Longrightarrow> active_ok v'"
  by (simp add: active_ok_def)

end
