(* ===== verification/Members_Steps.thy ===== *)
theory Members_Steps
  imports Members_Moves
begin

text \<open>
  How the operations of \<^verbatim>\<open>pallets/members/src/lib.rs\<close> act on the view of a collection: each loop of the code
  is a sequence of the moves of keys of \<open>Members_View\<close> and \<open>Members_Moves\<close>, and every operation touches one
  collection only.
\<close>

lemmas view_simps = view_def get_or_def

lemma view_sel [simp]:
  "c_keys (view s i) r p = key_page s i r p" "c_status (view s i) r = fmlookup (RingKeysStatus s) (i, r)"
  "c_pending (view s i) r = pending_of s i r" "c_members (view s i) k = fmlookup (Members s) (i, k)"
  "c_queue (view s i) q = queue_page_of s i q" "c_head (view s i) = fst (queue_ends s i)"
  "c_tail (view s i) = snd (queue_ends s i)" "c_current (view s i) = current_ring s i"
  "c_active (view s i) = get_or 0 (ActiveMembers s) i"
  "c_removed (view s i) r p = contains_key (RingDeletionQueue s) (i, r, p)"
  by (simp_all add: view_def)

lemma tot_view: "tot (view s i) r = total (status_of s i r)"
  by (simp add: tot_def get_or_def default_ring_status_def split: option.splits)

subsection \<open>Placing a list of keys\<close>

lemma place_all_frame [simp]:
  "c_pending (fold (place P r) ks v) = c_pending v" "c_queue (fold (place P r) ks v) = c_queue v"
  "c_head (fold (place P r) ks v) = c_head v" "c_tail (fold (place P r) ks v) = c_tail v"
  "c_current (fold (place P r) ks v) = c_current v" "c_active (fold (place P r) ks v) = c_active v"
  "c_removed (fold (place P r) ks v) = c_removed v"
  by (induction ks arbitrary: v) simp_all

lemma tot_place_all: "tot (fold (place P r) ks v) r' = (if r' = r then tot v r + length ks else tot v r')"
  by (induction ks arbitrary: v) (auto simp: tot_place)

lemma live_place_all: "live v r \<Longrightarrow> live (fold (place P r) ks v) r' = live v r'"
  by (induction ks arbitrary: v) (simp_all add: live_place)

lemma status_place_all:
  "ks \<noteq> [] \<Longrightarrow> c_status (fold (place P r) ks v) = (c_status v)(r \<mapsto>
     (case c_status v r of None \<Rightarrow> default_ring_status | Some st \<Rightarrow> st)\<lparr>total := tot v r + length ks\<rparr>)"
proof (induction ks arbitrary: v)
  case (Cons k ks)
  have one: "c_status (place P r k v) = (c_status v)(r \<mapsto>
      (case c_status v r of None \<Rightarrow> default_ring_status | Some st \<Rightarrow> st)\<lparr>total := tot v r + 1\<rparr>)"
    by (simp add: place_def Let_def)
  show ?case
  proof (cases "ks = []")
    case True
    then show ?thesis by (simp add: one)
  next
    case False
    show ?thesis by (simp add: Cons.IH[OF False] one tot_place fun_eq_iff)
  qed
qed simp

lemma place_all_ok:
  "coll_ok m P Q C X v \<Longrightarrow> set ks \<subseteq> X \<Longrightarrow> distinct ks \<Longrightarrow> live v r \<Longrightarrow> r \<le> c_current v \<Longrightarrow>
   tot v r + length ks \<le> C \<Longrightarrow> coll_ok m P Q C (X - set ks) (fold (place P r) ks v)"
proof (induction ks arbitrary: v X)
  case (Cons k ks)
  have "coll_ok m P Q C (X - {k}) (place P r k v)" using Cons.prems by (intro place_ok) auto
  then have "coll_ok m P Q C (X - {k} - set ks) (fold (place P r) ks (place P r k v))"
    using Cons.prems by (intro Cons.IH) (auto simp: live_place tot_place)
  moreover have "X - {k} - set ks = X - set (k # ks)" by auto
  ultimately show ?case by simp
qed simp

text \<open>The pages in memory during the loop of \<open>onboard_members\<close>: the page being filled is not yet stored.\<close>

definition filling ::
  "coll_id \<Rightarrow> ring_index \<Rightarrow> nat \<Rightarrow> ('acc, 'loc, 'm, 'r, 'i) mst \<Rightarrow> 'm coll \<Rightarrow> page_index \<Rightarrow> 'm list \<Rightarrow> bool" where
  "filling i r P s v page keys \<longleftrightarrow>
     page = tot v r div P \<and> c_members v = c_members (view s i) \<and>
     c_keys v = (c_keys (view s i))(r := (c_keys (view s i) r)(page := keys)) \<and>
     (keys = [] \<longrightarrow> key_page s i r page = [])"

lemma div_next: "0 < (P::nat) \<Longrightarrow> Suc t div P = (if Suc (t mod P) = P then Suc (t div P) else t div P)"
  by (simp add: div_Suc mod_Suc)

lemma onboard_keys_run:
  assumes "coll_ok m P Q C X v" "set ks \<subseteq> X" "distinct ks" "live v r" "r \<le> c_current v"
    "tot v r + length ks \<le> C" "filling i r P s v page keys" "\<forall>k \<in> set ks. contains_key (Members s) (i, k)"
  shows "\<exists>page' keys' M K. onboard_keys P i r ks page keys s = Inr (page', keys', s\<lparr>Members := M, RingKeys := K\<rparr>) \<and>
    filling i r P (s\<lparr>Members := M, RingKeys := K\<rparr>) (fold (place P r) ks v) page' keys' \<and>
    (\<forall>j. j \<noteq> i \<longrightarrow> view (s\<lparr>Members := M, RingKeys := K\<rparr>) j = view s j)"
  using assms
proof (induction ks arbitrary: X v page keys s)
  case Nil
  have "s = s\<lparr>Members := Members s, RingKeys := RingKeys s\<rparr>" by simp
  with Nil.prems(7) show ?case by (metis fold_simps(1) onboard_keys.simps(1))
next
  case (Cons k ks)
  let ?v = "place P r k v" and ?t = "tot v r"
  let ?s1 = "s\<lparr>Members := fmupd (i, k) (Included r page (length keys)) (Members s)\<rparr>"
  have P: "0 < P" and C: "C \<le> max_of 32" using Cons.prems(1) by (auto simp: coll_ok_def)
  have fill: "page = ?t div P" "c_members v = c_members (view s i)"
    "c_keys v = (c_keys (view s i))(r := (c_keys (view s i) r)(page := keys))"
    using Cons.prems(7) unfolding filling_def by blast+
  have len: "length keys = ?t mod P"
    using coll_ok_page_len[OF Cons.prems(1,4)] unfolding fill(3) fill(1) by simp
  then have short: "length keys < P" using P by simp
  have ok: "coll_ok m P Q C (X - {k}) ?v" using Cons.prems by (intro place_ok) auto
  have pre: "set ks \<subseteq> X - {k}" "distinct ks" "live ?v r" "r \<le> c_current ?v" "tot ?v r + length ks \<le> C"
    using Cons.prems by (auto simp: live_place tot_place)
  have keys: "c_keys ?v = (c_keys v)(r := (c_keys v r)(page := keys @ [k]))"
    and mem: "c_members ?v = (c_members v)(k \<mapsto> Included r page (length keys))"
    by (simp_all add: place_def Let_def fill(1) len) (simp_all add: fill(3) fill(1) fun_upd_def fun_eq_iff)
  have k: "contains_key (Members s) (i, k)" using Cons.prems(8) by simp
  have view1: "c_members ?v = c_members (view ?s1 i)"
    by (simp add: mem fill(2) view_def fun_eq_iff)
  have dom1: "\<forall>k' \<in> set ks. contains_key (Members ?s1) (i, k')" using Cons.prems(8) by auto
  show ?case
  proof (cases "Suc (length keys) \<ge> P")
    case False
    have "filling i r P ?s1 ?v page (keys @ [k])"
      unfolding filling_def
    proof (intro conjI)
      show "page = tot ?v r div P" using False short len by (simp add: tot_place fill(1) div_next[OF P])
      show "c_keys ?v = (c_keys (view ?s1 i))(r := (c_keys (view ?s1 i) r)(page := keys @ [k]))"
        by (simp add: keys fill(3) view_def fun_eq_iff)
    qed (use view1 in simp_all)
    from Cons.IH[OF ok pre this dom1] obtain page' keys' M K where
      "onboard_keys P i r ks page (keys @ [k]) ?s1 = Inr (page', keys', ?s1\<lparr>Members := M, RingKeys := K\<rparr>)"
      "filling i r P (?s1\<lparr>Members := M, RingKeys := K\<rparr>) (fold (place P r) ks ?v) page' keys'"
      "\<forall>j. j \<noteq> i \<longrightarrow> view (?s1\<lparr>Members := M, RingKeys := K\<rparr>) j = view ?s1 j" by blast
    moreover have "j \<noteq> i \<Longrightarrow> view ?s1 j = view s j" for j by (simp add: view_def)
    ultimately show ?thesis using k short False by (auto simp: try_push_def)
  next
    case True
    let ?s2 = "?s1\<lparr>RingKeys := fmupd (i, r, page) (keys @ [k]) (RingKeys ?s1)\<rparr>"
    have full: "Suc (?t mod P) = P" using True short len by simp
    have "page \<le> ?t" "?t < C" using Cons.prems(6) by (simp_all add: fill(1))
    then have "page < C" by linarith
    then have inc: "sat_inc 32 page = Suc page" using C by (intro sat_inc_exact) simp
    have fill2: "filling i r P ?s2 ?v (Suc page) (key_page ?s2 i r (Suc page))"
      unfolding filling_def
    proof (intro conjI)
      show "Suc page = tot ?v r div P" using full by (simp add: tot_place fill(1) div_next[OF P])
      show "c_members ?v = c_members (view ?s2 i)" using view1 by (simp add: view_def)
      show "c_keys ?v = (c_keys (view ?s2 i))(r := (c_keys (view ?s2 i) r)(Suc page := key_page ?s2 i r (Suc page)))"
        by (simp add: keys fill(3) view_def fun_eq_iff)
    qed simp
    have dom2: "\<forall>k' \<in> set ks. contains_key (Members ?s2) (i, k')" using dom1 by simp
    from Cons.IH[OF ok pre fill2 dom2] obtain page' keys' M K where
      "onboard_keys P i r ks (Suc page) (key_page ?s2 i r (Suc page)) ?s2 =
         Inr (page', keys', ?s2\<lparr>Members := M, RingKeys := K\<rparr>)"
      "filling i r P (?s2\<lparr>Members := M, RingKeys := K\<rparr>) (fold (place P r) ks ?v) page' keys'"
      "\<forall>j. j \<noteq> i \<longrightarrow> view (?s2\<lparr>Members := M, RingKeys := K\<rparr>) j = view ?s2 j" by blast
    moreover have "j \<noteq> i \<Longrightarrow> view ?s2 j = view s j" for j by (simp add: view_def)
    ultimately show ?thesis using k short True inc by (auto simp: try_push_def)
  qed
qed

subsection \<open>Taking keys from the head of the queue\<close>

lemma take_head_ok:
  assumes ok: "coll_ok m P Q C X v"
    and h': "h' = c_head v \<or> (h' = Suc (c_head v) \<and> c_head v < c_tail v \<and> length (c_queue v (c_head v)) \<le> n)"
  shows "coll_ok m P Q C (X \<union> set (take n (c_queue v (c_head v))))
    (v\<lparr>c_queue := (c_queue v)(c_head v := drop n (c_queue v (c_head v))), c_head := h'\<rparr>)"
proof -
  let ?h = "c_head v" and ?ks = "c_queue v (c_head v)"
  let ?q = "(c_queue v)(?h := drop n ?ks)"
  have d: "distinct (c_queue v p)" "length (c_queue v p) \<le> Q" "c_queue v p \<noteq> [] \<longrightarrow> ?h \<le> p \<and> p \<le> c_tail v" for p
    using ok unfolding coll_ok_def queue_shape_def by blast+
  have ht: "?h \<le> c_tail v" "c_tail v \<le> max_of 32" using ok unfolding coll_ok_def queue_shape_def by blast+
  have split: "set ?ks = set (take n ?ks) \<union> set (drop n ?ks)" by (metis append_take_drop_id set_append)
  have disj: "set (take n ?ks) \<inter> set (drop n ?ks) = {}"
    using d(1)[of ?h] by (metis append_take_drop_id distinct_append)
  have q: "distinct (?q p) \<and> length (?q p) \<le> Q \<and> (?q p \<noteq> [] \<longrightarrow> h' \<le> p \<and> p \<le> c_tail v)" for p
  proof (cases "p = ?h")
    case True
    then show ?thesis using d[of ?h] h' by auto
  next
    case False
    then show ?thesis using d[of p] h' by (auto simp: Suc_le_eq)
  qed
  have "queue_shape Q (v\<lparr>c_queue := ?q, c_head := h', c_tail := c_tail v\<rparr>)"
    using q ht h' by (auto simp: queue_shape_def)
  moreover have "set (?q p) \<subseteq> set (c_queue v p)" for p using split by auto
  moreover have "X \<union> set (take n ?ks) = X \<union> {k. \<exists>p. k \<in> set (c_queue v p) \<and> k \<notin> set (?q p)}"
    using split disj by (auto split: if_splits)
  ultimately have "coll_ok m P Q C (X \<union> set (take n ?ks)) (v\<lparr>c_queue := ?q, c_head := h', c_tail := c_tail v\<rparr>)"
    by (intro dequeue_ok[OF ok])
  then show ?thesis by simp
qed

text \<open>Both pages at the head, as \<open>onboard_members\<close> reads them.\<close>

lemma take_two_ok:
  assumes ok: "coll_ok m P Q C X v" and ht: "c_head v < c_tail v" and n: "length (c_queue v (c_head v)) \<le> n"
    and ks: "ks = c_queue v (c_head v) @ c_queue v (Suc (c_head v))"
    and h': "h' = Suc (c_head v) \<or> (h' = Suc (Suc (c_head v)) \<and> Suc (c_head v) < c_tail v \<and> length ks \<le> n)"
  shows "coll_ok m P Q C (X \<union> set (take n ks))
    (v\<lparr>c_queue := (c_queue v)(c_head v := [], Suc (c_head v) := drop n ks), c_head := h'\<rparr>)"
proof -
  let ?h = "c_head v"
  let ?v = "v\<lparr>c_queue := (c_queue v)(?h := drop n (c_queue v ?h)), c_head := Suc ?h\<rparr>"
  let ?n = "n - length (c_queue v ?h)"
  have v1: "coll_ok m P Q C (X \<union> set (take n (c_queue v ?h))) ?v" using ht n by (intro take_head_ok[OF ok]) simp
  have "coll_ok m P Q C (X \<union> set (take n (c_queue v ?h)) \<union> set (take ?n (c_queue ?v (c_head ?v))))
    (?v\<lparr>c_queue := (c_queue ?v)(c_head ?v := drop ?n (c_queue ?v (c_head ?v))), c_head := h'\<rparr>)"
    using h' n ks by (intro take_head_ok[OF v1]) auto
  moreover have "take n ks = c_queue v ?h @ take ?n (c_queue v (Suc ?h))" "drop n ks = drop ?n (c_queue v (Suc ?h))"
    using n by (simp_all add: ks)
  ultimately show ?thesis using n by (simp add: Un_assoc)
qed

lemma queue_facts:
  assumes "coll_ok m P Q C {} v" "k \<in> set (c_queue v p)"
  shows "c_members v k \<noteq> None" and "k \<in> set (c_queue v p') \<Longrightarrow> p' = p"
proof -
  have *: "\<exists>t. c_members v k = Some (Onboarding q t)" if "k \<in> set (c_queue v q)" for q
    using assms(1) that unfolding coll_ok_def queue_fwd_def by blast
  show "c_members v k \<noteq> None" using *[OF assms(2)] by auto
  show "p' = p" if "k \<in> set (c_queue v p')" using *[OF assms(2)] *[OF that] by auto
qed

subsection \<open>The top ring\<close>

lemma available_ring_top:
  assumes ok: "coll_ok m (flexible_ring_capacity cfg) Q C X (view s i)" and nf: "not_full C (view s i)"
  shows "available_ring cfg i C s =
    ((current_ring s i, tot (view s i) (current_ring s i) div flexible_ring_capacity cfg,
      key_page s i (current_ring s i) (tot (view s i) (current_ring s i) div flexible_ring_capacity cfg),
      status_of s i (current_ring s i)), s)"
    and "length (key_page s i (current_ring s i) (tot (view s i) (current_ring s i) div flexible_ring_capacity cfg))
      = tot (view s i) (current_ring s i) mod flexible_ring_capacity cfg"
proof -
  let ?P = "flexible_ring_capacity cfg" and ?t = "tot (view s i) (current_ring s i)"
  have "live (view s i) (current_ring s i)" by (simp add: live_def)
  from coll_ok_page_len[OF ok this] show len: "length (key_page s i (current_ring s i) (?t div ?P)) = ?t mod ?P" by simp
  have "?t div ?P * ?P + ?t mod ?P < C" using nf by (simp add: not_full_def)
  then show "available_ring cfg i C s =
    ((current_ring s i, ?t div ?P, key_page s i (current_ring s i) (?t div ?P), status_of s i (current_ring s i)), s)"
    using len by (simp add: available_ring_def Let_def tot_view)
qed

end
