(* ===== verification/Members_Onboard.thy ===== *)
theory Members_Onboard
  imports Members_Steps
begin

text \<open>
  Onboarding in \<^verbatim>\<open>pallets/members/src/lib.rs\<close>: \<open>onboard_members\<close>, \<open>do_self_include\<close>, \<open>add_members\<close> and
  \<open>merge_rings\<close> keep the collection consistent.
\<close>

definition only_at :: "coll_id \<Rightarrow> ('acc, 'loc, 'm, 'r, 'i) mst \<Rightarrow> ('acc, 'loc, 'm, 'r, 'i) mst \<Rightarrow> bool" where
  "only_at i s s' \<longleftrightarrow> Collections s' = Collections s \<and> RetiredIdentifiers s' = RetiredIdentifiers s \<and>
     SuspendedCollections s' = SuspendedCollections s \<and> RingsState s' = RingsState s \<and>
     (\<forall>j. j \<noteq> i \<longrightarrow> view s' j = view s j)"

lemma only_at_refl [simp]: "only_at i s s"
  by (simp add: only_at_def)

lemma only_at_trans: "only_at i s s' \<Longrightarrow> only_at i s' s'' \<Longrightarrow> only_at i s s''"
  by (simp add: only_at_def)

definition coll_inv ::
  "('acc, 'm, 'r, 'i, 'o, 'chunk, 'cap, 'proof) mcfg \<Rightarrow> ('acc, 'loc) collection_info \<Rightarrow> 'm coll \<Rightarrow> bool" where
  "coll_inv cfg info v \<longleftrightarrow>
     coll_ok (ci_mode info) (flexible_ring_capacity cfg) (onboarding_queue_page_size cfg)
       (ring_capacity cfg (ci_ring_size info)) {} v \<and>
     active_ok v \<and> not_full (ring_capacity cfg (ci_ring_size info)) v"

subsection \<open>Onboarding from the queue\<close>

lemma requeue_ok:
  fixes s :: "('acc, 'loc, 'm, 'r, 'i) mst"
  assumes ok: "coll_ok m P Q C {} (view s i)" and Q: "Q = onboarding_queue_page_size cfg"
    and ends: "queue_ends s i = (old, t)"
    and two: "two = (length (queue_page_of s i old) < open_slots \<and> old \<noteq> t)"
    and head: "head = (if two then next_page old else old)"
    and kti: "kti = (if two then queue_page_of s i old @ queue_page_of s i head else queue_page_of s i old)"
    and n: "n = min (length kti) open_slots"
  shows "\<exists>qm h'. (\<forall>s1 :: ('acc, 'loc, 'm, 'r, 'i) mst. OnboardingQueue s1 = OnboardingQueue s \<longrightarrow> requeue cfg i old head t (drop n kti) s1
        = s1\<lparr>OnboardingQueue := qm, QueuePageIndices := fmupd i (h', t) (QueuePageIndices s1)\<rparr>) \<and>
      coll_ok m P Q C (set (take n kti)) ((view s i)\<lparr>c_queue := \<lambda>p. get_or [] qm (i, p), c_head := h'\<rparr>) \<and>
      (\<lambda>p. get_or [] qm (i, p)) = (c_queue (view s i))(old := [], head := drop n kti) \<and>
      (\<forall>j p. j \<noteq> i \<longrightarrow> fmlookup qm (j, p) = fmlookup (OnboardingQueue s) (j, p))"
proof -
  let ?v = "view s i"
  have h: "c_head ?v = old" "c_tail ?v = t" using ends by simp_all
  have d: "length (c_queue ?v p) \<le> Q" "c_head ?v \<le> c_tail ?v" "c_tail ?v \<le> max_of 32" for p
    using ok unfolding coll_ok_def queue_shape_def by blast+
  note short = d(1)[unfolded view_sel]
  have nx: "x < t \<Longrightarrow> next_page x = Suc x" for x using d(3) h by (intro next_page_exact) simp
  show ?thesis
  proof (cases two)
    case False
    then have hd: "head = old" "kti = queue_page_of s i old" by (simp_all add: head kti)
    have len: "\<not> length (drop n kti) > Q" using short[of old] by (simp add: hd)
    show ?thesis
    proof (cases "drop n kti = []")
      case False
      let ?qm = "fmupd (i, old) (drop n kti) (fmdrop (i, old) (OnboardingQueue s))"
      have "coll_ok m P Q C ({} \<union> set (take n kti)) (?v\<lparr>c_queue := (c_queue ?v)(old := drop n kti), c_head := old\<rparr>)"
        using take_head_ok[OF ok, of old n] by (simp add: ends hd)
      moreover have "(c_queue ?v)(old := drop n kti) = (\<lambda>p. get_or [] ?qm (i, p))" by (auto simp: view_def)
      ultimately have "coll_ok m P Q C (set (take n kti)) (?v\<lparr>c_queue := \<lambda>p. get_or [] ?qm (i, p), c_head := old\<rparr>)"
        by simp
      moreover have "\<forall>s1 :: ('acc, 'loc, 'm, 'r, 'i) mst. OnboardingQueue s1 = OnboardingQueue s \<longrightarrow> requeue cfg i old head t (drop n kti) s1
        = s1\<lparr>OnboardingQueue := ?qm, QueuePageIndices := fmupd i (old, t) (QueuePageIndices s1)\<rparr>"
        using False len by (simp add: requeue_def Let_def Q[symmetric] hd(1))
      moreover have "(\<lambda>p. get_or [] ?qm (i, p)) = (c_queue ?v)(old := [], head := drop n kti)"
        unfolding hd(1) by (auto simp: fun_eq_iff)
      moreover have "\<forall>j p. j \<noteq> i \<longrightarrow> fmlookup ?qm (j, p) = fmlookup (OnboardingQueue s) (j, p)" by simp
      ultimately show ?thesis by blast
    next
      case True
      let ?qm = "fmdrop (i, old) (OnboardingQueue s)" and ?h = "if old \<noteq> t then next_page old else old"
      have "old \<noteq> t \<Longrightarrow> old < t" using d(2) h by simp
      then have "?h = old \<or> (?h = Suc old \<and> old < t \<and> length (queue_page_of s i old) \<le> n)"
        using nx[of old] True by (auto simp: hd)
      then have "coll_ok m P Q C ({} \<union> set (take n kti)) (?v\<lparr>c_queue := (c_queue ?v)(old := drop n kti), c_head := ?h\<rparr>)"
        using take_head_ok[OF ok, of ?h n] by (simp add: ends hd)
      moreover have "(c_queue ?v)(old := drop n kti) = (\<lambda>p. get_or [] ?qm (i, p))" unfolding True by (auto simp: view_def)
      ultimately have "coll_ok m P Q C (set (take n kti)) (?v\<lparr>c_queue := \<lambda>p. get_or [] ?qm (i, p), c_head := ?h\<rparr>)"
        by simp
      moreover have "\<forall>s1 :: ('acc, 'loc, 'm, 'r, 'i) mst. OnboardingQueue s1 = OnboardingQueue s \<longrightarrow> requeue cfg i old head t (drop n kti) s1
        = s1\<lparr>OnboardingQueue := ?qm, QueuePageIndices := fmupd i (?h, t) (QueuePageIndices s1)\<rparr>"
        unfolding True by (simp add: requeue_def Let_def hd(1))
      moreover have "(\<lambda>p. get_or [] ?qm (i, p)) = (c_queue ?v)(old := [], head := drop n kti)"
        unfolding True hd(1) by (auto simp: fun_eq_iff)
      moreover have "\<forall>j p. j \<noteq> i \<longrightarrow> fmlookup ?qm (j, p) = fmlookup (OnboardingQueue s) (j, p)" by simp
      ultimately show ?thesis by blast
    qed
  next
    case True
    have lt: "old < t" and fo: "length (queue_page_of s i old) < open_slots" using True two d(2) h by auto
    have hd: "head = Suc old" using True nx[OF lt] by (simp add: head)
    have k2: "kti = c_queue ?v (c_head ?v) @ c_queue ?v (Suc (c_head ?v))" using True by (simp add: kti hd ends)
    have ln: "length (c_queue ?v (c_head ?v)) \<le> n" using fo by (auto simp: n k2 ends)
    have len: "\<not> length (drop n kti) > Q" using ln short[of "Suc old"] by (simp add: k2 ends)
    have step: "coll_ok m P Q C (set (take n kti)) (?v\<lparr>c_queue := (c_queue ?v)(old := [], Suc old := drop n kti), c_head := h'\<rparr>)"
      if "h' = Suc old \<or> (h' = Suc (Suc old) \<and> Suc old < t \<and> length kti \<le> n)" for h'
      using take_two_ok[OF ok _ ln k2, of h'] that lt by (simp add: ends)
    show ?thesis
    proof (cases "drop n kti = []")
      case False
      let ?qm = "fmupd (i, Suc old) (drop n kti) (fmdrop (i, old) (OnboardingQueue s))"
      have "(c_queue ?v)(old := [], Suc old := drop n kti) = (\<lambda>p. get_or [] ?qm (i, p))" by (auto simp: view_def)
      with step[of "Suc old"]
      have "coll_ok m P Q C (set (take n kti)) (?v\<lparr>c_queue := \<lambda>p. get_or [] ?qm (i, p), c_head := Suc old\<rparr>)" by simp
      moreover have "\<forall>s1 :: ('acc, 'loc, 'm, 'r, 'i) mst. OnboardingQueue s1 = OnboardingQueue s \<longrightarrow> requeue cfg i old head t (drop n kti) s1
        = s1\<lparr>OnboardingQueue := ?qm, QueuePageIndices := fmupd i (Suc old, t) (QueuePageIndices s1)\<rparr>"
        using False len by (simp add: requeue_def Let_def Q[symmetric] hd)
      moreover have "(\<lambda>p. get_or [] ?qm (i, p)) = (c_queue ?v)(old := [], head := drop n kti)"
        unfolding hd by (auto simp: fun_eq_iff)
      moreover have "\<forall>j p. j \<noteq> i \<longrightarrow> fmlookup ?qm (j, p) = fmlookup (OnboardingQueue s) (j, p)" by simp
      ultimately show ?thesis by blast
    next
      case True
      let ?qm = "fmdrop (i, old) (fmdrop (i, Suc old) (OnboardingQueue s))"
      let ?h = "if Suc old \<noteq> t then next_page (Suc old) else Suc old"
      have "Suc old \<noteq> t \<Longrightarrow> Suc old < t" using lt by simp
      then have "?h = Suc old \<or> (?h = Suc (Suc old) \<and> Suc old < t \<and> length kti \<le> n)" using nx[of "Suc old"] True by auto
      from step[OF this] have "coll_ok m P Q C (set (take n kti)) (?v\<lparr>c_queue := (c_queue ?v)(old := [], Suc old := []), c_head := ?h\<rparr>)"
        unfolding True .
      moreover have "(c_queue ?v)(old := [], Suc old := []) = (\<lambda>p. get_or [] ?qm (i, p))" by (auto simp: view_def)
      ultimately have "coll_ok m P Q C (set (take n kti)) (?v\<lparr>c_queue := \<lambda>p. get_or [] ?qm (i, p), c_head := ?h\<rparr>)" by simp
      moreover have "\<forall>s1 :: ('acc, 'loc, 'm, 'r, 'i) mst. OnboardingQueue s1 = OnboardingQueue s \<longrightarrow> requeue cfg i old head t (drop n kti) s1
        = s1\<lparr>OnboardingQueue := ?qm, QueuePageIndices := fmupd i (?h, t) (QueuePageIndices s1)\<rparr>"
        unfolding True by (simp add: requeue_def Let_def hd)
      moreover have "(\<lambda>p. get_or [] ?qm (i, p)) = (c_queue ?v)(old := [], head := drop n kti)"
        unfolding True hd by (auto simp: fun_eq_iff)
      moreover have "\<forall>j p. j \<noteq> i \<longrightarrow> fmlookup ?qm (j, p) = fmlookup (OnboardingQueue s) (j, p)" by simp
      ultimately show ?thesis by blast
    qed
  qed
qed

lemma coll_eqI:
  "(\<And>r p. c_keys v r p = c_keys w r p) \<Longrightarrow> (\<And>r. c_status v r = c_status w r) \<Longrightarrow> (\<And>r. c_pending v r = c_pending w r) \<Longrightarrow>
   (\<And>k. c_members v k = c_members w k) \<Longrightarrow> (\<And>q. c_queue v q = c_queue w q) \<Longrightarrow> c_head v = c_head w \<Longrightarrow>
   c_tail v = c_tail w \<Longrightarrow> c_current v = c_current w \<Longrightarrow> c_active v = c_active w \<Longrightarrow>
   (\<And>r p. c_removed v r p = c_removed w r p) \<Longrightarrow> v = (w :: 'm coll)"
  by (rule coll.equality) (simp_all add: fun_eq_iff)

lemma coll_ok_active [simp]: "coll_ok m P Q C X (v\<lparr>c_active := a\<rparr>) = coll_ok m P Q C X v"
  by (simp add: coll_ok_defs live_def tot_def slot_pending_def)

lemma tot_active [simp]: "tot (v\<lparr>c_active := a\<rparr>) = tot v"
  by (simp add: tot_def fun_eq_iff)

lemma tot_current [simp]: "tot (v\<lparr>c_current := a\<rparr>) = tot v"
  by (simp add: tot_def fun_eq_iff)

lemma tot_queue [simp]: "tot (v\<lparr>c_queue := q\<rparr>) = tot v" "tot (v\<lparr>c_head := h\<rparr>) = tot v" "tot (v\<lparr>c_tail := h\<rparr>) = tot v"
  by (simp_all add: tot_def fun_eq_iff)

text \<open>A ring that takes \<open>n\<close> more keys, closed when it is full.\<close>

lemma grow_inv:
  assumes ok: "coll_ok (ci_mode info) (flexible_ring_capacity cfg) (onboarding_queue_page_size cfg) C {} w"
    and C: "C = ring_capacity cfg (ci_ring_size info)"
    and act: "active_ok v" and cur: "c_current w = c_current v"
    and tot: "\<And>r. tot w r = (if r = c_current v then tot v r + n else tot v r)" and n: "0 < n"
    and room: "tot v (c_current v) + n \<le> C" and a: "a = c_active v + n"
    and c: "c = (if tot v (c_current v) + n = C then Suc (c_current v) else c_current v)"
  shows "coll_inv cfg info (w\<lparr>c_active := a, c_current := c\<rparr>)"
proof -
  let ?w = "w\<lparr>c_active := a\<rparr>"
  have ok': "coll_ok (ci_mode info) (flexible_ring_capacity cfg) (onboarding_queue_page_size cfg) C {} ?w" using ok by simp
  have act': "active_ok ?w"
    by (rule active_upd[OF act order_refl]) (simp_all add: cur tot a)
  have "0 < tot w (c_current w)" using n by (simp add: tot cur)
  then have st: "c_status ?w (c_current ?w) \<noteq> None" by (auto simp: tot_def split: option.splits)
  show ?thesis
  proof (cases "tot v (c_current v) + n = C")
    case True
    then have "w\<lparr>c_active := a, c_current := c\<rparr> = ?w\<lparr>c_current := Suc (c_current ?w)\<rparr>" by (simp add: c cur)
    then show ?thesis using advance_ok[OF ok' act' st] by (simp add: coll_inv_def C)
  next
    case False
    then have "w\<lparr>c_active := a, c_current := c\<rparr> = ?w" by (simp add: c cur[symmetric])
    moreover have "not_full C ?w" using False room by (simp add: not_full_def tot cur)
    ultimately show ?thesis using ok' act' by (simp add: coll_inv_def C)
  qed
qed

lemma head_keys_distinct:
  assumes ok: "coll_ok m P Q C {} v"
  shows "distinct (c_queue v p)" and "p \<noteq> p' \<Longrightarrow> distinct (c_queue v p @ c_queue v p')"
proof -
  have d: "distinct (c_queue v q)" for q using ok unfolding coll_ok_def queue_shape_def by blast
  then show "distinct (c_queue v p)" .
  assume "p \<noteq> p'"
  then have "set (c_queue v p) \<inter> set (c_queue v p') = {}" using queue_facts(2)[OF ok] by blast
  with d show "distinct (c_queue v p @ c_queue v p')" by simp
qed

lemma should_onboard_Some:
  "should_onboard_members i r st slots avail sz C s = Some (n, filled) \<Longrightarrow>
   n = min avail slots \<and> 0 < n \<and> filled = (slots = n)"
  by (auto simp: should_onboard_members_def Let_def split: if_splits)

definition roomy :: "('acc, 'm, 'r, 'i, 'o, 'chunk, 'cap, 'proof) mcfg \<Rightarrow> ('acc, 'loc) collection_info \<Rightarrow> 'm coll \<Rightarrow> bool" where
  "roomy cfg info v \<longleftrightarrow> c_active v + ring_capacity cfg (ci_ring_size info) \<le> max_of 32 \<and> c_current v < max_of 32"

lemma onboard_members_ok:
  fixes s :: "('acc, 'loc, 'm, 'r, 'i) mst"
  assumes info: "fmlookup (Collections s) i = Some info" and inv: "coll_inv cfg info (view s i)"
    and roomy: "roomy cfg info (view s i)"
    and C: "C = ring_capacity cfg (ci_ring_size info)" and cur: "cur = current_ring s i"
    and slots: "slots = C - total (status_of s i cur)"
    and ends: "queue_ends s i = (old, t)"
    and two: "two = (length (queue_page_of s i old) < slots \<and> old \<noteq> t)"
    and kti: "kti = (if two then queue_page_of s i old @ queue_page_of s i (next_page old) else queue_page_of s i old)"
    and should: "should_onboard_members i cur (status_of s i cur) slots (length kti)
      (get_or 0 (OnboardingSize s) i) C s = Some (n, filled)"
  shows "\<exists>s' h'. onboard_members cfg i b s = Inr (s', True) \<and> only_at i s s' \<and> coll_inv cfg info (view s' i) \<and>
    view s' i = (fold (place (flexible_ring_capacity cfg) cur) (take n kti)
      ((view s i)\<lparr>c_queue := (c_queue (view s i))(old := [], (if two then next_page old else old) := drop n kti), c_head := h'\<rparr>))
      \<lparr>c_active := c_active (view s i) + n, c_current := if tot (view s i) cur + n = C then Suc cur else cur\<rparr>"
proof -
  let ?P = "flexible_ring_capacity cfg" and ?Q = "onboarding_queue_page_size cfg" and ?v = "view s i" and ?m = "ci_mode info"
  let ?t = "tot ?v cur" and ?head = "if two then next_page old else old" and ?ks = "take n kti"
  have ok: "coll_ok ?m ?P ?Q C {} ?v" and act: "active_ok ?v" and nf: "not_full C ?v"
    using inv by (simp_all add: coll_inv_def C)
  have Cmax: "C \<le> max_of 32" and P: "0 < ?P" using ok by (simp_all add: coll_ok_def)
  have tC: "?t < C" using nf by (simp add: not_full_def cur)
  have tv: "total (status_of s i cur) = ?t" by (simp add: tot_view)
  note avail = available_ring_top[OF ok nf, folded cur]
  have sum: "sat_add 32 (?t mod ?P) (?t div ?P * ?P) = ?t"
    using tC Cmax by (subst sat_add_exact) simp_all
  have n: "n = min (length kti) slots" "0 < n" "filled = (slots = n)"
    using should_onboard_Some[OF should] by blast+
  have hn: "kti = (if two then queue_page_of s i old @ queue_page_of s i ?head else queue_page_of s i old)"
    by (simp add: kti)
  have len: "length ?ks = n" "?ks \<noteq> []" using n by auto
  obtain qm h' where rq: "\<And>s1 :: ('acc, 'loc, 'm, 'r, 'i) mst. OnboardingQueue s1 = OnboardingQueue s \<Longrightarrow>
      requeue cfg i old ?head t (drop n kti) s1
        = s1\<lparr>OnboardingQueue := qm, QueuePageIndices := fmupd i (h', t) (QueuePageIndices s1)\<rparr>"
    and v1: "coll_ok ?m ?P ?Q C (set ?ks) (?v\<lparr>c_queue := \<lambda>p. get_or [] qm (i, p), c_head := h'\<rparr>)"
    and qm: "(\<lambda>p. get_or [] qm (i, p)) = (c_queue ?v)(old := [], ?head := drop n kti)"
    and qo: "\<And>j p. j \<noteq> i \<Longrightarrow> fmlookup qm (j, p) = fmlookup (OnboardingQueue s) (j, p)"
    using requeue_ok[OF ok refl ends two refl hn n(1)] by blast
  let ?keys = "key_page s i cur (?t div ?P)" and ?v1 = "?v\<lparr>c_queue := \<lambda>p. get_or [] qm (i, p), c_head := h'\<rparr>"
  let ?w = "fold (place ?P cur) ?ks ?v1"
  have ht: "old \<le> t" "t \<le> max_of 32" using ok ends unfolding coll_ok_def queue_shape_def by simp_all
  have "distinct kti"
  proof (cases two)
    case True
    then have "next_page old \<noteq> old" using two ht by (subst next_page_exact) auto
    then show ?thesis using True head_keys_distinct(2)[OF ok, of old "next_page old"] by (simp add: kti)
  qed (use head_keys_distinct(1)[OF ok, of old] in \<open>simp add: kti\<close>)
  then have dist: "distinct ?ks" by simp
  have "\<forall>k \<in> set kti. contains_key (Members s) (i, k)"
    using queue_facts(1)[OF ok] by (auto simp: kti split: if_splits)
  then have dom: "\<forall>k \<in> set ?ks. contains_key (Members s) (i, k)" by (meson in_set_takeD)
  have fill: "filling i cur ?P s ?v1 (?t div ?P) ?keys" by (simp add: filling_def fun_eq_iff)
  have live: "live ?v1 cur" "cur \<le> c_current ?v1" by (simp_all add: live_def cur)
  have slots': "slots = C - ?t" by (simp add: slots tv)
  have tn: "?t + n \<le> C" using n(1) tC by (simp add: slots')
  have v1t: "tot ?v1 = tot ?v" by simp
  have fit: "tot ?v1 cur + length ?ks \<le> C" using tn len(1) by simp
  obtain page' keys' M K where
    run: "onboard_keys ?P i cur ?ks (?t div ?P) ?keys s = Inr (page', keys', s\<lparr>Members := M, RingKeys := K\<rparr>)"
    and fill': "filling i cur ?P (s\<lparr>Members := M, RingKeys := K\<rparr>) ?w page' keys'"
    and oth: "\<And>j. j \<noteq> i \<Longrightarrow> view (s\<lparr>Members := M, RingKeys := K\<rparr>) j = view s j"
    using onboard_keys_run[OF v1 order_refl dist live fit fill dom] by blast
  have w: "coll_ok ?m ?P ?Q C {} ?w" using place_all_ok[OF v1 order_refl dist live fit] by simp
  let ?c = "if ?t + n = C then Suc cur else cur"
  have inv': "coll_inv cfg info (?w\<lparr>c_active := c_active ?v + n, c_current := ?c\<rparr>)"
    by (rule grow_inv[OF w C act, where n = n]) (use n(2) tn len(1) in \<open>simp_all add: cur tot_place_all\<close>)
  have filled: "filled \<longleftrightarrow> ?t + n = C" using n(3) tC by (auto simp: slots')
  let ?K = "if keys' \<noteq> [] then fmupd (i, cur, page') keys' K else K"
  let ?st = "(status_of s i cur)\<lparr>total := ?t + n\<rparr>"
  let ?s' = "members_deposit (MembersOnboarded i) (s\<lparr>Members := M, RingKeys := ?K,
      ActiveMembers := fmupd i (c_active ?v + n) (ActiveMembers s), RingKeysStatus := fmupd (i, cur) ?st (RingKeysStatus s),
      StaleRings := fmupd (i, cur) () (StaleRings s),
      CurrentRingIndex := (if filled then fmupd i (Suc cur) (CurrentRingIndex s) else CurrentRingIndex s),
      OnboardingQueue := qm, QueuePageIndices := fmupd i (h', t) (QueuePageIndices s)\<rparr>)"
  have ex: "sat_add 32 (get_or 0 (ActiveMembers s) i) n = c_active ?v + n" "sat_add 32 ?t n = ?t + n"
      "sat_inc 32 cur = Suc cur"
    using roomy tn Cmax by (simp_all add: roomy_def C[symmetric] cur sat_add_exact sat_inc_exact)
  have res: "onboard_members cfg i b s = Inr (?s', True)"
    unfolding onboard_members_def info
    by (cases "keys' = []"; cases filled)
      (simp_all add: Let_def C[symmetric] avail(1) avail(2) cur[symmetric] sum ends slots'[symmetric] two[symmetric]
        kti[symmetric] should run rq tv ex cong: if_cong split del: if_split)
  have kw: "c_keys ?w = (c_keys (view (s\<lparr>Members := M, RingKeys := K\<rparr>) i))
      (cur := (c_keys (view (s\<lparr>Members := M, RingKeys := K\<rparr>) i) cur)(page' := keys'))"
    and mw: "c_members ?w = c_members (view (s\<lparr>Members := M, RingKeys := K\<rparr>) i)"
    and emp: "keys' = [] \<longrightarrow> key_page (s\<lparr>Members := M, RingKeys := K\<rparr>) i cur page' = []"
    using fill' unfolding filling_def by blast+
  have sw: "c_status ?w = (c_status ?v)(cur \<mapsto> ?st)"
    using status_place_all[OF len(2), of ?P cur ?v1] len(1) by (simp add: get_or_def fun_eq_iff)
  have veq: "view ?s' i = ?w\<lparr>c_active := c_active ?v + n, c_current := ?c\<rparr>"
    by (rule coll_eqI) (use emp in \<open>auto simp: kw mw sw members_deposit_def ends filled cur[symmetric]\<close>)
  then have "coll_inv cfg info (view ?s' i)" using inv' by simp
  moreover have "only_at i s ?s'"
  proof -
    have "view ?s' j = view s j" if "j \<noteq> i" for j
      using oth[OF that] that qo[OF that] by (simp add: view_def get_or_def members_deposit_def fun_eq_iff)
    then show ?thesis by (simp add: only_at_def members_deposit_def)
  qed
  ultimately show ?thesis using res veq unfolding qm by blast
qed

end
