(* ===== verification/Members_Queue.thy ===== *)
theory Members_Queue
  imports Members_Onboard
begin

text \<open>
  Entering and leaving the onboarding queue in \<^verbatim>\<open>pallets/members/src/lib.rs\<close> one member at a time:
  \<open>do_self_include\<close>, \<open>add_members\<close>, \<open>queue_member_suspensions\<close>, and the merge of queue pages.
\<close>

subsection \<open>Self-inclusion\<close>

text \<open>One key leaves its queue page.\<close>

lemma dequeue_one_ok:
  assumes ok: "coll_ok m P Q C {} v" and k: "k \<in> set (c_queue v p)"
    and h': "h' = c_head v \<or> (h' = Suc (c_head v) \<and> c_head v < c_tail v \<and> p = c_head v \<and> remove1 k (c_queue v p) = [])"
  shows "coll_ok m P Q C {k} (v\<lparr>c_queue := (c_queue v)(p := remove1 k (c_queue v p)), c_head := h'\<rparr>)"
proof -
  let ?q = "(c_queue v)(p := remove1 k (c_queue v p))"
  have d: "distinct (c_queue v q)" "length (c_queue v q) \<le> Q" "c_queue v q \<noteq> [] \<longrightarrow> c_head v \<le> q \<and> q \<le> c_tail v" for q
    using ok unfolding coll_ok_def queue_shape_def by blast+
  have ht: "c_head v \<le> c_tail v" "c_tail v \<le> max_of 32" using ok unfolding coll_ok_def queue_shape_def by blast+
  have len: "length (remove1 k (c_queue v p)) \<le> Q" using d(2)[of p] by (auto simp: length_remove1 intro: le_trans[OF diff_le_self])
  have ne: "c_queue v p \<noteq> []" using k by auto
  have "distinct (?q q) \<and> length (?q q) \<le> Q \<and> (?q q \<noteq> [] \<longrightarrow> h' \<le> q \<and> q \<le> c_tail v)" for q
  proof (cases "q = p")
    case True
    then show ?thesis using d[of p] len ne h' by auto
  next
    case False
    then show ?thesis using d[of q] h' by (auto simp: Suc_le_eq)
  qed
  then have "queue_shape Q (v\<lparr>c_queue := ?q, c_head := h', c_tail := c_tail v\<rparr>)"
    using ht h' by (auto simp: queue_shape_def)
  moreover have "set (?q q) \<subseteq> set (c_queue v q)" for q
    using set_remove1_subset[of k "c_queue v p"] by auto
  moreover have "{k} = {} \<union> {k'. \<exists>q. k' \<in> set (c_queue v q) \<and> k' \<notin> set (?q q)}"
    using k d(1) by (auto split: if_splits)
  ultimately have "coll_ok m P Q C {k} (v\<lparr>c_queue := ?q, c_head := h', c_tail := c_tail v\<rparr>)"
    by (intro dequeue_ok[OF ok])
  then show ?thesis by simp
qed

lemma do_self_include_ok:
  fixes s :: "('acc, 'loc, 'm, 'r, 'i) mst"
  assumes info: "fmlookup (Collections s) i = Some info" and inv: "coll_inv cfg info (view s i)"
    and roomy: "roomy cfg info (view s i)" and run: "do_self_include cfg i k s = Inr s'"
  shows "only_at i s s' \<and> coll_inv cfg info (view s' i)"
proof -
  let ?P = "flexible_ring_capacity cfg" and ?Q = "onboarding_queue_page_size cfg" and ?v = "view s i" and ?m = "ci_mode info"
  let ?C = "ring_capacity cfg (ci_ring_size info)" and ?cur = "current_ring s i"
  let ?t = "tot ?v ?cur"
  have mode: "append_only (rings_mode s i)" using run by (auto simp: do_self_include_def info Let_def bindE_Inr ensure_Inr)
  obtain position where position: "fmlookup (Members s) (i, k) = Some position"
    using run mode by (cases "fmlookup (Members s) (i, k)") (simp_all add: do_self_include_def info Let_def)
  obtain p t0 where pos: "fmlookup (Members s) (i, k) = Some (Onboarding p t0)"
    using run mode position by (cases position) (simp_all add: do_self_include_def info Let_def)
  have k: "k \<in> set (queue_page_of s i p)"
    using run mode pos by (cases "k \<in> set (queue_page_of s i p)") (simp_all add: do_self_include_def info Let_def)
  obtain h t where ends: "queue_ends s i = (h, t)" by force
  let ?ks = "remove1 k (queue_page_of s i p)"
  let ?h = "if ?ks = [] \<and> h = p \<and> h \<noteq> t then next_page p else h"
  have ok: "coll_ok ?m ?P ?Q ?C {} ?v" and act: "active_ok ?v" and nf: "not_full ?C ?v"
    using inv by (simp_all add: coll_inv_def)
  have Cmax: "?C \<le> max_of 32" using ok by (simp add: coll_ok_def)
  have tC: "?t < ?C" using nf by (simp add: not_full_def)
  have ht: "h \<le> t" "t \<le> max_of 32" using ok ends unfolding coll_ok_def queue_shape_def by simp_all
  define s1 where "s1 = (if ?ks = [] then s\<lparr>OnboardingQueue := fmdrop (i, p) (OnboardingQueue s),
        QueuePageIndices := fmupd i (if h = p \<and> h \<noteq> t then next_page p else h, t) (QueuePageIndices s)\<rparr>
      else s\<lparr>OnboardingQueue := fmupd (i, p) ?ks (OnboardingQueue s)\<rparr>)"
  have f: "CurrentRingIndex s1 = CurrentRingIndex s" "RingKeys s1 = RingKeys s" "RingKeysStatus s1 = RingKeysStatus s"
    "Members s1 = Members s" "ActiveMembers s1 = ActiveMembers s" "StaleRings s1 = StaleRings s"
    by (simp_all add: s1_def)
  let ?v1 = "?v\<lparr>c_queue := (c_queue ?v)(p := ?ks), c_head := ?h\<rparr>"
  have "?h = c_head ?v \<or> (?h = Suc (c_head ?v) \<and> c_head ?v < c_tail ?v \<and> p = c_head ?v \<and> remove1 k (c_queue ?v p) = [])"
    using ht ends by (auto simp: next_page_exact)
  from dequeue_one_ok[OF ok _ this] k have v1: "coll_ok ?m ?P ?Q ?C {k} ?v1" by simp
  have view1: "view s1 i = ?v1"
    by (rule coll_eqI) (auto simp: ends s1_def)
  have nf1: "not_full ?C ?v1" using nf by (simp add: not_full_def)
  have t1: "tot ?v1 = tot ?v" by simp
  note at = available_ring_top[of ?m cfg ?Q ?C "{k}" s1 i, unfolded view1 f t1, OF v1 nf1]
  have live: "live ?v1 ?cur" by (simp add: live_def)
  have w: "coll_ok ?m ?P ?Q ?C {} (place ?P ?cur k ?v1)"
    using place_ok[OF v1 _ live] tC by simp
  let ?w = "place ?P ?cur k ?v1" and ?c = "if ?t + 1 = ?C then Suc ?cur else ?cur"
  have inv': "coll_inv cfg info (?w\<lparr>c_active := c_active ?v + 1, c_current := ?c\<rparr>)"
    by (rule grow_inv[OF w refl act, where n = 1]) (use tC in \<open>simp_all add: tot_place\<close>)
  have tv: "total (status_of s i ?cur) = ?t" by (simp add: tot_view)
  have ex: "sat_add 32 (get_or 0 (ActiveMembers s) i) 1 = c_active ?v + 1" "sat_add 32 ?t 1 = ?t + 1"
      "sat_inc 32 ?cur = Suc ?cur"
    using roomy tC Cmax by (simp_all add: roomy_def sat_add_exact sat_inc_exact)
  have push: "try_push ?P (key_page s i ?cur (?t div ?P)) k = Some (key_page s i ?cur (?t div ?P) @ [k])"
    using at(2) ok by (simp add: try_push_def coll_ok_def)
  let ?st = "(status_of s i ?cur)\<lparr>total := ?t + 1\<rparr>"
  let ?page = "key_page s i ?cur (?t div ?P)"
  let ?s' = "s1\<lparr>RingKeys := fmupd (i, ?cur, ?t div ?P) (?page @ [k]) (RingKeys s),
      Members := fmupd (i, k) (Included ?cur (?t div ?P) (?t mod ?P)) (Members s),
      RingKeysStatus := fmupd (i, ?cur) ?st (RingKeysStatus s),
      ActiveMembers := fmupd i (c_active ?v + 1) (ActiveMembers s),
      StaleRings := fmupd (i, ?cur) () (StaleRings s),
      CurrentRingIndex := (if ?t + 1 = ?C then fmupd i (Suc ?cur) (CurrentRingIndex s) else CurrentRingIndex s)\<rparr>"
  have full: "?C \<le> Suc ?t \<longleftrightarrow> Suc ?t = ?C" using tC by auto
  have "do_self_include cfg i k s = Inr ?s'"
    unfolding do_self_include_def info
    by (simp add: Let_def mode pos k ends s1_def[symmetric] at push tv ex[simplified] f full cong: if_cong split del: if_split)
      (simp, intro impI members_state.equality, simp_all add: f)
  then have s': "s' = ?s'" using run by simp
  have "view s' i = ?w\<lparr>c_active := c_active ?v + 1, c_current := ?c\<rparr>"
    unfolding s' by (rule coll_eqI) (auto simp: place_def Let_def ends get_or_def[symmetric] s1_def)
  then have "coll_inv cfg info (view s' i)" using inv' by simp
  moreover have "only_at i s s'" unfolding s' by (simp add: only_at_def view_def get_or_def s1_def)
  ultimately show ?thesis by blast
qed

subsection \<open>New members\<close>

lemma coll_inv_same:
  assumes "coll_inv cfg info v"
    "coll_ok (ci_mode info) (flexible_ring_capacity cfg) (onboarding_queue_page_size cfg)
       (ring_capacity cfg (ci_ring_size info)) {} v'"
    "tot v' = tot v" "c_current v' = c_current v" "c_active v' = c_active v"
  shows "coll_inv cfg info v'"
  using assms by (simp add: coll_inv_def active_ok_def not_full_def)

lemma push_ok:
  assumes inv: "coll_inv cfg info (view s i)"
    and k: "fmlookup (Members s) (i, k) = None \<or> fmlookup (Members s) (i, k) = Some Suspended"
    and tl: "snd (queue_ends s i) < max_of 32" and run: "push_to_onboarding_queue cfg now i k s = Inr s'"
  shows "only_at i s s' \<and> coll_inv cfg info (view s' i) \<and> snd (queue_ends s' i) \<le> Suc (snd (queue_ends s i)) \<and>
    ActiveMembers s' = ActiveMembers s \<and> CurrentRingIndex s' = CurrentRingIndex s"
proof -
  let ?P = "flexible_ring_capacity cfg" and ?Q = "onboarding_queue_page_size cfg" and ?v = "view s i" and ?m = "ci_mode info"
  let ?C = "ring_capacity cfg (ci_ring_size info)"
  obtain h t where ends: "queue_ends s i = (h, t)" by force
  have ok: "coll_ok ?m ?P ?Q ?C {} ?v" using inv by (simp add: coll_inv_def)
  have fly: "coll_ok ?m ?P ?Q ?C {k} ?v" using fly_ok[OF ok, of k] k by simp
  have shape: "h \<le> t" "c_queue ?v q \<noteq> [] \<longrightarrow> q \<le> t" for q
    using ok ends unfolding coll_ok_def queue_shape_def by auto
  have Q: "0 < ?Q" using ok by (simp add: coll_ok_def)
  have tl': "t < max_of 32" using tl ends by simp
  let ?full = "\<not> length (queue_page_of s i t) < ?Q"
  let ?p = "if ?full then Suc t else t"
  have new: "queue_page_of s i (Suc t) = []" using shape(2)[of "Suc t"] by auto
  let ?ks = "queue_page_of s i ?p @ [k]"
  let ?s' = "members_deposit (MemberAdded k) (s\<lparr>QueuePageIndices := fmupd i (h, ?p) (QueuePageIndices s),
      OnboardingQueue := fmupd (i, ?p) ?ks (OnboardingQueue s), Members := fmupd (i, k) (Onboarding ?p now) (Members s)\<rparr>)"
  have "Suc t \<noteq> h" using shape(1) by simp
  then have "push_to_onboarding_queue cfg now i k s = Inr ?s'"
    by (simp add: push_to_onboarding_queue_def ends try_push_def next_page_exact[OF tl'] new)
  then have s': "s' = ?s'" using run by simp
  have "coll_ok ?m ?P ?Q ?C ({k} - {k})
    (?v\<lparr>c_queue := (c_queue ?v)(?p := c_queue ?v ?p @ [k]), c_tail := ?p, c_members := (c_members ?v)(k \<mapsto> Onboarding ?p now)\<rparr>)"
    by (rule enqueue_ok[OF fly]) (use new Q tl' shape(1) ends in auto)
  moreover have "view s' i = ?v\<lparr>c_queue := (c_queue ?v)(?p := c_queue ?v ?p @ [k]), c_tail := ?p,
      c_members := (c_members ?v)(k \<mapsto> Onboarding ?p now)\<rparr>"
    unfolding s' by (rule coll_eqI) (auto simp: members_deposit_def ends)
  ultimately have "coll_inv cfg info (view s' i)"
    by (intro coll_inv_same[OF inv]) (auto simp: tot_def fun_eq_iff)
  moreover have "only_at i s s'" unfolding s' by (simp add: only_at_def view_def get_or_def members_deposit_def)
  moreover have "snd (queue_ends s' i) \<le> Suc (snd (queue_ends s i))" unfolding s' by (simp add: members_deposit_def ends)
  ultimately show ?thesis unfolding s' by (simp add: members_deposit_def)
qed

lemma add_members_loop_ok:
  "coll_inv cfg info (view s i) \<Longrightarrow> snd (queue_ends s i) + length ms \<le> max_of 32 \<Longrightarrow>
   add_members_loop cfg now i ms s = Inr s' \<Longrightarrow> only_at i s s' \<and> coll_inv cfg info (view s' i)"
proof (induction ms arbitrary: s)
  case (Cons k ms)
  from Cons.prems(3) obtain s1 where pos: "fmlookup (Members s) (i, k) = None \<or> fmlookup (Members s) (i, k) = Some Suspended"
    and push: "push_to_onboarding_queue cfg now i k s = Inr s1" and rest: "add_members_loop cfg now i ms s1 = Inr s'"
    by (auto simp: bindE_Inr ensure_Inr split: option.splits)
  have 1: "only_at i s s1" "coll_inv cfg info (view s1 i)" "snd (queue_ends s1 i) \<le> Suc (snd (queue_ends s i))"
    using push_ok[OF Cons.prems(1) pos _ push] Cons.prems(2) by auto
  have "snd (queue_ends s1 i) + length ms \<le> max_of 32" using 1(3) Cons.prems(2) by simp
  from Cons.IH[OF 1(2) this rest] 1(1) show ?case by (blast intro: only_at_trans)
qed simp

subsection \<open>Suspensions\<close>

lemma index_insert_facts:
  assumes "index_insert x xs = Some ys" "sorted xs" "distinct xs"
  shows "set ys = insert x (set xs)" "sorted ys" "distinct ys" "x \<notin> set xs"
proof -
  have x: "x \<notin> set xs" and ys: "ys = takeWhile (\<lambda>y. y < x) xs @ x # dropWhile (\<lambda>y. y < x) xs"
    using assms(1) by (auto simp: index_insert_def split: if_splits)
  show "x \<notin> set xs" by (rule x)
  show s: "set ys = insert x (set xs)"
    unfolding ys by (metis Un_insert_right list.simps(15) set_append takeWhile_dropWhile_id)
  have ys': "ys = insort x xs"
    unfolding ys using x assms(2)
  proof (induction xs)
    case (Cons y xs)
    then show ?case by (auto simp: less_le_not_le)
  qed simp
  show "sorted ys" unfolding ys' using assms(2) by (simp add: sorted_insort)
  show "distinct ys" unfolding ys' using assms(3) x by (simp add: distinct_insort)
qed

lemma suspensions_loop_ok:
  assumes fl: "ci_mode info = Flexible"
  shows "coll_inv cfg info (view s i) \<Longrightarrow> queue_member_suspensions_loop ps i ks s = Inr s' \<Longrightarrow>
    only_at i s s' \<and> coll_inv cfg info (view s' i)"
proof (induction ks arbitrary: s)
  case (Cons k ks)
  let ?P = "flexible_ring_capacity cfg" and ?Q = "onboarding_queue_page_size cfg" and ?v = "view s i"
  let ?C = "ring_capacity cfg (ci_ring_size info)"
  have ok: "coll_ok Flexible ?P ?Q ?C {} ?v" using Cons.prems(1) by (simp add: coll_inv_def fl)
  from Cons.prems(2) obtain position where pos: "fmlookup (Members s) (i, k) = Some position"
    by (auto simp: bindE_Inr ok_or_Inr)
  have step: "only_at i s s' \<and> coll_inv cfg info (view s' i)"
    if "coll_ok Flexible ?P ?Q ?C {} (view s1 i)" "tot (view s1 i) = tot ?v" "only_at i s s1"
      "c_current (view s1 i) = c_current ?v" "c_active (view s1 i) = c_active ?v"
      "queue_member_suspensions_loop ps i ks s1 = Inr s'" for s1
  proof -
    have "coll_inv cfg info (view s1 i)" using that by (intro coll_inv_same[OF Cons.prems(1)]) (simp_all add: fl)
    from Cons.IH[OF this that(6)] that(3) show ?thesis by (blast intro: only_at_trans)
  qed
  show ?case
  proof (cases position)
    case (Included r p slot)
    with Cons.prems(2) pos obtain ixs where ixs: "index_insert slot (pending_of s i r) = Some ixs"
      and rest: "queue_member_suspensions_loop ps i ks (s\<lparr>PendingSuspensions := fmupd (i, r) ixs (PendingSuspensions s),
          Members := fmupd (i, k) Suspended (Members s)\<rparr>) = Inr s'"
      by (auto simp: bindE_Inr ok_or_Inr ensure_Inr)
    have "sorted (pending_of s i r)" "distinct (pending_of s i r)"
      using ok unfolding coll_ok_def pending_ok_def by simp_all
    note f = index_insert_facts[OF ixs this]
    let ?s1 = "s\<lparr>PendingSuspensions := fmupd (i, r) ixs (PendingSuspensions s), Members := fmupd (i, k) Suspended (Members s)\<rparr>"
    have "coll_ok Flexible ?P ?Q ?C {} (?v\<lparr>c_pending := (c_pending ?v)(r := ixs), c_members := (c_members ?v)(k \<mapsto> Suspended)\<rparr>)"
      using suspend_ok[OF ok, of k r p slot ixs] f pos Included by simp
    moreover have veq: "view ?s1 i = ?v\<lparr>c_pending := (c_pending ?v)(r := ixs), c_members := (c_members ?v)(k \<mapsto> Suspended)\<rparr>"
      by (rule coll_eqI) auto
    ultimately have "coll_ok Flexible ?P ?Q ?C {} (view ?s1 i)" by simp
    then show ?thesis
    proof (rule step[OF _ _ _ _ _ rest])
      show "tot (view ?s1 i) = tot ?v" unfolding veq by (simp add: tot_def fun_eq_iff)
      show "only_at i s ?s1" by (simp add: only_at_def view_def get_or_def)
    qed simp_all
  next
    case (Onboarding p t)
    have k: "k \<in> set (queue_page_of s i p)"
      using ok pos Onboarding unfolding coll_ok_def members_back_def by simp
    let ?q = "remove1 k (queue_page_of s i p)"
    let ?s1 = "s\<lparr>OnboardingQueue := fmupd (i, p) ?q (OnboardingQueue s), Members := fmupd (i, k) Suspended (Members s)\<rparr>"
    let ?v1 = "?v\<lparr>c_queue := (c_queue ?v)(p := remove1 k (c_queue ?v p)), c_head := c_head ?v\<rparr>"
    have rest: "queue_member_suspensions_loop ps i ks ?s1 = Inr s'"
      using Cons.prems(2) pos Onboarding k by simp
    have "coll_ok Flexible ?P ?Q ?C {k} ?v1" using k by (intro dequeue_one_ok[OF ok]) simp_all
    then have "coll_ok Flexible ?P ?Q ?C ({k} - {k}) (?v1\<lparr>c_members := (c_members ?v1)(k := Some Suspended)\<rparr>)"
      by (rule settle_ok) simp_all
    moreover have veq: "view ?s1 i = ?v1\<lparr>c_members := (c_members ?v1)(k := Some Suspended)\<rparr>"
      by (rule coll_eqI) auto
    ultimately have "coll_ok Flexible ?P ?Q ?C {} (view ?s1 i)" by simp
    then show ?thesis
    proof (rule step[OF _ _ _ _ _ rest])
      show "tot (view ?s1 i) = tot ?v" unfolding veq by (simp add: tot_def fun_eq_iff)
      show "only_at i s ?s1" by (simp add: only_at_def view_def get_or_def)
    qed simp_all
  next
    case Suspended
    let ?s1 = "s\<lparr>Members := fmupd (i, k) Suspended (Members s)\<rparr>"
    have veq: "view ?s1 i = ?v" by (rule coll_eqI) (auto simp: pos Suspended)
    have rest: "queue_member_suspensions_loop ps i ks ?s1 = Inr s'" using Cons.prems(2) pos Suspended by simp
    have "only_at i s ?s1" by (simp add: only_at_def view_def)
    then show ?thesis by (intro step[OF _ _ _ _ _ rest]) (simp_all only: veq ok)
  qed
qed simp

subsection \<open>Merging queue pages\<close>

lemma merge_members_lookup:
  "distinct ks \<Longrightarrow> fmlookup (fold (\<lambda>k m. case fmlookup m (i, k) of Some (Onboarding _ t) \<Rightarrow> fmupd (i, k) (Onboarding n t) m | _ \<Rightarrow> m) ks m) (j, x)
   = (case fmlookup m (j, x) of
        Some (Onboarding p t) \<Rightarrow> if j = i \<and> x \<in> set ks then Some (Onboarding n t) else Some (Onboarding p t)
      | pos \<Rightarrow> pos)"
proof (induction ks arbitrary: m)
  case Nil
  then show ?case by (auto split: option.splits ring_position.splits)
next
  case (Cons k ks)
  then show ?case by (auto split: option.splits ring_position.splits)
qed

lemma merge_queue_pages_ok:
  assumes inv: "coll_inv cfg info (view s i)"
    and act: "should_merge_queue_pages cfg i s = Merge h n ks1 ks2"
  shows "\<exists>s'. merge_queue_pages cfg i h n (queue_page_of s i h) (queue_page_of s i n) s = Inr s' \<and>
    only_at i s s' \<and> coll_inv cfg info (view s' i)"
proof -
  let ?P = "flexible_ring_capacity cfg" and ?Q = "onboarding_queue_page_size cfg" and ?v = "view s i" and ?m = "ci_mode info"
  let ?C = "ring_capacity cfg (ci_ring_size info)"
  have ok: "coll_ok ?m ?P ?Q ?C {} ?v" using inv by (simp add: coll_inv_def)
  obtain t where ends: "queue_ends s i = (h, t)" and ht: "h \<noteq> t" and n: "n = next_page h"
    and fit: "length (queue_page_of s i h) + length (queue_page_of s i n) \<le> ?Q"
    using act by (auto simp: should_merge_queue_pages_def Let_def split: if_splits prod.splits)
  have shape: "h \<le> t" "t \<le> max_of 32" "distinct (c_queue ?v q)" for q
    using ok ends unfolding coll_ok_def queue_shape_def by auto
  have hd: "c_head ?v = h" by (simp add: ends)
  have sn: "n = Suc h" using n ht shape by (simp add: next_page_exact)
  let ?ks = "queue_page_of s i h"
  let ?M = "fold (\<lambda>k m. case fmlookup m (i, k) of Some (Onboarding _ t) \<Rightarrow> fmupd (i, k) (Onboarding n t) m | _ \<Rightarrow> m) ?ks (Members s)"
  let ?s' = "s\<lparr>Members := ?M, OnboardingQueue := fmupd (i, n) (?ks @ queue_page_of s i n) (fmdrop (i, h) (OnboardingQueue s)),
      QueuePageIndices := fmupd i (n, t) (QueuePageIndices s)\<rparr>"
  have "\<forall>k \<in> set ?ks. contains_key (Members s) (i, k)" using queue_facts(1)[OF ok, of _ h] by simp
  then have res: "merge_queue_pages cfg i h n ?ks (queue_page_of s i n) s = Inr ?s'"
    using fit ends by (simp add: merge_queue_pages_def)
  have dist: "distinct ?ks" using shape(3)[of h] by simp
  let ?q = "(c_queue ?v)(h := [], Suc h := c_queue ?v h @ c_queue ?v (Suc h))"
  have mem: "fmlookup ?M (i, k) = (case c_members ?v k of
        Some (Onboarding p t) \<Rightarrow> if k \<in> set (c_queue ?v (c_head ?v)) then Some (Onboarding (Suc (c_head ?v)) t)
                              else Some (Onboarding p t)
      | pos \<Rightarrow> pos)" for k
    unfolding hd by (simp add: merge_members_lookup[OF dist] sn split: option.splits ring_position.splits)
  have "coll_ok ?m ?P ?Q ?C {} (?v\<lparr>c_queue := ?q, c_head := Suc h, c_members := \<lambda>k. fmlookup ?M (i, k)\<rparr>)"
    using merge_pages_ok[OF ok _ _ refl mem, unfolded hd] ht shape fit ends sn by simp
  moreover have "view ?s' i = ?v\<lparr>c_queue := ?q, c_head := Suc h, c_members := \<lambda>k. fmlookup ?M (i, k)\<rparr>"
    by (rule coll_eqI) (auto simp: ends sn)
  ultimately have "coll_inv cfg info (view ?s' i)"
    by (intro coll_inv_same[OF inv]) (auto simp: tot_def fun_eq_iff)
  moreover have "view ?s' j = view s j" if "j \<noteq> i" for j
    by (rule coll_eqI)
      (use that in \<open>auto simp: merge_members_lookup[OF dist] split: option.splits ring_position.splits\<close>)
  then have "only_at i s ?s'" by (simp add: only_at_def)
  ultimately show ?thesis using res by blast
qed

end
