(* ===== verification/Members_Rings.thy ===== *)
theory Members_Rings
  imports Members_Queue
begin

text \<open>
  What \<^verbatim>\<open>pallets/members/src/lib.rs\<close> does to whole rings: \<open>build_ring\<close>, \<open>remove_suspended_keys\<close>,
  \<open>delete_ring_page\<close>, \<open>remove_ring\<close> and \<open>merge_rings\<close>.
\<close>

subsection \<open>Building a root\<close>

lemma build_loop_status:
  "included st \<le> total st \<Longrightarrow> total st \<le> max_of 32 \<Longrightarrow> build_loop P pages st n acc = (ks, st') \<Longrightarrow>
   total st' = total st \<and> included st' \<le> total st'"
proof (induction P pages st n acc arbitrary: ks st' rule: build_loop.induct)
  case (1 P pages st n acc)
  let ?k = "min n (min (total st - included st) (P - included st mod P))"
  show ?case
  proof (cases "n = 0 \<or> ?k = 0")
    case True
    then have "build_loop P pages st n acc = (acc, st)" by (subst build_loop.simps) (auto simp: Let_def)
    then show ?thesis using "1.prems" by simp
  next
    case False
    let ?st = "st\<lparr>included := sat_add 32 (included st) ?k\<rparr>"
    have inc: "sat_add 32 (included st) ?k = included st + ?k" using "1.prems"(1,2) by (intro sat_add_exact) auto
    have "build_loop P pages st n acc =
        build_loop P pages ?st (n - ?k) (acc @ take ?k (drop (included st mod P) (pages (included st div P))))"
      using False unfolding build_loop.simps[of P pages st n acc] Let_def
      by (simp only: de_Morgan_disj if_False simp_thms)
    then have "build_loop P pages ?st (n - ?k) (acc @ take ?k (drop (included st mod P) (pages (included st div P)))) = (ks, st')"
      using "1.prems"(3) by simp
    note IH = "1.IH"[OF _ refl refl refl refl _ _ _ this]
    have "included ?st \<le> total ?st" using "1.prems"(1) unfolding inc by simp
    moreover have "total ?st = total st" "n \<noteq> 0" "?k \<noteq> 0" using False by simp_all
    ultimately show ?thesis using IH "1.prems"(2) by metis
  qed
qed

text \<open>On a ring whose pages are filled in order, the loop collects the next keys in order.\<close>

definition ring_key :: "nat \<Rightarrow> (page_index \<Rightarrow> 'm list) \<Rightarrow> nat \<Rightarrow> 'm" where
  "ring_key P pages j = pages (j div P) ! (j mod P)"

lemma page_split: "y < P \<Longrightarrow> (q * P + y) div P = q \<and> (q * P + y) mod P = (y :: nat)"
  by simp

lemma build_loop_exact:
  assumes P: "0 < P" and T: "T \<le> max_of 32" and len: "\<And>p. length (pages p) = min P (T - p * P)"
  shows "total st = T \<Longrightarrow> included st + n \<le> T \<Longrightarrow> build_loop P pages st n acc =
    (acc @ map (ring_key P pages) [included st..<included st + n], st\<lparr>included := included st + n\<rparr>)"
proof (induction n arbitrary: st acc rule: less_induct)
  case (less n)
  let ?i = "included st" and ?m = "included st mod P" and ?p = "included st div P"
  let ?k = "min n (min (total st - ?i) (P - ?m))"
  show ?case
  proof (cases "n = 0")
    case True
    then show ?thesis by (subst build_loop.simps) simp
  next
    case False
    define i p m where "i = included st" and "p = i div P" and "m = i mod P"
    define k where "k = min n (min (total st - i) (P - m))"
    have mP: "m < P" using P by (simp add: m_def)
    have k: "0 < k" "k \<le> n" "i + k \<le> T" "m + k \<le> P" using False less.prems mP by (auto simp: k_def i_def)
    have ie: "i = p * P + m" by (simp add: p_def m_def)
    have pk: "m + k \<le> length (pages p)"
    proof -
      have "m + k \<le> T - p * P" using k(3) ie by linarith
      then show ?thesis unfolding len[of p] using k(4) by (simp only: min.bounded_iff simp_thms)
    qed
    have part: "take k (drop m (pages p)) = map (ring_key P pages) [i..<i + k]"
    proof (rule nth_equalityI)
      show "length (take k (drop m (pages p))) = length (map (ring_key P pages) [i..<i + k])"
        using pk by simp
    next
      fix x assume "x < length (take k (drop m (pages p)))"
      then have x: "x < k" by simp
      have lt: "m + x < P" using x k(4) by linarith
      have ix: "i + x = p * P + (m + x)" using ie by simp
      have "(i + x) div P = p" "(i + x) mod P = m + x"
        unfolding ix using page_split[OF lt] by blast+
      then show "take k (drop m (pages p)) ! x = map (ring_key P pages) [i..<i + k] ! x"
        using x pk by (simp add: ring_key_def)
    qed
    let ?st = "st\<lparr>included := i + k\<rparr>"
    have inc: "sat_add 32 i k = i + k" using k(3) T by (intro sat_add_exact) linarith
    have nz: "n \<noteq> 0" "k \<noteq> 0" using False k(1) by simp_all
    have step: "build_loop P pages st n acc = build_loop P pages ?st (n - k) (acc @ map (ring_key P pages) [i..<i + k])"
      unfolding build_loop.simps[of P pages st n acc] Let_def i_def[symmetric] p_def[symmetric] m_def[symmetric]
        k_def[symmetric] part inc by (simp only: nz if_False simp_thms)
    have "n - k < n" "total ?st = T" "included ?st + (n - k) \<le> T" using k less.prems by (simp_all add: i_def)
    note IH = less.IH[OF this, of "acc @ map (ring_key P pages) [i..<i + k]"]
    have "[i..<i + n] = [i..<i + k] @ [i + k..<i + k + (n - k)]"
      using k(2) upt_add_eq_append[of i "i + k" "n - k"] by simp
    with IH step k(2) show ?thesis by (simp add: i_def[symmetric])
  qed
qed

lemma build_ring_ok:
  assumes info: "fmlookup (Collections s) i = Some info" and inv: "coll_inv cfg info (view s i)" and st: "contains_key (RingKeysStatus s) (i, r)"
    and run: "build_ring cfg now i r n s = Inr s'"
  shows "only_at i s s' \<and> coll_inv cfg info (view s' i)"
proof -
  let ?P = "flexible_ring_capacity cfg" and ?Q = "onboarding_queue_page_size cfg" and ?v = "view s i" and ?m = "ci_mode info"
  let ?C = "ring_capacity cfg (ci_ring_size info)"
  have ok: "coll_ok ?m ?P ?Q ?C {} ?v" using inv by (simp add: coll_inv_def)
  from st obtain st0 where st0: "fmlookup (RingKeysStatus s) (i, r) = Some st0" by auto
  then have so: "status_of s i r = st0" by (simp add: get_or_def)
  have le: "included st0 \<le> total st0" "total st0 \<le> max_of 32"
    using ok st0 unfolding coll_ok_def status_ok_def by fastforce+
  obtain ks st1 where loop: "build_loop ?P (\<lambda>p. key_page s i r p) st0 n [] = (ks, st1)" by force
  have 1: "total st1 = total st0" "included st1 \<le> total st1" using build_loop_status[OF le loop] by auto
  define st2 where "st2 = (if included st1 = total st1 \<and> ci_mode info = AppendOnly \<and> total st1 = ?C
    then st1\<lparr>immutable_since := Some now\<rparr> else st1)"
  have st2: "total st2 = total st0" "included st2 \<le> total st2" using 1 by (simp_all add: st2_def)
  have rk: "RingKeysStatus s' = fmupd (i, r) st2 (RingKeysStatus s)"
    and same: "Collections s' = Collections s" "RetiredIdentifiers s' = RetiredIdentifiers s"
      "SuspendedCollections s' = SuspendedCollections s" "RingsState s' = RingsState s"
      "RingKeys s' = RingKeys s" "PendingSuspensions s' = PendingSuspensions s" "Members s' = Members s"
      "OnboardingQueue s' = OnboardingQueue s" "QueuePageIndices s' = QueuePageIndices s"
      "CurrentRingIndex s' = CurrentRingIndex s" "ActiveMembers s' = ActiveMembers s"
      "RingDeletionQueue s' = RingDeletionQueue s"
    using run by (auto simp: build_ring_def bindE_Inr ok_or_Inr Let_def so loop members_deposit_def
        on_ring_root_change_def info st2_def split: option.splits)
  have "coll_ok ?m ?P ?Q ?C {} (?v\<lparr>c_status := (c_status ?v)(r \<mapsto> st2)\<rparr>)"
    using include_ok[OF ok, of r st0 st2] st0 st2 by simp
  moreover have veq: "view s' i = ?v\<lparr>c_status := (c_status ?v)(r \<mapsto> st2)\<rparr>"
    by (rule coll_eqI) (auto simp: rk same)
  moreover have "tot (view s' i) = tot ?v"
    unfolding veq using st0 st2 by (auto simp: tot_def fun_eq_iff)
  ultimately have "coll_inv cfg info (view s' i)"
    by (intro coll_inv_same[OF inv]) (simp_all add: same)
  moreover have "only_at i s s'" using same rk by (simp add: only_at_def view_def)
  ultimately show ?thesis by blast
qed

end
