(* ===== verification/Members_Removal.thy ===== *)
theory Members_Removal
  imports Members_Rings
begin

text \<open>
  Removal in \<^verbatim>\<open>pallets/members/src/lib.rs\<close>: suspended keys leave their ring (\<open>remove_suspended_keys\<close>), a
  ring leaves its collection (\<open>remove_ring\<close>, \<open>delete_ring_page\<close>), and two small rings become one
  (\<open>merge_rings\<close>).
\<close>

subsection \<open>Active keys\<close>

text \<open>A key is active in a collection while it waits for a ring or is in one.\<close>

definition active_at :: "'m coll \<Rightarrow> 'm \<Rightarrow> bool" where
  "active_at v k \<longleftrightarrow> (case c_members v k of None \<Rightarrow> False | Some p \<Rightarrow> p \<noteq> Suspended)"

lemma active_place: "active_at (place P r k v) x \<longleftrightarrow> x = k \<or> active_at v x"
  by (auto simp: active_at_def place_def Let_def)

lemma active_place_all: "active_at (fold (place P r) ks v) x \<longleftrightarrow> x \<in> set ks \<or> active_at v x"
  by (induction ks arbitrary: v) (auto simp: active_place)

subsection \<open>Suspended keys\<close>

lemma kept_from_tl: "kept_from (Suc b) (b # ixs) keys = kept_from (Suc b) ixs keys"
  by (simp add: kept_from_def)

lemma remove_loop_run:
  "sorted ixs \<Longrightarrow> distinct ixs \<Longrightarrow> (\<forall>i \<in> set ixs. b \<le> i) \<Longrightarrow> length new + length keys \<le> P \<Longrightarrow>
   distinct (kept_from b ixs keys) \<Longrightarrow>
   (\<forall>x \<in> set (kept_from b ixs keys). \<exists>p. fmlookup (Members s) (c, x) = Some (Included r 0 p)) \<Longrightarrow>
   \<exists>M E. remove_loop P c r keys b ixs new s =
       (new @ kept_from b ixs keys, s\<lparr>Members := M, members_events := E\<rparr>, False) \<and>
     (\<forall>j < length (kept_from b ixs keys).
        fmlookup M (c, kept_from b ixs keys ! j) = Some (Included r 0 (length new + j))) \<and>
     (\<forall>d x. d \<noteq> c \<or> x \<notin> set (kept_from b ixs keys) \<longrightarrow> fmlookup M (d, x) = fmlookup (Members s) (d, x))"
proof (induction keys arbitrary: b ixs new s)
  case Nil
  have "s = s\<lparr>Members := Members s, members_events := members_events s\<rparr>" by simp
  then show ?case by (intro exI[of _ "Members s"] exI[of _ "members_events s"]) simp
next
  case (Cons k keys)
  show ?case
  proof (cases "b \<in> set ixs")
    case True
    then obtain ixs' where ixs: "ixs = b # ixs'"
      using Cons.prems(1,3) by (cases ixs) (auto dest: le_antisym)
    have kf: "kept_from b ixs (k # keys) = kept_from (Suc b) ixs' keys"
      using True by (simp add: kept_from_Cons kept_from_tl ixs)
    have ge: "\<forall>i \<in> set ixs'. Suc b \<le> i" 
      using Cons.prems(1,2) unfolding ixs by (metis distinct.simps(2) le_neq_implies_less sorted_simps(2) Suc_leI)
    have mem: "Members (members_deposit (MemberRemoved k) s) = Members s" by (simp add: members_deposit_def)
    let ?s1 = "members_deposit (MemberRemoved k) s"
    have pre: "sorted ixs'" "distinct ixs'" "length new + length keys \<le> P" "distinct (kept_from (Suc b) ixs' keys)"
      using Cons.prems(1,2,4,5) unfolding kf by (simp_all add: ixs)
    have "\<forall>x \<in> set (kept_from (Suc b) ixs' keys). \<exists>p. fmlookup (Members ?s1) (c, x) = Some (Included r 0 p)"
      using Cons.prems(6) unfolding kf mem .
    from Cons.IH[OF pre(1,2) ge pre(3,4) this]
    obtain M E where "remove_loop P c r keys (Suc b) ixs' new ?s1 =
       (new @ kept_from (Suc b) ixs' keys, ?s1\<lparr>Members := M, members_events := E\<rparr>, False)"
     "\<forall>j < length (kept_from (Suc b) ixs' keys).
        fmlookup M (c, kept_from (Suc b) ixs' keys ! j) = Some (Included r 0 (length new + j))"
     "\<forall>d x. d \<noteq> c \<or> x \<notin> set (kept_from (Suc b) ixs' keys) \<longrightarrow> fmlookup M (d, x) = fmlookup (Members s) (d, x)"
      unfolding mem by blast
    then show ?thesis unfolding kf by (simp add: ixs members_deposit_def) blast
  next
    case False
    have kf: "kept_from b ixs (k # keys) = k # kept_from (Suc b) ixs keys"
      using False by (simp add: kept_from_Cons)
    have ge: "\<forall>i \<in> set ixs. Suc b \<le> i" using False Cons.prems(3) by (metis le_antisym not_less_eq_eq)
    obtain p where p: "fmlookup (Members s) (c, k) = Some (Included r 0 p)" using Cons.prems(6) unfolding kf by auto
    let ?s1 = "s\<lparr>Members := fmupd (c, k) (Included r 0 (length new)) (Members s)\<rparr>"
    have k: "k \<notin> set (kept_from (Suc b) ixs keys)" using Cons.prems(5) unfolding kf by simp
    have "\<forall>x \<in> set (kept_from (Suc b) ixs keys). \<exists>p. fmlookup (Members ?s1) (c, x) = Some (Included r 0 p)"
      using Cons.prems(6) k unfolding kf by auto
    moreover have "distinct (kept_from (Suc b) ixs keys)" using Cons.prems(5) unfolding kf by simp
    moreover have "length (new @ [k]) + length keys \<le> P" using Cons.prems(4) by simp
    ultimately obtain M E where
      run: "remove_loop P c r keys (Suc b) ixs (new @ [k]) ?s1 =
       ((new @ [k]) @ kept_from (Suc b) ixs keys, ?s1\<lparr>Members := M, members_events := E\<rparr>, False)"
     and at: "\<forall>j < length (kept_from (Suc b) ixs keys).
        fmlookup M (c, kept_from (Suc b) ixs keys ! j) = Some (Included r 0 (length (new @ [k]) + j))"
     and oth: "\<forall>d x. d \<noteq> c \<or> x \<notin> set (kept_from (Suc b) ixs keys) \<longrightarrow> fmlookup M (d, x) = fmlookup (Members ?s1) (d, x)"
      using Cons.IH[OF Cons.prems(1,2) ge, of "new @ [k]" ?s1] by blast
    have "\<not> (ixs \<noteq> [] \<and> b = hd ixs)" using False by (metis hd_in_set)
    moreover have "length new < P" using Cons.prems(4) by simp
    ultimately have "remove_loop P c r (k # keys) b ixs new s =
       (new @ kept_from b ixs (k # keys), s\<lparr>Members := M, members_events := E\<rparr>, False)"
      using run p unfolding kf by (auto simp: try_push_def)
    moreover have "fmlookup M (c, (k # kept_from (Suc b) ixs keys) ! j) = Some (Included r 0 (length new + j))"
      if "j < length (k # kept_from (Suc b) ixs keys)" for j
      using that at oth k by (cases j) auto
    moreover have "fmlookup M (d, x) = fmlookup (Members s) (d, x)"
      if "d \<noteq> c \<or> x \<notin> set (k # kept_from (Suc b) ixs keys)" for d x
      using that oth by auto
    ultimately show ?thesis unfolding kf by blast
  qed
qed

lemma remove_suspended_keys_ok:
  assumes info: "fmlookup (Collections s) i = Some info" and inv: "coll_inv cfg info (view s i)"
    and pend: "pending_of s i r \<noteq> []" and run: "remove_suspended_keys cfg now i r s = (s', w)"
  shows "only_at i s s' \<and> coll_inv cfg info (view s' i) \<and> (\<forall>k. active_at (view s' i) k = active_at (view s i) k)"
proof (cases "to_capacity cfg (ci_ring_size info)")
  case None
  then have "s' = s" using run info by (simp add: remove_suspended_keys_def)
  then show ?thesis using inv by simp
next
  case (Some cap)
  let ?P = "flexible_ring_capacity cfg" and ?Q = "onboarding_queue_page_size cfg" and ?v = "view s i" and ?m = "ci_mode info"
  let ?C = "ring_capacity cfg (ci_ring_size info)"
  let ?keys = "key_page s i r 0" and ?ixs = "pending_of s i r"
  have okm: "coll_ok ?m ?P ?Q ?C {} ?v" and act: "active_ok ?v" and nf: "not_full ?C ?v"
    using inv by (simp_all add: coll_inv_def)
  have fl: "?m = Flexible" using okm pend unfolding coll_ok_def mode_ok_def by (cases ?m) auto
  have ok: "coll_ok Flexible ?P ?Q ?C {} ?v" using okm fl by simp
  have ixs: "sorted ?ixs" "distinct ?ixs" "\<forall>j \<in> set ?ixs. j < length ?keys"
    and "fmlookup (RingKeysStatus s) (i, r) \<noteq> None"
    using ok pend unfolding coll_ok_def pending_ok_def by simp_all
  then obtain st where st: "fmlookup (RingKeysStatus s) (i, r) = Some st" by auto
  then have so: "status_of s i r = st" by (simp add: get_or_def)
  have live: "live ?v r" using st by (simp add: live_def)
  note len = flexible_live_len[OF ok live]
  have tot: "tot ?v r = total st" using st by (simp add: tot_def)
  have cur: "r \<le> c_current ?v" using ok st unfolding coll_ok_def status_ok_def by simp
  let ?new = "kept ?ixs ?keys"
  have fwd: "fmlookup (Members s) (i, ?keys ! j) = Some (Included r 0 j)" if "j < length ?keys" "j \<notin> set ?ixs" for j
    using ok live that unfolding coll_ok_def ring_fwd_def slot_pending_def by simp
  have dist: "distinct ?new"
  proof (rule kept_distinct)
    fix a b assume a: "a < length ?keys" "b < length ?keys" "a \<notin> set ?ixs" "b \<notin> set ?ixs" "?keys ! a = ?keys ! b"
    have "Some (Included r 0 a) = fmlookup (Members s) (i, ?keys ! b)" using fwd[OF a(1,3)] unfolding a(5) by (rule sym)
    then show "a = b" unfolding fwd[OF a(2,4)] by simp
  qed
  have mems: "\<forall>x \<in> set ?new. \<exists>p. fmlookup (Members s) (i, x) = Some (Included r 0 p)"
  proof
    fix x assume "x \<in> set ?new"
    then obtain j where "j < length ?new" "?new ! j = x" by (auto simp: in_set_conv_nth)
    then show "\<exists>p. fmlookup (Members s) (i, x) = Some (Included r 0 p)"
      using kept_nth[of j ?ixs ?keys] fwd by metis
  qed
  have "length ([] :: 'c list) + length ?keys \<le> ?P" using len by simp
  with remove_loop_run[OF ixs(1,2), of 0 "[]" ?keys ?P s i r] dist mems
  obtain M E where loop: "remove_loop ?P i r ?keys 0 ?ixs [] s = (?new, s\<lparr>Members := M, members_events := E\<rparr>, False)"
    and at: "\<And>j. j < length ?new \<Longrightarrow> fmlookup M (i, ?new ! j) = Some (Included r 0 j)"
    and oth: "\<And>d x. d \<noteq> i \<or> x \<notin> set ?new \<Longrightarrow> fmlookup M (d, x) = fmlookup (Members s) (d, x)"
    by (auto simp: kept_from_0[symmetric])
  have newle: "length ?new \<le> total st" using kept_le[of ?ixs ?keys] len(1) tot by simp
  then have newle': "length ?new \<le> tot ?v r" by (simp add: tot)
  let ?st = "st\<lparr>total := length ?new, included := 0\<rparr>" and ?a = "c_active ?v - (total st - length ?new)"
  have flds: "RingKeysStatus s' = fmupd (i, r) ?st (RingKeysStatus s)"
      "ActiveMembers s' = fmupd i ?a (ActiveMembers s)"
      "RingKeys s' = (if ?new = [] then fmdrop (i, r, 0) (RingKeys s) else fmupd (i, r, 0) ?new (RingKeys s))"
      "PendingSuspensions s' = fmdrop (i, r) (PendingSuspensions s)" "Members s' = M"
    and same: "Collections s' = Collections s" "RetiredIdentifiers s' = RetiredIdentifiers s"
      "SuspendedCollections s' = SuspendedCollections s" "RingsState s' = RingsState s"
      "OnboardingQueue s' = OnboardingQueue s" "QueuePageIndices s' = QueuePageIndices s"
      "CurrentRingIndex s' = CurrentRingIndex s" "RingDeletionQueue s' = RingDeletionQueue s"
    using run by (auto simp: remove_suspended_keys_def info Some loop Let_def so split: option.splits if_splits)
  let ?v' = "?v\<lparr>c_keys := (c_keys ?v)(r := (c_keys ?v r)(0 := ?new)), c_status := (c_status ?v)(r \<mapsto> ?st),
      c_pending := (c_pending ?v)(r := []), c_members := \<lambda>k. fmlookup M (i, k)\<rparr>"
  have memM: "fmlookup M (i, k) = (if \<exists>j < length ?new. ?new ! j = k then Some (Included r 0 (THE j. j < length ?new \<and> ?new ! j = k))
                       else c_members ?v k)" for k
  proof (cases "k \<in> set ?new")
    case True
    then obtain j where j: "j < length ?new" "?new ! j = k" by (auto simp: in_set_conv_nth)
    then have "(THE j. j < length ?new \<and> ?new ! j = k) = j"
      using dist by (intro the_equality) (auto simp: nth_eq_iff_index_eq)
    then show ?thesis using j at[of j] by auto
  next
    case False
    then show ?thesis using oth[of i k] by (auto simp: in_set_conv_nth)
  qed
  have "coll_ok Flexible ?P ?Q ?C {} ?v'"
    by (rule compact_ok[OF ok, where st = st]) (use st memM in simp_all)
  moreover have veq: "view s' i = ?v'\<lparr>c_active := ?a\<rparr>"
    by (rule coll_eqI) (auto simp: flds same)
  moreover have tot': "tot (view s' i) r' = (if r' = r then length ?new else tot ?v r')" for r'
    unfolding veq by (simp add: tot_def)
  moreover have "active_ok (view s' i)"
  proof (rule active_upd[OF act cur])
    show "c_active (view s' i) + tot ?v r = c_active ?v + tot (view s' i) r"
      using newle tot_le_active[OF act cur] by (simp add: tot' tot flds)
  qed (simp_all add: same tot')
  moreover have "not_full ?C (view s' i)"
    using nf newle' by (auto simp: not_full_def tot' same)
  ultimately have "coll_inv cfg info (view s' i)" by (simp add: coll_inv_def fl)
  moreover have "view s' j = view s j" if "j \<noteq> i" for j
    by (rule coll_eqI) (use that oth in \<open>auto simp: flds same\<close>)
  then have "only_at i s s'" by (simp add: only_at_def same)
  moreover have "active_at (view s' i) k = active_at ?v k" for k
  proof (cases "k \<in> set ?new")
    case True
    then obtain j where j: "j < length ?new" "?new ! j = k" by (auto simp: in_set_conv_nth)
    then show ?thesis using at[OF j(1)] bspec[OF mems True] by (auto simp: active_at_def flds)
  next
    case False
    then show ?thesis using oth[of i k] by (simp add: active_at_def flds)
  qed
  ultimately show ?thesis by blast
qed

subsection \<open>Removed rings\<close>

lemma delete_page_lookup:
  "fmlookup (delete_page_members c r p ks b m) (d, x) =
     (if d = c \<and> (\<exists>j < length ks. ks ! j = x \<and> fmlookup m (c, x) = Some (Included r p (b + j))) then None
      else fmlookup m (d, x))"
proof (induction ks arbitrary: b m)
  case (Cons k ks)
  have ex: "(\<exists>j < length (k # ks). (k # ks) ! j = x \<and> Q j) \<longleftrightarrow> (k = x \<and> Q 0) \<or> (\<exists>j < length ks. ks ! j = x \<and> Q (Suc j))" for Q
    by (auto simp: less_Suc_eq_0_disj)
  show ?case
    by (simp only: delete_page_members.simps Cons.IH ex) (auto split: if_splits)
qed simp

lemma delete_ring_page_ok:
  assumes inv: "coll_inv cfg info (view s i)" and rm: "contains_key (RingDeletionQueue s) (i, r, p)"
    and run: "delete_ring_page i r p (s\<lparr>RingDeletionQueue := fmdrop (i, r, p) (RingDeletionQueue s)\<rparr>) = (s', n)"
  shows "only_at i s s' \<and> coll_inv cfg info (view s' i)"
proof -
  let ?P = "flexible_ring_capacity cfg" and ?Q = "onboarding_queue_page_size cfg" and ?v = "view s i" and ?m = "ci_mode info"
  let ?C = "ring_capacity cfg (ci_ring_size info)"
  have ok: "coll_ok ?m ?P ?Q ?C {} ?v" using inv by (simp add: coll_inv_def)
  have s': "s' = s\<lparr>RingDeletionQueue := fmdrop (i, r, p) (RingDeletionQueue s),
      Members := delete_page_members i r p (key_page s i r p) 0 (Members s), RingKeys := fmdrop (i, r, p) (RingKeys s)\<rparr>"
    using run by (simp add: delete_ring_page_def Let_def)
  have "coll_ok ?m ?P ?Q ?C {} (?v\<lparr>c_keys := (c_keys ?v)(r := (c_keys ?v r)(p := [])), c_members := c_members (view s' i),
    c_removed := (\<lambda>r' p'. c_removed ?v r' p' \<and> (r', p') \<noteq> (r, p))\<rparr>)"
    by (rule delete_page_ok[OF ok]) (use rm in \<open>auto simp: s' delete_page_lookup\<close>)
  moreover have veq: "view s' i = ?v\<lparr>c_keys := (c_keys ?v)(r := (c_keys ?v r)(p := [])), c_members := c_members (view s' i),
    c_removed := (\<lambda>r' p'. c_removed ?v r' p' \<and> (r', p') \<noteq> (r, p))\<rparr>"
    by (rule coll_eqI) (auto simp: s')
  ultimately have "coll_ok ?m ?P ?Q ?C {} (view s' i)" by simp
  then have "coll_inv cfg info (view s' i)"
    by (intro coll_inv_same[OF inv]) (simp_all add: s' tot_def fun_eq_iff)
  moreover have "view s' j = view s j" if "j \<noteq> i" for j
    by (rule coll_eqI) (use that in \<open>auto simp: s' delete_page_lookup\<close>)
  then have "only_at i s s'" by (simp add: only_at_def s')
  ultimately show ?thesis by blast
qed

lemma enqueue_fold_lookup:
  "fmlookup (fold (\<lambda>p. fmupd (i, r, p) ()) ps m) (j, r', p') = Some () \<longleftrightarrow>
     (j = i \<and> r' = r \<and> p' \<in> set ps) \<or> fmlookup m (j, r', p') = Some ()"
  by (induction ps arbitrary: m) auto

text \<open>The number of pages covers every page that holds a key.\<close>

lemma page_count_covers: "0 < (P::nat) \<Longrightarrow> p * P < t \<Longrightarrow> p < t div P + (if t mod P = 0 then 0 else 1)"
proof -
  assume P: "0 < P" and lt: "p * P < t"
  have t: "t = t div P * P + t mod P" by simp
  show ?thesis
  proof (cases "t mod P = 0")
    case True
    then have "p * P < t div P * P" using lt t by linarith
    then show ?thesis using P True by simp
  next
    case False
    have "t mod P < P" using P by simp
    then have "p * P < t div P * P + P" using lt t by linarith
    then have "p * P < (t div P + 1) * P" by simp
    then have "p < t div P + 1" using P mult_less_cancel2 by blast
    then show ?thesis using False by simp
  qed
qed

lemma remove_ring_step_ok:
  assumes inv: "coll_inv cfg info (view s i)" and m: "ci_mode info = AppendOnly" and r: "r \<noteq> current_ring s i"
    and run: "enqueue_ring_for_deletion cfg now i r s = (s', n)"
  shows "only_at i s s' \<and> coll_inv cfg info (view s' i)"
proof -
  let ?P = "flexible_ring_capacity cfg" and ?Q = "onboarding_queue_page_size cfg" and ?v = "view s i" and ?m = "ci_mode info"
  let ?C = "ring_capacity cfg (ci_ring_size info)"
  let ?t = "total (status_of s i r)"
  let ?n = "?t div ?P + (if ?t mod ?P = 0 then 0 else 1)"
  let ?D = "if ?t = 0 then RingDeletionQueue s else fold (\<lambda>p. fmupd (i, r, p) ()) [0..<?n] (RingDeletionQueue s)"
  have ok: "coll_ok ?m ?P ?Q ?C {} ?v" and act: "active_ok ?v" and nf: "not_full ?C ?v"
    using inv by (simp_all add: coll_inv_def)
  have P: "0 < ?P" using ok by (simp add: coll_ok_def)
  have tv: "tot ?v r = ?t" by (rule tot_view)
  have flds: "RingKeysStatus s' = fmdrop (i, r) (RingKeysStatus s)"
      "PendingSuspensions s' = fmdrop (i, r) (PendingSuspensions s)"
      "RingDeletionQueue s' = ?D"
      "get_or 0 (ActiveMembers s') j = (if j = i then c_active ?v - ?t else get_or 0 (ActiveMembers s) j)"
    and same: "Collections s' = Collections s" "RetiredIdentifiers s' = RetiredIdentifiers s"
      "SuspendedCollections s' = SuspendedCollections s" "RingsState s' = RingsState s" "RingKeys s' = RingKeys s"
      "OnboardingQueue s' = OnboardingQueue s" "QueuePageIndices s' = QueuePageIndices s"
      "CurrentRingIndex s' = CurrentRingIndex s" "Members s' = Members s" for j
    using run by (auto simp: enqueue_ring_for_deletion_def archive_root_def on_ring_root_change_def Let_def
        split: option.splits if_splits)
  have D: "contains_key ?D (j, r', p) \<longleftrightarrow> contains_key (RingDeletionQueue s) (j, r', p) \<or> (j = i \<and> r' = r \<and> 0 < ?t \<and> p < ?n)" for j r' p
    using enqueue_fold_lookup[of i r "[0..<?n]" "RingDeletionQueue s" j r' p] by auto
  let ?v1 = "?v\<lparr>c_status := (c_status ?v)(r := None), c_pending := (c_pending ?v)(r := []),
    c_removed := (\<lambda>r' p. c_removed ?v r' p \<or> (r' = r \<and> 0 < tot ?v r \<and> p < ?n))\<rparr>"
  have "coll_ok ?m ?P ?Q ?C {} ?v1"
    by (rule remove_ring_ok[OF ok m]) (use r page_count_covers[OF P] in \<open>simp_all add: tv\<close>)
  moreover have veq: "view s' i = ?v1\<lparr>c_active := c_active ?v - ?t\<rparr>"
    by (rule coll_eqI) (auto simp: flds(1,2,4) same flds(3)[unfolded fun_eq_iff] D tv simp del: not_None_eq)
  moreover have tot': "tot (view s' i) r' = (if r' = r then 0 else tot ?v r')" for r'
    unfolding veq by (simp add: tot_def)
  moreover have "active_ok (view s' i)"
  proof (cases "r \<le> c_current ?v")
    case True
    show ?thesis
    proof (rule active_upd[OF act True])
      show "c_active (view s' i) + tot ?v r = c_active ?v + tot (view s' i) r"
        using tot_le_active[OF act True] by (simp add: tot' flds(4) tv)
    qed (simp_all add: same tot')
  next
    case False
    then have "tot ?v r = 0" by (intro tot_above[OF ok]) simp
    then have "tot (view s' i) = tot ?v" "?t = 0" by (auto simp: tot' fun_eq_iff tv)
    then show ?thesis using act by (simp add: active_ok_def flds(4) same)
  qed
  moreover have "not_full ?C (view s' i)"
    using nf r by (auto simp: not_full_def tot' same)
  ultimately have "coll_inv cfg info (view s' i)" by (simp add: coll_inv_def)
  moreover have "view s' j = view s j" if "j \<noteq> i" for j
    by (rule coll_eqI) (use that D[of j] in \<open>auto simp: flds(1,2,4) flds(3) same\<close>)
  then have "only_at i s s'" by (simp add: only_at_def same)
  ultimately show ?thesis by blast
qed

end
