(* ===== verification/Members_Merge.thy ===== *)
theory Members_Merge
  imports Members_Removal
begin

text \<open>\<open>merge_rings\<close> of \<^verbatim>\<open>pallets/members/src/lib.rs\<close>: the keys of a small ring move to the end of another one.\<close>

lemma merge_keys_run:
  "coll_ok Flexible P Q C X v \<Longrightarrow> set ks \<subseteq> X \<Longrightarrow> distinct ks \<Longrightarrow> live v r \<Longrightarrow> r \<le> c_current v \<Longrightarrow>
   tot v r + length ks \<le> C \<Longrightarrow> (\<And>k. c_members v k = fmlookup (Members s) (i, k)) \<Longrightarrow> c_keys v r 0 = bk \<Longrightarrow>
   \<forall>k \<in> set ks. contains_key (Members s) (i, k) \<Longrightarrow>
   \<exists>bk' M. merge_keys P i r ks bk s = Inr (bk', s\<lparr>Members := M\<rparr>) \<and>
     (\<forall>k. c_members (fold (place P r) ks v) k = fmlookup M (i, k)) \<and>
     c_keys (fold (place P r) ks v) = (c_keys v)(r := (c_keys v r)(0 := bk')) \<and>
     (\<forall>j k. j \<noteq> i \<longrightarrow> fmlookup M (j, k) = fmlookup (Members s) (j, k))"
proof (induction ks arbitrary: X v bk s)
  case Nil
  have "s = s\<lparr>Members := Members s\<rparr>" by simp
  moreover have "c_keys v = (c_keys v)(r := (c_keys v r)(0 := bk))" using Nil.prems(8) by (simp add: fun_eq_iff)
  ultimately show ?case using Nil.prems(7) by (metis fold_simps(1) merge_keys.simps(1))
next
  case (Cons k ks)
  let ?v = "place P r k v" and ?s1 = "s\<lparr>Members := fmupd (i, k) (Included r 0 (length bk)) (Members s)\<rparr>"
  have CP: "C \<le> P" and P: "0 < P" using Cons.prems(1) by (auto simp: coll_ok_def mode_ok_def)
  have t: "length bk = tot v r" using flexible_live_len(1)[OF Cons.prems(1,4)] Cons.prems(8) by simp
  have lt: "tot v r < P" using Cons.prems(6) CP by simp
  have keys: "c_keys ?v = (c_keys v)(r := (c_keys v r)(0 := bk @ [k]))"
    and mem: "c_members ?v = (c_members v)(k \<mapsto> Included r 0 (length bk))"
    using lt Cons.prems(8) by (simp_all add: place_def Let_def t)
  have ok: "coll_ok Flexible P Q C (X - {k}) ?v" using Cons.prems by (intro place_ok) auto
  have pre: "set ks \<subseteq> X - {k}" "distinct ks" "live ?v r" "r \<le> c_current ?v" "tot ?v r + length ks \<le> C"
    using Cons.prems by (auto simp: live_place tot_place)
  have m1: "c_members ?v x = fmlookup (Members ?s1) (i, x)" for x using Cons.prems(7) by (simp add: mem)
  have b1: "c_keys ?v r 0 = bk @ [k]" by (simp add: keys)
  have d1: "\<forall>x \<in> set ks. contains_key (Members ?s1) (i, x)" using Cons.prems(9) by simp
  from Cons.IH[OF ok pre m1 b1 d1] obtain bk' M where
    "merge_keys P i r ks (bk @ [k]) ?s1 = Inr (bk', ?s1\<lparr>Members := M\<rparr>)"
    "\<forall>x. c_members (fold (place P r) ks ?v) x = fmlookup M (i, x)"
    "c_keys (fold (place P r) ks ?v) = (c_keys ?v)(r := (c_keys ?v r)(0 := bk'))"
    "\<forall>j x. j \<noteq> i \<longrightarrow> fmlookup M (j, x) = fmlookup (Members ?s1) (j, x)" by blast
  moreover have "contains_key (Members s) (i, k)" using Cons.prems(9) by simp
  moreover have "try_push P bk k = Some (bk @ [k])" using lt t by (simp add: try_push_def)
  ultimately show ?case by (intro exI[of _ bk'] exI[of _ M]) (auto simp: keys fun_eq_iff)
qed

lemma merge_rings_ok:
  fixes s :: "('acc, 'loc, 'm, 'r, 'i) mst"
  assumes info: "fmlookup (Collections s) i = Some info" and inv: "coll_inv cfg info (view s i)"
    and run: "merge_rings cfg now org i base target s = Inr (s', pst)"
  shows "only_at i s s' \<and> coll_inv cfg info (view s' i) \<and> (\<forall>k. active_at (view s' i) k = active_at (view s i) k)"
proof -
  let ?P = "flexible_ring_capacity cfg" and ?Q = "onboarding_queue_page_size cfg" and ?v = "view s i" and ?m = "ci_mode info"
  let ?C = "ring_capacity cfg (ci_ring_size info)"
  let ?bk = "key_page s i base 0" and ?tk = "key_page s i target 0"
  have fl: "?m = Flexible" and ne: "base \<noteq> target" "base \<noteq> current_ring s i" "target \<noteq> current_ring s i"
    and bk: "?bk \<noteq> []" "length ?bk < ?C div 2" "pending_of s i base = []"
    and tk: "?tk \<noteq> []" "length ?tk < ?C div 2" "pending_of s i target = []"
    using run by (auto simp: merge_rings_def info bindE_Inr ensure_Inr ok_or_Inr Let_def ring_paged_keys_and_info_def)
  have ok: "coll_ok Flexible ?P ?Q ?C {} ?v" and act: "active_ok ?v" and nf: "not_full ?C ?v"
    using inv by (simp_all add: coll_inv_def fl)
  have Cmax: "?C \<le> max_of 32" using ok by (simp add: coll_ok_def)
  have st: "c_status ?v base \<noteq> None" "c_status ?v target \<noteq> None"
    using flexible_pages(2)[OF ok, of 0 base 0] flexible_pages(2)[OF ok, of 0 target 0] bk(1) tk(1) by simp_all
  have le: "base \<le> c_current ?v" "target \<le> c_current ?v"
    using ok st unfolding coll_ok_def status_ok_def by blast+
  have lt: "target < c_current ?v" using le(2) ne(3) by simp
  have lv: "live ?v base" "live ?v target" using st by (simp_all add: live_def)
  have tb: "tot ?v base = length ?bk" and tt: "tot ?v target = length ?tk"
    using flexible_live_len(1)[OF ok lv(1)] flexible_live_len(1)[OF ok lv(2)] by simp_all
  let ?v1 = "?v\<lparr>c_status := (c_status ?v)(target := None), c_keys := (c_keys ?v)(target := (c_keys ?v target)(0 := []))\<rparr>"
  have v1: "coll_ok Flexible ?P ?Q ?C (set ?tk) ?v1"
    using take_ring_ok[OF ok lt] tk(3) by simp
  have fwd: "fmlookup (Members s) (i, ?tk ! j) = Some (Included target 0 j)" if "j < length ?tk" for j
    using ok lv(2) that tk(3) unfolding coll_ok_def ring_fwd_def slot_pending_def by simp
  have dist: "distinct ?tk"
    unfolding distinct_conv_nth
  proof (intro allI impI notI)
    fix a b assume a: "a < length ?tk" "b < length ?tk" "a \<noteq> b" "?tk ! a = ?tk ! b"
    have "Some (Included target 0 a) = fmlookup (Members s) (i, ?tk ! b)" using fwd[OF a(1)] unfolding a(4) by (rule sym)
    then show False unfolding fwd[OF a(2)] using a(3) by simp
  qed
  have dom: "\<forall>k \<in> set ?tk. contains_key (Members s) (i, k)"
    using fwd by (auto simp: in_set_conv_nth)
  have live1: "live ?v1 base" "base \<le> c_current ?v1" using ne(1) st(1) le(1) by (simp_all add: live_def)
  have t1: "tot ?v1 r = (if r = target then 0 else tot ?v r)" for r by (simp add: tot_def)
  have fit: "tot ?v1 base + length ?tk \<le> ?C" using bk(2) tk(2) ne(1) by (simp add: t1 tb)
  have m1: "c_members ?v1 k = fmlookup (Members s) (i, k)" for k by simp
  have b1: "c_keys ?v1 base 0 = ?bk" using ne(1) by simp
  from merge_keys_run[OF v1 order_refl dist live1 fit m1 b1 dom] obtain bk' M where
    mk: "merge_keys ?P i base ?tk ?bk s = Inr (bk', s\<lparr>Members := M\<rparr>)"
    and wm: "\<And>k. c_members (fold (place ?P base) ?tk ?v1) k = fmlookup M (i, k)"
    and wk: "c_keys (fold (place ?P base) ?tk ?v1) = (c_keys ?v1)(base := (c_keys ?v1 base)(0 := bk'))"
    and oth: "\<And>j k. j \<noteq> i \<Longrightarrow> fmlookup M (j, k) = fmlookup (Members s) (j, k)" by blast
  let ?w = "fold (place ?P base) ?tk ?v1"
  have w: "coll_ok Flexible ?P ?Q ?C {} ?w" using place_all_ok[OF v1 order_refl dist live1 fit] by simp
  let ?st = "(status_of s i base)\<lparr>total := tot ?v base + length ?tk\<rparr>"
  have ws: "c_status ?w = (c_status ?v1)(base \<mapsto> ?st)"
    using status_place_all[OF tk(1), of ?P base ?v1] ne(1) by (simp add: get_or_def t1 fun_eq_iff)
  have ex: "sat_add 32 (total (status_of s i base)) (length ?tk) = tot ?v base + length ?tk"
    using fit ne(1) Cmax unfolding tot_view[symmetric] by (subst sat_add_exact) (simp_all add: t1)
  have flds: "RingKeysStatus s' = fmdrop (i, target) (fmupd (i, base) ?st (RingKeysStatus s))"
      "RingKeys s' = fmdrop (i, target, 0) (fmupd (i, base, 0) bk' (RingKeys s))" "Members s' = M"
    and same: "Collections s' = Collections s" "RetiredIdentifiers s' = RetiredIdentifiers s"
      "SuspendedCollections s' = SuspendedCollections s" "RingsState s' = RingsState s"
      "OnboardingQueue s' = OnboardingQueue s" "QueuePageIndices s' = QueuePageIndices s"
      "CurrentRingIndex s' = CurrentRingIndex s" "RingDeletionQueue s' = RingDeletionQueue s"
      "PendingSuspensions s' = PendingSuspensions s" "ActiveMembers s' = ActiveMembers s"
    using run by (auto simp: merge_rings_def info bindE_Inr ensure_Inr ok_or_Inr Let_def ring_paged_keys_and_info_def
        mk ex archive_root_def on_ring_root_change_def members_deposit_def split: option.splits if_splits)
  have veq: "view s' i = ?w"
    by (rule coll_eqI) (use ne in \<open>auto simp: flds same wm wk ws\<close>)
  have tw: "tot ?w r = (if r = base then tot ?v base + tot ?v target else if r = target then 0 else tot ?v r)" for r
    using ne(1) by (simp add: tot_place_all t1 tt)
  have tle: "tot ?v target \<le> c_active ?v" by (rule tot_le_active[OF act le(2)])
  have a1: "active_ok (?v1\<lparr>c_active := c_active ?v - tot ?v target\<rparr>)"
    by (rule active_upd[OF act le(2)]) (use tle in \<open>simp_all add: t1\<close>)
  have "active_ok ?w"
    by (rule active_upd[OF a1, of base]) (use le tle ne in \<open>simp_all add: tw t1\<close>)
  moreover have "not_full ?C ?w" using nf ne by (simp add: not_full_def tw)
  ultimately have "coll_inv cfg info (view s' i)" using w by (simp add: coll_inv_def fl veq)
  moreover have "view s' j = view s j" if "j \<noteq> i" for j
    by (rule coll_eqI) (use that oth in \<open>auto simp: flds same\<close>)
  then have "only_at i s s'" by (simp add: only_at_def same)
  moreover have "active_at (view s' i) k = active_at ?v k" for k
  proof -
    have "active_at ?v k" if "k \<in> set ?tk" using that fwd by (auto simp: active_at_def in_set_conv_nth)
    moreover have "active_at ?v1 k = active_at ?v k" by (simp add: active_at_def)
    ultimately show ?thesis unfolding veq active_place_all by blast
  qed
  ultimately show ?thesis by blast
qed

end
