(* ===== verification/Members_Invariant.thy ===== *)
theory Members_Invariant
  imports Members_Merge
begin

text \<open>
  The invariant of the members pallet over all collections, its entry points as one step function,
  and the interpretation of \<open>pallet_machine\<close> on them.

  A collection is live (in \<open>Collections\<close>), retired (its identifier is in \<open>RetiredIdentifiers\<close>, its
  storage is being dismantled or gone), or never used. A live collection is consistent
  (\<open>coll_inv\<close>), an unused identifier owns no storage, and a retired one may own anything.
\<close>

definition members_inv ::
  "('acc, 'm, 'r, 'i, 'o, 'chunk, 'cap, 'proof) mcfg \<Rightarrow> ('acc, 'loc, 'm, 'r, 'i) mst \<Rightarrow> bool" where
  "members_inv cfg s \<longleftrightarrow>
     (\<forall>i info. fmlookup (Collections s) i = Some info \<longrightarrow>
        coll_inv cfg info (view s i) \<and> \<not> contains_key (RetiredIdentifiers s) i) \<and>
     (\<forall>i. \<not> contains_key (Collections s) i \<longrightarrow> \<not> contains_key (RetiredIdentifiers s) i \<longrightarrow> view s i = empty_coll) \<and>
     (\<forall>i. contains_key (SuspendedCollections s) i \<longrightarrow> contains_key (RetiredIdentifiers s) i)"

definition members_cfg_ok :: "('acc, 'm, 'r, 'i, 'o, 'chunk, 'cap, 'proof) mcfg \<Rightarrow> bool" where
  "members_cfg_ok cfg \<longleftrightarrow> 0 < onboarding_queue_page_size cfg \<and>
     (\<forall>e. 0 < ring_capacity cfg e \<and> ring_capacity cfg e \<le> max_of 32)"

lemma unit_absent: "x \<noteq> Some () \<longleftrightarrow> x = None"
  by (cases x) auto

lemma genesis_inv: "members_inv cfg members_genesis"
  by (simp add: members_inv_def members_genesis_def view_def empty_coll_def)

lemma inv_live:
  "members_inv cfg s \<Longrightarrow> fmlookup (Collections s) i = Some info \<Longrightarrow> coll_inv cfg info (view s i)"
  by (simp add: members_inv_def)

lemma inv_suspended:
  "members_inv cfg s \<Longrightarrow> contains_key (SuspendedCollections s) i \<Longrightarrow>
   contains_key (RetiredIdentifiers s) i \<and> fmlookup (Collections s) i = None"
  unfolding members_inv_def by (metis option.exhaust)

text \<open>
  Every operation but the creation and deletion of a collection keeps the invariant, the live collections and
  the retired identifiers (\<open>keeps\<close>). In all of them an identifier that is retired stays so (\<open>evolves\<close>).
\<close>

definition keeps ::
  "('acc, 'm, 'r, 'i, 'o, 'chunk, 'cap, 'proof) mcfg \<Rightarrow> ('acc, 'loc, 'm, 'r, 'i) mst \<Rightarrow> ('acc, 'loc, 'm, 'r, 'i) mst \<Rightarrow> bool" where
  "keeps cfg s s' \<longleftrightarrow> members_inv cfg s' \<and> Collections s' = Collections s \<and> RetiredIdentifiers s' = RetiredIdentifiers s"

definition evolves ::
  "('acc, 'm, 'r, 'i, 'o, 'chunk, 'cap, 'proof) mcfg \<Rightarrow> ('acc, 'loc, 'm, 'r, 'i) mst \<Rightarrow> ('acc, 'loc, 'm, 'r, 'i) mst \<Rightarrow> bool" where
  "evolves cfg s s' \<longleftrightarrow> members_inv cfg s' \<and>
     (\<forall>j. contains_key (RetiredIdentifiers s) j \<longrightarrow> contains_key (RetiredIdentifiers s') j)"

lemma keeps_refl: "members_inv cfg s \<Longrightarrow> keeps cfg s s"
  by (simp add: keeps_def)

lemma keeps_trans: "keeps cfg s s' \<Longrightarrow> keeps cfg s' s'' \<Longrightarrow> keeps cfg s s''"
  by (simp add: keeps_def)

lemma keeps_evolves: "keeps cfg s s' \<Longrightarrow> evolves cfg s s'"
  by (simp add: keeps_def evolves_def)

lemma evolves_refl: "members_inv cfg s \<Longrightarrow> evolves cfg s s"
  by (simp add: evolves_def)

lemma evolves_trans: "evolves cfg s s' \<Longrightarrow> evolves cfg s' s'' \<Longrightarrow> evolves cfg s s''"
  by (simp add: evolves_def)

lemma inv_step:
  assumes inv: "members_inv cfg s"
    and same: "Collections s' = Collections s" "RetiredIdentifiers s' = RetiredIdentifiers s"
      "\<And>j. contains_key (SuspendedCollections s') j \<Longrightarrow> contains_key (SuspendedCollections s) j"
    and other: "\<And>j. j \<noteq> i \<Longrightarrow> view s' j = view s j"
    and live: "\<And>info. fmlookup (Collections s) i = Some info \<Longrightarrow> coll_inv cfg info (view s i) \<Longrightarrow> coll_inv cfg info (view s' i)"
    and fresh: "fmlookup (Collections s) i = None \<Longrightarrow> fmlookup (RetiredIdentifiers s) i = None \<Longrightarrow> view s' i = view s i"
  shows "members_inv cfg s'"
  unfolding members_inv_def same(1,2)
proof (intro conjI allI impI)
  fix j info assume j: "fmlookup (Collections s) j = Some info"
  then show "coll_inv cfg info (view s' j)"
    using inv_live[OF inv j] live other by (cases "j = i") auto
  show "\<not> contains_key (RetiredIdentifiers s) j" using inv j unfolding members_inv_def by blast
next
  fix j assume j: "\<not> contains_key (Collections s) j" "\<not> contains_key (RetiredIdentifiers s) j"
  then have "view s j = empty_coll" using inv unfolding members_inv_def by blast
  then show "view s' j = empty_coll" using j fresh other by (cases "j = i") (auto simp: unit_absent)
next
  fix j assume "contains_key (SuspendedCollections s') j"
  then show "contains_key (RetiredIdentifiers s) j" using same(3) inv_suspended[OF inv] by blast
qed

lemma inv_frame:
  assumes "members_inv cfg s" "Collections s' = Collections s" "RetiredIdentifiers s' = RetiredIdentifiers s"
      "SuspendedCollections s' = SuspendedCollections s" "\<And>j. view s' j = view s j"
  shows "keeps cfg s s'"
  using assms by (simp add: members_inv_def keeps_def)

lemma inv_live_step:
  assumes inv: "members_inv cfg s" and info: "fmlookup (Collections s) i = Some info"
    and step: "coll_inv cfg info (view s i) \<Longrightarrow> only_at i s s' \<and> coll_inv cfg info (view s' i)"
  shows "keeps cfg s s'"
proof -
  have st: "only_at i s s'" "coll_inv cfg info (view s' i)" using step[OF inv_live[OF inv info]] by blast+
  have "members_inv cfg s'"
    by (rule inv_step[OF inv, of s' i]) (use st info in \<open>simp_all add: only_at_def\<close>)
  then show ?thesis using st(1) by (simp add: keeps_def only_at_def)
qed

text \<open>An operation on an identifier that is no longer live.\<close>

lemma inv_retired_step:
  assumes inv: "members_inv cfg s" and ret: "contains_key (RetiredIdentifiers s) i"
    and same: "Collections s' = Collections s" "RetiredIdentifiers s' = RetiredIdentifiers s"
      "\<And>j. contains_key (SuspendedCollections s') j \<Longrightarrow> contains_key (SuspendedCollections s) j"
    and other: "\<And>j. j \<noteq> i \<Longrightarrow> view s' j = view s j"
  shows "keeps cfg s s'"
proof -
  have "fmlookup (Collections s) i = None"
    using inv ret unfolding members_inv_def by (metis option.exhaust)
  then have "members_inv cfg s'" using ret by (intro inv_step[OF inv same other]) auto
  then show ?thesis by (simp add: keeps_def same(1,2))
qed

subsection \<open>Operations touch one collection\<close>

lemma fold_drop_lookup: "fmlookup (fold (\<lambda>k. fmdrop (i, k)) ks m) (j, x) = (if j = i \<and> x \<in> set ks then None else fmlookup m (j, x))"
  by (induction ks arbitrary: m) auto

lemma enqueue_ring_local:
  assumes "enqueue_ring_for_deletion cfg now i r s = (s', n)"
  shows "Collections s' = Collections s" "RetiredIdentifiers s' = RetiredIdentifiers s"
    "SuspendedCollections s' = SuspendedCollections s" "j \<noteq> i \<Longrightarrow> view s' j = view s j"
proof -
  have fold: "j \<noteq> i \<Longrightarrow> fmlookup (fold (\<lambda>p. fmupd (i, r, p) ()) ps m) (j, r', p') = fmlookup m (j, r', p')" for ps m r' p'
    by (induction ps arbitrary: m) auto
  show "Collections s' = Collections s" "RetiredIdentifiers s' = RetiredIdentifiers s"
    "SuspendedCollections s' = SuspendedCollections s"
    using assms by (auto simp: enqueue_ring_for_deletion_def archive_root_def on_ring_root_change_def Let_def
        split: option.splits if_splits)
  assume j: "j \<noteq> i"
  show "view s' j = view s j"
    by (rule coll_eqI) (use assms j in \<open>auto simp: enqueue_ring_for_deletion_def archive_root_def
        on_ring_root_change_def Let_def fold split: option.splits if_splits\<close>)
qed

lemma delete_ring_page_local:
  assumes "delete_ring_page i r p (s\<lparr>RingDeletionQueue := fmdrop (i, r, p) (RingDeletionQueue s)\<rparr>) = (s', n)"
  shows "Collections s' = Collections s" "RetiredIdentifiers s' = RetiredIdentifiers s"
    "SuspendedCollections s' = SuspendedCollections s" "j \<noteq> i \<Longrightarrow> view s' j = view s j"
proof -
  have s': "s' = s\<lparr>RingDeletionQueue := fmdrop (i, r, p) (RingDeletionQueue s),
      Members := delete_page_members i r p (key_page s i r p) 0 (Members s), RingKeys := fmdrop (i, r, p) (RingKeys s)\<rparr>"
    using assms by (simp add: delete_ring_page_def Let_def)
  show "Collections s' = Collections s" "RetiredIdentifiers s' = RetiredIdentifiers s"
    "SuspendedCollections s' = SuspendedCollections s" by (simp_all add: s')
  assume j: "j \<noteq> i"
  show "view s' j = view s j" by (rule coll_eqI) (use j in \<open>auto simp: s' delete_page_lookup\<close>)
qed

lemma merge_queue_pages_local:
  assumes "merge_queue_pages cfg i h n ks1 ks2 s = Inr s'"
  shows "Collections s' = Collections s" "RetiredIdentifiers s' = RetiredIdentifiers s"
    "SuspendedCollections s' = SuspendedCollections s" "j \<noteq> i \<Longrightarrow> view s' j = view s j"
proof -
  have fold: "j \<noteq> i \<Longrightarrow> fmlookup (fold (\<lambda>k m. case fmlookup m (i, k) of
       Some (Onboarding _ t) \<Rightarrow> fmupd (i, k) (Onboarding n t) m | _ \<Rightarrow> m) ks m) (j, x) = fmlookup m (j, x)" for ks m x
    by (induction ks arbitrary: m) (auto split: option.splits ring_position.splits)
  show "Collections s' = Collections s" "RetiredIdentifiers s' = RetiredIdentifiers s"
    "SuspendedCollections s' = SuspendedCollections s"
    using assms by (auto simp: merge_queue_pages_def bindE_Inr ensure_Inr)
  assume j: "j \<noteq> i"
  show "view s' j = view s j"
    by (rule coll_eqI) (use assms j in \<open>auto simp: merge_queue_pages_def bindE_Inr ensure_Inr fold\<close>)
qed

lemma clean_up_loop_frame:
  "clean_up_loop now ret i r n removed s = (s', k) \<Longrightarrow>
   Collections s' = Collections s \<and> RetiredIdentifiers s' = RetiredIdentifiers s \<and>
   SuspendedCollections s' = SuspendedCollections s \<and> (\<forall>j. view s' j = view s j)"
proof (induction n arbitrary: removed s)
  case (Suc n)
  show ?case
  proof (cases "first_old_root i r s")
    case (Some x)
    obtain rv old where x: "x = (rv, old)" by force
    let ?s1 = "members_deposit (OldRootCleanedUp i r rv) (s\<lparr>OldRoots := fmdrop (i, r, rv) (OldRoots s)\<rparr>)"
    have "view ?s1 j = view s j" for j by (simp add: view_def members_deposit_def)
    with Suc Some x show ?thesis by (force simp: members_deposit_def split: if_splits)
  qed (use Suc.prems in simp)
qed simp


subsection \<open>Entry points\<close>

text \<open>
  \<open>OpCall\<close> is an unsigned extrinsic: it is dispatched when its authorization succeeds, with the source of the
  transaction, the iteration order of the storage (for \<open>remove_orphaned_members\<close>), the origin the
  authorization produced and the discriminator. The other operations are the signed extrinsics and the
  traits.
\<close>

datatype ('loc, 'm, 'o) members_op =
  OpCall transaction_source "'m list" 'o nat "'m members_call"
| OpMergeRings 'o coll_id ring_index ring_index
| OpSetOnboardingSize 'o coll_id nat
| OpSelfInclude 'o coll_id 'm secs
| OpCreateCollection 'loc coll_id nat ring_mode ring_exponent "secs option"
| OpAddMembers coll_id "'m list"
| OpRemoveRing coll_id ring_index
| OpRemoveMembers coll_id "'m list"
| OpDeleteCollection 'loc coll_id
| OpStartSession coll_id
| OpEndSession coll_id

definition post_state :: "members_err + ('acc, 'loc, 'm, 'r, 'i) mst \<times> post_info \<Rightarrow> members_err + ('acc, 'loc, 'm, 'r, 'i) mst" where
  "post_state m = bindE m (\<lambda>(s, _). Inr s)"

fun members_step ::
  "('acc, 'm, 'r, 'i, 'o, 'chunk, 'cap, 'proof) mcfg \<Rightarrow> secs \<times> ('loc, 'm, 'o) members_op
     \<Rightarrow> ('acc, 'loc, 'm, 'r, 'i) mst \<Rightarrow> members_err + ('acc, 'loc, 'm, 'r, 'i) mst" where
  "members_step cfg (now, OpCall src order org d call) s =
     bindE (ensure (authorize_members_call cfg now src call s) BadOrigin) (\<lambda>_.
     post_state (dispatch_members_call cfg now org order d call s))"
| "members_step cfg (now, OpMergeRings org i b t) s = post_state (merge_rings cfg now org i b t s)"
| "members_step cfg (now, OpSetOnboardingSize org i n) s = post_state (set_onboarding_size cfg org i n s)"
| "members_step cfg (now, OpSelfInclude org i m t) s = post_state (self_include cfg org i m t s)"
| "members_step cfg (now, OpCreateCollection own i n md e d) s = create_collection cfg own i n md e d s"
| "members_step cfg (now, OpAddMembers i ms) s = add_members cfg now i ms s"
| "members_step cfg (now, OpRemoveRing i r) s = remove_ring cfg now i r s"
| "members_step cfg (now, OpRemoveMembers i ms) s = queue_member_suspensions cfg i ms s"
| "members_step cfg (now, OpDeleteCollection own i) s = delete_collection own i s"
| "members_step cfg (now, OpStartSession i) s = start_removal_session i s"
| "members_step cfg (now, OpEndSession i) s = end_removal_session i s"

text \<open>
  What the callers take care of: counters stay below their maximum, rings are removed from append-only
  collections only, and members are removed from live flexible collections only.
\<close>

definition room_in ::
  "('acc, 'm, 'r, 'i, 'o, 'chunk, 'cap, 'proof) mcfg \<Rightarrow> coll_id \<Rightarrow> ('acc, 'loc, 'm, 'r, 'i) mst \<Rightarrow> bool" where
  "room_in cfg i s = (case fmlookup (Collections s) i of
     None \<Rightarrow> True
   | Some info \<Rightarrow> members_active_count i s + ring_capacity cfg (ci_ring_size info) \<le> max_of 32 \<and>
                 current_ring s i < max_of 32)"

definition mode_is :: "ring_mode \<Rightarrow> coll_id \<Rightarrow> ('acc, 'loc, 'm, 'r, 'i) mst \<Rightarrow> bool" where
  "mode_is md i s = (case fmlookup (Collections s) i of None \<Rightarrow> False | Some info \<Rightarrow> ci_mode info = md)"

fun members_op_ok ::
  "('acc, 'm, 'r, 'i, 'o, 'chunk, 'cap, 'proof) mcfg \<Rightarrow> secs \<times> ('loc, 'm, 'o) members_op
     \<Rightarrow> ('acc, 'loc, 'm, 'r, 'i) mst \<Rightarrow> bool" where
  "members_op_ok cfg (now, OpCall src order org d (CallOnboardMembers i r h m)) s = room_in cfg i s"
| "members_op_ok cfg (now, OpSelfInclude org i m t) s = room_in cfg i s"
| "members_op_ok cfg (now, OpAddMembers i ms) s = (snd (queue_ends s i) + length ms \<le> max_of 32)"
| "members_op_ok cfg (now, OpRemoveRing i r) s = (contains_key (Collections s) i \<longrightarrow> mode_is AppendOnly i s)"
| "members_op_ok cfg (now, OpRemoveMembers i ms) s = mode_is Flexible i s"
| "members_op_ok cfg (now, _) s = True"

lemma post_state_Inr [res_simps]: "post_state m = Inr s \<longleftrightarrow> (\<exists>p. m = Inr (s, p))"
  by (cases m) (auto simp: post_state_def)

lemma room_roomy: "room_in cfg i s \<Longrightarrow> fmlookup (Collections s) i = Some info \<Longrightarrow> roomy cfg info (view s i)"
  by (simp add: room_in_def roomy_def members_active_count_def)

subsection \<open>Every operation keeps the invariant\<close>

lemma build_ring_inv:
  assumes inv: "members_inv cfg s" and auth: "is_ok (ensure_can_build_ring cfg i r e rv n s)"
    and run: "build_ring cfg now i r n s = Inr s'"
  shows "keeps cfg s s'"
proof -
  obtain info where info: "fmlookup (Collections s) i = Some info"
    and sb: "should_build_ring i r (ring_building_member_limit cfg) s \<noteq> None"
    using auth by (auto simp: is_ok_iff ensure_can_build_ring_def bindE_Inr ok_or_Inr ensure_Inr Let_def)
  have "contains_key (RingKeysStatus s) (i, r)"
    using sb by (auto simp: should_build_ring_def Let_def get_or_def default_ring_status_def split: if_splits option.splits)
  from build_ring_ok[OF info _ this run] show ?thesis by (rule inv_live_step[OF inv info])
qed

lemma onboard_members_None:
  fixes s :: "('acc, 'loc, 'm, 'r, 'i) mst"
  assumes info: "fmlookup (Collections s) i = Some info" and inv: "coll_inv cfg info (view s i)"
    and C: "C = ring_capacity cfg (ci_ring_size info)" and cur: "cur = current_ring s i"
    and slots: "slots = C - total (status_of s i cur)"
    and ends: "queue_ends s i = (old, t)"
    and two: "two = (length (queue_page_of s i old) < slots \<and> old \<noteq> t)"
    and kti: "kti = (if two then queue_page_of s i old @ queue_page_of s i (next_page old) else queue_page_of s i old)"
    and should: "should_onboard_members i cur (status_of s i cur) slots (length kti)
      (get_or 0 (OnboardingSize s) i) C s = None"
  shows "onboard_members cfg i b s = (if b then Inl (Module PrematureOnboarding) else Inr (s, False))"
proof -
  let ?P = "flexible_ring_capacity cfg" and ?t = "tot (view s i) cur"
  have ok: "coll_ok (ci_mode info) ?P (onboarding_queue_page_size cfg) C {} (view s i)" and nf: "not_full C (view s i)"
    using inv by (simp_all add: coll_inv_def C)
  have Cmax: "C \<le> max_of 32" using ok by (simp add: coll_ok_def)
  have tC: "?t < C" using nf by (simp add: not_full_def cur)
  note avail = available_ring_top[OF ok nf, folded cur]
  have sum: "sat_add 32 (?t mod ?P) (?t div ?P * ?P) = ?t"
    using tC Cmax by (subst sat_add_exact) simp_all
  have slots': "slots = C - ?t" by (simp add: slots tot_view)
  show ?thesis
    unfolding onboard_members_def info
    by (simp add: Let_def C[symmetric] avail(1) avail(2) cur[symmetric] sum ends slots'[symmetric] two[symmetric]
        kti[symmetric] should cong: if_cong split del: if_split)
qed

text \<open>The queue pages \<open>onboard_members\<close> would read, and its decision.\<close>

definition onboard_decision ::
  "('acc, 'm, 'r, 'i, 'o, 'chunk, 'cap, 'proof) mcfg \<Rightarrow> ('acc, 'loc) collection_info \<Rightarrow> coll_id
     \<Rightarrow> ('acc, 'loc, 'm, 'r, 'i) mst \<Rightarrow> (nat \<times> bool) option" where
  "onboard_decision cfg info i s =
     (let C = ring_capacity cfg (ci_ring_size info); cur = current_ring s i; slots = C - total (status_of s i cur);
          (old, t) = queue_ends s i; two = (length (queue_page_of s i old) < slots \<and> old \<noteq> t);
          kti = (if two then queue_page_of s i old @ queue_page_of s i (next_page old) else queue_page_of s i old)
      in should_onboard_members i cur (status_of s i cur) slots (length kti) (get_or 0 (OnboardingSize s) i) C s)"

lemma onboard_members_cases:
  assumes info: "fmlookup (Collections s) i = Some info" and inv: "coll_inv cfg info (view s i)"
    and roomy: "roomy cfg info (view s i)"
  shows "case onboard_decision cfg info i s of
      None \<Rightarrow> onboard_members cfg i b s = (if b then Inl (Module PrematureOnboarding) else Inr (s, False))
    | Some _ \<Rightarrow> \<exists>s'. onboard_members cfg i b s = Inr (s', True) \<and> only_at i s s' \<and> coll_inv cfg info (view s' i)"
proof -
  obtain old t where ends: "queue_ends s i = (old, t)" by force
  show ?thesis
    using onboard_members_None[OF info inv refl refl refl ends refl refl, of b]
      onboard_members_ok[OF info inv roomy refl refl refl ends refl refl, of _ _ b]
    by (fastforce simp: onboard_decision_def ends Let_def split: option.splits simp del: length_append)
qed

lemma onboard_members_inv:
  assumes inv: "members_inv cfg s" and room: "room_in cfg i s" and run: "onboard_members cfg i b s = Inr (s', r)"
  shows "keeps cfg s s'"
proof -
  obtain info where info: "fmlookup (Collections s) i = Some info"
    using run by (cases "fmlookup (Collections s) i") (simp_all add: onboard_members_def)
  note cases = onboard_members_cases[OF info inv_live[OF inv info] room_roomy[OF room info], of b]
  show ?thesis
  proof (cases "onboard_decision cfg info i s")
    case None
    then have "s' = s" using cases run by (cases b) auto
    then show ?thesis using inv keeps_refl by simp
  next
    case (Some x)
    then have "only_at i s s' \<and> coll_inv cfg info (view s' i)" using cases run by auto
    then show ?thesis by (rule inv_live_step[OF inv info])
  qed
qed

lemma merge_queue_pages_inv:
  assumes inv: "members_inv cfg s" and auth: "is_ok (ensure_can_merge_queue_pages cfg i h n s)"
    and run: "merge_queue_pages cfg i h n (queue_page_of s i h) (queue_page_of s i n) s = Inr s'"
  shows "keeps cfg s s'"
proof -
  obtain ks ls where act: "should_merge_queue_pages cfg i s = Merge h n ks ls"
    using auth by (cases "should_merge_queue_pages cfg i s")
      (auto simp: is_ok_iff ensure_can_merge_queue_pages_def bindE_Inr ensure_Inr)
  show ?thesis
  proof (cases "fmlookup (Collections s) i")
    case (Some info)
    from merge_queue_pages_ok[OF inv_live[OF inv Some] act] run
    have "only_at i s s' \<and> coll_inv cfg info (view s' i)" by auto
    then show ?thesis by (rule inv_live_step[OF inv Some])
  next
    case None
    show ?thesis
    proof (cases "contains_key (RetiredIdentifiers s) i")
      case True
      then show ?thesis
        using merge_queue_pages_local[OF run] by (intro inv_retired_step[OF inv, of i]) simp_all
    next
      case False
      then have "view s i = empty_coll" using inv None unfolding members_inv_def by auto
      then have "c_head (view s i) = 0" "c_tail (view s i) = 0" by (simp_all add: empty_coll_def)
      then have "queue_ends s i = (0, 0)" by (simp add: prod_eq_iff)
      then show ?thesis using act by (simp add: should_merge_queue_pages_def Let_def split: if_splits)
    qed
  qed
qed

lemma remove_suspended_keys_inv:
  assumes inv: "members_inv cfg s" and auth: "is_ok (ensure_can_remove_suspended_keys i r rv s)"
    and run: "remove_suspended_keys cfg now i r s = (s', w)"
  shows "keeps cfg s s'"
proof (cases "fmlookup (Collections s) i")
  case None
  then have "s' = s" using run by (simp add: remove_suspended_keys_def)
  then show ?thesis using inv keeps_refl by simp
next
  case (Some info)
  have "pending_of s i r \<noteq> []"
    using auth by (auto simp: is_ok_iff ensure_can_remove_suspended_keys_def bindE_Inr ensure_Inr
        should_remove_suspended_keys_def split: if_splits)
  from remove_suspended_keys_ok[OF Some _ this run] show ?thesis by (intro inv_live_step[OF inv Some]) blast
qed

lemma delete_ring_page_inv:
  assumes inv: "members_inv cfg s" and rm: "contains_key (RingDeletionQueue s) (i, r, p)"
    and run: "delete_ring_page i r p (s\<lparr>RingDeletionQueue := fmdrop (i, r, p) (RingDeletionQueue s)\<rparr>) = (s', n)"
  shows "keeps cfg s s'"
proof (cases "fmlookup (Collections s) i")
  case (Some info)
  from delete_ring_page_ok[OF _ rm run] show ?thesis by (rule inv_live_step[OF inv Some])
next
  case None
  show ?thesis
  proof (cases "contains_key (RetiredIdentifiers s) i")
    case True
    then show ?thesis using delete_ring_page_local[OF run] by (intro inv_retired_step[OF inv, of i]) simp_all
  next
    case False
    then have "view s i = empty_coll" using inv None unfolding members_inv_def by auto
    then have "\<not> c_removed (view s i) r p" by (simp add: empty_coll_def)
    with rm show ?thesis by simp
  qed
qed

lemma delete_queue_page_inv:
  assumes inv: "members_inv cfg s" and sus: "contains_key (SuspendedCollections s) i"
    and run: "delete_onboarding_queue_page i p s = (s', n)"
  shows "keeps cfg s s'"
proof (rule inv_retired_step[OF inv, of i])
  show "contains_key (RetiredIdentifiers s) i" using inv_suspended[OF inv sus] by blast
  fix j assume "j \<noteq> i"
  then show "view s' j = view s j"
    using run by (intro coll_eqI) (auto simp: delete_onboarding_queue_page_def Let_def fold_drop_lookup)
qed (use run in \<open>auto simp: delete_onboarding_queue_page_def Let_def\<close>)

lemma finalize_inv:
  assumes inv: "members_inv cfg s" and sus: "contains_key (SuspendedCollections s) i"
  shows "keeps cfg s (finalize_collection_deletion i s)" (is "keeps cfg s ?s")
proof (rule inv_retired_step[OF inv, of i])
  show "contains_key (RetiredIdentifiers s) i" using inv_suspended[OF inv sus] by blast
  fix j
  show "contains_key (SuspendedCollections ?s) j \<Longrightarrow> contains_key (SuspendedCollections s) j"
    by (auto simp: finalize_collection_deletion_def members_deposit_def Let_def split: option.splits if_splits)
  assume "j \<noteq> i"
  then show "view ?s j = view s j"
    by (intro coll_eqI) (auto simp: finalize_collection_deletion_def members_deposit_def Let_def split: option.splits)
qed (auto simp: finalize_collection_deletion_def members_deposit_def Let_def split: option.splits)

lemma remove_ring_inv:
  assumes inv: "members_inv cfg s" and ok: "contains_key (Collections s) i \<longrightarrow> mode_is AppendOnly i s"
    and run: "remove_ring cfg now i r s = Inr s'"
  shows "keeps cfg s s'"
proof -
  obtain info where info: "fmlookup (Collections s) i = Some info"
    using run by (auto simp: remove_ring_def bindE_Inr ensure_Inr)
  have m: "ci_mode info = AppendOnly" using ok info by (simp add: mode_is_def)
  show ?thesis
  proof (cases "fBex (fmdom (RingDeletionQueue s)) (\<lambda>(i', r', _). i' = i \<and> r' = r)")
    case True
    then have "s' = s" using run by (simp add: remove_ring_def bindE_Inr ensure_Inr)
    then show ?thesis using inv keeps_refl by simp
  next
    case False
    obtain n where "r \<noteq> current_ring s i" "enqueue_ring_for_deletion cfg now i r s = (s', n)"
      using run False by (cases "enqueue_ring_for_deletion cfg now i r s")
        (auto simp: remove_ring_def bindE_Inr ensure_Inr)
    then show ?thesis using remove_ring_step_ok[OF _ m] by (intro inv_live_step[OF inv info]) blast
  qed
qed

lemma create_collection_inv:
  assumes cfg: "members_cfg_ok cfg" and inv: "members_inv cfg s"
    and run: "create_collection cfg own i n md e d s = Inr s'"
  shows "evolves cfg s s' \<and> (\<forall>j. j \<noteq> i \<longrightarrow> fmlookup (Collections s') j = fmlookup (Collections s) j) \<and>
    RetiredIdentifiers s' = RetiredIdentifiers s"
proof -
  let ?info = "\<lparr>ci_owner = OwnerExternal own, ci_mode = md, ci_ring_size = e, self_inclusion_delay = d\<rparr>"
  let ?P = "ring_capacity cfg (max_flexible_ring_exponent cfg)"
  have new: "fmlookup (Collections s) i = None" "fmlookup (RetiredIdentifiers s) i = None"
    and cap: "md = Flexible \<longrightarrow> ring_capacity cfg e \<le> ?P"
    and colls: "Collections s' = fmupd i ?info (Collections s)"
    and same: "RetiredIdentifiers s' = RetiredIdentifiers s" "SuspendedCollections s' = SuspendedCollections s"
      "\<And>j. view s' j = view s j"
    using run by (auto simp: create_collection_def bindE_Inr ensure_Inr ok_or_Inr Let_def view_def unit_absent)
  have "view s i = empty_coll" using inv new unfolding members_inv_def by simp
  then have "coll_inv cfg ?info (view s' i)"
    using cfg cap empty_coll_ok[of ?P "onboarding_queue_page_size cfg" "ring_capacity cfg e" md]
    by (simp add: same coll_inv_def members_cfg_ok_def flexible_ring_capacity_def)
  then show ?thesis using inv new unfolding evolves_def members_inv_def colls same by (auto simp: unit_absent)
qed

lemma delete_collection_inv:
  assumes inv: "members_inv cfg s" and run: "delete_collection own i s = Inr s'"
  shows "evolves cfg s s' \<and> (\<forall>j. j \<noteq> i \<longrightarrow> fmlookup (Collections s') j = fmlookup (Collections s) j \<and>
    fmlookup (RetiredIdentifiers s') j = fmlookup (RetiredIdentifiers s) j)"
proof -
  obtain info where "Collections s' = fmdrop i (Collections s)"
    "SuspendedCollections s' = fmupd i info (SuspendedCollections s)"
    "RetiredIdentifiers s' = fmupd i () (RetiredIdentifiers s)" "\<And>j. view s' j = view s j"
    using run by (auto simp: delete_collection_def bindE_Inr ensure_Inr ok_or_Inr Let_def view_def members_deposit_def)
  then show ?thesis using inv unfolding evolves_def members_inv_def by auto
qed

lemma call_inv:
  assumes inv: "members_inv cfg s" and ok: "members_op_ok cfg (now, OpCall src order org d call) s"
    and auth: "authorize_members_call cfg now src call s"
    and run: "dispatch_members_call cfg now org order d call s = Inr (s', pst)"
  shows "keeps cfg s s'"
proof (cases call)
  case (CallBuildRing i r e rv n)
  then show ?thesis
    using auth run build_ring_inv[OF inv]
    by (auto simp: authorize_members_call_def dispatch_members_call_def build_ring_authorized_def bindE_Inr)
next
  case (CallOnboardMembers i r h m)
  then show ?thesis
    using run ok onboard_members_inv[OF inv]
    by (auto simp: dispatch_members_call_def onboard_members_authorized_def bindE_Inr)
next
  case (CallMergeQueuePages i h n)
  then show ?thesis
    using auth run merge_queue_pages_inv[OF inv]
    by (auto simp: authorize_members_call_def dispatch_members_call_def merge_queue_pages_authorized_def bindE_Inr)
next
  case (CallRemoveSuspendedKeys i r rv)
  then show ?thesis
    using auth run remove_suspended_keys_inv[OF inv]
    by (auto simp: authorize_members_call_def dispatch_members_call_def remove_suspended_keys_authorized_def bindE_Inr
        split: prod.splits)
next
  case (CallDeleteRingPage i r p)
  then show ?thesis
    using auth run delete_ring_page_inv[OF inv]
    by (auto simp: authorize_members_call_def dispatch_members_call_def delete_ring_page_authorized_def bindE_Inr
        ensure_can_delete_ring_page_def is_ok_iff ensure_Inr split: prod.splits)
next
  case (CallEnqueueRingDeletion i r)
  then have sus: "contains_key (SuspendedCollections s) i"
    using auth by (auto simp: authorize_members_call_def ensure_can_enqueue_ring_deletion_def is_ok_iff bindE_Inr ensure_Inr)
  obtain n where step: "enqueue_ring_for_deletion cfg now i r s = (s', n)"
    using run CallEnqueueRingDeletion
    by (auto simp: dispatch_members_call_def enqueue_ring_deletion_authorized_def bindE_Inr split: prod.splits)
  show ?thesis
    using enqueue_ring_local[OF step] inv_suspended[OF inv sus] by (intro inv_retired_step[OF inv, of i]) simp_all
next
  case (CallDeleteOnboardingQueuePage i p)
  then have sus: "contains_key (SuspendedCollections s) i"
    using auth by (auto simp: authorize_members_call_def ensure_can_delete_onboarding_queue_page_def is_ok_iff
        bindE_Inr ensure_Inr)
  obtain n where "delete_onboarding_queue_page i p s = (s', n)"
    using run CallDeleteOnboardingQueuePage
    by (auto simp: dispatch_members_call_def delete_onboarding_queue_page_authorized_def bindE_Inr split: prod.splits)
  then show ?thesis by (rule delete_queue_page_inv[OF inv sus])
next
  case (CallFinalizeCollectionDeletion i)
  then show ?thesis
    using auth run finalize_inv[OF inv]
    by (auto simp: authorize_members_call_def dispatch_members_call_def finalize_collection_deletion_authorized_def
        bindE_Inr ensure_can_finalize_collection_deletion_def is_ok_iff ensure_Inr)
next
  case (CallRemoveOrphanedMembers i)
  then have sus: "contains_key (SuspendedCollections s) i"
    using auth by (auto simp: authorize_members_call_def ensure_can_remove_orphaned_members_def is_ok_iff bindE_Inr ensure_Inr)
  have s': "s' = s\<lparr>Members := fold (\<lambda>k. fmdrop (i, k)) (take ORPHANED_MEMBERS_REMOVAL_LIMIT order) (Members s)\<rparr>"
    using run CallRemoveOrphanedMembers
    by (auto simp: dispatch_members_call_def remove_orphaned_members_authorized_def bindE_Inr Let_def)
  have "view s' j = view s j" if "j \<noteq> i" for j
    by (rule coll_eqI) (use that in \<open>auto simp: s' fold_drop_lookup\<close>)
  then show ?thesis
    using inv_suspended[OF inv sus] by (intro inv_retired_step[OF inv, of i]) (simp_all add: s')
next
  case (CallMarkRingStale i r)
  then have "s' = s\<lparr>StaleRings := fmupd (i, r) () (StaleRings s)\<rparr>"
    using run by (auto simp: dispatch_members_call_def mark_ring_stale_authorized_def bindE_Inr)
  then show ?thesis by (intro inv_frame[OF inv]) (simp_all add: view_def)
next
  case (CallCleanUpOldRoots i r n)
  then obtain k where "clean_up_loop now (old_root_retention_duration cfg) i r n 0 s = (s', k)"
    using run by (auto simp: dispatch_members_call_def clean_up_old_roots_authorized_def bindE_Inr split: prod.splits)
  from clean_up_loop_frame[OF this] show ?thesis by (intro inv_frame[OF inv]) simp_all
qed

lemma members_step_keeps:
  assumes cfg: "members_cfg_ok cfg" and inv: "members_inv cfg s" and ok: "members_op_ok cfg op s"
    and run: "members_step cfg op s = Inr s'"
    and kind: "\<And>own i n md e d. snd op \<noteq> OpCreateCollection own i n md e d" "\<And>own i. snd op \<noteq> OpDeleteCollection own i"
  shows "keeps cfg s s'"
proof -
  obtain now p where op: "op = (now, p)" by force
  show ?thesis
  proof (cases p)
    case (OpCall src order org d call)
    then show ?thesis using run ok op call_inv[OF inv] by (auto simp: bindE_Inr ensure_Inr post_state_Inr)
  next
    case (OpMergeRings org i b t)
    then obtain pst where m: "merge_rings cfg now org i b t s = Inr (s', pst)" using run op by (auto simp: post_state_Inr)
    then obtain info where info: "fmlookup (Collections s) i = Some info"
      by (auto simp: merge_rings_def bindE_Inr ok_or_Inr)
    from merge_rings_ok[OF info _ m] show ?thesis by (intro inv_live_step[OF inv info]) blast
  next
    case OpSetOnboardingSize
    then show ?thesis
      using run op by (intro inv_frame[OF inv])
        (auto simp: post_state_Inr set_onboarding_size_def bindE_Inr ensure_Inr ok_or_Inr view_def members_deposit_def)
  next
    case (OpSelfInclude org i k t)
    then obtain s1 where inc: "do_self_include cfg i k s = Inr s1" and s': "s' = members_deposit (MemberSelfIncluded i k) s1"
      using run op by (auto simp: post_state_Inr self_include_def bindE_Inr ensure_Inr split: option.splits members_origin.splits)
    obtain info where info: "fmlookup (Collections s) i = Some info"
      using inc by (auto simp: do_self_include_def bindE_Inr ok_or_Inr)
    have "room_in cfg i s" using ok op OpSelfInclude by simp
    from do_self_include_ok[OF info _ room_roomy[OF this info] inc] have k: "keeps cfg s s1"
      by (rule inv_live_step[OF inv info])
    then have "members_inv cfg s1" by (simp add: keeps_def)
    then have "keeps cfg s1 s'" unfolding s' by (rule inv_frame) (simp_all add: members_deposit_def view_def)
    with k show ?thesis by (rule keeps_trans)
  next
    case OpCreateCollection
    then show ?thesis using kind(1) op by (metis snd_conv)
  next
    case (OpAddMembers i ms)
    then obtain info where info: "fmlookup (Collections s) i = Some info"
      and loop: "add_members_loop cfg now i ms s = Inr s'"
      using run op by (auto simp: add_members_def bindE_Inr ok_or_Inr)
    have "snd (queue_ends s i) + length ms \<le> max_of 32" using ok op OpAddMembers by simp
    from add_members_loop_ok[OF _ this loop] show ?thesis by (rule inv_live_step[OF inv info])
  next
    case OpRemoveRing
    then show ?thesis using run op ok remove_ring_inv[OF inv] by auto
  next
    case (OpRemoveMembers i ms)
    then obtain info where info: "fmlookup (Collections s) i = Some info" "ci_mode info = Flexible"
      and loop: "queue_member_suspensions_loop (flexible_ring_capacity cfg) i ms s = Inr s'"
      using run op ok by (auto simp: queue_member_suspensions_def bindE_Inr ensure_Inr mode_is_def split: option.splits)
    from suspensions_loop_ok[OF info(2) _ loop] show ?thesis by (rule inv_live_step[OF inv info(1)])
  next
    case OpDeleteCollection
    then show ?thesis using kind(2) op by (metis snd_conv)
  next
    case OpStartSession
    then show ?thesis
      using run op inv by (intro inv_frame[OF inv])
        (auto simp: start_removal_session_def bindE_Inr view_def split: if_splits)
  next
    case OpEndSession
    then show ?thesis
      using run op inv by (intro inv_frame[OF inv])
        (auto simp: end_removal_session_def bindE_Inr view_def split: if_splits)
  qed
qed

lemma members_step_evolves:
  assumes cfg: "members_cfg_ok cfg" and inv: "members_inv cfg s" and ok: "members_op_ok cfg op s"
    and run: "members_step cfg op s = Inr s'"
  shows "evolves cfg s s'"
proof -
  obtain now p where op: "op = (now, p)" by force
  show ?thesis
  proof (cases p)
    case OpCreateCollection
    then show ?thesis using run op create_collection_inv[OF cfg inv] by auto
  next
    case OpDeleteCollection
    then show ?thesis using run op delete_collection_inv[OF inv] by auto
  qed (intro keeps_evolves members_step_keeps[OF cfg inv ok run]; simp add: op)+
qed

text \<open>An identifier keeps its standing unless it is the one that is created or deleted.\<close>

fun opens_or_ends :: "coll_id \<Rightarrow> ('loc, 'm, 'o) members_op \<Rightarrow> bool" where
  "opens_or_ends i (OpCreateCollection own j n md e d) = (j = i)"
| "opens_or_ends i (OpDeleteCollection own j) = (j = i)"
| "opens_or_ends i _ = False"

lemma members_step_identifier:
  assumes cfg: "members_cfg_ok cfg" and inv: "members_inv cfg s" and ok: "members_op_ok cfg op s"
    and run: "members_step cfg op s = Inr s'" and kind: "\<not> opens_or_ends i (snd op)"
  shows "fmlookup (Collections s') i = fmlookup (Collections s) i \<and>
    fmlookup (RetiredIdentifiers s') i = fmlookup (RetiredIdentifiers s) i"
proof -
  obtain now p where op: "op = (now, p)" by force
  have k: "keeps cfg s s' \<Longrightarrow> ?thesis" by (simp add: keeps_def)
  show ?thesis
  proof (cases p)
    case (OpCreateCollection own j n md e d)
    then show ?thesis using run op kind create_collection_inv[OF cfg inv, of own j n md e d s'] by auto
  next
    case (OpDeleteCollection own j)
    then show ?thesis using run op kind delete_collection_inv[OF inv, of own j s'] by auto
  qed (intro k members_step_keeps[OF cfg inv ok run]; simp add: op)+
qed

interpretation mem: pallet_machine "members_step cfg" "members_op_ok cfg" "\<lambda>s. members_cfg_ok cfg \<and> members_inv cfg s"
  for cfg :: "('acc, 'm, 'r, 'i, 'o, 'chunk, 'cap, 'proof) mcfg"
  by unfold_locales (use members_step_evolves evolves_def in blast)

end
