(* ===== verification/Members_Example.thy ===== *)
theory Members_Example
  imports Members_Invariant "HOL-Library.Code_Target_Nat"
begin

text \<open>
  A small configuration of the members pallet and a run of it, on which the properties of the pallet
  are evaluated: rings of 3, 5 and 8 keys, queue pages of 4 keys, a root that is the list of its keys.
\<close>

datatype mex_origin = MexSigned nat | MexAuthorized | MexSelf nat | MexRoot

definition zero_w :: weight where
  "zero_w = \<lparr>ref_time = 1, proof_size = 1\<rparr>"

fun mex_capacity :: "ring_exponent \<Rightarrow> nat" where
  "mex_capacity R2e9 = 3" | "mex_capacity R2e10 = 5" | "mex_capacity R2e14 = 8"

definition mex_cfg :: "(nat, nat, nat list, nat list, mex_origin, unit, nat, nat) mcfg" where
  "mex_cfg = \<lparr>
     ring_capacity = mex_capacity,
     max_collections = 2,
     onboarding_queue_page_size = 4,
     max_flexible_ring_exponent = R2e10,
     ring_building_member_limit = 10,
     old_root_retention_duration = 100,
     offchain_worker_interval = 2,
     m_signed = (\<lambda>org. case org of MexSigned a \<Rightarrow> Some a | _ \<Rightarrow> None),
     m_authorized = (\<lambda>org. org = MexAuthorized),
     manager_or_root = (\<lambda>org. org = MexRoot),
     as_members_origin = (\<lambda>org. case org of MexSelf k \<Rightarrow> Some (SelfInclude k) | _ \<Rightarrow> None),
     to_capacity = (\<lambda>e. Some (mex_capacity e)),
     start_members = (\<lambda>_. []),
     push_members = (\<lambda>i ks _. Some (i @ ks)),
     finish_members = (\<lambda>i. i),
     get_chunks = (\<lambda>_ _ _. Some []),
     is_member_valid = (\<lambda>k. 0 < k),
     crypto_validate = (\<lambda>_ p r _ _. if p \<in> set r then Some ''alias'' else None),
     crypto_batch_validate = (\<lambda>ps. if \<forall>(p, _, r, _, _) \<in> set ps. p \<in> set r then Some (map (\<lambda>_. ''alias'') ps) else None),
     crypto_validate_multi = (\<lambda>_ p r cs _. if p \<in> set r then Some (map (\<lambda>_. ''alias'') cs) else None),
     w_remove_suspended_keys = (\<lambda>_. zero_w), w_delete_ring_page = (\<lambda>_. zero_w),
     w_enqueue_ring_deletion = (\<lambda>_. zero_w), w_delete_queue_page = (\<lambda>_. zero_w), w_finalize_deletion = zero_w,
     w_remove_orphaned = (\<lambda>_. zero_w), w_mark_ring_stale = zero_w, w_clean_up_old_roots = (\<lambda>_. zero_w),
     w_build_ring_r2e9 = (\<lambda>_. zero_w), w_build_ring_r2e10 = (\<lambda>_. zero_w), w_build_ring_r2e14 = (\<lambda>_. zero_w),
     w_onboard_members = zero_w\<rparr>"

lemma mex_cfg_ok: "members_cfg_ok mex_cfg"
proof -
  have "0 < mex_capacity e \<and> mex_capacity e \<le> max_of 32" for e by (cases e) (simp_all add: max_of_def)
  then show ?thesis by (simp add: members_cfg_ok_def mex_cfg_def)
qed

type_synonym mex_state = "(nat, nat, nat, nat list, nat list) mst"

definition mex_ops :: "(secs \<times> (nat, nat, mex_origin) members_op) list" where
  "mex_ops = [
     (10, OpCreateCollection 7 ''c'' 1 Flexible R2e9 None),
     (20, OpAddMembers ''c'' [11, 12, 13, 14, 15]),
     (30, OpCall Local [] MexAuthorized 0 (CallOnboardMembers ''c'' 0 0 (Some 11))),
     (40, OpCall Local [] MexAuthorized 0 (CallBuildRing ''c'' 0 R2e9 None 2)),
     (50, OpStartSession ''c''),
     (60, OpRemoveMembers ''c'' [12]),
     (70, OpEndSession ''c'')]"

lemma reachable_inv:
  assumes "members_cfg_ok cfg" "run_ok (members_step cfg) (members_op_ok cfg) ops members_genesis"
    and "s = exec_all (members_step cfg) ops members_genesis"
  shows "members_inv cfg s"
  using mem.exec_all_inv[of cfg members_genesis ops] assms genesis_inv by blast

lemma mex_run: "run_ok (members_step mex_cfg) (members_op_ok mex_cfg) mex_ops (members_genesis :: mex_state)"
  by code_simp

end
