(* ===== verification/Members_Fifo.thy ===== *)
theory Members_Fifo
  imports Members_Example
begin

text \<open>
  The order of the members of a collection in \<^verbatim>\<open>pallets/members/src/lib.rs\<close>. The paged onboarding queue is
  one list, the keys that wait; the pages of a ring are one list, the keys of the ring. Adding members
  appends to the first, onboarding moves a prefix of the first to the end of the second.
\<close>

definition waiting_keys :: "'m coll \<Rightarrow> 'm list" where
  "waiting_keys v = concat (map (c_queue v) [c_head v..<Suc (c_tail v)])"

definition ring_sequence :: "nat \<Rightarrow> 'm coll \<Rightarrow> ring_index \<Rightarrow> 'm list" where
  "ring_sequence P v r = map (ring_key P (c_keys v r)) [0..<tot v r]"

subsection \<open>The keys of a ring\<close>

definition ring_filled :: "nat \<Rightarrow> 'm coll \<Rightarrow> ring_index \<Rightarrow> bool" where
  "ring_filled P v r \<longleftrightarrow> (\<forall>p. length (c_keys v r p) = min P (tot v r - p * P))"

lemma place_sequence:
  assumes P: "0 < P" and f: "ring_filled P v r"
  shows "ring_filled P (place P r k v) r \<and>
    ring_sequence P (place P r k v) r' = (if r' = r then ring_sequence P v r @ [k] else ring_sequence P v r')"
proof -
  let ?t = "tot v r" and ?v = "place P r k v"
  have keys: "c_keys ?v = (c_keys v)(r := (c_keys v r)(?t div P := c_keys v r (?t div P) @ [k]))"
    by (simp add: place_def Let_def)
  have len: "length (c_keys v r (?t div P)) = ?t mod P" using f P by (simp add: ring_filled_def page_fill)
  have "ring_key P (c_keys ?v r) j = ring_key P (c_keys v r) j" if "j < ?t" for j
  proof (cases "j div P = ?t div P")
    case True
    have "j = j div P * P + j mod P" "?t = ?t div P * P + ?t mod P" by simp_all
    then have "j mod P < ?t mod P" using that True by (metis nat_add_left_cancel_less)
    then show ?thesis by (simp add: ring_key_def keys True nth_append len)
  qed (simp add: ring_key_def keys)
  moreover have "ring_key P (c_keys ?v r) ?t = k" by (simp add: ring_key_def keys nth_append len)
  ultimately have "ring_sequence P ?v r = ring_sequence P v r @ [k]"
    by (simp add: ring_sequence_def tot_place)
  moreover have "r' \<noteq> r \<Longrightarrow> ring_sequence P ?v r' = ring_sequence P v r'"
    by (simp add: ring_sequence_def tot_place keys)
  moreover have "ring_filled P ?v r"
    using f by (auto simp: ring_filled_def tot_place keys page_fill_step[OF P])
  ultimately show ?thesis by simp
qed

lemma place_all_sequence:
  assumes P: "0 < P"
  shows "ring_filled P v r \<Longrightarrow>
    ring_sequence P (fold (place P r) ks v) r' = (if r' = r then ring_sequence P v r @ ks else ring_sequence P v r')"
proof (induction ks arbitrary: v)
  case (Cons k ks)
  note st = place_sequence[OF P Cons.prems, of k]
  have f: "ring_filled P (place P r k v) r" using st by blast
  have rr: "ring_sequence P (place P r k v) r'' = (if r'' = r then ring_sequence P v r @ [k] else ring_sequence P v r'')" for r''
    using place_sequence[OF P Cons.prems, of k r''] by blast
  show ?case using Cons.IH[OF f] by (simp add: rr)
qed simp

subsection \<open>The keys that wait\<close>

lemma pages_split:
  "h \<le> t \<Longrightarrow> concat (map q [h..<Suc t]) = q h @ concat (map q [Suc h..<Suc t])"
  "h \<le> t \<Longrightarrow> concat (map q [h..<Suc t]) = concat (map q [h..<t]) @ q t"
  by (subst upt_conv_Cons, simp_all del: upt_Suc) (simp only: upt_Suc_append map_append concat_append, simp)

text \<open>Empty pages at the head do not count.\<close>

lemma waiting_from:
  assumes "h \<le> c_head v" "c_head v \<le> Suc (c_tail v)" "\<And>q. h \<le> q \<Longrightarrow> q < c_head v \<Longrightarrow> c_queue v q = []"
  shows "waiting_keys v = concat (map (c_queue v) [h..<Suc (c_tail v)])"
proof -
  have "[h..<Suc (c_tail v)] = [h..<c_head v] @ [c_head v..<Suc (c_tail v)]"
    using assms(1,2) by (metis le_add_diff_inverse upt_add_eq_append)
  moreover have "concat (map (c_queue v) [h..<c_head v]) = []" using assms(3) by simp
  ultimately show ?thesis by (simp add: waiting_keys_def)
qed

lemma page_upd_other: "x \<notin> set xs \<Longrightarrow> map (f(x := y)) xs = map f xs"
  by (induction xs) auto

lemma waiting_all:
  assumes "queue_shape Q v"
  shows "waiting_keys v = concat (map (c_queue v) [0..<Suc (c_tail v)])"
  using assms by (intro waiting_from) (force simp: queue_shape_def)+

text \<open>Taking \<open>n\<close> keys from the page at the head, or from the first two.\<close>

lemma waiting_take:
  assumes v: "queue_shape Q v" and w: "queue_shape Q w" and tl: "c_tail w = c_tail v"
    and two: "two \<longrightarrow> c_head v < c_tail v" and hn: "m = (if two then Suc (c_head v) else c_head v)"
    and kti: "kti = (if two then c_queue v (c_head v) @ c_queue v (Suc (c_head v)) else c_queue v (c_head v))"
    and n: "n \<le> length kti" and q: "c_queue w = (c_queue v)(c_head v := [], m := drop n kti)"
  shows "waiting_keys w = drop n (waiting_keys v) \<and> take n kti = take n (waiting_keys v)"
proof -
  let ?h = "c_head v" and ?t = "c_tail v" and ?q = "c_queue v"
  have ht: "?h \<le> ?t" using v by (simp add: queue_shape_def)
  have "waiting_keys w = concat (map (c_queue w) [?h..<Suc ?t])"
  proof -
    have "[0..<Suc ?t] = [0..<?h] @ [?h..<Suc ?t]" using ht by (metis le0 le_Suc_eq le_add_diff_inverse upt_add_eq_append)
    moreover have "c_queue w x = []" if "x < ?h" for x
    proof -
      have "?q x = []" using v that by (force simp: queue_shape_def)
      then show ?thesis using that by (simp add: q hn)
    qed
    ultimately show ?thesis using waiting_all[OF w] by (simp add: tl)
  qed
  also have "\<dots> = drop n kti @ (if two then concat (map ?q [Suc (Suc ?h)..<Suc ?t]) else concat (map ?q [Suc ?h..<Suc ?t]))"
  proof (cases two)
    case True
    then have "Suc ?h \<le> ?t" using two by simp
    then show ?thesis
      using True ht by (simp add: pages_split(1)[of ?h] pages_split(1)[of "Suc ?h"] q hn page_upd_other del: upt_Suc)
  qed (use ht in \<open>simp add: pages_split(1) q hn page_upd_other del: upt_Suc\<close>)
  also have "\<dots> = drop n (waiting_keys v)"
    using n two ht by (auto simp: waiting_keys_def kti pages_split(1) simp del: upt_Suc)
  finally have "waiting_keys w = drop n (waiting_keys v)" .
  moreover have "take n kti = take n (waiting_keys v)"
    using n two ht by (auto simp: waiting_keys_def kti pages_split(1) simp del: upt_Suc)
  ultimately show ?thesis by blast
qed

subsection \<open>Operations on the queue\<close>

lemma push_waiting:
  assumes inv: "coll_inv cfg info (view s i)" and tl: "snd (queue_ends s i) < max_of 32"
    and run: "push_to_onboarding_queue cfg now i k s = Inr s'"
  shows "waiting_keys (view s' i) = waiting_keys (view s i) @ [k] \<and> c_keys (view s' i) = c_keys (view s i) \<and>
    c_status (view s' i) = c_status (view s i)"
proof -
  obtain h t where ends: "queue_ends s i = (h, t)" by force
  have ht: "h \<le> t" using inv ends unfolding coll_inv_def coll_ok_def queue_shape_def by simp
  have nx: "next_page t = Suc t" using tl ends by (intro next_page_exact) simp
  obtain p ks where p: "p = t \<and> ks = queue_page_of s i t @ [k] \<or> p = Suc t \<and> ks = [k]"
    and s': "s' = members_deposit (MemberAdded k) (s\<lparr>QueuePageIndices := fmupd i (h, p) (QueuePageIndices s),
      OnboardingQueue := fmupd (i, p) ks (OnboardingQueue s), Members := fmupd (i, k) (Onboarding p now) (Members s)\<rparr>)"
    using run by (auto simp: push_to_onboarding_queue_def ends nx bindE_Inr ensure_Inr try_push_Some split: option.splits)
  have q: "c_queue (view s' i) = (c_queue (view s i))(p := ks)" "c_head (view s' i) = h" "c_tail (view s' i) = p"
    by (auto simp: s' members_deposit_def fun_eq_iff)
  have "waiting_keys (view s' i) = waiting_keys (view s i) @ [k]"
    using p ht unfolding waiting_keys_def q by (auto simp: ends pages_split(2) page_upd_other simp del: upt_Suc)
  then show ?thesis by (simp add: s' members_deposit_def fun_eq_iff)
qed

lemma add_members_waiting:
  "coll_inv cfg info (view s i) \<Longrightarrow> snd (queue_ends s i) + length ms \<le> max_of 32 \<Longrightarrow>
   add_members_loop cfg now i ms s = Inr s' \<Longrightarrow>
   waiting_keys (view s' i) = waiting_keys (view s i) @ ms \<and> c_keys (view s' i) = c_keys (view s i) \<and>
   c_status (view s' i) = c_status (view s i)"
proof (induction ms arbitrary: s)
  case (Cons k ms)
  from Cons.prems(3) obtain s1 where pos: "fmlookup (Members s) (i, k) = None \<or> fmlookup (Members s) (i, k) = Some Suspended"
    and push: "push_to_onboarding_queue cfg now i k s = Inr s1" and rest: "add_members_loop cfg now i ms s1 = Inr s'"
    by (auto simp: bindE_Inr ensure_Inr split: option.splits)
  have tl: "snd (queue_ends s i) < max_of 32" using Cons.prems(2) by simp
  have 1: "coll_inv cfg info (view s1 i)" "snd (queue_ends s1 i) + length ms \<le> max_of 32"
    using push_ok[OF Cons.prems(1) pos tl push] Cons.prems(2) by auto
  show ?case using Cons.IH[OF 1 rest] push_waiting[OF Cons.prems(1) tl push] by simp
qed simp

lemma merge_queue_waiting:
  assumes inv: "coll_inv cfg info (view s i)" and ends: "queue_ends s i = (h, t)" "h \<noteq> t"
    and run: "merge_queue_pages cfg i h (next_page h) (queue_page_of s i h) (queue_page_of s i (next_page h)) s = Inr s'"
  shows "waiting_keys (view s' i) = waiting_keys (view s i)"
proof -
  have ht: "h < t" "t \<le> max_of 32" using inv ends unfolding coll_inv_def coll_ok_def queue_shape_def by auto
  then have nx: "next_page h = Suc h" by (intro next_page_exact) simp
  have q: "c_queue (view s' i) = (c_queue (view s i))(h := [], Suc h := c_queue (view s i) h @ c_queue (view s i) (Suc h))"
    "c_head (view s' i) = Suc h" "c_tail (view s' i) = t"
    using run by (auto simp: merge_queue_pages_def bindE_Inr ensure_Inr nx ends fun_eq_iff)
  show ?thesis
    using ht unfolding waiting_keys_def q
    by (simp add: ends pages_split(1)[of h] pages_split(1)[of "Suc h"] page_upd_other del: upt_Suc)
qed

lemma onboard_waiting:
  fixes s :: "('acc, 'loc, 'm, 'r, 'i) mst"
  assumes info: "fmlookup (Collections s) i = Some info" and inv: "coll_inv cfg info (view s i)"
    and roomy: "roomy cfg info (view s i)" and run: "onboard_members cfg i b s = Inr (s', True)"
  shows "\<exists>n > 0. n \<le> length (waiting_keys (view s i)) \<and> waiting_keys (view s' i) = drop n (waiting_keys (view s i)) \<and>
    (\<forall>r. ring_sequence (flexible_ring_capacity cfg) (view s' i) r =
       ring_sequence (flexible_ring_capacity cfg) (view s i) r @
       (if r = current_ring s i then take n (waiting_keys (view s i)) else []))"
proof -
  let ?P = "flexible_ring_capacity cfg" and ?v = "view s i" and ?cur = "current_ring s i" and ?C = "ring_capacity cfg (ci_ring_size info)"
  obtain old t where ends: "queue_ends s i = (old, t)" by force
  let ?slots = "?C - total (status_of s i ?cur)"
  let ?two = "length (queue_page_of s i old) < ?slots \<and> old \<noteq> t"
  let ?kti = "if ?two then queue_page_of s i old @ queue_page_of s i (next_page old) else queue_page_of s i old"
  let ?sh = "should_onboard_members i ?cur (status_of s i ?cur) ?slots (length ?kti) (get_or 0 (OnboardingSize s) i) ?C s"
  have "?sh \<noteq> None"
  proof
    assume "?sh = None"
    from onboard_members_None[OF info inv refl refl refl ends refl refl this, of b] run
    show False by (simp split: if_splits)
  qed
  then obtain n filled where sh: "?sh = Some (n, filled)" by force
  from onboard_members_ok[OF info inv roomy refl refl refl ends refl refl sh, of b] run
  obtain h' where inv': "coll_inv cfg info (view s' i)"
    and v': "view s' i = (fold (place ?P ?cur) (take n ?kti)
      (?v\<lparr>c_queue := (c_queue ?v)(old := [], (if ?two then next_page old else old) := drop n ?kti), c_head := h'\<rparr>))
      \<lparr>c_active := c_active ?v + n, c_current := if tot ?v ?cur + n = ?C then Suc ?cur else ?cur\<rparr>"
    by auto
  define v1 where "v1 = ?v\<lparr>c_queue := (c_queue ?v)(old := [], (if ?two then next_page old else old) := drop n ?kti), c_head := h'\<rparr>"
  let ?w = "fold (place ?P ?cur) (take n ?kti) v1"
  have shape: "queue_shape (onboarding_queue_page_size cfg) ?v" "queue_shape (onboarding_queue_page_size cfg) (view s' i)"
    and P: "0 < ?P" and lay: "layout_ok ?P ?v" using inv inv' unfolding coll_inv_def coll_ok_def by blast+
  have ht: "old \<le> t" "t \<le> max_of 32" using shape(1) ends by (simp_all add: queue_shape_def)
  have nx: "?two \<Longrightarrow> next_page old = Suc old" using ht by (intro next_page_exact) simp
  have nm: "n = min (length ?kti) ?slots" "0 < n" using should_onboard_Some[OF sh] by blast+
  have n: "n \<le> length ?kti" "0 < n" by (subst nm(1), rule min.cobounded1) (rule nm(2))
  have v1s: "c_keys v1 = c_keys ?v" "tot v1 = tot ?v" "c_queue v1 = (c_queue ?v)(old := [], (if ?two then next_page old else old) := drop n ?kti)"
    "c_tail v1 = t" "c_head v1 = h'" by (simp_all add: v1_def ends)
  have q': "c_queue (view s' i) = c_queue v1" "c_tail (view s' i) = t"
    unfolding v'[folded v1_def] using v1s by simp_all
  have wt: "waiting_keys (view s' i) = drop n (waiting_keys ?v) \<and> take n ?kti = take n (waiting_keys ?v)"
    by (rule waiting_take[OF shape, where two = ?two and m = "if ?two then Suc old else old"])
      (use n(1) ends ht nx q'(2) in \<open>auto simp: q'(1) v1s\<close>)
  have "ring_filled ?P v1 ?cur"
    using lay unfolding ring_filled_def layout_ok_def by (simp add: v1s live_def)
  note seq = place_all_sequence[OF P this, of "take n ?kti"]
  have sw: "ring_sequence ?P (view s' i) r = ring_sequence ?P ?w r" for r
    unfolding v'[folded v1_def] by (simp add: ring_sequence_def)
  have s1: "ring_sequence ?P v1 r = ring_sequence ?P ?v r" for r by (simp add: ring_sequence_def v1s)
  have "min (length ?kti) n = min (length (waiting_keys ?v)) n"
    using arg_cong[of _ _ length, OF conjunct2[OF wt]] by (simp only: length_take)
  then have "n \<le> length (waiting_keys ?v)" using n(1) by linarith
  moreover have "\<forall>r. ring_sequence ?P (view s' i) r =
       ring_sequence ?P ?v r @ (if r = ?cur then take n (waiting_keys ?v) else [])"
    unfolding sw seq unfolding conjunct2[OF wt] s1 by simp
  ultimately show ?thesis using wt n(2) by blast
qed

subsection \<open>First in, first out\<close>

definition waiting_of :: "coll_id \<Rightarrow> ('acc, 'loc, 'm, 'r, 'i) mst \<Rightarrow> 'm list" where
  "waiting_of i s = waiting_keys (view s i)"

definition keys_of_ring ::
  "('acc, 'm, 'r, 'i, 'o, 'chunk, 'cap, 'proof) mcfg \<Rightarrow> coll_id \<Rightarrow> ('acc, 'loc, 'm, 'r, 'i) mst \<Rightarrow> ring_index \<Rightarrow> 'm list" where
  "keys_of_ring cfg i s r = ring_sequence (flexible_ring_capacity cfg) (view s i) r"

lemma keys_of_ring_cong:
  "c_keys (view s' i) = c_keys (view s i) \<Longrightarrow> c_status (view s' i) = c_status (view s i) \<Longrightarrow>
   keys_of_ring cfg i s' = keys_of_ring cfg i s"
  by (rule ext) (simp only: keys_of_ring_def ring_sequence_def tot_def)

text \<open>
  C21: in every reachable state the onboarding queue of a live collection, however it is paged, behaves as
  one first-in-first-out list. Adding members appends them in order and changes no ring; a successful
  onboarding removes a non-empty prefix of the list and appends exactly these keys, in their order, to the
  keys of the top ring; merging two queue pages changes nothing.
\<close>

theorem onboarding_fifo:
  assumes "members_cfg_ok cfg" "run_ok (members_step cfg) (members_op_ok cfg) ops members_genesis"
    and "s = exec_all (members_step cfg) ops members_genesis" and "fmlookup (Collections s) i = Some info"
  shows "(add_members cfg now i ms s = Inr s' \<and> snd (queue_ends s i) + length ms \<le> max_of 32 \<longrightarrow>
      waiting_of i s' = waiting_of i s @ ms \<and> keys_of_ring cfg i s' = keys_of_ring cfg i s) \<and>
    (onboard_members cfg i must_build s = Inr (s', True) \<and> room_in cfg i s \<longrightarrow>
      (\<exists>n > 0. n \<le> length (waiting_of i s) \<and> waiting_of i s' = drop n (waiting_of i s) \<and>
        keys_of_ring cfg i s' = (keys_of_ring cfg i s)(current_ring s i := keys_of_ring cfg i s (current_ring s i) @ take n (waiting_of i s)))) \<and>
    (authorize_members_call cfg now src (CallMergeQueuePages i h q) s \<and>
     dispatch_members_call cfg now org order d (CallMergeQueuePages i h q) s = Inr (s', pst) \<longrightarrow>
      waiting_of i s' = waiting_of i s \<and> keys_of_ring cfg i s' = keys_of_ring cfg i s)"
proof (intro conjI impI; elim conjE)
  have "members_inv cfg s" by (rule reachable_inv[OF assms(1-3)])
  then have inv: "coll_inv cfg info (view s i)" by (rule inv_live[OF _ assms(4)])
  {
    assume "add_members cfg now i ms s = Inr s'" and tl: "snd (queue_ends s i) + length ms \<le> max_of 32"
    then have "add_members_loop cfg now i ms s = Inr s'" by (simp add: add_members_def assms(4))
    note a = add_members_waiting[OF inv tl this]
    then show "waiting_of i s' = waiting_of i s @ ms" by (simp add: waiting_of_def)
    show "keys_of_ring cfg i s' = keys_of_ring cfg i s" using a by (intro keys_of_ring_cong) blast+
  }
  {
    assume run: "onboard_members cfg i must_build s = Inr (s', True)" and room: "room_in cfg i s"
    show "\<exists>n > 0. n \<le> length (waiting_of i s) \<and> waiting_of i s' = drop n (waiting_of i s) \<and>
        keys_of_ring cfg i s' = (keys_of_ring cfg i s)(current_ring s i := keys_of_ring cfg i s (current_ring s i) @ take n (waiting_of i s))"
      using onboard_waiting[OF assms(4) inv room_roomy[OF room assms(4)] run]
      by (elim exE conjE) (rule exI, auto simp: waiting_of_def keys_of_ring_def fun_eq_iff)
  }
  assume auth: "authorize_members_call cfg now src (CallMergeQueuePages i h q) s"
    and run: "dispatch_members_call cfg now org order d (CallMergeQueuePages i h q) s = Inr (s', pst)"
  obtain t where ends: "queue_ends s i = (h, t)" "h \<noteq> t" and q: "q = next_page h"
    using auth by (auto simp: authorize_members_call_def is_ok_iff ensure_can_merge_queue_pages_def bindE_Inr ensure_Inr
        should_merge_queue_pages_def Let_def split: queue_merge_action.splits if_splits prod.splits)
  have m: "merge_queue_pages cfg i h (next_page h) (queue_page_of s i h) (queue_page_of s i (next_page h)) s = Inr s'"
    using run q by (auto simp: dispatch_members_call_def merge_queue_pages_authorized_def bindE_Inr)
  show "waiting_of i s' = waiting_of i s" using merge_queue_waiting[OF inv ends m] by (simp add: waiting_of_def)
  have "c_keys (view s' i) = c_keys (view s i)" "c_status (view s' i) = c_status (view s i)"
    using m by (auto simp: merge_queue_pages_def bindE_Inr ensure_Inr fun_eq_iff)
  then show "keys_of_ring cfg i s' = keys_of_ring cfg i s" by (rule keys_of_ring_cong)
qed

lemma onboarding_fifo_witness:
  "\<exists>n > 0. n \<le> length [14, 15 :: nat] \<and>
     (let s = exec_all (members_step mex_cfg) mex_ops (members_genesis :: mex_state) in
      waiting_of ''c'' s = [14, 15] \<and>
      (\<exists>s'. onboard_members mex_cfg ''c'' True s = Inr (s', True) \<and> waiting_of ''c'' s' = drop n [14, 15]))"
proof -
  let ?s = "exec_all (members_step mex_cfg) mex_ops (members_genesis :: mex_state)"
  have info: "fmlookup (Collections ?s) ''c'' = Some \<lparr>ci_owner = OwnerExternal 7, ci_mode = Flexible, ci_ring_size = R2e9,
      self_inclusion_delay = None\<rparr>" by code_simp
  have w: "waiting_of ''c'' ?s = [14, 15]" by code_simp
  have "is_ok (onboard_members mex_cfg ''c'' True ?s) \<and>
      (case onboard_members mex_cfg ''c'' True ?s of Inr (_, b) \<Rightarrow> b | _ \<Rightarrow> False)" by code_simp
  then obtain s' where s': "onboard_members mex_cfg ''c'' True ?s = Inr (s', True)"
    by (auto simp: is_ok_iff)
  have "room_in mex_cfg ''c'' ?s" by code_simp
  with onboarding_fifo[OF mex_cfg_ok mex_run refl info, where s' = s' and must_build = True, THEN conjunct2, THEN conjunct1] s'
  obtain n where "n > 0" "n \<le> length (waiting_of ''c'' ?s)" "waiting_of ''c'' s' = drop n (waiting_of ''c'' ?s)" by blast
  then show ?thesis using s' w by (auto simp: Let_def)
qed

end
