(* ===== verification/Members_Properties.thy ===== *)
theory Members_Properties
  imports Members_Fifo
begin

text \<open>
  The properties of the members pallet: where members are in every reachable state, what building a
  root includes, which revisions verify, when unsigned calls succeed, what the offchain worker submits,
  and how collections end.
\<close>

subsection \<open>Reachable states\<close>



text \<open>
  C9: in every reachable state the active count of a live collection is the sum of the sizes of its rings,
  no ring holds more keys than its capacity or includes more than it holds, the pages of a stored ring
  are filled in order, and the top ring has room for another key.
\<close>

theorem reachable_ring_counts:
  assumes "members_cfg_ok cfg" "run_ok (members_step cfg) (members_op_ok cfg) ops members_genesis"
    and "s = exec_all (members_step cfg) ops members_genesis" and "fmlookup (Collections s) i = Some info"
  shows "members_active_count i s = (\<Sum>r\<le>current_ring s i. total (status_of s i r)) \<and>
    included (status_of s i r) \<le> total (status_of s i r) \<and>
    total (status_of s i r) \<le> ring_capacity cfg (ci_ring_size info) \<and>
    total (status_of s i (current_ring s i)) < ring_capacity cfg (ci_ring_size info) \<and>
    (contains_key (RingKeysStatus s) (i, r) \<longrightarrow> length (key_page s i r p) =
       min (flexible_ring_capacity cfg) (total (status_of s i r) - p * flexible_ring_capacity cfg))"
proof -
  let ?v = "view s i" and ?C = "ring_capacity cfg (ci_ring_size info)"
  have inv: "coll_inv cfg info ?v" by (rule inv_live[OF reachable_inv[OF assms(1-3)] assms(4)])
  have so: "status_ok ?C ?v" and lo: "layout_ok (flexible_ring_capacity cfg) ?v" and C: "0 < ?C"
    using inv unfolding coll_inv_def coll_ok_def by blast+
  have st: "included (status_of s i r) \<le> total (status_of s i r) \<and> total (status_of s i r) \<le> ?C"
    using so unfolding status_ok_def by (auto simp: get_or_def default_ring_status_def split: option.splits)
  have "members_active_count i s = (\<Sum>r\<le>current_ring s i. total (status_of s i r))"
    using inv by (simp add: coll_inv_def active_ok_def members_active_count_def tot_view)
  moreover have "total (status_of s i (current_ring s i)) < ?C"
    using inv by (simp add: coll_inv_def not_full_def tot_view)
  moreover have "contains_key (RingKeysStatus s) (i, r) \<longrightarrow> length (key_page s i r p) =
       min (flexible_ring_capacity cfg) (total (status_of s i r) - p * flexible_ring_capacity cfg)"
    using lo unfolding layout_ok_def by (simp add: live_def tot_view)
  ultimately show ?thesis using st by blast
qed

lemma reachable_ring_counts_witness:
  "members_active_count ''c'' (exec_all (members_step mex_cfg) mex_ops (members_genesis :: mex_state)) = 3"
proof -
  let ?s = "exec_all (members_step mex_cfg) mex_ops (members_genesis :: mex_state)"
  have "fmlookup (Collections ?s) ''c'' = Some \<lparr>ci_owner = OwnerExternal 7, ci_mode = Flexible, ci_ring_size = R2e9,
      self_inclusion_delay = None\<rparr>" by code_simp
  from reachable_ring_counts[OF mex_cfg_ok mex_run refl this, of 0 0]
  have "members_active_count ''c'' ?s = (\<Sum>r\<le>current_ring ?s ''c''. total (status_of ?s ''c'' r))" by blast
  moreover have "current_ring ?s ''c'' = 1" "total (status_of ?s ''c'' 0) = 3" "total (status_of ?s ''c'' 1) = 0"
    by code_simp+
  ultimately show ?thesis by simp
qed

subsection \<open>Unsigned calls\<close>

lemma fBall_lookup: "fBall (fmdom m) (\<lambda>k. P (the (fmlookup m k))) \<Longrightarrow> fmlookup m k = Some v \<Longrightarrow> P v"
  by (metis fbspec fmdomI option.sel)

lemma should_onboard_min:
  "min a slots = min b slots \<Longrightarrow>
   should_onboard_members i r st slots a sz C s = should_onboard_members i r st slots b sz C s"
  by (simp add: should_onboard_members_def)

text \<open>\<open>authorize\<close> and \<open>onboard_members\<close> take the same decision, although they compute it differently.\<close>

lemma can_onboard_decision:
  assumes info: "fmlookup (Collections s) i = Some info" and inv: "coll_inv cfg info (view s i)"
  shows "can_onboard_members cfg i (current_ring s i) (fst (queue_ends s i)) s \<longleftrightarrow> onboard_decision cfg info i s \<noteq> None"
proof -
  obtain h t where ends: "queue_ends s i = (h, t)" by force
  have C: "ring_capacity cfg (ci_ring_size info) - x \<le> max_of 32" for x
    using inv unfolding coll_inv_def coll_ok_def by (meson diff_le_self order_trans)
  have sat: "min (sat_add 32 a b) (ring_capacity cfg (ci_ring_size info) - x) = min (a + b) (ring_capacity cfg (ci_ring_size info) - x)" for a b x
    using C[of x] by (simp add: sat_add_def min.assoc min.absorb2)
  show ?thesis
    unfolding can_onboard_members_def onboard_decision_def info ends Let_def option.case prod.case fst_conv snd_conv
    by (simp add: should_onboard_min[OF sat] cong: if_cong)
qed

definition crypto_total :: "('acc, 'm, 'r, 'i, 'o, 'chunk, 'cap, 'proof) mcfg \<Rightarrow> bool" where
  "crypto_total cfg \<longleftrightarrow> (\<forall>e. to_capacity cfg e \<noteq> None) \<and> (\<forall>i ks ch. push_members cfg i ks ch \<noteq> None)"

lemma build_ring_succeeds:
  assumes "crypto_total cfg" "fmlookup (Collections s) i = Some info"
    and "\<And>root. fmlookup (Root s) (i, r) = Some root \<Longrightarrow> rr_revision root < max_of 32"
  shows "is_ok (build_ring cfg now i r n s)"
proof -
  obtain cap where cap: "to_capacity cfg (ci_ring_size info) = Some cap" using assms(1) unfolding crypto_total_def by fastforce
  have push: "ok_or (push_members cfg x ks ch) e = Inr (the (push_members cfg x ks ch))" for x ks ch and e :: members_err
    using assms(1) unfolding crypto_total_def ok_or_def by (metis option.exhaust_sel option.simps(5))
  have rv: "checked_add 32 (rr_revision root) (Suc 0) = Some (Suc (rr_revision root))"
    if "fmlookup (Root s) (i, r) = Some root" for root
    using assms(3)[OF that] by (simp add: checked_add_def)
  show ?thesis
    by (cases "fmlookup (Root s) (i, r)") (simp_all add: build_ring_def assms(2) cap push rv Let_def split: prod.splits)
qed

lemma dispatch_succeeds:
  assumes cfg: "members_cfg_ok cfg" and inv: "members_inv cfg s" and room: "members_op_ok cfg (now, OpCall src order org d call) s"
    and total: "crypto_total cfg" and org: "m_authorized cfg org"
    and rv: "\<And>i r e v n root. call = CallBuildRing i r e v n \<Longrightarrow> fmlookup (Root s) (i, r) = Some root \<Longrightarrow> rr_revision root < max_of 32"
    and live: "\<And>i h n. call = CallMergeQueuePages i h n \<Longrightarrow> contains_key (Collections s) i"
    and auth: "authorize_members_call cfg now src call s"
  shows "is_ok (dispatch_members_call cfg now org order d call s)"
proof (cases call)
  case (CallBuildRing i r e v n)
  then obtain info where "fmlookup (Collections s) i = Some info"
    using auth by (auto simp: authorize_members_call_def is_ok_iff ensure_can_build_ring_def bindE_Inr ok_or_Inr)
  from build_ring_succeeds[OF total this, of r now n] rv[OF CallBuildRing] have "is_ok (build_ring cfg now i r n s)" by blast
  then show ?thesis
    using CallBuildRing org by (auto simp: dispatch_members_call_def build_ring_authorized_def is_ok_iff)
next
  case (CallOnboardMembers i r h m)
  then have can: "can_onboard_members cfg i (current_ring s i) (fst (queue_ends s i)) s"
    using auth by (auto simp: authorize_members_call_def is_ok_iff ensure_can_onboard_members_def bindE_Inr ensure_Inr)
  then obtain info where info: "fmlookup (Collections s) i = Some info"
    by (auto simp: can_onboard_members_def split: option.splits)
  have "room_in cfg i s" using room CallOnboardMembers by simp
  note cases = onboard_members_cases[OF info inv_live[OF inv info] room_roomy[OF this info], of True]
  have "is_ok (onboard_members cfg i True s)"
    using cases can can_onboard_decision[OF info inv_live[OF inv info]] by (auto simp: is_ok_iff split: option.splits)
  then show ?thesis
    using CallOnboardMembers org by (auto simp: dispatch_members_call_def onboard_members_authorized_def is_ok_iff)
next
  case (CallMergeQueuePages i h n)
  then obtain ks1 ks2 where act: "should_merge_queue_pages cfg i s = Merge h n ks1 ks2"
    using auth by (auto simp: authorize_members_call_def is_ok_iff ensure_can_merge_queue_pages_def bindE_Inr ensure_Inr
      split: queue_merge_action.splits)
  obtain info where info: "fmlookup (Collections s) i = Some info" using live[OF CallMergeQueuePages] by blast
  from merge_queue_pages_ok[OF inv_live[OF inv info] act] show ?thesis
    using CallMergeQueuePages org by (auto simp: dispatch_members_call_def merge_queue_pages_authorized_def is_ok_iff)
qed (use org in \<open>simp_all add: dispatch_members_call_def remove_suspended_keys_authorized_def delete_ring_page_authorized_def
    enqueue_ring_deletion_authorized_def delete_onboarding_queue_page_authorized_def finalize_collection_deletion_authorized_def
    remove_orphaned_members_authorized_def mark_ring_stale_authorized_def clean_up_old_roots_authorized_def Let_def split: prod.splits\<close>)


lemma worker_call_authorized:
  assumes "call \<in> members_offchain_worker cfg now block s"
  shows "authorize_members_call cfg now Local call s"
proof -
  note defs = authorize_members_call_def local_source_def is_ok_iff bindE_Inr ensure_Inr ok_or_Inr Let_def
  have sbr: "should_build_ring i r lim s = Some n \<Longrightarrow> 0 < n" for i r lim n
    by (auto simp: should_build_ring_def Let_def split: if_splits)
  have cl: "is_ok (ensure_can_clean_up_old_roots cfg now i r s)"
    if "case first_old_root i r s of None \<Rightarrow> False
        | Some (_, old) \<Rightarrow> now \<ge> sat_add 64 (archived_at old) (old_root_retention_duration cfg)" for i r
    using that by (auto simp: ensure_can_clean_up_old_roots_def is_ok_iff bindE_Inr ensure_Inr split: option.splits)
  show ?thesis
    using assms
    by (auto simp: members_offchain_worker_def defs fmlookup_dom_iff split: if_splits
      simp: ensure_can_build_ring_def ensure_can_onboard_members_def ensure_can_merge_queue_pages_def
        ensure_can_remove_suspended_keys_def ensure_can_delete_ring_page_def ensure_can_enqueue_ring_deletion_def
        ensure_can_delete_onboarding_queue_page_def ensure_can_finalize_collection_deletion_def
        ensure_can_remove_orphaned_members_def cl[unfolded is_ok_iff] dest: sbr)
qed





subsection \<open>Building a root\<close>

lemma ring_members_filled:
  assumes "coll_inv cfg info (view s i)" "contains_key (RingKeysStatus s) (i, r)"
  shows "length (key_page s i r p) = min (flexible_ring_capacity cfg) (total (status_of s i r) - p * flexible_ring_capacity cfg)"
    and "0 < flexible_ring_capacity cfg" and "total (status_of s i r) \<le> max_of 32"
proof -
  have ok: "coll_ok (ci_mode info) (flexible_ring_capacity cfg) (onboarding_queue_page_size cfg)
      (ring_capacity cfg (ci_ring_size info)) {} (view s i)" using assms(1) by (simp add: coll_inv_def)
  have "live (view s i) r" using assms(2) by (simp add: live_def)
  then show "length (key_page s i r p) = min (flexible_ring_capacity cfg) (total (status_of s i r) - p * flexible_ring_capacity cfg)"
    using ok unfolding coll_ok_def layout_ok_def by (simp add: tot_view)
  show "0 < flexible_ring_capacity cfg" using ok by (simp add: coll_ok_def)
  obtain st where st: "fmlookup (RingKeysStatus s) (i, r) = Some st" using assms(2) by blast
  then have "c_status (view s i) r = Some st" by simp
  then have "total st \<le> ring_capacity cfg (ci_ring_size info)" using ok unfolding coll_ok_def status_ok_def by blast
  also have "\<dots> \<le> max_of 32" using ok by (simp add: coll_ok_def)
  finally show "total (status_of s i r) \<le> max_of 32" by (simp add: get_or_Some[OF st])
qed

text \<open>
  C22: an authorized build of \<open>n\<close> keys of a ring pushes exactly the next \<open>n\<close> keys of the ring that were not
  yet included, in the order of the ring, into the intermediate value of its root (the start value when
  there is no root), stores the finished root under the next revision, counts the keys as included and
  moves no key. The ring stops being stale exactly when all its keys are included.
\<close>

theorem build_ring_next_keys:
  assumes "members_cfg_ok cfg" "run_ok (members_step cfg) (members_op_ok cfg) ops members_genesis"
    and "s = exec_all (members_step cfg) ops members_genesis"
    and auth: "authorize_members_call cfg now src (CallBuildRing i r e v n) s"
    and run: "dispatch_members_call cfg now org order d (CallBuildRing i r e v n) s = Inr (s', pst)"
    and k: "k = included (status_of s i r)" and new: "new = take n (drop k (keys_of_ring cfg i s r))"
    and prev: "prev = fmlookup (Root s) (i, r)"
  shows "length new = n \<and> 0 < n \<and> included (status_of s' i r) = k + n \<and> total (status_of s' i r) = total (status_of s i r) \<and>
    keys_of_ring cfg i s' = keys_of_ring cfg i s \<and>
    (\<exists>cap inter. to_capacity cfg e = Some cap \<and>
      push_members cfg (case prev of None \<Rightarrow> start_members cfg cap | Some root \<Rightarrow> rr_intermediate root) new (fetch_chunks cfg e) = Some inter \<and>
      fmlookup (Root s') (i, r) = Some \<lparr>rr_root = finish_members cfg inter,
        rr_revision = (case prev of None \<Rightarrow> 0 | Some root \<Rightarrow> Suc (rr_revision root)), rr_intermediate = inter\<rparr>) \<and>
    (contains_key (StaleRings s') (i, r) \<longleftrightarrow> contains_key (StaleRings s) (i, r) \<and> k + n < total (status_of s i r))"
proof -
  let ?P = "flexible_ring_capacity cfg" and ?st = "status_of s i r" and ?pages = "\<lambda>p. key_page s i r p"
  have inv: "members_inv cfg s" by (rule reachable_inv[OF assms(1-3)])
  obtain info m where info: "fmlookup (Collections s) i = Some info" and e: "ci_ring_size info = e"
    and sb: "should_build_ring i r (ring_building_member_limit cfg) s = Some m" and n: "0 < n" "n \<le> m"
    using auth by (auto simp: authorize_members_call_def is_ok_iff ensure_can_build_ring_def bindE_Inr ok_or_Inr ensure_Inr Let_def)
  have m: "m \<le> total ?st - k" "contains_key (RingKeysStatus s) (i, r)"
    using sb n by (auto simp: should_build_ring_def Let_def k get_or_def default_ring_status_def split: if_splits option.splits)
  have fit: "k + n \<le> total ?st" using m n by linarith
  note filled = ring_members_filled[OF inv_live[OF inv info] m(2)]
  have loop: "build_loop ?P ?pages ?st n [] = (map (ring_key ?P ?pages) [k..<k + n], ?st\<lparr>included := k + n\<rparr>)"
    using build_loop_exact[OF filled(2,3,1) refl, of n "[]"] fit by (simp add: k)
  have seq: "keys_of_ring cfg i s r = map (ring_key ?P ?pages) [0..<total ?st]"
    unfolding keys_of_ring_def ring_sequence_def tot_view by (simp add: view_def)
  have new': "new = map (ring_key ?P ?pages) [k..<k + n]"
    using fit by (simp add: new seq drop_map take_map)
  have b: "build_ring cfg now i r n s = Inr s'"
    using run by (auto simp: dispatch_members_call_def build_ring_authorized_def bindE_Inr)
  let ?prev = "case prev of None \<Rightarrow> (\<lambda>cap. start_members cfg cap) | Some root \<Rightarrow> (\<lambda>_. rr_intermediate root)"
  obtain cap inter where cap: "to_capacity cfg e = Some cap"
    and push: "push_members cfg (?prev cap) new (fetch_chunks cfg e) = Some inter"
    and st': "RingKeysStatus s' = fmupd (i, r) (if k + n = total ?st \<and> ci_mode info = AppendOnly \<and> total ?st = ring_capacity cfg e
        then ?st\<lparr>included := k + n, immutable_since := Some now\<rparr> else ?st\<lparr>included := k + n\<rparr>) (RingKeysStatus s)"
    and root': "fmlookup (Root s') (i, r) = Some \<lparr>rr_root = finish_members cfg inter,
        rr_revision = (case prev of None \<Rightarrow> 0 | Some root \<Rightarrow> Suc (rr_revision root)), rr_intermediate = inter\<rparr>"
    and keys: "RingKeys s' = RingKeys s"
    and stale: "StaleRings s' = (if k + n = total ?st then fmdrop (i, r) (StaleRings s) else StaleRings s)"
    using b unfolding build_ring_def prev new'
    by (cases "fmlookup (Root s) (i, r)")
      (auto simp: bindE_Inr ok_or_Inr Let_def loop info e checked_add_Some members_deposit_def on_ring_root_change_def)
  have "keys_of_ring cfg i s' = keys_of_ring cfg i s"
  proof
    fix r'
    have "tot (view s' i) r' = tot (view s i) r'" by (simp add: tot_view st')
    moreover have "c_keys (view s' i) = c_keys (view s i)" by (simp add: view_def keys)
    ultimately show "keys_of_ring cfg i s' r' = keys_of_ring cfg i s r'"
      unfolding keys_of_ring_def ring_sequence_def by (simp only:)
  qed
  moreover have "length new = n" by (simp add: new')
  moreover have "included (status_of s' i r) = k + n" "total (status_of s' i r) = total ?st" by (simp_all add: st')
  moreover have "contains_key (StaleRings s') (i, r) \<longleftrightarrow> contains_key (StaleRings s) (i, r) \<and> k + n < total ?st"
    using fit by (auto simp: stale)
  moreover have "push_members cfg (case prev of None \<Rightarrow> start_members cfg cap | Some root \<Rightarrow> rr_intermediate root) new
      (fetch_chunks cfg e) = Some inter" using push by (cases prev) simp_all
  ultimately show ?thesis using n(1) cap root' by blast
qed

lemma build_ring_next_keys_witness:
  "let s = exec_all (members_step mex_cfg) (take 3 mex_ops) (members_genesis :: mex_state) in
   keys_of_ring mex_cfg ''c'' s 0 = [11, 12, 13] \<and>
   (\<exists>s' pst. dispatch_members_call mex_cfg 40 MexAuthorized [] 0 (CallBuildRing ''c'' 0 R2e9 None 2) s = Inr (s', pst) \<and>
      included (status_of s' ''c'' 0) = 2 \<and> length (take 2 (drop 0 (keys_of_ring mex_cfg ''c'' s 0))) = 2)"
proof -
  let ?s = "exec_all (members_step mex_cfg) (take 3 mex_ops) (members_genesis :: mex_state)"
  let ?call = "CallBuildRing ''c'' 0 R2e9 None 2 :: nat members_call"
  have run: "run_ok (members_step mex_cfg) (members_op_ok mex_cfg) (take 3 mex_ops) (members_genesis :: mex_state)" by code_simp
  have auth: "authorize_members_call mex_cfg 40 Local ?call ?s" by code_simp
  have "is_ok (dispatch_members_call mex_cfg 40 MexAuthorized [] 0 ?call ?s)" by code_simp
  then obtain s' pst where d: "dispatch_members_call mex_cfg 40 MexAuthorized [] 0 ?call ?s = Inr (s', pst)"
    by (auto simp: is_ok_iff)
  have k: "included (status_of ?s ''c'' 0) = 0" "keys_of_ring mex_cfg ''c'' ?s 0 = [11, 12, 13]" by code_simp+
  from build_ring_next_keys[OF mex_cfg_ok run refl auth d refl refl refl]
  have "included (status_of s' ''c'' 0) = 0 + 2 \<and> length (take 2 (drop 0 (keys_of_ring mex_cfg ''c'' ?s 0))) = 2"
    unfolding k(1) by blast
  then show ?thesis unfolding Let_def using d k(2) by (simp only: add_0 simp_thms) blast
qed



subsection \<open>Removal sessions\<close>

text \<open>
  C26: while a removal session is open, no ring of the collection changes its keys: no unsigned call that
  builds, onboards or removes keys is authorized, merging rings and self-inclusion fail with
  \<open>RemovalSessionInProgress\<close>, and onboarding itself does nothing. Ending the session that was just
  started restores the mode.
\<close>

theorem removal_session_freezes:
  assumes "contains_key (Collections s) i" "session_wf (rings_mode s i)" and start: "start_removal_session i s = Inr s1"
    and frame: "rings_mode s2 i = rings_mode s1 i" "Collections s2 = Collections s1"
  shows "\<not> authorize_members_call cfg now src (CallBuildRing i r e v n) s2 \<and>
    \<not> authorize_members_call cfg now src (CallOnboardMembers i r h m) s2 \<and>
    \<not> authorize_members_call cfg now src (CallRemoveSuspendedKeys i r v) s2 \<and>
    onboard_members cfg i must_build s2 = (if must_build then Inl (Module PrematureOnboarding) else Inr (s2, False)) \<and>
    do_self_include cfg i k s2 = Inl (Module RemovalSessionInProgress) \<and>
    (mode_is Flexible i s \<and> m_signed cfg org \<noteq> None \<longrightarrow>
      merge_rings cfg now org i b t s2 = Inl (Module RemovalSessionInProgress)) \<and>
    (\<exists>s3. end_removal_session i s2 = Inr s3 \<and> rings_mode s3 i = rings_mode s i)"
proof -
  obtain info where info: "fmlookup (Collections s) i = Some info" using assms(1) by blast
  obtain st where st: "start_mutation_session (rings_mode s i) = Inr st" "rings_mode s1 i = st" "Collections s1 = Collections s"
    using start by (auto simp: start_removal_session_def info bindE_Inr map_err_Inr)
  have mut: "\<not> append_only (rings_mode s2 i)" and ends: "end_mutation_session (rings_mode s2 i) = Inr (rings_mode s i)"
    using st(1) assms(2) unfolding frame(1) st(2)
    by (auto simp: start_mutation_session_def end_mutation_session_def append_only_def session_wf_def checked_add_Some
      split: ring_mutation_mode.splits option.splits)
  have c: "fmlookup (Collections s2) i = Some info" by (simp add: frame(2) st(3) info)
  have sb: "should_build_ring i r lim s2 = None" for r lim
    using mut by (simp add: should_build_ring_def)
  have so: "should_onboard_members i r' x y z w C s' = None" if "rings_mode s' i = rings_mode s2 i"
    for r' x y z w C s'
    using mut that by (simp add: should_onboard_members_def)
  obtain r' p' ks st' s' where av: "available_ring cfg i (ring_capacity cfg (ci_ring_size info)) s2 = ((r', p', ks, st'), s')"
    by (metis surj_pair)
  then have "rings_mode s' i = rings_mode s2 i" by (auto simp: available_ring_def Let_def split: if_splits)
  note so' = so[OF this]
  obtain h' t' where ends': "queue_ends s' i = (h', t')" by force
  have on: "onboard_members cfg i must_build s2 = (if must_build then Inl (Module PrematureOnboarding) else Inr (s2, False))"
    by (simp add: onboard_members_def c Let_def av so' ends' split del: if_split)
  have self: "do_self_include cfg i k s2 = Inl (Module RemovalSessionInProgress)"
    using mut by (simp add: do_self_include_def c Let_def)
  have merge: "merge_rings cfg now org i b t s2 = Inl (Module RemovalSessionInProgress)"
    if "mode_is Flexible i s" "m_signed cfg org \<noteq> None"
    using that mut by (auto simp: merge_rings_def c info mode_is_def Let_def)
  have "\<exists>s3. end_removal_session i s2 = Inr s3 \<and> rings_mode s3 i = rings_mode s i"
    by (simp add: end_removal_session_def c ends)
  moreover have "\<not> authorize_members_call cfg now src (CallBuildRing i r e v n) s2"
    by (simp add: authorize_members_call_def ensure_can_build_ring_def sb c is_ok_iff bindE_Inr ok_or_Inr ensure_Inr Let_def)
  moreover have "\<not> authorize_members_call cfg now src (CallOnboardMembers i r h m) s2"
    by (auto simp: authorize_members_call_def ensure_can_onboard_members_def can_onboard_members_def so c is_ok_iff bindE_Inr ensure_Inr Let_def)
  moreover have "\<not> authorize_members_call cfg now src (CallRemoveSuspendedKeys i r v) s2"
    using mut by (auto simp: authorize_members_call_def ensure_can_remove_suspended_keys_def should_remove_suspended_keys_def
        is_ok_iff bindE_Inr ensure_Inr)
  ultimately show ?thesis using on self merge by blast
qed

lemma removal_session_freezes_witness:
  "let s = exec_all (members_step mex_cfg) (take 4 mex_ops) (members_genesis :: mex_state) in
   \<exists>s1 s3. start_removal_session ''c'' s = Inr s1 \<and>
     onboard_members mex_cfg ''c'' True s1 = Inl (Module PrematureOnboarding) \<and>
     end_removal_session ''c'' s1 = Inr s3 \<and> rings_mode s3 ''c'' = rings_mode s ''c''"
proof -
  let ?s = "exec_all (members_step mex_cfg) (take 4 mex_ops) (members_genesis :: mex_state)"
  have coll: "fmlookup (Collections ?s) ''c'' = Some \<lparr>ci_owner = OwnerExternal 7, ci_mode = Flexible, ci_ring_size = R2e9,
      self_inclusion_delay = None\<rparr>" by code_simp
  then have c: "contains_key (Collections ?s) ''c''" by simp
  have wf: "session_wf (rings_mode ?s ''c'')" by code_simp
  have "is_ok (start_removal_session ''c'' ?s)" by code_simp
  then obtain s1 where s1: "start_removal_session ''c'' ?s = Inr s1" by (auto simp: is_ok_iff)
  from removal_session_freezes[OF c wf s1 refl refl, where cfg = mex_cfg and must_build = True] s1
  show ?thesis unfolding Let_def by auto
qed

subsection \<open>Retired identifiers\<close>

lemma exec_evolves:
  "members_cfg_ok cfg \<Longrightarrow> members_inv cfg s \<Longrightarrow> run_ok (members_step cfg) (members_op_ok cfg) ops s \<Longrightarrow>
   evolves cfg s (exec_all (members_step cfg) ops s)"
proof (induction ops arbitrary: s)
  case (Cons op ops)
  have k: "evolves cfg s (exec_op (members_step cfg) op s)"
    using members_step_evolves[OF Cons.prems(1,2), of op] Cons.prems evolves_refl[OF Cons.prems(2)]
    by (cases op) (auto simp: exec_op_def split: sum.splits)
  then have "members_inv cfg (exec_op (members_step cfg) op s)" by (simp add: evolves_def)
  from Cons.IH[OF Cons.prems(1) this] Cons.prems(3) k show ?case by (auto intro: evolves_trans)
qed (simp add: evolves_refl)

text \<open>
  C27: the identifier of a collection whose deletion was requested is never used again: whatever operations
  follow, it stays retired, no collection exists under it, and creating one fails.
\<close>

theorem retired_identifier_never_reused:
  assumes "members_cfg_ok cfg" "run_ok (members_step cfg) (members_op_ok cfg) ops members_genesis"
    and "s = exec_all (members_step cfg) ops members_genesis"
    and "delete_collection own i s = Inr s1" and "run_ok (members_step cfg) (members_op_ok cfg) ops' s1"
    and "s' = exec_all (members_step cfg) ops' s1"
  shows "contains_key (RetiredIdentifiers s') i \<and> fmlookup (Collections s') i = None \<and>
    \<not> is_ok (create_collection cfg own' i n md e delay s')"
proof -
  have inv: "members_inv cfg s" by (rule reachable_inv[OF assms(1-3)])
  from delete_collection_inv[OF this assms(4)] have s1: "members_inv cfg s1" by (simp add: evolves_def)
  have "contains_key (RetiredIdentifiers s1) i"
    using assms(4) by (auto simp: delete_collection_def bindE_Inr ensure_Inr ok_or_Inr members_deposit_def)
  then have ret: "contains_key (RetiredIdentifiers s') i" and "members_inv cfg s'"
    using exec_evolves[OF assms(1) s1 assms(5)] by (auto simp: evolves_def assms(6))
  then have "fmlookup (Collections s') i = None" unfolding members_inv_def by (metis option.exhaust)
  then show ?thesis using ret by (auto simp: create_collection_def is_ok_iff bindE_Inr ensure_Inr)
qed

lemma retired_identifier_never_reused_witness:
  "let s = exec_all (members_step mex_cfg) mex_ops (members_genesis :: mex_state) in
   \<exists>s1. delete_collection 7 ''c'' s = Inr s1 \<and>
     \<not> is_ok (create_collection mex_cfg 7 ''c'' 1 Flexible R2e9 None (exec_all (members_step mex_cfg) (take 1 mex_ops) s1))"
proof -
  let ?s = "exec_all (members_step mex_cfg) mex_ops (members_genesis :: mex_state)"
  have "is_ok (delete_collection 7 ''c'' ?s)" by code_simp
  then obtain s1 where s1: "delete_collection 7 ''c'' ?s = Inr s1" by (auto simp: is_ok_iff)
  have "case delete_collection 7 ''c'' ?s of Inl _ \<Rightarrow> False
      | Inr s1 \<Rightarrow> run_ok (members_step mex_cfg) (members_op_ok mex_cfg) (take 1 mex_ops) s1" by code_simp
  then have ok: "run_ok (members_step mex_cfg) (members_op_ok mex_cfg) (take 1 mex_ops) s1" by (simp add: s1)
  from retired_identifier_never_reused[OF mex_cfg_ok mex_run refl s1 ok refl] s1
  show ?thesis unfolding Let_def by blast
qed

subsection \<open>A ring removed from a flexible collection\<close>

text \<open>
  \<open>remove_ring\<close> takes every ring that is not the top one, and \<open>merge_rings\<close> does not ask whether a page of a
  ring waits in \<open>RingDeletionQueue\<close>. The run fills rings 0 and 1 of a flexible collection and suspends all but
  one key of each.
\<close>

definition lossy_ops :: "(secs \<times> (nat, nat, mex_origin) members_op) list" where
  "lossy_ops = [
     (10, OpCreateCollection 7 ''c'' 0 Flexible R2e10 None),
     (20, OpAddMembers ''c'' [1, 2, 3, 4, 5, 6, 7, 8, 9, 10]),
     (30, OpCall Local [] MexAuthorized 0 (CallOnboardMembers ''c'' 0 0 (Some 1))),
     (31, OpCall Local [] MexAuthorized 0 (CallOnboardMembers ''c'' 1 1 (Some 6))),
     (40, OpStartSession ''c''),
     (41, OpRemoveMembers ''c'' [1, 2, 3, 4, 6, 7, 8, 9]),
     (42, OpEndSession ''c''),
     (50, OpCall Local [] MexAuthorized 0 (CallRemoveSuspendedKeys ''c'' 0 None)),
     (51, OpCall Local [] MexAuthorized 0 (CallRemoveSuspendedKeys ''c'' 1 None))]"

definition lossy_tail :: "(secs \<times> (nat, nat, mex_origin) members_op) list" where
  "lossy_tail = [
     (60, OpRemoveRing ''c'' 0),
     (61, OpMergeRings (MexSigned 1) ''c'' 0 1),
     (62, OpCall Local [] MexAuthorized 0 (CallDeleteRingPage ''c'' 0 0))]"

fun all_succeed :: "('op \<Rightarrow> 'st \<Rightarrow> 'err + 'st) \<Rightarrow> 'op list \<Rightarrow> 'st \<Rightarrow> bool" where
  "all_succeed step [] s = True"
| "all_succeed step (c # cs) s = (case step c s of Inl _ \<Rightarrow> False | Inr s' \<Rightarrow> all_succeed step cs s')"

text \<open>
  Merging into a ring that was removed but whose page is not deleted yet loses members. In the run,
  every step of which succeeds, member 10 of ring 1 is never suspended; ring 0 is removed, ring 1 is merged
  into it, the queued page of ring 0 is deleted, and member 10 has no record and no key any more, while the
  status of ring 0 still counts it.
\<close>

theorem merge_into_removed_ring_loses_member:
  "let s = exec_all (members_step mex_cfg) lossy_ops (members_genesis :: mex_state);
       s' = exec_all (members_step mex_cfg) lossy_tail s
   in all_succeed (members_step mex_cfg) lossy_ops (members_genesis :: mex_state) \<and>
      all_succeed (members_step mex_cfg) lossy_tail s \<and>
      member_status ''c'' 10 s = Some (Included 1 0 0) \<and> keys_of_ring mex_cfg ''c'' s 1 = [10] \<and>
      member_status ''c'' 10 s' = None \<and> key_page s' ''c'' 0 0 = [] \<and> key_page s' ''c'' 1 0 = [] \<and>
      total (status_of s' ''c'' 0) = 1"
  by code_simp

end
