(* ===== verification/Members_Deletion.thy ===== *)
theory Members_Deletion
  imports Members_Fifo
begin

text \<open>
  The deletion of a collection in \<^verbatim>\<open>pallets/members/src/lib.rs\<close>, as a relation between storage states: a
  step is an authorized unsigned call that dismantles the suspended collection \<open>i\<close>. The phases are ordered
  by their preconditions: first the statuses of the rings, then the queued ring pages, the pages of the
  onboarding queue, the members that are left, and at last the collection itself.
\<close>

subsection \<open>The entries of a collection in a map\<close>

definition entries :: "coll_id \<Rightarrow> (coll_id \<times> 'k, 'v) storage_map \<Rightarrow> nat" where
  "entries i m = card (Set.filter (\<lambda>k. fst k = i) (fmdom' m))"

lemma entries_zero: "entries i m = 0 \<longleftrightarrow> fBall (fmdom m) (\<lambda>(j, _). j \<noteq> i)"
proof -
  have "entries i m = 0 \<longleftrightarrow> (\<forall>k \<in> fmdom' m. fst k \<noteq> i)"
    unfolding entries_def by (subst card_0_eq) auto
  also have "\<dots> \<longleftrightarrow> fBall (fmdom m) (\<lambda>(j, _). j \<noteq> i)"
    by (auto simp: fmdom'_alt_def)
  finally show ?thesis .
qed

lemma entries_less:
  assumes "\<And>k. contains_key m' k \<Longrightarrow> contains_key m k" "contains_key m (i, x)" "\<not> contains_key m' (i, x)"
  shows "entries i m' < entries i m"
  unfolding entries_def
proof (rule psubset_card_mono)
  show "finite (Set.filter (\<lambda>k. fst k = i) (fmdom' m))" by simp
  have "(i, x) \<in> Set.filter (\<lambda>k. fst k = i) (fmdom' m) - Set.filter (\<lambda>k. fst k = i) (fmdom' m')"
    using assms(2,3) by (auto simp: fmlookup_dom'_iff)
  moreover have "Set.filter (\<lambda>k. fst k = i) (fmdom' m') \<subseteq> Set.filter (\<lambda>k. fst k = i) (fmdom' m)"
    using assms(1) by (force simp: fmlookup_dom'_iff)
  ultimately show "Set.filter (\<lambda>k. fst k = i) (fmdom' m') \<subset> Set.filter (\<lambda>k. fst k = i) (fmdom' m)" by blast
qed

lemma no_entries:
  "no_status i s \<longleftrightarrow> entries i (RingKeysStatus s) = 0" "no_deletions i s \<longleftrightarrow> entries i (RingDeletionQueue s) = 0"
  "no_queue i s \<longleftrightarrow> entries i (OnboardingQueue s) = 0" "no_members i s \<longleftrightarrow> entries i (Members s) = 0"
  by (simp_all add: no_status_def no_deletions_def no_queue_def no_members_def entries_zero)

lemma entries_ex: "entries i m \<noteq> 0 \<Longrightarrow> \<exists>x. contains_key m (i, x)"
  unfolding entries_zero by (auto simp: fmlookup_dom_iff)

subsection \<open>Steps\<close>

fun deletion_call :: "coll_id \<Rightarrow> 'm members_call \<Rightarrow> bool" where
  "deletion_call i (CallEnqueueRingDeletion j _) = (j = i)"
| "deletion_call i (CallDeleteRingPage j _ _) = (j = i)"
| "deletion_call i (CallDeleteOnboardingQueuePage j _) = (j = i)"
| "deletion_call i (CallRemoveOrphanedMembers j) = (j = i)"
| "deletion_call i (CallFinalizeCollectionDeletion j) = (j = i)"
| "deletion_call i _ = False"

text \<open>\<open>order\<close> is how the storage of the collection's members is iterated: some list of all of them.\<close>

inductive deletion_step ::
  "('acc, 'm, 'r, 'i, 'o, 'chunk, 'cap, 'proof) mcfg \<Rightarrow> coll_id \<Rightarrow> ('acc, 'loc, 'm, 'r, 'i) mst
     \<Rightarrow> ('acc, 'loc, 'm, 'r, 'i) mst \<Rightarrow> bool" for cfg i where
  "contains_key (SuspendedCollections s) i \<Longrightarrow> deletion_call i call \<Longrightarrow>
   authorize_members_call cfg now src call s \<Longrightarrow> set order = {m. contains_key (Members s) (i, m)} \<Longrightarrow>
   dispatch_members_call cfg now org order d call s = Inr (s', pst) \<Longrightarrow> deletion_step cfg i s s'"

definition deletion_measure :: "coll_id \<Rightarrow> ('acc, 'loc, 'm, 'r, 'i) mst \<Rightarrow> nat \<times> nat \<times> nat \<times> nat \<times> nat" where
  "deletion_measure i s =
     (entries i (RingKeysStatus s), entries i (RingDeletionQueue s), entries i (OnboardingQueue s),
      entries i (Members s), if contains_key (SuspendedCollections s) i then 1 else 0)"

abbreviation lex5 :: "((nat \<times> nat \<times> nat \<times> nat \<times> nat) \<times> (nat \<times> nat \<times> nat \<times> nat \<times> nat)) set" where
  "lex5 \<equiv> less_than <*lex*> less_than <*lex*> less_than <*lex*> less_than <*lex*> less_than"

lemma deletion_step_decreases:
  assumes "deletion_step cfg i s s'"
  shows "(deletion_measure i s', deletion_measure i s) \<in> lex5"
  using assms
proof cases
  case (1 call now src order org d pst)
  note defs = authorize_members_call_def dispatch_members_call_def is_ok_iff bindE_Inr ensure_Inr Let_def
  show ?thesis
  proof (cases call)
    case (CallEnqueueRingDeletion j r)
    then have j: "j = i" using 1 by simp
    then have st: "contains_key (RingKeysStatus s) (i, r)"
      using CallEnqueueRingDeletion 1 by (auto simp: defs ensure_can_enqueue_ring_deletion_def)
    have "RingKeysStatus s' = fmdrop (i, r) (RingKeysStatus s)"
      using CallEnqueueRingDeletion 1 j
      by (auto simp: defs enqueue_ring_deletion_authorized_def enqueue_ring_for_deletion_def archive_root_def
          on_ring_root_change_def split: prod.splits option.splits if_splits)
    then have "entries i (RingKeysStatus s') < entries i (RingKeysStatus s)"
      by (intro entries_less[of _ _ i r]) (use st in \<open>auto split: if_splits\<close>)
    then show ?thesis by (simp add: deletion_measure_def)
  next
    case (CallDeleteRingPage j r p)
    then have j: "j = i" using 1 by simp
    then have st: "contains_key (RingDeletionQueue s) (i, r, p)"
      using CallDeleteRingPage 1 by (auto simp: defs ensure_can_delete_ring_page_def)
    have s': "RingKeysStatus s' = RingKeysStatus s" "RingDeletionQueue s' = fmdrop (i, r, p) (RingDeletionQueue s)"
      using CallDeleteRingPage 1 j by (auto simp: defs delete_ring_page_authorized_def delete_ring_page_def)
    then have "entries i (RingDeletionQueue s') < entries i (RingDeletionQueue s)"
      by (intro entries_less[of _ _ i "(r, p)"]) (use st in \<open>auto split: if_splits\<close>)
    then show ?thesis by (simp add: deletion_measure_def s')
  next
    case (CallDeleteOnboardingQueuePage j p)
    then have j: "j = i" using 1 by simp
    then have st: "contains_key (OnboardingQueue s) (i, p)"
      using CallDeleteOnboardingQueuePage 1 by (auto simp: defs ensure_can_delete_onboarding_queue_page_def)
    have s': "RingKeysStatus s' = RingKeysStatus s" "RingDeletionQueue s' = RingDeletionQueue s"
      "OnboardingQueue s' = fmdrop (i, p) (OnboardingQueue s)"
      using CallDeleteOnboardingQueuePage 1 j
      by (auto simp: defs delete_onboarding_queue_page_authorized_def delete_onboarding_queue_page_def)
    then have "entries i (OnboardingQueue s') < entries i (OnboardingQueue s)"
      by (intro entries_less[of _ _ i p]) (use st in \<open>auto split: if_splits\<close>)
    then show ?thesis by (simp add: deletion_measure_def s')
  next
    case (CallRemoveOrphanedMembers j)
    then have j: "j = i" using 1 by simp
    have s': "RingKeysStatus s' = RingKeysStatus s" "RingDeletionQueue s' = RingDeletionQueue s"
      "OnboardingQueue s' = OnboardingQueue s"
      and m: "Members s' = fold (\<lambda>k. fmdrop (i, k)) (take ORPHANED_MEMBERS_REMOVAL_LIMIT order) (Members s)"
      using CallRemoveOrphanedMembers 1 j by (auto simp: defs remove_orphaned_members_authorized_def)
    have "\<not> no_members i s" using CallRemoveOrphanedMembers 1 j by (auto simp: defs ensure_can_remove_orphaned_members_def)
    then have "order \<noteq> []" using 1(4) entries_ex[of i "Members s"] by (auto simp: no_entries)
    then obtain x where x: "x \<in> set (take ORPHANED_MEMBERS_REMOVAL_LIMIT order)" "x \<in> set order"
      by (cases order) (auto simp: ORPHANED_MEMBERS_REMOVAL_LIMIT_def)
    have lk: "fmlookup (Members s') (j', y) = (if j' = i \<and> y \<in> set (take ORPHANED_MEMBERS_REMOVAL_LIMIT order) then None
        else fmlookup (Members s) (j', y))" for j' y by (simp add: m fold_drop_lookup)
    have "entries i (Members s') < entries i (Members s)"
      by (intro entries_less[of _ _ i x]) (use x 1(4) lk in \<open>auto split: if_splits\<close>)
    then show ?thesis by (simp add: deletion_measure_def s')
  next
    case (CallFinalizeCollectionDeletion j)
    then have j: "j = i" using 1 by simp
    have s': "RingKeysStatus s' = RingKeysStatus s" "RingDeletionQueue s' = RingDeletionQueue s"
      "OnboardingQueue s' = OnboardingQueue s" "Members s' = Members s" "\<not> contains_key (SuspendedCollections s') i"
      using CallFinalizeCollectionDeletion 1 j
      by (auto simp: defs finalize_collection_deletion_authorized_def finalize_collection_deletion_def members_deposit_def
          split: option.splits)
    then show ?thesis using 1(1) by (simp add: deletion_measure_def)
  qed (use 1 in simp_all)
qed

lemma deletion_step_ends:
  assumes "deletion_step cfg i s s'"
  shows "contains_key (SuspendedCollections s') i \<or> no_status i s' \<and> no_deletions i s' \<and> no_queue i s' \<and> no_members i s'"
  using assms
proof cases
  case (1 call now src order org d pst)
  note defs = authorize_members_call_def dispatch_members_call_def is_ok_iff bindE_Inr ensure_Inr Let_def
  show ?thesis
  proof (cases call)
    case (CallEnqueueRingDeletion j r)
    then have "SuspendedCollections s' = SuspendedCollections s"
      using 1 by (auto simp: defs enqueue_ring_deletion_authorized_def enqueue_ring_for_deletion_def archive_root_def
          on_ring_root_change_def split: prod.splits option.splits if_splits)
    then show ?thesis using 1 by simp
  next
    case (CallDeleteRingPage j r p)
    then show ?thesis using 1 by (auto simp: defs delete_ring_page_authorized_def delete_ring_page_def)
  next
    case (CallDeleteOnboardingQueuePage j p)
    then show ?thesis
      using 1 by (auto simp: defs delete_onboarding_queue_page_authorized_def delete_onboarding_queue_page_def)
  next
    case (CallRemoveOrphanedMembers j)
    then show ?thesis using 1 by (auto simp: defs remove_orphaned_members_authorized_def)
  next
    case (CallFinalizeCollectionDeletion j)
    then have "RingKeysStatus s' = RingKeysStatus s" "RingDeletionQueue s' = RingDeletionQueue s"
      "OnboardingQueue s' = OnboardingQueue s" "Members s' = Members s"
      and "no_status i s \<and> no_deletions i s \<and> no_queue i s \<and> no_members i s"
      using 1 by (auto simp: defs finalize_collection_deletion_authorized_def finalize_collection_deletion_def members_deposit_def
          ensure_can_finalize_collection_deletion_def split: option.splits)
    then show ?thesis by (simp add: no_entries)
  qed (use 1 in simp_all)
qed

lemma deletion_step_exists:
  assumes sus: "contains_key (SuspendedCollections s) i" and org: "m_authorized cfg org"
  shows "\<exists>s'. deletion_step cfg i s s'"
proof -
  have "finite (snd ` Set.filter (\<lambda>k. fst k = i) (fmdom' (Members s)))" by simp
  moreover have "{m. contains_key (Members s) (i, m)} \<subseteq> snd ` Set.filter (\<lambda>k. fst k = i) (fmdom' (Members s))"
    by (force simp: fmlookup_dom'_iff)
  ultimately obtain order where order: "set order = {m. contains_key (Members s) (i, m)}"
    using finite_list finite_subset by metis
  note defs = authorize_members_call_def local_source_def is_ok_iff bindE_Inr ensure_Inr Let_def
  have step: "\<exists>s'. deletion_step cfg i s s'"
    if "deletion_call i call" "authorize_members_call cfg 0 Local call s"
      "is_ok (dispatch_members_call cfg 0 org order 0 call s)" for call
    using that deletion_step.intros[OF sus that(1,2) order] unfolding is_ok_iff by (metis surj_pair)
  have ok: "deletion_call i call \<Longrightarrow> is_ok (dispatch_members_call cfg 0 org order 0 call s)" for call
    using org by (cases call) (simp_all add: dispatch_members_call_def enqueue_ring_deletion_authorized_def
        delete_ring_page_authorized_def delete_onboarding_queue_page_authorized_def
        remove_orphaned_members_authorized_def finalize_collection_deletion_authorized_def Let_def split: prod.splits)
  consider (status) r where "contains_key (RingKeysStatus s) (i, r)"
    | (pages) r p where "contains_key (RingDeletionQueue s) (i, r, p)"
    | (queue) p where "no_status i s" "no_deletions i s" "contains_key (OnboardingQueue s) (i, p)"
    | (members) "no_status i s" "no_deletions i s" "no_queue i s" "\<not> no_members i s"
    | (empty) "no_status i s" "no_deletions i s" "no_queue i s" "no_members i s"
    using entries_ex unfolding no_entries by (metis surj_pair)
  then show ?thesis
  proof cases
    case status
    have "authorize_members_call cfg 0 Local (CallEnqueueRingDeletion i r) s"
      using sus status by (auto simp: defs ensure_can_enqueue_ring_deletion_def)
    then show ?thesis using step ok deletion_call.simps(1) by blast
  next
    case pages
    have "authorize_members_call cfg 0 Local (CallDeleteRingPage i r p) s"
      using pages by (auto simp: defs ensure_can_delete_ring_page_def)
    then show ?thesis using step ok deletion_call.simps(2) by blast
  next
    case queue
    have "authorize_members_call cfg 0 Local (CallDeleteOnboardingQueuePage i p) s"
      using sus queue by (auto simp: defs ensure_can_delete_onboarding_queue_page_def)
    then show ?thesis using step ok deletion_call.simps(3) by blast
  next
    case members
    have "authorize_members_call cfg 0 Local (CallRemoveOrphanedMembers i) s"
      using sus members by (auto simp: defs ensure_can_remove_orphaned_members_def)
    then show ?thesis using step ok deletion_call.simps(4) by blast
  next
    case empty
    have "authorize_members_call cfg 0 Local (CallFinalizeCollectionDeletion i) s"
      using sus empty by (auto simp: defs ensure_can_finalize_collection_deletion_def)
    then show ?thesis using step ok deletion_call.simps(5) by blast
  qed
qed



end
