(* ===== verification/PeopleMulti.thy ===== *)
theory PeopleMulti
  imports Reality TxPriority
begin

text \<open>
  The pallet \<^verbatim>\<open>pallets/people-multi/src/lib.rs\<close> with the types of \<^verbatim>\<open>types.rs\<close>: the registry of people. It
  gives out personal ids, recognizes and suspends personhood, and ties accounts to personal ids and to
  contextual aliases.

  The keys of people are members of a collection of another pallet, reached through the traits
  \<open>FlexibleMembers\<close> and \<open>MembershipProver\<close>. \<open>member_service\<close> is that interface: its state is \<open>'ms\<close>, its
  errors are \<open>'x\<close>. The number of sufficient references of an account is kept by the system pallet:
  \<open>inc_sufficients\<close> saturates, and \<open>dec_sufficients\<close> of an account without one only logs.
\<close>

subsection \<open>The member service\<close>

record ('ms, 'x, 'm, 'proof) member_service =
  ms_create :: "coll_id \<Rightarrow> nat \<Rightarrow> ring_mode \<Rightarrow> ring_exponent \<Rightarrow> secs option \<Rightarrow> 'ms \<Rightarrow> 'x + 'ms"
  ms_add :: "secs \<Rightarrow> coll_id \<Rightarrow> 'm list \<Rightarrow> 'ms \<Rightarrow> 'x + 'ms"
  ms_remove :: "coll_id \<Rightarrow> 'm list \<Rightarrow> 'ms \<Rightarrow> 'x + 'ms"
  ms_start :: "coll_id \<Rightarrow> 'ms \<Rightarrow> 'x + 'ms"
  ms_end :: "coll_id \<Rightarrow> 'ms \<Rightarrow> 'x + 'ms"
  ms_rings_state :: "coll_id \<Rightarrow> 'ms \<Rightarrow> ring_members_state"
  ms_ring_revision :: "coll_id \<Rightarrow> ring_index \<Rightarrow> 'ms \<Rightarrow> revision_index option"
  ms_verify :: "secs \<Rightarrow> coll_id \<Rightarrow> 'proof \<Rightarrow> ring_index \<Rightarrow> revision_index \<Rightarrow> context_id \<Rightarrow> bytes \<Rightarrow> 'ms
     \<Rightarrow> 'x + contextual_alias"
  ms_active_count :: "coll_id \<Rightarrow> 'ms \<Rightarrow> nat"

subsection \<open>Data\<close>

definition PEOPLE_ONBOARDING_SIZE :: nat where
  "PEOPLE_ONBOARDING_SIZE = 10"

definition MAX_BULK_CLEANUP :: nat where
  "MAX_BULK_CLEANUP = 100"

definition account_setup_time_tolerance :: block_number where
  "account_setup_time_tolerance = 600"

datatype custom_invalidity = EmptyAliases | InvalidAccountMapping | AliasMismatchInvalid | AliasNotStaleInvalid

fun custom_invalidity_code :: "custom_invalidity \<Rightarrow> nat" where
  "custom_invalidity_code EmptyAliases = 0"
| "custom_invalidity_code InvalidAccountMapping = 1"
| "custom_invalidity_code AliasMismatchInvalid = 3"
| "custom_invalidity_code AliasNotStaleInvalid = 4"

record ('m, 'acc) person_record =
  pr_key :: 'm
  pr_account :: "'acc option"
  pr_history :: recognition_history

datatype ('m, 'acc) people_event =
  PersonhoodRecognized personal_id 'm
| PersonOnboarding personal_id 'm
| AliasDispatched contextual_alias 'acc
| AliasAccountSet contextual_alias 'acc
| AliasAccountUnset contextual_alias 'acc
| PersonalIdAccountSet personal_id 'acc
| PersonalIdAccountUnset personal_id 'acc
| CollectionCreated
| ForcePersonhoodRecognized "'m list"
| AliasCleanedUp contextual_alias 'acc

datatype people_error =
  NotPerson | NoKey | InvalidContext | InvalidAccount | AccountInUse | InvalidProof | InvalidSignature
| NoMembers | Incomplete | StillFresh | TooManyMembers | KeyAlreadyInUse | KeyNotFound | CouldNotPush
| SameKey | PersonalIdNotReserved | PersonalIdReservationCannotRenew | PersonalIdNotReservedOrNotRecognized
| InvalidRing | SuspensionsPending | RingAboveMergeThreshold | InvalidSuspensions | NoMutationSession
| CouldNotStartMutationSession | SuspensionSessionInProgress | AliasNotStale | TimeOutOfRange
| AliasAccountAlreadySet | NotSuspended | SuspendedPersonhood | InvalidKeyMigration | KeyAlreadySuspended
| InvalidOnboardingSize | InvalidMemberKey | PeopleCollectionAlreadyExists | AliasMismatch
| NoStaleAliases | DuplicateSuspension

datatype people_origin =
  PersonalIdentity personal_id
| PersonalAlias revised_contextual_alias

record ('acc, 'm, 'ms) people_state =
  Keys :: "('m, personal_id) storage_map"
  People :: "(personal_id, ('m, 'acc) person_record) storage_map"
  AliasToAccount :: "(contextual_alias, 'acc) storage_map"
  AccountToAlias :: "('acc, revised_contextual_alias) storage_map"
  AccountToPersonalId :: "('acc, personal_id) storage_map"
  NextPersonalId :: personal_id
  PeopleCollectionCreated :: bool
  ReservedPersonalId :: "(personal_id, unit) storage_map"
  people_events :: "('m, 'acc) people_event list"
  sufficients :: "('acc, nat) storage_map"
  service :: 'ms

definition people_genesis :: "'ms \<Rightarrow> ('acc, 'm, 'ms) people_state" where
  "people_genesis ms = \<lparr>Keys = fmempty, People = fmempty, AliasToAccount = fmempty, AccountToAlias = fmempty,
     AccountToPersonalId = fmempty, NextPersonalId = 0, PeopleCollectionCreated = False,
     ReservedPersonalId = fmempty, people_events = [], sufficients = fmempty, service = ms\<rparr>"

record ('acc, 'm, 'ms, 'x, 'o, 'proof, 'sig) people_config =
  member_svc :: "('ms, 'x, 'm, 'proof) member_service"
  p_ring_exponent :: ring_exponent
  account_contexts :: "context_id \<Rightarrow> bool"
  stale_alias_cleanup_interval :: block_number
  p_self_inclusion_delay :: secs
  p_manager_or_root :: "'o \<Rightarrow> bool"
  p_signed :: "'o \<Rightarrow> 'acc option"
  p_authorized :: "'o \<Rightarrow> bool"
  p_none :: "'o \<Rightarrow> bool"
  as_people_origin :: "'o \<Rightarrow> people_origin option"
  verify_signature :: "'sig \<Rightarrow> bytes \<Rightarrow> 'm \<Rightarrow> bool"
  extract_actual_weight :: "post_info \<Rightarrow> weight \<Rightarrow> weight"
  w_under_alias :: weight
  w_clean_up_stale_alias :: "nat \<Rightarrow> weight"

type_synonym ('acc, 'm, 'ms, 'x, 'o, 'proof, 'sig) pcfg = "('acc, 'm, 'ms, 'x, 'o, 'proof, 'sig) people_config"
type_synonym ('acc, 'm, 'ms) pst = "('acc, 'm, 'ms) people_state"
type_synonym 'x people_err = "(people_error, 'x) dispatch_error"

definition people_deposit :: "('m, 'acc) people_event \<Rightarrow> ('acc, 'm, 'ms) pst \<Rightarrow> ('acc, 'm, 'ms) pst" where
  "people_deposit e s = s\<lparr>people_events := people_events s @ [e]\<rparr>"

definition inc_sufficients :: "'acc \<Rightarrow> ('acc, 'm, 'ms) pst \<Rightarrow> ('acc, 'm, 'ms) pst" where
  "inc_sufficients a s = s\<lparr>sufficients := fmupd a (sat_inc 32 (get_or 0 (sufficients s) a)) (sufficients s)\<rparr>"

definition dec_sufficients :: "'acc \<Rightarrow> ('acc, 'm, 'ms) pst \<Rightarrow> ('acc, 'm, 'ms) pst" where
  "dec_sufficients a s = s\<lparr>sufficients := fmupd a (get_or 0 (sufficients s) a - 1) (sufficients s)\<rparr>"

text \<open>A call of the member service: its error is passed on.\<close>

definition with_service ::
  "('x + 'ms) \<Rightarrow> ('acc, 'm, 'ms) pst \<Rightarrow> 'x people_err + ('acc, 'm, 'ms) pst" where
  "with_service res s = map_err Foreign (bindE res (\<lambda>ms. Inr (s\<lparr>service := ms\<rparr>)))"

subsection \<open>Origins\<close>

definition ensure_personal_identity :: "('acc, 'm, 'ms, 'x, 'o, 'proof, 'sig) pcfg \<Rightarrow> 'o \<Rightarrow> 'x people_err + personal_id" where
  "ensure_personal_identity cfg org =
     (case as_people_origin cfg org of Some (PersonalIdentity m) \<Rightarrow> Inr m | _ \<Rightarrow> Inl BadOrigin)"

definition ensure_personal_alias :: "('acc, 'm, 'ms, 'x, 'o, 'proof, 'sig) pcfg \<Rightarrow> 'o \<Rightarrow> 'x people_err + contextual_alias" where
  "ensure_personal_alias cfg org =
     (case as_people_origin cfg org of Some (PersonalAlias rev_ca) \<Rightarrow> Inr (rca_ca rev_ca) | _ \<Rightarrow> Inl BadOrigin)"

definition ensure_revised_personal_alias ::
  "('acc, 'm, 'ms, 'x, 'o, 'proof, 'sig) pcfg \<Rightarrow> 'o \<Rightarrow> 'x people_err + revised_contextual_alias" where
  "ensure_revised_personal_alias cfg org =
     (case as_people_origin cfg org of Some (PersonalAlias rev_ca) \<Rightarrow> Inr rev_ca | _ \<Rightarrow> Inl BadOrigin)"

text \<open>The guards of other pallets: \<open>try_origin\<close> gives the origin back when it does not match.\<close>

definition ensure_alias_in_context ::
  "('acc, 'm, 'ms, 'x, 'o, 'proof, 'sig) pcfg \<Rightarrow> 'o \<Rightarrow> context_id \<Rightarrow> 'o + alias_id" where
  "ensure_alias_in_context cfg org ctx =
     (case as_people_origin cfg org of
        Some (PersonalAlias rev_ca) \<Rightarrow> if ca_context (rca_ca rev_ca) = ctx then Inr (ca_alias (rca_ca rev_ca)) else Inl org
      | _ \<Rightarrow> Inl org)"

definition ensure_alias_in_context_with_collection ::
  "('acc, 'm, 'ms, 'x, 'o, 'proof, 'sig) pcfg \<Rightarrow> 'o \<Rightarrow> context_id \<Rightarrow> 'o + alias_id \<times> coll_id" where
  "ensure_alias_in_context_with_collection cfg org ctx =
     (case as_people_origin cfg org of
        Some (PersonalAlias rev_ca) \<Rightarrow>
          if ca_context (rca_ca rev_ca) = ctx then Inr (ca_alias (rca_ca rev_ca), PEOPLE_IDENTIFIER) else Inl org
      | _ \<Rightarrow> Inl org)"

definition ensure_revised_alias_in_context ::
  "('acc, 'm, 'ms, 'x, 'o, 'proof, 'sig) pcfg \<Rightarrow> 'o \<Rightarrow> context_id \<Rightarrow> 'o + revised_alias" where
  "ensure_revised_alias_in_context cfg org ctx =
     (case as_people_origin cfg org of
        Some (PersonalAlias rev_ca) \<Rightarrow>
          if ca_context (rca_ca rev_ca) = ctx
          then Inr \<lparr>ra_revision = rca_revision rev_ca, ra_ring = rca_ring rev_ca, ra_alias = ca_alias (rca_ca rev_ca)\<rparr>
          else Inl org
      | _ \<Rightarrow> Inl org)"

definition people_active_count :: "('acc, 'm, 'ms, 'x, 'o, 'proof, 'sig) pcfg \<Rightarrow> ('acc, 'm, 'ms) pst \<Rightarrow> nat" where
  "people_active_count cfg s = ms_active_count (member_svc cfg) PEOPLE_IDENTIFIER (service s)"

subsection \<open>Calls\<close>

text \<open>
  A call of the runtime that is dispatched under another origin: \<open>dispatch\<close> gives its result together with
  its post-dispatch information, in the error case too, and \<open>extract_actual_weight\<close> of the framework reads
  the weight from that information and the weight announced by the call.
\<close>

definition derivative_call ::
  "('acc, 'm, 'ms, 'x, 'o, 'proof, 'sig) pcfg \<Rightarrow> (people_origin \<Rightarrow> ('acc, 'm, 'ms) pst \<Rightarrow> ('x people_err \<times> post_info) + ('acc, 'm, 'ms) pst \<times> post_info) \<Rightarrow> people_origin
     \<Rightarrow> weight \<Rightarrow> weight \<Rightarrow> ('acc, 'm, 'ms) pst \<Rightarrow> ('x people_err \<times> post_info) + ('acc, 'm, 'ms) pst \<times> post_info" where
  "derivative_call cfg dispatch local_origin call_weight derivation_weight s =
     (let weight = (\<lambda>p. weight_add derivation_weight (extract_actual_weight cfg p call_weight))
      in case dispatch local_origin s of
           Inl (e, p) \<Rightarrow> Inl (e, \<lparr>actual_weight = Some (weight p), pays_fee = Pays_Yes\<rparr>)
         | Inr (s', p) \<Rightarrow> Inr (s', \<lparr>actual_weight = Some (weight p), pays_fee = pays_fee p\<rparr>))"

definition under_alias ::
  "('acc, 'm, 'ms, 'x, 'o, 'proof, 'sig) pcfg
     \<Rightarrow> (people_origin \<Rightarrow> ('acc, 'm, 'ms) pst \<Rightarrow> ('x people_err \<times> post_info) + ('acc, 'm, 'ms) pst \<times> post_info)
     \<Rightarrow> weight \<Rightarrow> 'o \<Rightarrow> ('acc, 'm, 'ms) pst \<Rightarrow> ('x people_err \<times> post_info) + ('acc, 'm, 'ms) pst \<times> post_info" where
  "under_alias cfg dispatch call_weight origin s =
     bindE (map_err (\<lambda>e. (e, pays_info Pays_Yes))
       (bindE (ok_or (p_signed cfg origin) BadOrigin) (\<lambda>account.
        bindE (ok_or (fmlookup (AccountToAlias s) account) (Module InvalidAccount)) (\<lambda>rev_ca.
        bindE (ensure (account_contexts cfg (ca_context (rca_ca rev_ca))) (Module InvalidContext)) (\<lambda>_.
        bindE (ok_or (ms_ring_revision (member_svc cfg) PEOPLE_IDENTIFIER (rca_ring rev_ca) (service s)) (Module InvalidAccount))
          (\<lambda>ring_revision.
        bindE (ensure (rca_revision rev_ca = ring_revision) BadOrigin) (\<lambda>_.
        Inr (rev_ca, people_deposit (AliasDispatched (rca_ca rev_ca) account) s))))))))
       (\<lambda>(rev_ca, s1). derivative_call cfg dispatch (PersonalAlias rev_ca) call_weight (w_under_alias cfg) s1)"

definition in_tolerance :: "block_number \<Rightarrow> block_number \<Rightarrow> bool" where
  "in_tolerance call_valid_at now \<longleftrightarrow>
     call_valid_at \<le> now \<and> now \<le> sat_add 32 call_valid_at account_setup_time_tolerance"

definition set_alias_account ::
  "('acc, 'm, 'ms, 'x, 'o, 'proof, 'sig) pcfg \<Rightarrow> block_number \<Rightarrow> 'o \<Rightarrow> 'acc \<Rightarrow> block_number
     \<Rightarrow> ('acc, 'm, 'ms) pst \<Rightarrow> 'x people_err + ('acc, 'm, 'ms) pst \<times> post_info" where
  "set_alias_account cfg now origin account call_valid_at s =
     bindE (ensure_revised_personal_alias cfg origin) (\<lambda>rev_ca.
     bindE (ensure (in_tolerance call_valid_at now) (Module TimeOutOfRange)) (\<lambda>_.
     bindE (ensure (account_contexts cfg (ca_context (rca_ca rev_ca))) (Module InvalidContext)) (\<lambda>_.
     bindE (ensure (\<not> contains_key (AccountToPersonalId s) account) (Module AccountInUse)) (\<lambda>_.
     let old_account = fmlookup (AliasToAccount s) (rca_ca rev_ca);
         old_rev_ca = Option.bind old_account (fmlookup (AccountToAlias s));
         needs_revision = (case old_rev_ca of
                             None \<Rightarrow> False
                           | Some old \<Rightarrow> rca_ring old \<noteq> rca_ring rev_ca \<or> rca_revision old < rca_revision rev_ca)
     in bindE (ensure (old_account \<noteq> Some account \<or> needs_revision) (Module AliasAccountAlreadySet)) (\<lambda>_.
        bindE (if old_account \<noteq> Some account
               then bindE (ensure (\<not> contains_key (AccountToAlias s) account) (Module AccountInUse)) (\<lambda>_.
                    let s1 = (case old_account of
                                None \<Rightarrow> s
                              | Some old \<Rightarrow>
                                  (let s0 = dec_sufficients old s
                                   in s0\<lparr>AccountToAlias := fmdrop old (AccountToAlias s0)\<rparr>))
                    in Inr (inc_sufficients account s1))
               else Inr s) (\<lambda>s2.
        let s3 = s2\<lparr>AccountToAlias := fmupd account rev_ca (AccountToAlias s2),
                    AliasToAccount := fmupd (rca_ca rev_ca) account (AliasToAccount s2)\<rparr>
        in Inr (people_deposit (AliasAccountSet (rca_ca rev_ca) account) s3,
                pays_info (if old_account = None \<or> needs_revision then Pays_No else Pays_Yes))))))))"

definition unset_alias_account ::
  "('acc, 'm, 'ms, 'x, 'o, 'proof, 'sig) pcfg \<Rightarrow> 'o \<Rightarrow> ('acc, 'm, 'ms) pst \<Rightarrow> 'x people_err + ('acc, 'm, 'ms) pst" where
  "unset_alias_account cfg origin s =
     bindE (ensure_personal_alias cfg origin) (\<lambda>al.
     bindE (ok_or (fmlookup (AliasToAccount s) al) (Module InvalidAccount)) (\<lambda>account.
     let s1 = s\<lparr>AliasToAccount := fmdrop al (AliasToAccount s), AccountToAlias := fmdrop account (AccountToAlias s)\<rparr>
     in Inr (people_deposit (AliasAccountUnset al account) (dec_sufficients account s1))))"

definition set_personal_id_account ::
  "('acc, 'm, 'ms, 'x, 'o, 'proof, 'sig) pcfg \<Rightarrow> block_number \<Rightarrow> 'o \<Rightarrow> 'acc \<Rightarrow> block_number
     \<Rightarrow> ('acc, 'm, 'ms) pst \<Rightarrow> 'x people_err + ('acc, 'm, 'ms) pst \<times> post_info" where
  "set_personal_id_account cfg now origin account call_valid_at s =
     bindE (ensure_personal_identity cfg origin) (\<lambda>pid.
     bindE (ensure (in_tolerance call_valid_at now) (Module TimeOutOfRange)) (\<lambda>_.
     bindE (ensure (\<not> contains_key (AccountToPersonalId s) account) (Module AccountInUse)) (\<lambda>_.
     bindE (ensure (\<not> contains_key (AccountToAlias s) account) (Module AccountInUse)) (\<lambda>_.
     bindE (ok_or (fmlookup (People s) pid) (Module NotPerson)) (\<lambda>record.
     let (pays, s1) = (case pr_account record of
                         Some old \<Rightarrow>
                           (let s0 = dec_sufficients old s
                            in (Pays_Yes, s0\<lparr>AccountToPersonalId := fmdrop old (AccountToPersonalId s0)\<rparr>))
                       | None \<Rightarrow> (Pays_No, s));
         s2 = inc_sufficients account s1;
         s3 = s2\<lparr>AccountToPersonalId := fmupd account pid (AccountToPersonalId s2),
                 People := fmupd pid (record\<lparr>pr_account := Some account\<rparr>) (People s2)\<rparr>
     in Inr (people_deposit (PersonalIdAccountSet pid account) s3, pays_info pays))))))"

definition unset_personal_id_account ::
  "('acc, 'm, 'ms, 'x, 'o, 'proof, 'sig) pcfg \<Rightarrow> 'o \<Rightarrow> ('acc, 'm, 'ms) pst
     \<Rightarrow> 'x people_err + ('acc, 'm, 'ms) pst \<times> post_info" where
  "unset_personal_id_account cfg origin s =
     bindE (ensure_personal_identity cfg origin) (\<lambda>pid.
     bindE (ok_or (fmlookup (People s) pid) (Module NotPerson)) (\<lambda>record.
     bindE (ok_or (pr_account record) (Module InvalidAccount)) (\<lambda>account.
     bindE (ensure (contains_key (AccountToPersonalId s) account) (Module InvalidAccount)) (\<lambda>_.
     let s1 = dec_sufficients account (s\<lparr>AccountToPersonalId := fmdrop account (AccountToPersonalId s)\<rparr>);
         s2 = s1\<lparr>People := fmupd pid (record\<lparr>pr_account := None\<rparr>) (People s1)\<rparr>
     in Inr (people_deposit (PersonalIdAccountUnset pid account) s2, pays_info Pays_Yes)))))"

definition do_create_people_collection ::
  "('acc, 'm, 'ms, 'x, 'o, 'proof, 'sig) pcfg \<Rightarrow> ('acc, 'm, 'ms) pst \<Rightarrow> 'x people_err + ('acc, 'm, 'ms) pst" where
  "do_create_people_collection cfg s =
     bindE (with_service (ms_create (member_svc cfg) PEOPLE_IDENTIFIER PEOPLE_ONBOARDING_SIZE Flexible
              (p_ring_exponent cfg) (Some (p_self_inclusion_delay cfg)) (service s)) s) (\<lambda>s1.
     Inr (people_deposit CollectionCreated (s1\<lparr>PeopleCollectionCreated := True\<rparr>)))"

definition create_people_collection ::
  "('acc, 'm, 'ms, 'x, 'o, 'proof, 'sig) pcfg \<Rightarrow> 'o \<Rightarrow> ('acc, 'm, 'ms) pst \<Rightarrow> 'x people_err + ('acc, 'm, 'ms) pst" where
  "create_people_collection cfg origin s =
     bindE (ensure (p_authorized cfg origin) BadOrigin) (\<lambda>_. do_create_people_collection cfg s)"

definition authorize_create_people_collection ::
  "transaction_source \<Rightarrow> ('acc, 'm, 'ms) pst \<Rightarrow> invalid_transaction + string valid_transaction" where
  "authorize_create_people_collection source s =
     bindE (ensure (\<not> PeopleCollectionCreated s) InvalidCall) (\<lambda>_.
     Inr \<lparr>tag_prefix = ''pallet-people'', provides = ''create_people_collection'', propagate = True,
          longevity = None, priority = PROTOCOL_LIVENESS\<rparr>)"

subsection \<open>Stale aliases\<close>

definition ensure_alias_is_stale ::
  "('acc, 'm, 'ms, 'x, 'o, 'proof, 'sig) pcfg \<Rightarrow> revised_contextual_alias \<Rightarrow> ('acc, 'm, 'ms) pst
     \<Rightarrow> 'x people_err + unit" where
  "ensure_alias_is_stale cfg rev_ca s =
     (if \<not> account_contexts cfg (ca_context (rca_ca rev_ca)) then Inr ()
      else (case ms_ring_revision (member_svc cfg) PEOPLE_IDENTIFIER (rca_ring rev_ca) (service s) of
              None \<Rightarrow> Inr ()
            | Some _ \<Rightarrow> Inl (Module AliasNotStale)))"

definition check_stale_alias ::
  "('acc, 'm, 'ms, 'x, 'o, 'proof, 'sig) pcfg \<Rightarrow> ('acc, 'm, 'ms) pst \<Rightarrow> contextual_alias
     \<Rightarrow> invalid_transaction + unit" where
  "check_stale_alias cfg s ca =
     bindE (ok_or (fmlookup (AliasToAccount s) ca) (InvalidCustom (custom_invalidity_code InvalidAccountMapping))) (\<lambda>account.
     bindE (ok_or (fmlookup (AccountToAlias s) account) (InvalidCustom (custom_invalidity_code InvalidAccountMapping))) (\<lambda>rev_ca.
     bindE (ensure (rca_ca rev_ca = ca) (InvalidCustom (custom_invalidity_code AliasMismatchInvalid))) (\<lambda>_.
     map_err (\<lambda>_. InvalidCustom (custom_invalidity_code AliasNotStaleInvalid)) (ensure_alias_is_stale cfg rev_ca s))))"

fun check_stale_aliases ::
  "('acc, 'm, 'ms, 'x, 'o, 'proof, 'sig) pcfg \<Rightarrow> ('acc, 'm, 'ms) pst \<Rightarrow> contextual_alias list
     \<Rightarrow> invalid_transaction + unit" where
  "check_stale_aliases cfg s [] = Inr ()"
| "check_stale_aliases cfg s (ca # cas) = bindE (check_stale_alias cfg s ca) (\<lambda>_. check_stale_aliases cfg s cas)"

definition authorize_clean_up_stale_aliases ::
  "('acc, 'm, 'ms, 'x, 'o, 'proof, 'sig) pcfg \<Rightarrow> transaction_source \<Rightarrow> contextual_alias list \<Rightarrow> ('acc, 'm, 'ms) pst
     \<Rightarrow> invalid_transaction + string valid_transaction" where
  "authorize_clean_up_stale_aliases cfg source aliases s =
     bindE (ensure (source = Local \<or> source = InBlock) InvalidBadSigner) (\<lambda>_.
     bindE (ensure (aliases \<noteq> []) (InvalidCustom (custom_invalidity_code EmptyAliases))) (\<lambda>_.
     bindE (check_stale_aliases cfg s aliases) (\<lambda>_.
     Inr \<lparr>tag_prefix = ''pallet-people-cleanup'', provides = ''stale-alias-cleanup'', propagate = False,
          longevity = Some 5, priority = CLEANUP\<rparr>)))"

text \<open>The loop of \<open>clean_up_stale_aliases\<close> counts the mappings it removes.\<close>

fun clean_up_aliases_loop ::
  "contextual_alias list \<Rightarrow> nat \<Rightarrow> ('acc, 'm, 'ms) pst \<Rightarrow> nat \<times> ('acc, 'm, 'ms) pst" where
  "clean_up_aliases_loop [] cleaned s = (cleaned, s)"
| "clean_up_aliases_loop (ca # cas) cleaned s =
     (case fmlookup (AliasToAccount s) ca of
        None \<Rightarrow> clean_up_aliases_loop cas cleaned s
      | Some account \<Rightarrow>
          (case fmlookup (AccountToAlias s) account of
             None \<Rightarrow> clean_up_aliases_loop cas cleaned s
           | Some rev_ca \<Rightarrow>
               if rca_ca rev_ca \<noteq> ca then clean_up_aliases_loop cas cleaned s
               else clean_up_aliases_loop cas (Suc cleaned)
                      (people_deposit (AliasCleanedUp ca account)
                        (dec_sufficients account
                          (s\<lparr>AliasToAccount := fmdrop ca (AliasToAccount s),
                             AccountToAlias := fmdrop account (AccountToAlias s)\<rparr>)))))"

definition clean_up_stale_aliases ::
  "('acc, 'm, 'ms, 'x, 'o, 'proof, 'sig) pcfg \<Rightarrow> 'o \<Rightarrow> contextual_alias list \<Rightarrow> ('acc, 'm, 'ms) pst
     \<Rightarrow> 'x people_err + ('acc, 'm, 'ms) pst \<times> post_info" where
  "clean_up_stale_aliases cfg origin aliases s =
     bindE (ensure (p_authorized cfg origin) BadOrigin) (\<lambda>_.
       let (cleaned, s1) = clean_up_aliases_loop aliases 0 s in
     bindE (ensure (cleaned > 0) (Module NoStaleAliases)) (\<lambda>_.
     Inr (s1, \<lparr>actual_weight = Some (w_clean_up_stale_alias cfg cleaned), pays_fee = Pays_Yes\<rparr>)))"

text \<open>\<open>order\<close> is the order in which \<open>AccountToAlias\<close> is iterated. \<open>None\<close>: nothing is submitted.\<close>

definition people_offchain_worker ::
  "('acc, 'm, 'ms, 'x, 'o, 'proof, 'sig) pcfg \<Rightarrow> 'acc list \<Rightarrow> block_number \<Rightarrow> ('acc, 'm, 'ms) pst
     \<Rightarrow> contextual_alias list option" where
  "people_offchain_worker cfg order block s =
     (let interval = stale_alias_cleanup_interval cfg in
      if interval = 0 \<or> block mod interval \<noteq> 0 then None
      else (let stale = take MAX_BULK_CLEANUP (map rca_ca (filter (\<lambda>rev_ca. \<not> account_contexts cfg (ca_context (rca_ca rev_ca)))
                          (List.map_filter (fmlookup (AccountToAlias s)) order)))
            in if stale = [] then None else Some stale))"

definition clean_up_alias :: "contextual_alias \<Rightarrow> ('acc, 'm, 'ms) pst \<Rightarrow> 'x people_err + ('acc, 'm, 'ms) pst" where
  "clean_up_alias ca s =
     bindE (ok_or (fmlookup (AliasToAccount s) ca) (Module InvalidAccount)) (\<lambda>account.
     bindE (ok_or (fmlookup (AccountToAlias s) account) (Module InvalidAccount)) (\<lambda>rev_ca.
     bindE (ensure (rca_ca rev_ca = ca) (Module AliasMismatch)) (\<lambda>_.
     Inr (people_deposit (AliasCleanedUp ca account)
            (dec_sufficients account
              (s\<lparr>AliasToAccount := fmdrop ca (AliasToAccount s), AccountToAlias := fmdrop account (AccountToAlias s)\<rparr>))))))"

subsection \<open>Personal ids and recognition\<close>

definition reserve_new_id :: "('acc, 'm, 'ms) pst \<Rightarrow> personal_id \<times> ('acc, 'm, 'ms) pst" where
  "reserve_new_id s =
     (let new_id = NextPersonalId s
      in (new_id, s\<lparr>NextPersonalId := sat_inc 64 new_id, ReservedPersonalId := fmupd new_id () (ReservedPersonalId s)\<rparr>))"

definition cancel_id_reservation :: "personal_id \<Rightarrow> ('acc, 'm, 'ms) pst \<Rightarrow> 'x people_err + ('acc, 'm, 'ms) pst" where
  "cancel_id_reservation pid s =
     bindE (ensure (contains_key (ReservedPersonalId s) pid) (Module PersonalIdNotReserved)) (\<lambda>_.
     Inr (s\<lparr>ReservedPersonalId := fmdrop pid (ReservedPersonalId s)\<rparr>))"

definition renew_id_reservation :: "personal_id \<Rightarrow> ('acc, 'm, 'ms) pst \<Rightarrow> 'x people_err + ('acc, 'm, 'ms) pst" where
  "renew_id_reservation pid s =
     (if NextPersonalId s \<le> pid \<or> contains_key (People s) pid \<or> contains_key (ReservedPersonalId s) pid
      then Inl (Module PersonalIdReservationCannotRenew)
      else Inr (s\<lparr>ReservedPersonalId := fmupd pid () (ReservedPersonalId s)\<rparr>))"

definition recognize_personhood ::
  "('acc, 'm, 'ms, 'x, 'o, 'proof, 'sig) pcfg \<Rightarrow> secs \<Rightarrow> personal_id \<Rightarrow> 'm option \<Rightarrow> ('acc, 'm, 'ms) pst
     \<Rightarrow> 'x people_err + ('acc, 'm, 'ms) pst" where
  "recognize_personhood cfg now who maybe_key s =
     (case maybe_key of
        Some key \<Rightarrow>
          bindE (ensure (\<not> contains_key (Keys s) key) (Module KeyAlreadyInUse)) (\<lambda>_.
          bindE (ensure (contains_key (ReservedPersonalId s) who) (Module PersonalIdNotReservedOrNotRecognized)) (\<lambda>_.
          bindE (with_service (ms_add (member_svc cfg) now PEOPLE_IDENTIFIER [key] (service s)) s) (\<lambda>s1.
          let record = \<lparr>pr_key = key, pr_account = None, pr_history = open_since now\<rparr>
          in Inr (people_deposit (PersonhoodRecognized who key)
               (s1\<lparr>ReservedPersonalId := fmdrop who (ReservedPersonalId s1), Keys := fmupd key who (Keys s1),
                   People := fmupd who record (People s1)\<rparr>)))))
      | None \<Rightarrow>
          bindE (ok_or (fmlookup (People s) who) (Module NotPerson)) (\<lambda>record.
          bindE (ensure (fmlookup (Keys s) (pr_key record) = Some who) (Module NoKey)) (\<lambda>_.
          bindE (map_err (\<lambda>_. Module NotSuspended) (open_history (pr_history record) now)) (\<lambda>h.
          bindE (with_service (ms_add (member_svc cfg) now PEOPLE_IDENTIFIER [pr_key record] (service s)) s) (\<lambda>s1.
          Inr (people_deposit (PersonOnboarding who (pr_key record))
                 (s1\<lparr>People := fmupd who (record\<lparr>pr_history := h\<rparr>) (People s1)\<rparr>)))))))"

definition people_recognition_history :: "personal_id \<Rightarrow> ('acc, 'm, 'ms) pst \<Rightarrow> recognition_history option" where
  "people_recognition_history who s = map_option pr_history (fmlookup (People s) who)"

fun recognize_all ::
  "('acc, 'm, 'ms, 'x, 'o, 'proof, 'sig) pcfg \<Rightarrow> secs \<Rightarrow> 'm list \<Rightarrow> ('acc, 'm, 'ms) pst
     \<Rightarrow> 'x people_err + ('acc, 'm, 'ms) pst" where
  "recognize_all cfg now [] s = Inr s"
| "recognize_all cfg now (key # keys) s =
     (let (pid, s1) = reserve_new_id s
      in bindE (recognize_personhood cfg now pid (Some key) s1) (recognize_all cfg now keys))"

definition force_recognize_personhood ::
  "('acc, 'm, 'ms, 'x, 'o, 'proof, 'sig) pcfg \<Rightarrow> secs \<Rightarrow> 'o \<Rightarrow> 'm list \<Rightarrow> ('acc, 'm, 'ms) pst
     \<Rightarrow> 'x people_err + ('acc, 'm, 'ms) pst" where
  "force_recognize_personhood cfg now origin people s =
     bindE (ensure (p_manager_or_root cfg origin) BadOrigin) (\<lambda>_.
     bindE (recognize_all cfg now people s) (\<lambda>s1. Inr (people_deposit (ForcePersonhoodRecognized people) s1)))"

text \<open>\<open>seen\<close> holds the ids that occurred so far.\<close>

fun close_histories ::
  "secs \<Rightarrow> personal_id list \<Rightarrow> personal_id set \<Rightarrow> ('acc, 'm, 'ms) pst
     \<Rightarrow> 'x people_err + (personal_id \<times> ('m, 'acc) person_record) list" where
  "close_histories now [] seen s = Inr []"
| "close_histories now (pid # ids) seen s =
     bindE (ensure (pid \<notin> seen) (Module DuplicateSuspension)) (\<lambda>_.
     bindE (ok_or (fmlookup (People s) pid) (Module NotPerson)) (\<lambda>record.
     bindE (ok_or (close_history (pr_history record) now) (Module SuspendedPersonhood)) (\<lambda>(_, h).
     bindE (close_histories now ids (insert pid seen) s) (\<lambda>records.
     Inr ((pid, record\<lparr>pr_history := h\<rparr>) # records)))))"

fun store_suspended :: "(personal_id \<times> ('m, 'acc) person_record) list \<Rightarrow> ('acc, 'm, 'ms) pst \<Rightarrow> ('acc, 'm, 'ms) pst" where
  "store_suspended [] s = s"
| "store_suspended ((pid, record) # records) s =
     (let s1 = (case pr_account record of
                  None \<Rightarrow> s
                | Some account \<Rightarrow>
                    dec_sufficients account (s\<lparr>AccountToPersonalId := fmdrop account (AccountToPersonalId s)\<rparr>))
      in store_suspended records (s1\<lparr>People := fmupd pid (record\<lparr>pr_account := None\<rparr>) (People s1)\<rparr>))"

definition suspend_personhood ::
  "('acc, 'm, 'ms, 'x, 'o, 'proof, 'sig) pcfg \<Rightarrow> secs \<Rightarrow> personal_id list \<Rightarrow> ('acc, 'm, 'ms) pst
     \<Rightarrow> 'x people_err + ('acc, 'm, 'ms) pst" where
  "suspend_personhood cfg now suspensions s =
     bindE (close_histories now suspensions {} s) (\<lambda>records.
     bindE (with_service (ms_remove (member_svc cfg) PEOPLE_IDENTIFIER (map (pr_key \<circ> snd) records) (service s)) s) (\<lambda>s1.
     Inr (store_suspended records s1)))"

definition can_start_people_set_mutation_session ::
  "('acc, 'm, 'ms, 'x, 'o, 'proof, 'sig) pcfg \<Rightarrow> ('acc, 'm, 'ms) pst \<Rightarrow> bool" where
  "can_start_people_set_mutation_session cfg s =
     is_ok (start_mutation_session (ms_rings_state (member_svc cfg) PEOPLE_IDENTIFIER (service s)))"

definition start_people_set_mutation_session ::
  "('acc, 'm, 'ms, 'x, 'o, 'proof, 'sig) pcfg \<Rightarrow> ('acc, 'm, 'ms) pst \<Rightarrow> 'x people_err + ('acc, 'm, 'ms) pst" where
  "start_people_set_mutation_session cfg s = with_service (ms_start (member_svc cfg) PEOPLE_IDENTIFIER (service s)) s"

definition end_people_set_mutation_session ::
  "('acc, 'm, 'ms, 'x, 'o, 'proof, 'sig) pcfg \<Rightarrow> ('acc, 'm, 'ms) pst \<Rightarrow> 'x people_err + ('acc, 'm, 'ms) pst" where
  "end_people_set_mutation_session cfg s = with_service (ms_end (member_svc cfg) PEOPLE_IDENTIFIER (service s)) s"

text \<open>\<open>validate_proof\<close> for other pallets, and the genesis configuration.\<close>

record 'proof membership_proof =
  mp_proof :: 'proof
  mp_ring :: ring_index
  mp_revision :: revision_index

definition validate_proof ::
  "('acc, 'm, 'ms, 'x, 'o, 'proof, 'sig) pcfg \<Rightarrow> secs \<Rightarrow> coll_id \<Rightarrow> 'proof membership_proof \<Rightarrow> context_id \<Rightarrow> bytes
     \<Rightarrow> ('acc, 'm, 'ms) pst \<Rightarrow> unit + alias_id" where
  "validate_proof cfg now ident proof ctx msg s =
     bindE (map_err (\<lambda>_. ()) (ms_verify (member_svc cfg) now ident (mp_proof proof) (mp_ring proof) (mp_revision proof)
       ctx msg (service s))) (\<lambda>ca. Inr (ca_alias ca))"

definition people_genesis_build ::
  "('acc, 'm, 'ms, 'x, 'o, 'proof, 'sig) pcfg \<Rightarrow> bool \<Rightarrow> 'ms \<Rightarrow> 'x people_err + ('acc, 'm, 'ms) pst" where
  "people_genesis_build cfg create_collection ms =
     (if create_collection then do_create_people_collection cfg (people_genesis ms) else Inr (people_genesis ms))"

end
