(* ===== verification/PeopleExtension.thy ===== *)
theory PeopleExtension
  imports PeopleMulti
begin

text \<open>
  The transaction extension \<open>AsPerson\<close> of \<^verbatim>\<open>pallets/people-multi/src/extension.rs\<close>: it turns a signed or
  unsigned origin into a personal alias or a personal identity.

  The nonces of accounts, the hash of the implied message and the weights come from the framework
  (\<open>extension_config\<close>); \<open>'imp\<close> is the inherited implication. The tag a proof provides is the hash of the
  tuple in \<open>setup_tag\<close>. The state of the nonces is \<open>'ns\<close>.
\<close>

datatype ('acc, 'proof, 'sig) as_person_info =
  AsPersonalAliasWithAccount nat
| AsPersonalAliasWithProof 'proof ring_index revision_index context_id
| AsPersonalIdentityWithProof 'sig personal_id
| AsPersonalIdentityWithAccount nat
| AsPersonalAliasWithAccountRevised nat 'proof ring_index revision_index context_id

datatype 'acc extension_val =
  NotUsing
| UsingProof
| UsingAccount 'acc nat
| UsingAccountWithRevisionUpdate 'acc nat revised_contextual_alias

text \<open>The calls of the pallet that the extension distinguishes.\<close>

datatype 'acc person_call =
  CallSetAliasAccount 'acc block_number
| CallSetPersonalIdAccount 'acc block_number
| OtherCall

datatype 'acc setup_tag =
  SetupAlias revised_contextual_alias 'acc
| SetupId personal_id 'acc

datatype ('acc, 'tag) extension_validity =
  DefaultValidity
| NonceValidity "'tag list" "'tag list"
| SetupValidity "'acc setup_tag valid_transaction"

record ('acc, 'imp, 'tag, 'ns) extension_config =
  validate_nonce_for_account :: "'acc \<Rightarrow> nat \<Rightarrow> 'ns \<Rightarrow> invalid_transaction + 'tag list \<times> 'tag list"
  prepare_nonce_for_account :: "'acc \<Rightarrow> nat \<Rightarrow> 'ns \<Rightarrow> invalid_transaction + 'ns"
  implication_hash :: "'imp \<Rightarrow> bytes"
  revise_hash :: "'imp \<Rightarrow> 'acc \<Rightarrow> nat \<Rightarrow> bytes"

type_synonym ('acc, 'tag) validate_result =
  "invalid_transaction + ('acc, 'tag) extension_validity \<times> 'acc extension_val \<times> people_origin option"

definition call_in_time :: "block_number \<Rightarrow> block_number \<Rightarrow> invalid_transaction + unit" where
  "call_in_time call_valid_at now =
     bindE (ensure (\<not> now < call_valid_at) InvalidFuture) (\<lambda>_.
     ensure (\<not> now > sat_add 32 call_valid_at account_setup_time_tolerance) InvalidStale)"

definition use_account ::
  "('acc, 'imp, 'tag, 'ns) extension_config \<Rightarrow> 'acc \<Rightarrow> nat \<Rightarrow> 'acc extension_val \<Rightarrow> people_origin \<Rightarrow> 'ns
     \<Rightarrow> ('acc, 'tag) validate_result" where
  "use_account ext who nonce val origin ns =
     bindE (validate_nonce_for_account ext who nonce ns) (\<lambda>(requires, provides).
     Inr (NonceValidity requires provides, val, Some origin))"

text \<open>The arms of \<open>validate\<close>, one function each.\<close>

definition validate_alias_with_account ::
  "('acc, 'm, 'ms, 'x, 'o, 'proof, 'sig) pcfg \<Rightarrow> ('acc, 'imp, 'tag, 'ns) extension_config \<Rightarrow> 'o \<Rightarrow> nat \<Rightarrow> 'ns
     \<Rightarrow> ('acc, 'm, 'ms) pst \<Rightarrow> ('acc, 'tag) validate_result" where
  "validate_alias_with_account cfg ext origin nonce ns s =
     bindE (ok_or (p_signed cfg origin) InvalidBadSigner) (\<lambda>who.
     bindE (ok_or (fmlookup (AccountToAlias s) who) InvalidBadSigner) (\<lambda>rev_ca.
     bindE (ensure (account_contexts cfg (ca_context (rca_ca rev_ca))) InvalidBadSigner) (\<lambda>_.
     bindE (ok_or (ms_ring_revision (member_svc cfg) PEOPLE_IDENTIFIER (rca_ring rev_ca) (service s)) InvalidBadSigner)
       (\<lambda>ring_revision.
     bindE (ensure (ring_revision = rca_revision rev_ca) InvalidBadSigner) (\<lambda>_.
     use_account ext who nonce (UsingAccount who nonce) (PersonalAlias rev_ca) ns)))))"

definition validate_alias_with_account_revised ::
  "('acc, 'm, 'ms, 'x, 'o, 'proof, 'sig) pcfg \<Rightarrow> ('acc, 'imp, 'tag, 'ns) extension_config \<Rightarrow> secs \<Rightarrow> 'imp \<Rightarrow> 'o
     \<Rightarrow> nat \<Rightarrow> 'proof \<Rightarrow> ring_index \<Rightarrow> revision_index \<Rightarrow> context_id \<Rightarrow> 'ns
     \<Rightarrow> ('acc, 'm, 'ms) pst \<Rightarrow> ('acc, 'tag) validate_result" where
  "validate_alias_with_account_revised cfg ext time imp origin nonce proof ring revision ctx ns s =
     bindE (ok_or (p_signed cfg origin) InvalidBadSigner) (\<lambda>who.
     bindE (ok_or (fmlookup (AccountToAlias s) who) InvalidBadSigner) (\<lambda>old_rev_ca.
     bindE (map_err (\<lambda>_. InvalidBadProof) (ms_verify (member_svc cfg) time PEOPLE_IDENTIFIER proof ring revision ctx
       (revise_hash ext imp who nonce) (service s))) (\<lambda>validated_ca.
     let validated_rev_ca = \<lparr>rca_revision = revision, rca_ring = ring, rca_ca = validated_ca\<rparr> in
     bindE (ensure (ca_alias validated_ca = ca_alias (rca_ca old_rev_ca)) InvalidBadSigner) (\<lambda>_.
     bindE (ensure (ctx = ca_context (rca_ca old_rev_ca)) InvalidBadSigner) (\<lambda>_.
     bindE (ensure (account_contexts cfg ctx) InvalidBadSigner) (\<lambda>_.
     use_account ext who nonce (UsingAccountWithRevisionUpdate who nonce validated_rev_ca)
       (PersonalAlias validated_rev_ca) ns))))))"

definition validate_identity_with_account ::
  "('acc, 'm, 'ms, 'x, 'o, 'proof, 'sig) pcfg \<Rightarrow> ('acc, 'imp, 'tag, 'ns) extension_config \<Rightarrow> 'o \<Rightarrow> nat \<Rightarrow> 'ns
     \<Rightarrow> ('acc, 'm, 'ms) pst \<Rightarrow> ('acc, 'tag) validate_result" where
  "validate_identity_with_account cfg ext origin nonce ns s =
     bindE (ok_or (p_signed cfg origin) InvalidBadSigner) (\<lambda>who.
     bindE (ok_or (fmlookup (AccountToPersonalId s) who) InvalidBadSigner) (\<lambda>pid.
     use_account ext who nonce (UsingAccount who nonce) (PersonalIdentity pid) ns))"

definition validate_alias_with_proof ::
  "('acc, 'm, 'ms, 'x, 'o, 'proof, 'sig) pcfg \<Rightarrow> ('acc, 'imp, 'tag, 'ns) extension_config \<Rightarrow> secs \<Rightarrow> block_number \<Rightarrow> 'imp
     \<Rightarrow> 'o \<Rightarrow> 'acc person_call \<Rightarrow> 'proof \<Rightarrow> ring_index \<Rightarrow> revision_index \<Rightarrow> context_id
     \<Rightarrow> ('acc, 'm, 'ms) pst \<Rightarrow> ('acc, 'tag) validate_result" where
  "validate_alias_with_proof cfg ext time now imp origin call proof ring revision ctx s =
     bindE (ensure (p_none cfg origin) InvalidBadSigner) (\<lambda>_.
     bindE (case call of CallSetAliasAccount account valid_at \<Rightarrow> Inr (account, valid_at) | _ \<Rightarrow> Inl InvalidCall)
       (\<lambda>(account, call_valid_at).
     bindE (ensure (account_contexts cfg ctx) InvalidCall) (\<lambda>_.
     bindE (call_in_time call_valid_at now) (\<lambda>_.
     bindE (map_err (\<lambda>_. InvalidBadProof) (ms_verify (member_svc cfg) time PEOPLE_IDENTIFIER proof ring revision ctx
       (implication_hash ext imp) (service s))) (\<lambda>validated_ca.
     let validated_rev_ca = \<lparr>rca_revision = revision, rca_ring = ring, rca_ca = validated_ca\<rparr> in
     bindE (ensure (case fmlookup (AccountToAlias s) account of
                      None \<Rightarrow> True | Some stored \<Rightarrow> \<not> supersedes stored validated_rev_ca) InvalidStale) (\<lambda>_.
     Inr (SetupValidity \<lparr>tag_prefix = ''Ppl:Alias'', provides = SetupAlias validated_rev_ca account, propagate = True,
            longevity = None, priority = USER_DEFAULT\<rparr>,
          UsingProof, Some (PersonalAlias validated_rev_ca))))))))"

definition validate_identity_with_proof ::
  "('acc, 'm, 'ms, 'x, 'o, 'proof, 'sig) pcfg \<Rightarrow> ('acc, 'imp, 'tag, 'ns) extension_config \<Rightarrow> block_number \<Rightarrow> 'imp
     \<Rightarrow> 'o \<Rightarrow> 'acc person_call \<Rightarrow> 'sig \<Rightarrow> personal_id
     \<Rightarrow> ('acc, 'm, 'ms) pst \<Rightarrow> ('acc, 'tag) validate_result" where
  "validate_identity_with_proof cfg ext now imp origin call signature index s =
     bindE (ensure (p_none cfg origin) InvalidBadSigner) (\<lambda>_.
     bindE (case call of CallSetPersonalIdAccount account valid_at \<Rightarrow> Inr (account, valid_at) | _ \<Rightarrow> Inl InvalidCall)
       (\<lambda>(account, call_valid_at).
     bindE (call_in_time call_valid_at now) (\<lambda>_.
     bindE (ok_or (fmlookup (People s) index) InvalidBadSigner) (\<lambda>record.
     bindE (ensure (verify_signature cfg signature (implication_hash ext imp) (pr_key record)) InvalidBadProof) (\<lambda>_.
     bindE (ensure (pr_account record \<noteq> Some account) InvalidStale) (\<lambda>_.
     Inr (SetupValidity \<lparr>tag_prefix = ''Ppl:Id'', provides = SetupId index account, propagate = True,
            longevity = None, priority = USER_DEFAULT\<rparr>,
          UsingProof, Some (PersonalIdentity index))))))))"

definition as_person_validate ::
  "('acc, 'm, 'ms, 'x, 'o, 'proof, 'sig) pcfg \<Rightarrow> ('acc, 'imp, 'tag, 'ns) extension_config \<Rightarrow> secs \<Rightarrow> block_number \<Rightarrow> 'imp
     \<Rightarrow> ('acc, 'proof, 'sig) as_person_info option \<Rightarrow> 'o \<Rightarrow> 'acc person_call \<Rightarrow> 'ns
     \<Rightarrow> ('acc, 'm, 'ms) pst \<Rightarrow> ('acc, 'tag) validate_result" where
  "as_person_validate cfg ext time now imp info origin call ns s =
     (case info of
        Some (AsPersonalAliasWithAccount nonce) \<Rightarrow> validate_alias_with_account cfg ext origin nonce ns s
      | Some (AsPersonalAliasWithAccountRevised nonce proof ring revision ctx) \<Rightarrow>
          validate_alias_with_account_revised cfg ext time imp origin nonce proof ring revision ctx ns s
      | Some (AsPersonalIdentityWithAccount nonce) \<Rightarrow> validate_identity_with_account cfg ext origin nonce ns s
      | Some (AsPersonalAliasWithProof proof ring revision ctx) \<Rightarrow>
          validate_alias_with_proof cfg ext time now imp origin call proof ring revision ctx s
      | Some (AsPersonalIdentityWithProof signature index) \<Rightarrow>
          validate_identity_with_proof cfg ext now imp origin call signature index s
      | None \<Rightarrow> Inr (DefaultValidity, NotUsing, None))"

definition as_person_prepare ::
  "('acc, 'imp, 'tag, 'ns) extension_config \<Rightarrow> 'acc extension_val \<Rightarrow> 'ns \<Rightarrow> ('acc, 'm, 'ms) pst
     \<Rightarrow> invalid_transaction + 'ns \<times> ('acc, 'm, 'ms) pst" where
  "as_person_prepare ext val ns s =
     (case val of
        UsingAccount who nonce \<Rightarrow> bindE (prepare_nonce_for_account ext who nonce ns) (\<lambda>ns'. Inr (ns', s))
      | UsingAccountWithRevisionUpdate who nonce rev_ca \<Rightarrow>
          bindE (prepare_nonce_for_account ext who nonce ns) (\<lambda>ns'.
          Inr (ns', s\<lparr>AccountToAlias := fmupd who rev_ca (AccountToAlias s)\<rparr>))
      | NotUsing \<Rightarrow> Inr (ns, s)
      | UsingProof \<Rightarrow> Inr (ns, s))"

end
