(* ===== verification/PeopleInvariant.thy ===== *)
theory PeopleInvariant
  imports PeopleExtension
begin

text \<open>
  The invariant of the registry of \<^verbatim>\<open>pallets/people-multi/src/lib.rs\<close> and its entry points as one step
  function. The maps between accounts, aliases and personal ids are inverse to each other, no account is
  used twice, every key belongs to one person, and an account has one sufficient reference while it is
  mapped and none otherwise.
\<close>

definition alias_ok :: "('acc, 'm, 'ms) pst \<Rightarrow> bool" where
  "alias_ok s \<longleftrightarrow> (\<forall>ca a. fmlookup (AliasToAccount s) ca = Some a \<longleftrightarrow>
     (\<exists>rv. fmlookup (AccountToAlias s) a = Some rv \<and> rca_ca rv = ca))"

definition ident_ok :: "('acc, 'm, 'ms) pst \<Rightarrow> bool" where
  "ident_ok s \<longleftrightarrow> (\<forall>a pid. fmlookup (AccountToPersonalId s) a = Some pid \<longleftrightarrow>
     (\<exists>r. fmlookup (People s) pid = Some r \<and> pr_account r = Some a))"

definition disjoint_ok :: "('acc, 'm, 'ms) pst \<Rightarrow> bool" where
  "disjoint_ok s \<longleftrightarrow> (\<forall>a. \<not> (contains_key (AccountToAlias s) a \<and> contains_key (AccountToPersonalId s) a))"

definition keys_ok :: "('acc, 'm, 'ms) pst \<Rightarrow> bool" where
  "keys_ok s \<longleftrightarrow> (\<forall>k pid. fmlookup (Keys s) k = Some pid \<longleftrightarrow>
     (\<exists>r. fmlookup (People s) pid = Some r \<and> pr_key r = k))"

definition ids_ok :: "('acc, 'm, 'ms) pst \<Rightarrow> bool" where
  "ids_ok s \<longleftrightarrow> (\<forall>pid. (contains_key (People s) pid \<or> contains_key (ReservedPersonalId s) pid \<longrightarrow> pid < NextPersonalId s) \<and>
     \<not> (contains_key (People s) pid \<and> contains_key (ReservedPersonalId s) pid))"

definition refs_ok :: "('acc, 'm, 'ms) pst \<Rightarrow> bool" where
  "refs_ok s \<longleftrightarrow> (\<forall>a. get_or 0 (sufficients s) a =
     (if contains_key (AccountToAlias s) a \<or> contains_key (AccountToPersonalId s) a then 1 else 0))"

definition histories_ok :: "('acc, 'm, 'ms) pst \<Rightarrow> bool" where
  "histories_ok s \<longleftrightarrow> (\<forall>pid r. fmlookup (People s) pid = Some r \<longrightarrow> history_wf (pr_history r))"

definition people_inv :: "('acc, 'm, 'ms) pst \<Rightarrow> bool" where
  "people_inv s \<longleftrightarrow> alias_ok s \<and> ident_ok s \<and> disjoint_ok s \<and> keys_ok s \<and> ids_ok s \<and> refs_ok s \<and> histories_ok s"

lemmas people_inv_defs = people_inv_def alias_ok_def ident_ok_def disjoint_ok_def keys_ok_def ids_ok_def refs_ok_def
  histories_ok_def

lemma people_genesis_inv: "people_inv (people_genesis ms)"
  by (simp add: people_inv_defs people_genesis_def)

text \<open>Events and the state of the member service do not matter.\<close>

lemma people_inv_frame [simp]:
  "people_inv (people_deposit e s) = people_inv s"
  "people_inv (s\<lparr>service := ms\<rparr>) = people_inv s"
  "people_inv (s\<lparr>PeopleCollectionCreated := b\<rparr>) = people_inv s"
  by (simp_all add: people_inv_defs people_deposit_def)

lemma with_service_Inr [res_simps]:
  "with_service res s = Inr s' \<longleftrightarrow> (\<exists>ms. res = Inr ms \<and> s' = s\<lparr>service := ms\<rparr>)"
  by (cases res) (auto simp: with_service_def)

subsection \<open>Mapping and unmapping accounts\<close>

lemma alias_mapped:
  "people_inv s \<Longrightarrow> fmlookup (AliasToAccount s) ca = Some a \<Longrightarrow> \<exists>rv. fmlookup (AccountToAlias s) a = Some rv \<and> rca_ca rv = ca"
  "people_inv s \<Longrightarrow> fmlookup (AccountToAlias s) a = Some rv \<Longrightarrow> fmlookup (AliasToAccount s) (rca_ca rv) = Some a"
  by (auto simp: people_inv_def alias_ok_def)

lemma id_mapped:
  "people_inv s \<Longrightarrow> fmlookup (People s) pid = Some r \<Longrightarrow> pr_account r = Some a \<Longrightarrow> fmlookup (AccountToPersonalId s) a = Some pid"
  "people_inv s \<Longrightarrow> fmlookup (AccountToPersonalId s) a = Some pid \<Longrightarrow> \<exists>r. fmlookup (People s) pid = Some r \<and> pr_account r = Some a"
  by (auto simp: people_inv_def ident_ok_def)

lemma people_inv_parts:
  assumes "people_inv s"
  shows "alias_ok s" "ident_ok s" "disjoint_ok s" "keys_ok s" "ids_ok s" "refs_ok s" "histories_ok s"
  using assms by (simp_all add: people_inv_def)

lemma not_both:
  "people_inv s \<Longrightarrow> fmlookup (AccountToAlias s) a = Some rv \<Longrightarrow> fmlookup (AccountToPersonalId s) a = None"
  "people_inv s \<Longrightarrow> fmlookup (AccountToPersonalId s) a = Some pid \<Longrightarrow> fmlookup (AccountToAlias s) a = None"
  unfolding people_inv_def disjoint_ok_def by (metis option.distinct(1) option.exhaust)+

definition unmap_alias :: "'acc \<Rightarrow> contextual_alias \<Rightarrow> ('acc, 'm, 'ms) pst \<Rightarrow> ('acc, 'm, 'ms) pst" where
  "unmap_alias a ca s = dec_sufficients a (s\<lparr>AliasToAccount := fmdrop ca (AliasToAccount s), AccountToAlias := fmdrop a (AccountToAlias s)\<rparr>)"

definition map_alias :: "'acc \<Rightarrow> revised_contextual_alias \<Rightarrow> ('acc, 'm, 'ms) pst \<Rightarrow> ('acc, 'm, 'ms) pst" where
  "map_alias a rv s = inc_sufficients a (s\<lparr>AliasToAccount := fmupd (rca_ca rv) a (AliasToAccount s),
     AccountToAlias := fmupd a rv (AccountToAlias s)\<rparr>)"

lemma unmap_alias_inv:
  assumes inv: "people_inv s" and a: "fmlookup (AccountToAlias s) a = Some rv" and ca: "ca = rca_ca rv"
  shows "people_inv (unmap_alias a ca s)"
proof -
  note I = people_inv_parts[OF inv]
  let ?s = "unmap_alias a ca s"
  have "alias_ok ?s"
    unfolding alias_ok_def
  proof (intro allI)
    fix c x
    show "(fmlookup (AliasToAccount ?s) c = Some x) = (\<exists>rv. fmlookup (AccountToAlias ?s) x = Some rv \<and> rca_ca rv = c)"
      using I(1)[unfolded alias_ok_def, rule_format, of c x] alias_mapped(2)[OF inv a] a ca
      by (auto simp: unmap_alias_def dec_sufficients_def)
  qed
  moreover have "refs_ok ?s" using I(6) a not_both(1)[OF inv a] by (auto simp: refs_ok_def unmap_alias_def dec_sufficients_def)
  moreover have "disjoint_ok ?s" using I(3) by (auto simp: refs_ok_def disjoint_ok_def unmap_alias_def dec_sufficients_def)
  ultimately show ?thesis
    using inv unfolding people_inv_def
    by (simp add: ident_ok_def keys_ok_def ids_ok_def histories_ok_def unmap_alias_def dec_sufficients_def)
qed

lemma map_alias_inv:
  assumes inv: "people_inv s" and a: "fmlookup (AccountToAlias s) a = None" "fmlookup (AccountToPersonalId s) a = None"
    and ca: "fmlookup (AliasToAccount s) (rca_ca rv) = None"
  shows "people_inv (map_alias a rv s)"
proof -
  note I = people_inv_parts[OF inv]
  let ?s = "map_alias a rv s"
  have "alias_ok ?s"
    unfolding alias_ok_def
  proof (intro allI)
    fix c x
    show "(fmlookup (AliasToAccount ?s) c = Some x) = (\<exists>rv. fmlookup (AccountToAlias ?s) x = Some rv \<and> rca_ca rv = c)"
      using I(1)[unfolded alias_ok_def, rule_format, of c x] a ca
      by (auto simp: map_alias_def inc_sufficients_def)
  qed
  moreover have "get_or 0 (sufficients s) a = 0" using inv a by (simp add: people_inv_def refs_ok_def)
  then have "refs_ok ?s"
    using I(6) a by (auto simp: refs_ok_def disjoint_ok_def map_alias_def inc_sufficients_def sat_inc_def sat_add_def max_of_def)
  moreover have "disjoint_ok ?s" using I(3) a by (auto simp: refs_ok_def disjoint_ok_def map_alias_def inc_sufficients_def)
  ultimately show ?thesis
    using inv unfolding people_inv_def
    by (simp add: ident_ok_def keys_ok_def ids_ok_def histories_ok_def map_alias_def inc_sufficients_def)
qed

lemma revise_alias_inv:
  assumes inv: "people_inv s" and a: "fmlookup (AccountToAlias s) a = Some old" and ca: "rca_ca old = rca_ca rv"
  shows "people_inv (s\<lparr>AccountToAlias := fmupd a rv (AccountToAlias s)\<rparr>)"
proof -
  note I = people_inv_parts[OF inv]
  have "alias_ok (s\<lparr>AccountToAlias := fmupd a rv (AccountToAlias s)\<rparr>)"
    unfolding alias_ok_def
  proof (intro allI)
    fix c x
    show "(fmlookup (AliasToAccount (s\<lparr>AccountToAlias := fmupd a rv (AccountToAlias s)\<rparr>)) c = Some x) =
        (\<exists>rv'. fmlookup (AccountToAlias (s\<lparr>AccountToAlias := fmupd a rv (AccountToAlias s)\<rparr>)) x = Some rv' \<and> rca_ca rv' = c)"
      using I(1)[unfolded alias_ok_def, rule_format, of c x] a ca by auto
  qed
  moreover have "fmlookup (AccountToPersonalId s) a = None" by (rule not_both(1)[OF inv a])
  then have "disjoint_ok (s\<lparr>AccountToAlias := fmupd a rv (AccountToAlias s)\<rparr>)" using I(3) by (simp add: disjoint_ok_def)
  moreover have "refs_ok (s\<lparr>AccountToAlias := fmupd a rv (AccountToAlias s)\<rparr>)" using I(6) a by (auto simp: refs_ok_def)
  ultimately show ?thesis
    using inv unfolding people_inv_def by (simp add: ident_ok_def keys_ok_def ids_ok_def histories_ok_def)
qed

definition unmap_id :: "'acc \<Rightarrow> personal_id \<Rightarrow> ('m, 'acc) person_record \<Rightarrow> ('acc, 'm, 'ms) pst \<Rightarrow> ('acc, 'm, 'ms) pst" where
  "unmap_id a pid r s = dec_sufficients a (s\<lparr>AccountToPersonalId := fmdrop a (AccountToPersonalId s),
     People := fmupd pid (r\<lparr>pr_account := None\<rparr>) (People s)\<rparr>)"

definition map_id :: "'acc \<Rightarrow> personal_id \<Rightarrow> ('m, 'acc) person_record \<Rightarrow> ('acc, 'm, 'ms) pst \<Rightarrow> ('acc, 'm, 'ms) pst" where
  "map_id a pid r s = inc_sufficients a (s\<lparr>AccountToPersonalId := fmupd a pid (AccountToPersonalId s),
     People := fmupd pid (r\<lparr>pr_account := Some a\<rparr>) (People s)\<rparr>)"

lemma unmap_id_inv:
  assumes inv: "people_inv s" and r: "fmlookup (People s) pid = Some r" "pr_account r = Some a"
  shows "people_inv (unmap_id a pid r s)"
proof -
  note I = people_inv_parts[OF inv]
  let ?s = "unmap_id a pid r s"
  have a: "fmlookup (AccountToPersonalId s) a = Some pid" using id_mapped(1)[OF inv] r by blast
  have al: "fmlookup (AccountToAlias s) a = None" by (rule not_both(2)[OF inv a])
  have "ident_ok ?s"
    unfolding ident_ok_def
  proof (intro allI)
    fix x p
    show "(fmlookup (AccountToPersonalId ?s) x = Some p) = (\<exists>r. fmlookup (People ?s) p = Some r \<and> pr_account r = Some x)"
      using I(2)[unfolded ident_ok_def, rule_format, of x p] r a
      by (auto simp: unmap_id_def dec_sufficients_def)
  qed
  moreover have "keys_ok ?s" using I(4) r by (auto simp: keys_ok_def unmap_id_def dec_sufficients_def)
  moreover have "refs_ok ?s" using I(6) a al by (auto simp: refs_ok_def unmap_id_def dec_sufficients_def)
  moreover have "ids_ok ?s" using I(5) r by (auto simp: ids_ok_def unmap_id_def dec_sufficients_def)
  moreover have "histories_ok ?s" using I(7) r by (auto simp: histories_ok_def unmap_id_def dec_sufficients_def)
  moreover have "disjoint_ok ?s" using I(3) by (auto simp: disjoint_ok_def unmap_id_def dec_sufficients_def)
  ultimately show ?thesis
    using inv unfolding people_inv_def by (simp add: alias_ok_def unmap_id_def dec_sufficients_def)
qed

lemma map_id_inv:
  assumes inv: "people_inv s" and r: "fmlookup (People s) pid = Some r" "pr_account r = None"
    and a: "fmlookup (AccountToAlias s) a = None" "fmlookup (AccountToPersonalId s) a = None"
  shows "people_inv (map_id a pid r s)"
proof -
  note I = people_inv_parts[OF inv]
  let ?s = "map_id a pid r s"
  have "ident_ok ?s"
    unfolding ident_ok_def
  proof (intro allI)
    fix x p
    show "(fmlookup (AccountToPersonalId ?s) x = Some p) = (\<exists>r. fmlookup (People ?s) p = Some r \<and> pr_account r = Some x)"
      using I(2)[unfolded ident_ok_def, rule_format, of x p] r a
      by (auto simp: map_id_def inc_sufficients_def)
  qed
  moreover have "keys_ok ?s" using I(4) r by (auto simp: keys_ok_def map_id_def inc_sufficients_def)
  moreover have "get_or 0 (sufficients s) a = 0" using inv a by (simp add: people_inv_def refs_ok_def)
  then have "refs_ok ?s"
    using I(6) a by (auto simp: refs_ok_def map_id_def inc_sufficients_def sat_inc_def sat_add_def max_of_def)
  moreover have "ids_ok ?s" using I(5) r by (auto simp: ids_ok_def map_id_def inc_sufficients_def)
  moreover have "histories_ok ?s" using I(7) r by (auto simp: histories_ok_def map_id_def inc_sufficients_def)
  moreover have "disjoint_ok ?s" using I(3) a by (auto simp: disjoint_ok_def map_id_def inc_sufficients_def)
  ultimately show ?thesis
    using inv unfolding people_inv_def by (simp add: alias_ok_def map_id_def inc_sufficients_def)
qed

subsection \<open>Operations\<close>

lemma set_alias_account_inv:
  assumes inv: "people_inv s" and run: "set_alias_account cfg now org account valid_at s = Inr (s', p)"
  shows "people_inv s'"
proof -
  obtain rv where rv: "ensure_revised_personal_alias cfg org = Inr rv"
    and nid: "fmlookup (AccountToPersonalId s) account = None"
    using run by (auto simp: set_alias_account_def bindE_Inr ensure_Inr)
  let ?ca = "rca_ca rv" and ?ev = "AliasAccountSet (rca_ca rv) account"
  show ?thesis
  proof (cases "fmlookup (AliasToAccount s) ?ca")
    case None
    then have na: "fmlookup (AccountToAlias s) account = None"
      and raw: "s' = people_deposit ?ev ((inc_sufficients account s)\<lparr>
          AccountToAlias := fmupd account rv (AccountToAlias (inc_sufficients account s)),
          AliasToAccount := fmupd ?ca account (AliasToAccount (inc_sufficients account s))\<rparr>)"
      using run by (auto simp: set_alias_account_def rv bindE_Inr ensure_Inr Let_def)
    have "s' = people_deposit ?ev (map_alias account rv s)"
      by (rule people_state.equality) (simp_all add: raw people_deposit_def map_alias_def inc_sufficients_def)
    then show ?thesis using map_alias_inv[OF inv na nid None] by simp
  next
    case (Some old)
    obtain orv where orv: "fmlookup (AccountToAlias s) old = Some orv" "rca_ca orv = ?ca"
      using alias_mapped(1)[OF inv Some] by blast
    show ?thesis
    proof (cases "old = account")
      case True
      then have "s' = people_deposit ?ev (s\<lparr>AccountToAlias := fmupd account rv (AccountToAlias s),
          AliasToAccount := fmupd ?ca account (AliasToAccount s)\<rparr>)"
        using run Some by (auto simp: set_alias_account_def rv bindE_Inr ensure_Inr Let_def)
      moreover have "fmupd ?ca account (AliasToAccount s) = AliasToAccount s" using Some True by (intro fmupd_same) simp
      ultimately show ?thesis using revise_alias_inv[OF inv, of account orv rv] orv True by simp
    next
      case False
      let ?s1 = "unmap_alias old ?ca s"
      let ?s0 = "(dec_sufficients old s)\<lparr>AccountToAlias := fmdrop old (AccountToAlias (dec_sufficients old s))\<rparr>"
      let ?s2 = "inc_sufficients account ?s0"
      have na: "fmlookup (AccountToAlias s) account = None"
        and raw: "s' = people_deposit ?ev (?s2\<lparr>AccountToAlias := fmupd account rv (AccountToAlias ?s2),
            AliasToAccount := fmupd ?ca account (AliasToAccount ?s2)\<rparr>)"
        using run Some False by (auto simp: set_alias_account_def rv bindE_Inr ensure_Inr Let_def)
      have "s' = people_deposit ?ev (map_alias account rv ?s1)"
        by (rule people_state.equality)
          (simp_all add: raw people_deposit_def map_alias_def unmap_alias_def inc_sufficients_def dec_sufficients_def fmupd_fmdrop_eq)
      moreover have "people_inv (map_alias account rv ?s1)"
        by (rule map_alias_inv[OF unmap_alias_inv[OF inv orv(1) orv(2)[symmetric]]])
          (use na nid in \<open>simp_all add: unmap_alias_def dec_sufficients_def\<close>)
      ultimately show ?thesis by simp
    qed
  qed
qed

lemma unset_alias_account_inv:
  assumes inv: "people_inv s" and run: "unset_alias_account cfg org s = Inr s'"
  shows "people_inv s'"
proof -
  obtain ca a where a: "fmlookup (AliasToAccount s) ca = Some a"
    and s': "s' = people_deposit (AliasAccountUnset ca a) (unmap_alias a ca s)"
    using run by (auto simp: unset_alias_account_def bindE_Inr ok_or_Inr Let_def unmap_alias_def)
  obtain rv where "fmlookup (AccountToAlias s) a = Some rv" "rca_ca rv = ca" using alias_mapped(1)[OF inv a] by blast
  then show ?thesis using unmap_alias_inv[OF inv, of a rv ca] s' by simp
qed

lemma clean_up_alias_inv: "people_inv s \<Longrightarrow> clean_up_alias ca s = Inr s' \<Longrightarrow> people_inv s'"
  by (auto simp: clean_up_alias_def bindE_Inr ok_or_Inr ensure_Inr unmap_alias_def[symmetric] intro: unmap_alias_inv)

lemma clean_up_loop_inv: "people_inv s \<Longrightarrow> clean_up_aliases_loop cas n s = (m, s') \<Longrightarrow> people_inv s'"
proof (induction cas arbitrary: n s)
  case (Cons ca cas)
  show ?case
  proof (cases "\<exists>a rv. fmlookup (AliasToAccount s) ca = Some a \<and> fmlookup (AccountToAlias s) a = Some rv \<and> rca_ca rv = ca")
    case True
    then obtain a rv where a: "fmlookup (AliasToAccount s) ca = Some a" "fmlookup (AccountToAlias s) a = Some rv" "rca_ca rv = ca"
      by blast
    have "people_inv (people_deposit (AliasCleanedUp ca a) (unmap_alias a ca s))"
      using unmap_alias_inv[OF Cons.prems(1) a(2) a(3)[symmetric]] by simp
    from Cons.IH[OF this] Cons.prems(2) a show ?thesis by (simp add: unmap_alias_def)
  next
    case False
    then have "clean_up_aliases_loop cas n s = (m, s')"
      using Cons.prems(2) by (auto split: option.splits if_splits)
    with Cons show ?thesis by blast
  qed
qed simp

lemma set_personal_id_account_inv:
  assumes inv: "people_inv s" and run: "set_personal_id_account cfg now org account valid_at s = Inr (s', p)"
  shows "people_inv s'"
proof -
  obtain pid r where r: "fmlookup (People s) pid = Some r" and o: "ensure_personal_identity cfg org = Inr pid"
    and a: "fmlookup (AccountToAlias s) account = None" "fmlookup (AccountToPersonalId s) account = None"
    using run by (auto simp: set_personal_id_account_def bindE_Inr ok_or_Inr ensure_Inr)
  let ?ev = "PersonalIdAccountSet pid account"
  let ?store = "\<lambda>x. x\<lparr>AccountToPersonalId := fmupd account pid (AccountToPersonalId x),
      People := fmupd pid (r\<lparr>pr_account := Some account\<rparr>) (People x)\<rparr>"
  show ?thesis
  proof (cases "pr_account r")
    case None
    then have raw: "s' = people_deposit ?ev (?store (inc_sufficients account s))"
      using run by (simp add: set_personal_id_account_def o r a bindE_Inr ensure_Inr Let_def)
    have "s' = people_deposit ?ev (map_id account pid r s)"
      by (rule people_state.equality) (simp_all add: raw people_deposit_def map_id_def inc_sufficients_def)
    then show ?thesis using map_id_inv[OF inv r None a] by simp
  next
    case (Some old)
    let ?s0 = "dec_sufficients old s"
    have raw: "s' = people_deposit ?ev (?store (inc_sufficients account
        (?s0\<lparr>AccountToPersonalId := fmdrop old (AccountToPersonalId ?s0)\<rparr>)))"
      using run Some by (simp add: set_personal_id_account_def o r a bindE_Inr ensure_Inr Let_def)
    have "s' = people_deposit ?ev (map_id account pid (r\<lparr>pr_account := None\<rparr>) (unmap_id old pid r s))"
      by (rule people_state.equality)
        (simp_all add: raw people_deposit_def map_id_def unmap_id_def inc_sufficients_def dec_sufficients_def)
    moreover have "people_inv (map_id account pid (r\<lparr>pr_account := None\<rparr>) (unmap_id old pid r s))"
      by (rule map_id_inv[OF unmap_id_inv[OF inv r Some]])
        (use a in \<open>simp_all add: unmap_id_def dec_sufficients_def\<close>)
    ultimately show ?thesis by simp
  qed
qed

lemma unset_personal_id_account_inv:
  assumes inv: "people_inv s" and run: "unset_personal_id_account cfg org s = Inr (s', p)"
  shows "people_inv s'"
proof -
  obtain pid r a where r: "fmlookup (People s) pid = Some r" "pr_account r = Some a" "ensure_personal_identity cfg org = Inr pid"
    using run by (auto simp: unset_personal_id_account_def bindE_Inr ok_or_Inr ensure_Inr)
  let ?s1 = "dec_sufficients a (s\<lparr>AccountToPersonalId := fmdrop a (AccountToPersonalId s)\<rparr>)"
  have raw: "s' = people_deposit (PersonalIdAccountUnset pid a) (?s1\<lparr>People := fmupd pid (r\<lparr>pr_account := None\<rparr>) (People ?s1)\<rparr>)"
    using run r by (auto simp: unset_personal_id_account_def bindE_Inr ok_or_Inr ensure_Inr Let_def)
  have "s' = people_deposit (PersonalIdAccountUnset pid a) (unmap_id a pid r s)"
    by (rule people_state.equality) (simp_all add: raw people_deposit_def unmap_id_def dec_sufficients_def)
  then show ?thesis using unmap_id_inv[OF inv r(1,2)] by simp
qed

subsection \<open>Ids, recognition and suspension\<close>

lemma ids_frame:
  assumes inv: "people_inv s" and ids: "ids_ok s'"
    and eq: "AliasToAccount s' = AliasToAccount s" "AccountToAlias s' = AccountToAlias s" "People s' = People s"
      "AccountToPersonalId s' = AccountToPersonalId s" "Keys s' = Keys s" "sufficients s' = sufficients s"
  shows "people_inv s'"
proof -
  note I = people_inv_parts[OF inv]
  have "alias_ok s'" using I(1) unfolding alias_ok_def eq .
  moreover have "ident_ok s'" using I(2) unfolding ident_ok_def eq .
  moreover have "disjoint_ok s'" using I(3) unfolding disjoint_ok_def eq .
  moreover have "keys_ok s'" using I(4) unfolding keys_ok_def eq .
  moreover have "refs_ok s'" using I(6) unfolding refs_ok_def eq .
  moreover have "histories_ok s'" using I(7) unfolding histories_ok_def eq .
  ultimately show ?thesis using ids by (simp add: people_inv_def)
qed

lemma reserve_new_id_inv:
  assumes inv: "people_inv s" and room: "NextPersonalId s < max_of 64" and run: "reserve_new_id s = (pid, s')"
  shows "people_inv s' \<and> NextPersonalId s' = Suc (NextPersonalId s) \<and> contains_key (ReservedPersonalId s') pid \<and>
    service s' = service s \<and> People s' = People s \<and> Keys s' = Keys s"
proof -
  have s': "pid = NextPersonalId s" "s' = s\<lparr>NextPersonalId := Suc (NextPersonalId s), ReservedPersonalId := fmupd (NextPersonalId s) () (ReservedPersonalId s)\<rparr>"
    using run by (auto simp: reserve_new_id_def Let_def sat_inc_exact[OF room])
  have "\<not> contains_key (People s) (NextPersonalId s)"
    using people_inv_parts(5)[OF inv] unfolding ids_ok_def by blast
  then have "ids_ok s'" using people_inv_parts(5)[OF inv] by (auto simp: s' ids_ok_def less_Suc_eq)
  from ids_frame[OF inv this] have "people_inv s'" by (simp add: s')
  then show ?thesis by (simp add: s')
qed

lemma reserved_inv:
  assumes inv: "people_inv s" and ok: "\<And>pid. contains_key R pid \<Longrightarrow> pid < NextPersonalId s \<and> \<not> contains_key (People s) pid"
  shows "people_inv (s\<lparr>ReservedPersonalId := R\<rparr>)"
proof -
  have "ids_ok (s\<lparr>ReservedPersonalId := R\<rparr>)"
    using people_inv_parts(5)[OF inv] ok unfolding ids_ok_def by (simp add: ids_ok_def) (metis option.exhaust)
  from ids_frame[OF inv this] show ?thesis by simp
qed

lemma cancel_inv: "people_inv s \<Longrightarrow> cancel_id_reservation pid s = Inr s' \<Longrightarrow> people_inv s'"
  using people_inv_parts(5)[of s]
  by (auto simp: cancel_id_reservation_def bindE_Inr ensure_Inr ids_ok_def intro!: reserved_inv split: if_splits)

lemma renew_inv: "people_inv s \<Longrightarrow> renew_id_reservation pid s = Inr s' \<Longrightarrow> people_inv s'"
  using people_inv_parts(5)[of s]
  by (auto simp: renew_id_reservation_def ids_ok_def intro!: reserved_inv split: if_splits)

text \<open>A record whose history changes; \<open>new_person\<close> adds one.\<close>

lemma history_inv:
  assumes inv: "people_inv s" and r: "fmlookup (People s) pid = Some r" and wf: "history_wf h"
  shows "people_inv (s\<lparr>People := fmupd pid (r\<lparr>pr_history := h\<rparr>) (People s)\<rparr>)"
proof -
  let ?s = "s\<lparr>People := fmupd pid (r\<lparr>pr_history := h\<rparr>) (People s)\<rparr>"
  note I = people_inv_parts[OF inv]
  have eq: "(\<exists>x. fmlookup (People ?s) p = Some x \<and> P (pr_account x) (pr_key x)) \<longleftrightarrow>
      (\<exists>x. fmlookup (People s) p = Some x \<and> P (pr_account x) (pr_key x))" for p P
    using r by auto
  have "ident_ok ?s" using I(2) eq[where P = "\<lambda>a k. a = Some _"] unfolding ident_ok_def by simp
  moreover have "keys_ok ?s" using I(4) eq[where P = "\<lambda>a k. k = _"] unfolding keys_ok_def by simp
  moreover have "ids_ok ?s" using I(5) r by (auto simp: ids_ok_def)
  moreover have "histories_ok ?s" using I(7) wf by (simp add: histories_ok_def)
  ultimately show ?thesis using inv by (simp add: people_inv_def alias_ok_def disjoint_ok_def refs_ok_def)
qed

lemma new_person_inv:
  assumes inv: "people_inv s" and k: "fmlookup (Keys s) k = None" and res: "contains_key (ReservedPersonalId s) pid"
    and r: "pr_key r = k" "pr_account r = None" "history_wf (pr_history r)"
  shows "people_inv (s\<lparr>ReservedPersonalId := fmdrop pid (ReservedPersonalId s), Keys := fmupd k pid (Keys s),
    People := fmupd pid r (People s)\<rparr>)" (is "people_inv ?s")
proof -
  note I = people_inv_parts[OF inv]
  have new: "fmlookup (People s) pid = None" using I(5) res unfolding ids_ok_def by blast
  have nk: "fmlookup (Keys s) k' \<noteq> Some pid" for k' using I(4) new unfolding keys_ok_def by auto
  have na: "fmlookup (AccountToPersonalId s) a \<noteq> Some pid" for a using I(2) new unfolding ident_ok_def by auto
  have "ident_ok ?s"
    unfolding ident_ok_def
  proof (intro allI)
    fix x p
    show "(fmlookup (AccountToPersonalId ?s) x = Some p) = (\<exists>r. fmlookup (People ?s) p = Some r \<and> pr_account r = Some x)"
      using I(2)[unfolded ident_ok_def, rule_format, of x p] r na[of x] by auto
  qed
  moreover have "keys_ok ?s"
    unfolding keys_ok_def
  proof (intro allI)
    fix x p
    show "(fmlookup (Keys ?s) x = Some p) = (\<exists>r. fmlookup (People ?s) p = Some r \<and> pr_key r = x)"
      using I(4)[unfolded keys_ok_def, rule_format, of x p] r nk[of x] k by auto
  qed
  moreover have "ids_ok ?s" using I(5) res by (auto simp: ids_ok_def)
  moreover have "histories_ok ?s" using I(7) r by (simp add: histories_ok_def)
  ultimately show ?thesis using inv by (simp add: people_inv_def alias_ok_def disjoint_ok_def refs_ok_def)
qed

lemma recognize_inv:
  assumes inv: "people_inv s" and run: "recognize_personhood cfg now who mk s = Inr s'"
  shows "people_inv s' \<and> NextPersonalId s' = NextPersonalId s"
proof (cases mk)
  case (Some k)
  then obtain ms where k: "fmlookup (Keys s) k = None" "contains_key (ReservedPersonalId s) who"
    and s': "s' = people_deposit (PersonhoodRecognized who k) ((s\<lparr>service := ms\<rparr>)\<lparr>ReservedPersonalId := fmdrop who (ReservedPersonalId s),
      Keys := fmupd k who (Keys s), People := fmupd who \<lparr>pr_key = k, pr_account = None, pr_history = open_since now\<rparr> (People s)\<rparr>)"
    using run by (auto simp: recognize_personhood_def bindE_Inr ensure_Inr with_service_Inr Let_def)
  have "people_inv (s\<lparr>service := ms\<rparr>)" using inv by simp
  from new_person_inv[OF this, of k who] k have "people_inv s'" by (simp add: s')
  then show ?thesis by (simp add: s' people_deposit_def)
next
  case None
  then obtain r h ms where r: "fmlookup (People s) who = Some r" and h: "open_history (pr_history r) now = Inr h"
    and s': "s' = people_deposit (PersonOnboarding who (pr_key r)) ((s\<lparr>service := ms\<rparr>)\<lparr>People := fmupd who (r\<lparr>pr_history := h\<rparr>) (People s)\<rparr>)"
    using run by (auto simp: recognize_personhood_def bindE_Inr ensure_Inr ok_or_Inr map_err_Inr with_service_Inr)
  have "history_wf h" using open_history_wf[OF _ h] people_inv_parts(7)[OF inv] r by (auto simp: histories_ok_def)
  moreover have "people_inv (s\<lparr>service := ms\<rparr>)" using inv by simp
  ultimately have "people_inv s'" using history_inv[of "s\<lparr>service := ms\<rparr>" who r h] r by (simp add: s')
  then show ?thesis by (simp add: s' people_deposit_def)
qed

text \<open>The records of a suspension batch: one for each id, with its history closed.\<close>

definition closed_records :: "secs \<Rightarrow> ('acc, 'm, 'ms) pst \<Rightarrow> (personal_id \<times> ('m, 'acc) person_record) list \<Rightarrow> bool" where
  "closed_records now s recs \<longleftrightarrow> distinct (map fst recs) \<and>
     (\<forall>(pid, rec) \<in> set recs. \<exists>r p h. fmlookup (People s) pid = Some r \<and> close_history (pr_history r) now = Some (p, h) \<and>
        rec = r\<lparr>pr_history := h\<rparr>)"

lemma close_histories_spec:
  "close_histories now ids seen s = (Inr recs :: 'x people_err + _) \<Longrightarrow> map fst recs = ids \<and> seen \<inter> set ids = {} \<and> closed_records now s recs"
proof (induction ids arbitrary: seen recs)
  case (Cons pid ids)
  from Cons.prems obtain r p h recs' where "pid \<notin> seen" "fmlookup (People s) pid = Some r"
    "close_history (pr_history r) now = Some (p, h)" "close_histories now ids (insert pid seen) s = (Inr recs' :: 'x people_err + _)"
    and recs: "(pid, r\<lparr>pr_history := h\<rparr>) # recs' = recs"
    by (simp add: bindE_Inr ensure_Inr ok_or_Inr split: prod.splits) blast
  with Cons.IH[of "insert pid seen" recs'] show ?case unfolding recs[symmetric] by (auto simp: closed_records_def)
qed (simp add: closed_records_def)

lemma store_suspended_inv:
  "people_inv s \<Longrightarrow> closed_records now s recs \<Longrightarrow> people_inv (store_suspended recs s)"
proof (induction recs arbitrary: s)
  case (Cons x recs)
  obtain pid rec where x: "x = (pid, rec)" by force
  with Cons.prems(2) obtain r p h where r: "fmlookup (People s) pid = Some r" "close_history (pr_history r) now = Some (p, h)"
    "rec = r\<lparr>pr_history := h\<rparr>" by (auto simp: closed_records_def)
  have wf: "history_wf h"
    using close_history_wf[OF _ r(2)] people_inv_parts(7)[OF Cons.prems(1)] r(1) by (simp add: histories_ok_def)
  have later: "closed_records now s1 recs" if "\<And>q. q \<noteq> pid \<Longrightarrow> fmlookup (People s1) q = fmlookup (People s) q" for s1 :: "('a, 'b, 'c) pst"
    unfolding closed_records_def
  proof (intro conjI ballI)
    show "distinct (map fst recs)" using Cons.prems(2) by (simp add: closed_records_def)
    fix y assume y: "y \<in> set recs"
    obtain q rec' where yq: "y = (q, rec')" by force
    have "distinct (pid # map fst recs)" using Cons.prems(2) by (simp add: closed_records_def x)
    moreover have "q \<in> set (map fst recs)" using y yq by force
    ultimately have "q \<noteq> pid" by auto
    moreover have "\<exists>r p h. fmlookup (People s) q = Some r \<and> close_history (pr_history r) now = Some (p, h) \<and> rec' = r\<lparr>pr_history := h\<rparr>"
      using bspec[OF conjunct2[OF Cons.prems(2)[unfolded closed_records_def]], of "(q, rec')"] y yq by simp
    ultimately show "case y of (pid, rec) \<Rightarrow> \<exists>r p h. fmlookup (People s1) pid = Some r \<and>
        close_history (pr_history r) now = Some (p, h) \<and> rec = r\<lparr>pr_history := h\<rparr>" using that by (simp add: yq)
  qed
  show ?case
  proof (cases "pr_account r")
    case None
    have "store_suspended (x # recs) s = store_suspended recs (s\<lparr>People := fmupd pid (r\<lparr>pr_history := h\<rparr>) (People s)\<rparr>)"
    proof -
      have "rec\<lparr>pr_account := None\<rparr> = r\<lparr>pr_history := h\<rparr>" using None by (cases r) (simp add: r(3))
      moreover have "pr_account rec = None" by (simp add: r(3) None)
      ultimately show ?thesis by (simp add: x)
    qed
    then show ?thesis using Cons.IH[OF history_inv[OF Cons.prems(1) r(1) wf]] later by simp
  next
    case (Some a)
    let ?u = "unmap_id a pid r s" and ?r = "r\<lparr>pr_account := None\<rparr>"
    have u: "people_inv ?u" by (rule unmap_id_inv[OF Cons.prems(1) r(1) Some])
    have ru: "fmlookup (People ?u) pid = Some ?r" by (simp add: unmap_id_def dec_sufficients_def)
    let ?s1 = "dec_sufficients a (s\<lparr>AccountToPersonalId := fmdrop a (AccountToPersonalId s)\<rparr>)"
    have "?s1\<lparr>People := fmupd pid (rec\<lparr>pr_account := None\<rparr>) (People ?s1)\<rparr> = ?u\<lparr>People := fmupd pid (?r\<lparr>pr_history := h\<rparr>) (People ?u)\<rparr>"
      by (rule people_state.equality) (simp_all add: unmap_id_def dec_sufficients_def r(3), cases r, simp)
    then have "store_suspended (x # recs) s = store_suspended recs (?u\<lparr>People := fmupd pid (?r\<lparr>pr_history := h\<rparr>) (People ?u)\<rparr>)"
      by (simp add: x r(3) Some)
    moreover have "people_inv (?u\<lparr>People := fmupd pid (?r\<lparr>pr_history := h\<rparr>) (People ?u)\<rparr>)" by (rule history_inv[OF u ru wf])
    ultimately show ?thesis using Cons.IH later by (simp add: unmap_id_def dec_sufficients_def)
  qed
qed simp

lemma store_suspended_People:
  "distinct (map fst recs) \<Longrightarrow> fmlookup (People (store_suspended recs s)) pid =
     (case map_of recs pid of None \<Rightarrow> fmlookup (People s) pid | Some rec \<Rightarrow> Some (rec\<lparr>pr_account := None\<rparr>))"
proof (induction recs arbitrary: s)
  case (Cons x recs)
  obtain q rec where x: "x = (q, rec)" by force
  have "map_of recs q = None" using Cons.prems x by (simp add: map_of_eq_None_iff)
  then show ?case using Cons by (auto simp: x Let_def dec_sufficients_def split: option.splits)
qed simp

lemma store_suspended_frame:
  "service (store_suspended recs s) = service s \<and> NextPersonalId (store_suspended recs s) = NextPersonalId s \<and>
   Keys (store_suspended recs s) = Keys s \<and> ReservedPersonalId (store_suspended recs s) = ReservedPersonalId s"
  by (induction recs s rule: store_suspended.induct) (simp_all add: Let_def dec_sufficients_def split: option.splits)

lemma suspend_inv:
  fixes cfg :: "('acc, 'm, 'ms, 'x, 'o, 'proof, 'sig) pcfg"
  assumes inv: "people_inv s" and run: "suspend_personhood cfg now ids s = Inr s'"
  shows "people_inv s'"
proof -
  obtain recs ms where "close_histories now ids {} s = (Inr recs :: 'x people_err + _)" and s': "store_suspended recs (s\<lparr>service := ms\<rparr>) = s'"
    using run unfolding suspend_personhood_def bindE_Inr with_service_Inr sum.inject by blast
  then have "closed_records now (s\<lparr>service := ms\<rparr>) recs" using close_histories_spec by (fastforce simp: closed_records_def)
  then show ?thesis unfolding s'[symmetric] using inv by (intro store_suspended_inv) simp_all
qed

lemma recognize_all_inv:
  "people_inv s \<Longrightarrow> NextPersonalId s + length ks \<le> max_of 64 \<Longrightarrow> recognize_all cfg now ks s = Inr s' \<Longrightarrow> people_inv s'"
proof (induction ks arbitrary: s)
  case (Cons k ks)
  obtain pid s1 where r: "reserve_new_id s = (pid, s1)" by force
  then obtain s2 where rec: "recognize_personhood cfg now pid (Some k) s1 = Inr s2" and rest: "recognize_all cfg now ks s2 = Inr s'"
    using Cons.prems(3) by (auto simp: bindE_Inr)
  have "NextPersonalId s < max_of 64" using Cons.prems(2) by simp
  note 1 = reserve_new_id_inv[OF Cons.prems(1) this r]
  have 2: "people_inv s2" "NextPersonalId s2 = NextPersonalId s1" using recognize_inv[OF _ rec] 1 by simp_all
  then have "NextPersonalId s2 + length ks \<le> max_of 64" using 1 Cons.prems(2) by simp
  then show ?case using Cons.IH[OF 2(1)] rest by blast
qed simp

subsection \<open>Entry points\<close>

text \<open>
  Calls, the interface for other pallets, the transaction extension (validated and prepared in the same
  state, as in the block) and the operations of the member service that run beside the pallet, given by
  \<open>svc_step\<close>. \<open>under_alias\<close> itself only logs; the call it dispatches is another operation.
\<close>

datatype ('acc, 'm, 'o, 'proof, 'sig, 'imp, 'sop) people_op =
  OpSetAliasAccount 'o 'acc block_number
| OpUnsetAliasAccount 'o
| OpForceRecognize 'o "'m list"
| OpSetPersonalIdAccount 'o 'acc block_number
| OpUnsetPersonalIdAccount 'o
| OpCreatePeopleCollection transaction_source 'o
| OpCleanUpStaleAliases transaction_source 'o "contextual_alias list"
| OpAsPerson 'imp "('acc, 'proof, 'sig) as_person_info option" 'o "'acc person_call"
| OpReserveNewId
| OpCancelIdReservation personal_id
| OpRenewIdReservation personal_id
| OpRecognize personal_id "'m option"
| OpSuspend "personal_id list"
| OpStartMutation
| OpEndMutation
| OpCleanUpAlias contextual_alias
| OpService 'sop

definition state_of :: "'e + 'st \<times> 'p \<Rightarrow> 'e + 'st" where
  "state_of m = bindE m (\<lambda>(s, _). Inr s)"

lemma state_of_Inr [res_simps]: "state_of m = Inr s \<longleftrightarrow> (\<exists>p. m = Inr (s, p))"
  by (cases m) (auto simp: state_of_def)

fun people_step ::
  "('acc, 'm, 'ms, 'x, 'o, 'proof, 'sig) pcfg \<Rightarrow> ('acc, 'imp, 'tag, 'ns) extension_config \<Rightarrow> 'ns \<Rightarrow> ('sop \<Rightarrow> 'ms \<Rightarrow> 'x + 'ms)
     \<Rightarrow> block_number \<times> secs \<times> ('acc, 'm, 'o, 'proof, 'sig, 'imp, 'sop) people_op \<Rightarrow> ('acc, 'm, 'ms) pst
     \<Rightarrow> 'x people_err + ('acc, 'm, 'ms) pst" where
  "people_step cfg ext ns svc (now, t, OpSetAliasAccount org a v) s = state_of (set_alias_account cfg now org a v s)"
| "people_step cfg ext ns svc (now, t, OpUnsetAliasAccount org) s = unset_alias_account cfg org s"
| "people_step cfg ext ns svc (now, t, OpForceRecognize org ks) s = force_recognize_personhood cfg t org ks s"
| "people_step cfg ext ns svc (now, t, OpSetPersonalIdAccount org a v) s = state_of (set_personal_id_account cfg now org a v s)"
| "people_step cfg ext ns svc (now, t, OpUnsetPersonalIdAccount org) s = state_of (unset_personal_id_account cfg org s)"
| "people_step cfg ext ns svc (now, t, OpCreatePeopleCollection src org) s =
     bindE (ensure (is_ok (authorize_create_people_collection src s)) BadOrigin) (\<lambda>_. create_people_collection cfg org s)"
| "people_step cfg ext ns svc (now, t, OpCleanUpStaleAliases src org cas) s =
     bindE (ensure (is_ok (authorize_clean_up_stale_aliases cfg src cas s)) BadOrigin) (\<lambda>_.
     state_of (clean_up_stale_aliases cfg org cas s))"
| "people_step cfg ext ns svc (now, t, OpAsPerson imp info org call) s =
     map_err (\<lambda>_. BadOrigin)
       (bindE (as_person_validate cfg ext t now imp info org call ns s) (\<lambda>(_, val, _).
        bindE (as_person_prepare ext val ns s) (\<lambda>(_, s1). Inr s1)))"
| "people_step cfg ext ns svc (now, t, OpReserveNewId) s = Inr (snd (reserve_new_id s))"
| "people_step cfg ext ns svc (now, t, OpCancelIdReservation pid) s = cancel_id_reservation pid s"
| "people_step cfg ext ns svc (now, t, OpRenewIdReservation pid) s = renew_id_reservation pid s"
| "people_step cfg ext ns svc (now, t, OpRecognize pid mk) s = recognize_personhood cfg t pid mk s"
| "people_step cfg ext ns svc (now, t, OpSuspend pids) s = suspend_personhood cfg t pids s"
| "people_step cfg ext ns svc (now, t, OpStartMutation) s = start_people_set_mutation_session cfg s"
| "people_step cfg ext ns svc (now, t, OpEndMutation) s = end_people_set_mutation_session cfg s"
| "people_step cfg ext ns svc (now, t, OpCleanUpAlias ca) s = clean_up_alias ca s"
| "people_step cfg ext ns svc (now, t, OpService op) s = with_service (svc op (service s)) s"

text \<open>There are ids left.\<close>

fun people_op_ok ::
  "block_number \<times> secs \<times> ('acc, 'm, 'o, 'proof, 'sig, 'imp, 'sop) people_op \<Rightarrow> ('acc, 'm, 'ms) pst \<Rightarrow> bool" where
  "people_op_ok (now, t, OpReserveNewId) s = (NextPersonalId s < max_of 64)"
| "people_op_ok (now, t, OpForceRecognize org ks) s = (NextPersonalId s + length ks \<le> max_of 64)"
| "people_op_ok (now, t, _) s = True"

text \<open>
  \<open>prepare\<close> writes only what \<open>validate\<close> has checked against the stored alias, provided the member service
  returns aliases in the context they were asked for.
\<close>

definition verify_context_ok :: "('ms, 'x, 'm, 'proof) member_service \<Rightarrow> bool" where
  "verify_context_ok svc \<longleftrightarrow> (\<forall>t i p r v c m s ca. ms_verify svc t i p r v c m s = Inr ca \<longrightarrow> ca_context ca = c)"

lemma as_person_inv:
  assumes inv: "people_inv s" and ctx: "verify_context_ok (member_svc cfg)"
    and val: "as_person_validate cfg ext t now imp info org call ns s = Inr (v, val, o')"
    and prep: "as_person_prepare ext val ns s = Inr (ns', s')"
  shows "people_inv s'"
proof (cases "\<exists>who nonce rv. val = UsingAccountWithRevisionUpdate who nonce rv")
  case True
  then obtain who nonce rv where v: "val = UsingAccountWithRevisionUpdate who nonce rv" by blast
  obtain old ca where "fmlookup (AccountToAlias s) who = Some old" "ca_alias ca = ca_alias (rca_ca old)"
    "ca_context ca = ca_context (rca_ca old)" "rca_ca rv = ca"
    using val v ctx unfolding as_person_validate_def verify_context_ok_def
    by (auto simp: validate_alias_with_account_def validate_identity_with_account_def validate_alias_with_proof_def
        validate_identity_with_proof_def validate_alias_with_account_revised_def use_account_def Let_def
        bindE_Inr ensure_Inr ok_or_Inr map_err_Inr split: option.splits as_person_info.splits)
  then have "fmlookup (AccountToAlias s) who = Some old" "rca_ca old = rca_ca rv"
    by (auto intro: contextual_alias.equality)
  then show ?thesis using revise_alias_inv[OF inv] prep v by (auto simp: as_person_prepare_def bindE_Inr)
next
  case False
  then have "s' = s" using prep by (auto simp: as_person_prepare_def bindE_Inr split: extension_val.splits)
  then show ?thesis using inv by simp
qed

lemma people_step_inv:
  assumes inv: "people_inv s" and ctx: "verify_context_ok (member_svc cfg)" and ok: "people_op_ok op s"
    and run: "people_step cfg ext ns svc op s = Inr s'"
  shows "people_inv s'"
proof -
  obtain now t p where op: "op = (now, t, p)" by (metis prod_cases3)
  show ?thesis
  proof (cases p)
    case (OpForceRecognize org ks)
    then show ?thesis
      using run ok op recognize_all_inv[OF inv] by (auto simp: force_recognize_personhood_def bindE_Inr ensure_Inr)
  next
    case (OpAsPerson imp info org call)
    then show ?thesis using run op as_person_inv[OF inv ctx] by (auto simp: bindE_Inr map_err_Inr)
  next
    case (OpCleanUpStaleAliases src org cas)
    then show ?thesis
      using run op clean_up_loop_inv[OF inv]
      by (auto simp: clean_up_stale_aliases_def bindE_Inr ensure_Inr state_of_Inr split: prod.splits)
  next
    case OpReserveNewId
    then show ?thesis using run ok op reserve_new_id_inv[OF inv] by (cases "reserve_new_id s") auto
  next
    case (OpCreatePeopleCollection src org)
    then show ?thesis
      using run op inv by (auto simp: create_people_collection_def do_create_people_collection_def bindE_Inr with_service_Inr)
  qed (use run op inv set_alias_account_inv[OF inv] unset_alias_account_inv[OF inv] set_personal_id_account_inv[OF inv]
      unset_personal_id_account_inv[OF inv] cancel_inv[OF inv] renew_inv[OF inv] recognize_inv[OF inv, THEN conjunct1] suspend_inv[OF inv]
      clean_up_alias_inv[OF inv] in \<open>auto simp: state_of_Inr with_service_Inr start_people_set_mutation_session_def
        end_people_set_mutation_session_def\<close>)
qed

interpretation people: pallet_machine "people_step cfg ext ns svc" people_op_ok
    "\<lambda>s. verify_context_ok (member_svc cfg) \<and> people_inv s"
  for cfg :: "('acc, 'm, 'ms, 'x, 'o, 'proof, 'sig) pcfg" and ext :: "('acc, 'imp, 'tag, 'ns) extension_config"
    and ns and svc :: "'sop \<Rightarrow> 'ms \<Rightarrow> 'x + 'ms"
  by unfold_locales (auto intro: people_step_inv)

end
