(* ===== verification/PeopleProperties.thy ===== *)
theory PeopleProperties
  imports PeopleInvariant "HOL-Library.Code_Target_Nat"
begin

text \<open>
  The properties of the registry of people: the maps of every reachable state agree, ids and keys are
  permanent, a proof of an alias sets an account once, the offchain worker cleans up exactly what it names,
  and suspension is all or nothing. They are evaluated on a small configuration: a member service that keeps
  the list of its keys, and accounts, keys and signatures that are numbers.
\<close>

subsection \<open>A configuration to evaluate on\<close>

datatype pex_origin = PexSigned nat | PexNone | PexAuthorized | PexRoot | PexPerson people_origin

text \<open>A proof is the alias it shows; ring 0 is at revision 1.\<close>

definition pex_service :: "(nat list, unit, nat, alias_id) member_service" where
  "pex_service = \<lparr>
     ms_create = (\<lambda>_ _ _ _ _ ms. Inr ms),
     ms_add = (\<lambda>_ _ ks ms. if set ks \<inter> set ms = {} then Inr (ms @ ks) else Inl ()),
     ms_remove = (\<lambda>_ ks ms. if set ks \<subseteq> set ms then Inr (filter (\<lambda>k. k \<notin> set ks) ms) else Inl ()),
     ms_start = (\<lambda>_ ms. Inr ms),
     ms_end = (\<lambda>_ ms. Inr ms),
     ms_rings_state = (\<lambda>_ _. default_ring_members_state),
     ms_ring_revision = (\<lambda>_ r _. if r = 0 then Some 1 else None),
     ms_verify = (\<lambda>_ _ p r v c _ _. if r = 0 \<and> v = 1 then Inr \<lparr>ca_alias = p, ca_context = c\<rparr> else Inl ()),
     ms_active_count = (\<lambda>_ ms. length ms)\<rparr>"

definition pex_cfg :: "(nat, nat, nat list, unit, pex_origin, alias_id, nat) pcfg" where
  "pex_cfg = \<lparr>
     member_svc = pex_service,
     p_ring_exponent = R2e9,
     account_contexts = (\<lambda>c. c = ''game''),
     stale_alias_cleanup_interval = 2,
     p_self_inclusion_delay = 60,
     p_manager_or_root = (\<lambda>org. org = PexRoot),
     p_signed = (\<lambda>org. case org of PexSigned a \<Rightarrow> Some a | _ \<Rightarrow> None),
     p_authorized = (\<lambda>org. org = PexAuthorized),
     p_none = (\<lambda>org. org = PexNone),
     as_people_origin = (\<lambda>org. case org of PexPerson p \<Rightarrow> Some p | _ \<Rightarrow> None),
     verify_signature = (\<lambda>sg _ k. sg = k),
     extract_actual_weight = (\<lambda>p w. case actual_weight p of None \<Rightarrow> w | Some a \<Rightarrow> a),
     w_under_alias = \<lparr>ref_time = 1, proof_size = 1\<rparr>,
     w_clean_up_stale_alias = (\<lambda>n. \<lparr>ref_time = n, proof_size = n\<rparr>)\<rparr>"

definition pex_ext :: "(nat, unit, nat, unit) extension_config" where
  "pex_ext = \<lparr>validate_nonce_for_account = (\<lambda>_ n _. Inr ([], [n])), prepare_nonce_for_account = (\<lambda>_ _ ns. Inr ns),
     implication_hash = (\<lambda>_. ''h''), revise_hash = (\<lambda>_ _ _. ''r'')\<rparr>"

definition pex_alias :: revised_contextual_alias where
  "pex_alias = \<lparr>rca_revision = 1, rca_ring = 0, rca_ca = \<lparr>ca_alias = ''al'', ca_context = ''game''\<rparr>\<rparr>"

definition pex_old_alias :: revised_contextual_alias where
  "pex_old_alias = \<lparr>rca_revision = 1, rca_ring = 0, rca_ca = \<lparr>ca_alias = ''old'', ca_context = ''gone''\<rparr>\<rparr>"

definition pex_ops :: "(block_number \<times> secs \<times> (nat, nat, pex_origin, alias_id, nat, unit, unit) people_op) list" where
  "pex_ops = [
     (1, 10, OpForceRecognize PexRoot [101, 102]),
     (2, 20, OpSetPersonalIdAccount (PexPerson (PersonalIdentity 0)) 7 2),
     (3, 30, OpSetAliasAccount (PexPerson (PersonalAlias pex_alias)) 8 3),
     (4, 40, OpSuspend [0])]"

abbreviation pex_step where
  "pex_step \<equiv> people_step pex_cfg pex_ext () (\<lambda>(_ :: unit) ms. Inr ms)"

definition pex_state :: "(nat, nat, nat list) pst" where
  "pex_state = exec_all pex_step pex_ops (people_genesis [])"

lemma pex_context_ok: "verify_context_ok (member_svc pex_cfg)"
  by (simp add: verify_context_ok_def pex_cfg_def pex_service_def)

lemma pex_run: "run_ok pex_step people_op_ok pex_ops (people_genesis [])"
  by code_simp

lemma pex_inv: "people_inv pex_state"
  unfolding pex_state_def
  using people.exec_all_inv[of pex_cfg "people_genesis []" pex_ext "()" "\<lambda>(_ :: unit) ms. Inr ms" pex_ops] pex_run
  by (simp add: pex_context_ok people_genesis_inv)

subsection \<open>Reachable states\<close>

lemma reachable_people_inv:
  assumes "verify_context_ok (member_svc cfg)" "run_ok (people_step cfg ext ns svc) people_op_ok ops (people_genesis ms)"
    and "s = exec_all (people_step cfg ext ns svc) ops (people_genesis ms)"
  shows "people_inv s"
  using people.exec_all_inv[of cfg "people_genesis ms" ext ns svc ops] assms people_genesis_inv[of ms] by simp

text \<open>C11: In every reachable state of the registry an alias points to the account that points back to it, a
  personal id account belongs to the person whose record names it, no account has both roles, and each key
  belongs to one person. The sufficient references the pallet holds on an account are 1 while the account is
  mapped and 0 otherwise.\<close>

theorem reachable_people_consistent:
  assumes "verify_context_ok (member_svc cfg)"
    and "run_ok (people_step cfg ext ns svc) people_op_ok ops (people_genesis ms)"
    and "s = exec_all (people_step cfg ext ns svc) ops (people_genesis ms)"
  shows "(fmlookup (AliasToAccount s) ca = Some a \<longleftrightarrow> (\<exists>rv. fmlookup (AccountToAlias s) a = Some rv \<and> rca_ca rv = ca)) \<and>
    (fmlookup (AccountToPersonalId s) a = Some pid \<longleftrightarrow> (\<exists>r. fmlookup (People s) pid = Some r \<and> pr_account r = Some a)) \<and>
    (fmlookup (Keys s) k = Some pid \<longleftrightarrow> (\<exists>r. fmlookup (People s) pid = Some r \<and> pr_key r = k)) \<and>
    get_or 0 (sufficients s) a =
      (if contains_key (AccountToAlias s) a then 1 else 0) + (if contains_key (AccountToPersonalId s) a then 1 else 0)"
proof -
  note I = people_inv_parts[OF reachable_people_inv[OF assms]]
  have "get_or 0 (sufficients s) a =
      (if contains_key (AccountToAlias s) a then 1 else 0) + (if contains_key (AccountToPersonalId s) a then 1 else 0)"
    using I(6)[unfolded refs_ok_def, rule_format, of a] I(3)[unfolded disjoint_ok_def, rule_format, of a] by auto
  then show ?thesis using I(1,2,4) unfolding alias_ok_def ident_ok_def keys_ok_def by blast
qed

theorem reachable_people_consistent_witness:
  "fmlookup (AliasToAccount pex_state) (rca_ca pex_alias) = Some 8 \<and>
   (\<exists>rv. fmlookup (AccountToAlias pex_state) 8 = Some rv \<and> rca_ca rv = rca_ca pex_alias)"
proof -
  have "fmlookup (AliasToAccount pex_state) (rca_ca pex_alias) = Some 8" by code_simp
  then show ?thesis
    using reachable_people_consistent[OF pex_context_ok pex_run pex_state_def, of "rca_ca pex_alias" 8] by blast
qed

subsection \<open>Ids and keys are permanent\<close>

definition ids_kept :: "('acc, 'm, 'ms) pst \<Rightarrow> ('acc, 'm, 'ms) pst \<Rightarrow> bool" where
  "ids_kept s s' \<longleftrightarrow> NextPersonalId s \<le> NextPersonalId s' \<and>
     (\<forall>pid r. fmlookup (People s) pid = Some r \<longrightarrow> (\<exists>r'. fmlookup (People s') pid = Some r' \<and> pr_key r' = pr_key r))"

lemma ids_kept_refl [simp]: "ids_kept s s"
  by (simp add: ids_kept_def)

lemma ids_kept_trans: "ids_kept s s1 \<Longrightarrow> ids_kept s1 s2 \<Longrightarrow> ids_kept s s2"
  unfolding ids_kept_def by (metis order_trans)

lemma ids_kept_frame: "NextPersonalId s' = NextPersonalId s \<Longrightarrow> People s' = People s \<Longrightarrow> ids_kept s s'"
  by (simp add: ids_kept_def)

lemma ids_kept_upd:
  "NextPersonalId s' = NextPersonalId s \<Longrightarrow> fmlookup (People s) pid = Some r \<Longrightarrow> pr_key r' = pr_key r \<Longrightarrow>
   People s' = fmupd pid r' (People s) \<Longrightarrow> ids_kept s s'"
  by (auto simp: ids_kept_def)

lemma ids_kept_new:
  "NextPersonalId s' = NextPersonalId s \<Longrightarrow> fmlookup (People s) pid = None \<Longrightarrow>
   People s' = fmupd pid r' (People s) \<Longrightarrow> ids_kept s s'"
  by (auto simp: ids_kept_def)

lemma set_alias_account_ids: "set_alias_account cfg now org a v s = Inr (s', p) \<Longrightarrow> ids_kept s s'"
  by (rule ids_kept_frame)
    (auto simp: set_alias_account_def bindE_Inr Let_def people_deposit_def inc_sufficients_def dec_sufficients_def
      split: option.splits if_splits)

lemma unset_alias_account_ids: "unset_alias_account cfg org s = Inr s' \<Longrightarrow> ids_kept s s'"
  by (rule ids_kept_frame) (auto simp: unset_alias_account_def bindE_Inr Let_def people_deposit_def dec_sufficients_def)

lemma clean_up_alias_ids: "clean_up_alias ca s = Inr s' \<Longrightarrow> ids_kept s s'"
  by (rule ids_kept_frame) (auto simp: clean_up_alias_def bindE_Inr people_deposit_def dec_sufficients_def)

lemma clean_up_aliases_frame:
  "clean_up_aliases_loop cas n s = (m, s') \<Longrightarrow> People s' = People s \<and> NextPersonalId s' = NextPersonalId s"
  by (induction cas n s rule: clean_up_aliases_loop.induct)
    (auto simp: people_deposit_def dec_sufficients_def split: option.splits if_splits)

lemma clean_up_loop_ids: "clean_up_aliases_loop cas n s = (m, s') \<Longrightarrow> ids_kept s s'"
  using clean_up_aliases_frame ids_kept_frame by metis

lemma set_personal_id_account_ids:
  assumes run: "set_personal_id_account cfg now org a v s = Inr (s', p)"
  shows "ids_kept s s'"
proof -
  obtain pid r where r: "fmlookup (People s) pid = Some r"
    and "NextPersonalId s' = NextPersonalId s \<and> People s' = fmupd pid (r\<lparr>pr_account := Some a\<rparr>) (People s)"
    using run
    by (simp add: set_personal_id_account_def bindE_Inr ok_or_Inr ensure_Inr Let_def)
      (elim exE conjE, case_tac "pr_account xa", auto simp: people_deposit_def inc_sufficients_def dec_sufficients_def)
  then show ?thesis by (intro ids_kept_upd[OF _ r]) simp_all
qed

lemma unset_personal_id_account_ids: "unset_personal_id_account cfg org s = Inr (s', p) \<Longrightarrow> ids_kept s s'"
  by (auto simp: unset_personal_id_account_def bindE_Inr ok_or_Inr Let_def people_deposit_def dec_sufficients_def ids_kept_def)

lemma reserve_new_id_ids: "NextPersonalId s < max_of 64 \<Longrightarrow> reserve_new_id s = (pid, s') \<Longrightarrow> ids_kept s s'"
  by (auto simp: reserve_new_id_def Let_def ids_kept_def sat_inc_exact)

lemma recognize_ids:
  assumes inv: "people_inv s" and run: "recognize_personhood cfg t pid mk s = Inr s'"
  shows "ids_kept s s'"
proof (cases mk)
  case None
  then show ?thesis
    using run by (auto simp: recognize_personhood_def bindE_Inr ok_or_Inr with_service_Inr people_deposit_def ids_kept_def)
next
  case (Some k)
  then have "contains_key (ReservedPersonalId s) pid"
    using run by (auto simp: recognize_personhood_def bindE_Inr ensure_Inr)
  then have "fmlookup (People s) pid = None"
    using people_inv_parts(5)[OF inv] unfolding ids_ok_def by blast
  then show ?thesis
    using run Some by (auto simp: recognize_personhood_def bindE_Inr with_service_Inr people_deposit_def Let_def ids_kept_def)
qed

lemma recognize_all_ids:
  "people_inv s \<Longrightarrow> NextPersonalId s + length ks \<le> max_of 64 \<Longrightarrow> recognize_all cfg now ks s = Inr s' \<Longrightarrow> ids_kept s s'"
proof (induction ks arbitrary: s)
  case (Cons k ks)
  obtain pid s1 where r: "reserve_new_id s = (pid, s1)" by force
  then obtain s2 where rec: "recognize_personhood cfg now pid (Some k) s1 = Inr s2" and rest: "recognize_all cfg now ks s2 = Inr s'"
    using Cons.prems(3) by (auto simp: bindE_Inr)
  have room: "NextPersonalId s < max_of 64" using Cons.prems(2) by simp
  note 1 = reserve_new_id_inv[OF Cons.prems(1) room r]
  have 2: "people_inv s2" "NextPersonalId s2 = NextPersonalId s1" using recognize_inv[OF _ rec] 1 by simp_all
  then have "NextPersonalId s2 + length ks \<le> max_of 64" using 1 Cons.prems(2) by simp
  then have "ids_kept s2 s'" using Cons.IH[OF 2(1)] rest by blast
  moreover have "ids_kept s1 s2" using recognize_ids[OF _ rec] 1 by blast
  ultimately show ?case using reserve_new_id_ids[OF room r] ids_kept_trans by blast
qed simp

lemma suspend_ids:
  fixes cfg :: "('acc, 'm, 'ms, 'x, 'o, 'proof, 'sig) pcfg"
  assumes run: "suspend_personhood cfg now ids s = Inr s'"
  shows "ids_kept s s'"
proof -
  obtain recs ms where c: "close_histories now ids {} s = (Inr recs :: 'x people_err + _)" and s': "store_suspended recs (s\<lparr>service := ms\<rparr>) = s'"
    using run unfolding suspend_personhood_def bindE_Inr with_service_Inr sum.inject by blast
  then have cl: "closed_records now s recs" using close_histories_spec by fastforce
  then have d: "distinct (map fst recs)" by (simp add: closed_records_def)
  have "\<exists>r'. fmlookup (People s') pid = Some r' \<and> pr_key r' = pr_key r" if r: "fmlookup (People s) pid = Some r" for pid r
  proof (cases "map_of recs pid")
    case (Some rec)
    then have "(pid, rec) \<in> set recs" by (rule map_of_SomeD)
    then have "pr_key rec = pr_key r" using cl r by (fastforce simp: closed_records_def)
    then show ?thesis using Some by (simp add: s'[symmetric] store_suspended_People[OF d])
  qed (simp add: s'[symmetric] store_suspended_People[OF d] r)
  then show ?thesis using store_suspended_frame[of recs "s\<lparr>service := ms\<rparr>"] by (auto simp: ids_kept_def s'[symmetric])
qed

lemma as_person_ids:
  "as_person_prepare ext val ns s = Inr (ns', s') \<Longrightarrow> ids_kept s s'"
  by (rule ids_kept_frame) (auto simp: as_person_prepare_def bindE_Inr split: extension_val.splits)

lemma people_step_ids:
  assumes inv: "people_inv s" and ok: "people_op_ok op s" and run: "people_step cfg ext ns svc op s = Inr s'"
  shows "ids_kept s s'"
proof -
  obtain now t p where op: "op = (now, t, p)" by (metis prod_cases3)
  show ?thesis
  proof (cases p)
    case (OpForceRecognize org ks)
    then obtain s1 where "recognize_all cfg t ks s = Inr s1" "s' = people_deposit (ForcePersonhoodRecognized ks) s1"
      using run op by (auto simp: force_recognize_personhood_def bindE_Inr ensure_Inr)
    moreover have "NextPersonalId s + length ks \<le> max_of 64" using ok op OpForceRecognize by simp
    ultimately show ?thesis using recognize_all_ids[OF inv] by (simp add: ids_kept_def people_deposit_def)
  next
    case OpReserveNewId
    then show ?thesis using run ok op reserve_new_id_ids by (cases "reserve_new_id s") auto
  next
    case (OpCleanUpStaleAliases src org cas)
    then show ?thesis
      using run op clean_up_loop_ids by (auto simp: clean_up_stale_aliases_def bindE_Inr ensure_Inr state_of_Inr split: prod.splits)
  next
    case (OpCreatePeopleCollection src org)
    then show ?thesis
      using run op by (auto simp: create_people_collection_def do_create_people_collection_def bindE_Inr with_service_Inr
        people_deposit_def ids_kept_def)
  next
    case (OpAsPerson imp info org call)
    then show ?thesis using run op as_person_ids by (auto simp: bindE_Inr map_err_Inr)
  next
    case (OpSuspend ids)
    then show ?thesis using run op suspend_ids by auto
  next
    case (OpCancelIdReservation q)
    then show ?thesis using run op by (auto simp: cancel_id_reservation_def bindE_Inr ensure_Inr ids_kept_def)
  next
    case (OpRenewIdReservation q)
    then show ?thesis using run op by (auto simp: renew_id_reservation_def ids_kept_def split: if_splits)
  qed (use run op recognize_ids[OF inv] set_alias_account_ids unset_alias_account_ids set_personal_id_account_ids
      unset_personal_id_account_ids clean_up_alias_ids in \<open>auto simp: state_of_Inr with_service_Inr
        start_people_set_mutation_session_def end_people_set_mutation_session_def intro: ids_kept_frame\<close>)
qed

lemma exec_ids_kept:
  assumes "verify_context_ok (member_svc cfg)"
  shows "people_inv s \<Longrightarrow> run_ok (people_step cfg ext ns svc) people_op_ok ops s \<Longrightarrow>
    ids_kept s (exec_all (people_step cfg ext ns svc) ops s)"
proof (induction ops arbitrary: s)
  case (Cons op ops)
  let ?s = "exec_op (people_step cfg ext ns svc) op s"
  have ok: "people_op_ok op s" using Cons.prems(2) by simp
  have "ids_kept s ?s" using people_step_ids[OF Cons.prems(1) ok, of cfg ext ns svc] by (cases "people_step cfg ext ns svc op s") (simp_all add: exec_op_def)
  moreover have "people_inv ?s"
    using people_step_inv[OF Cons.prems(1) assms ok, of ext ns svc] Cons.prems(1)
    by (cases "people_step cfg ext ns svc op s") (simp_all add: exec_op_def)
  ultimately show ?case using Cons ids_kept_trans by fastforce
qed simp

lemma run_ok_append:
  "run_ok step ok (xs @ ys) s \<longleftrightarrow> run_ok step ok xs s \<and> run_ok step ok ys (exec_all step xs s)"
  by (induction xs arbitrary: s) auto

lemma exec_all_append: "exec_all step (xs @ ys) s = exec_all step ys (exec_all step xs s)"
  by (induction xs arbitrary: s) auto

text \<open>C12: A recognized person keeps the personal id and the key for ever, and an id that is given out was
  neither recognized nor reserved in any earlier state.\<close>

theorem personal_ids_permanent:
  assumes "verify_context_ok (member_svc cfg)"
    and "run_ok (people_step cfg ext ns svc) people_op_ok (ops @ later) (people_genesis ms)"
    and "s = exec_all (people_step cfg ext ns svc) ops (people_genesis ms)"
    and "s' = exec_all (people_step cfg ext ns svc) later s"
  shows "(\<forall>pid r. fmlookup (People s) pid = Some r \<longrightarrow>
      (\<exists>r'. fmlookup (People s') pid = Some r' \<and> pr_key r' = pr_key r \<and> fmlookup (Keys s') (pr_key r) = Some pid)) \<and>
    (case reserve_new_id s' of (new_id, _) \<Rightarrow> \<not> contains_key (People s) new_id \<and> \<not> contains_key (ReservedPersonalId s) new_id)"
proof -
  have run: "run_ok (people_step cfg ext ns svc) people_op_ok ops (people_genesis ms)"
    and run': "run_ok (people_step cfg ext ns svc) people_op_ok later s"
    using assms(2,3) by (simp_all add: run_ok_append)
  note inv = reachable_people_inv[OF assms(1) run assms(3)]
  have inv': "people_inv s'" using reachable_people_inv[OF assms(1,2)] assms(3,4) by (simp add: exec_all_append)
  have kept: "ids_kept s s'" using exec_ids_kept[OF assms(1) inv run'] assms(4) by simp
  have keys: "fmlookup (Keys s') (pr_key r) = Some pid" if "fmlookup (People s') pid = Some r" for pid r
    using people_inv_parts(4)[OF inv'] that unfolding keys_ok_def by blast
  have fresh: "\<not> contains_key (People s) pid \<and> \<not> contains_key (ReservedPersonalId s) pid" if "NextPersonalId s' \<le> pid" for pid
    using people_inv_parts(5)[OF inv] kept that unfolding ids_ok_def ids_kept_def by (meson leD le_trans)
  show ?thesis
    using kept keys fresh[of "NextPersonalId s'"] unfolding ids_kept_def reserve_new_id_def Let_def by fastforce
qed

theorem personal_ids_permanent_witness:
  "\<exists>r'. fmlookup (People pex_state) 0 = Some r' \<and> pr_key r' = 101 \<and> fmlookup (Keys pex_state) 101 = Some 0"
proof -
  let ?s = "exec_all pex_step (take 1 pex_ops) (people_genesis [])"
  have run: "run_ok pex_step people_op_ok (take 1 pex_ops @ drop 1 pex_ops) (people_genesis [])"
    using pex_run by (simp add: append_take_drop_id)
  have "map_option pr_key (fmlookup (People ?s) 0) = Some 101" by code_simp
  then have "\<exists>r. fmlookup (People ?s) 0 = Some r \<and> pr_key r = 101" by auto
  moreover have "pex_state = exec_all pex_step (drop 1 pex_ops) ?s"
    by (simp add: pex_state_def exec_all_append[symmetric] append_take_drop_id)
  ultimately show ?thesis using personal_ids_permanent[OF pex_context_ok run refl] by fastforce
qed

subsection \<open>Setting an account for an alias\<close>

lemma set_alias_account_stores:
  assumes run: "set_alias_account cfg now org a v s = Inr (s', p)" and org: "as_people_origin cfg org = Some (PersonalAlias rv)"
  shows "fmlookup (AccountToAlias s') a = Some rv \<and> fmlookup (AliasToAccount s') (rca_ca rv) = Some a \<and>
    AccountToPersonalId s' = AccountToPersonalId s \<and> service s' = service s \<and> in_tolerance v now \<and>
    account_contexts cfg (ca_context (rca_ca rv)) \<and> fmlookup (AccountToPersonalId s) a = None"
  using run
  by (auto simp: set_alias_account_def ensure_revised_personal_alias_def org bindE_Inr ensure_Inr Let_def
      people_deposit_def inc_sufficients_def dec_sufficients_def split: option.splits if_splits)

text \<open>C34: A proof that has set an account for an alias cannot be used for that account again: the same
  transaction is stale in the state it leaves, and the call itself is refused.\<close>

theorem alias_setup_not_replayable:
  assumes val: "validate_alias_with_proof cfg ext t now imp none (CallSetAliasAccount a v) proof ring revision ctx s
      = Inr (w, UsingProof, Some (PersonalAlias rv))"
    and org: "as_people_origin cfg org = Some (PersonalAlias rv)"
    and run: "set_alias_account cfg now org a v s = Inr (s', p)"
    and later: "call_in_time v now' = Inr ()"
  shows "validate_alias_with_proof cfg ext t now' imp none (CallSetAliasAccount a v) proof ring revision ctx s'
      = Inl InvalidStale \<and>
    set_alias_account cfg now org a v s' = Inl (Module AliasAccountAlreadySet)"
proof -
  note st = set_alias_account_stores[OF run org]
  obtain ca where ca: "ms_verify (member_svc cfg) t PEOPLE_IDENTIFIER proof ring revision ctx (implication_hash ext imp) (service s) = Inr ca"
    and rv: "rv = \<lparr>rca_revision = revision, rca_ring = ring, rca_ca = ca\<rparr>" and ok: "p_none cfg none" "account_contexts cfg ctx"
    using val by (auto simp: validate_alias_with_proof_def bindE_Inr ensure_Inr map_err_Inr Let_def)
  have "validate_alias_with_proof cfg ext t now' imp none (CallSetAliasAccount a v) proof ring revision ctx s' = Inl InvalidStale"
    using ca ok later st by (simp add: validate_alias_with_proof_def Let_def rv)
  moreover have "set_alias_account cfg now org a v s' = Inl (Module AliasAccountAlreadySet)"
    using st by (simp add: set_alias_account_def ensure_revised_personal_alias_def org Let_def)
  ultimately show ?thesis by blast
qed

theorem alias_setup_not_replayable_witness:
  "\<exists>s' p. set_alias_account pex_cfg 4 (PexPerson (PersonalAlias pex_alias)) 9 4 (people_genesis [] :: (nat, nat, nat list) pst) = Inr (s', p) \<and>
     validate_alias_with_proof pex_cfg pex_ext 50 5 () PexNone (CallSetAliasAccount 9 4) ''al'' 0 1 ''game'' s' = Inl InvalidStale"
proof -
  let ?s = "people_genesis [] :: (nat, nat, nat list) pst"
  let ?org = "PexPerson (PersonalAlias pex_alias)"
  have 1: "validate_alias_with_proof pex_cfg pex_ext 50 4 () PexNone (CallSetAliasAccount 9 4) ''al'' 0 1 ''game'' ?s
      = Inr (SetupValidity \<lparr>tag_prefix = ''Ppl:Alias'', provides = SetupAlias pex_alias 9, propagate = True, longevity = None,
            priority = USER_DEFAULT\<rparr>, UsingProof, Some (PersonalAlias pex_alias))"
    by (simp add: validate_alias_with_proof_def pex_cfg_def pex_service_def pex_ext_def call_in_time_def people_genesis_def pex_alias_def
        sat_add_def max_of_def account_setup_time_tolerance_def Let_def)
  have "is_ok (set_alias_account pex_cfg 4 ?org 9 4 ?s)" by code_simp
  then obtain s' p where 2: "set_alias_account pex_cfg 4 ?org 9 4 ?s = Inr (s', p)" by (auto simp: is_ok_iff)
  have 3: "as_people_origin pex_cfg ?org = Some (PersonalAlias pex_alias)" by (simp add: pex_cfg_def)
  have 4: "call_in_time 4 5 = Inr ()" by (simp add: call_in_time_def sat_add_def max_of_def account_setup_time_tolerance_def)
  show ?thesis using alias_setup_not_replayable[OF 1 3 2 4] 2 by blast
qed

subsection \<open>Cleaning up stale aliases\<close>

lemma clean_up_loop_spec:
  assumes "people_inv s" "clean_up_aliases_loop cas n s = (m, s')"
  shows "fmlookup (AliasToAccount s') ca = (if ca \<in> set cas then None else fmlookup (AliasToAccount s) ca) \<and>
    m = n + card (set cas \<inter> fmdom' (AliasToAccount s)) \<and> service s' = service s"
  using assms
proof (induction cas arbitrary: n s)
  case (Cons c cas)
  show ?case
  proof (cases "fmlookup (AliasToAccount s) c")
    case None
    then have "set (c # cas) \<inter> fmdom' (AliasToAccount s) = set cas \<inter> fmdom' (AliasToAccount s)" by (auto simp: fmlookup_dom'_iff)
    then show ?thesis using Cons None by auto
  next
    case (Some a)
    then obtain rv where rv: "fmlookup (AccountToAlias s) a = Some rv" "rca_ca rv = c" using alias_mapped(1)[OF Cons.prems(1)] by blast
    let ?u = "people_deposit (AliasCleanedUp c a) (unmap_alias a c s)"
    have inv: "people_inv ?u" using unmap_alias_inv[OF Cons.prems(1) rv(1)] rv(2) by simp
    have run: "clean_up_aliases_loop cas (Suc n) ?u = (m, s')" using Cons.prems(2) Some rv by (simp add: unmap_alias_def)
    have "set (c # cas) \<inter> fmdom' (AliasToAccount s) = insert c (set cas \<inter> fmdom' (AliasToAccount ?u))"
      using Some by (auto simp: fmlookup_dom'_iff unmap_alias_def people_deposit_def dec_sufficients_def)
    moreover have "c \<notin> fmdom' (AliasToAccount ?u)"
      by (simp add: unmap_alias_def people_deposit_def dec_sufficients_def)
    ultimately have "card (set (c # cas) \<inter> fmdom' (AliasToAccount s)) = Suc (card (set cas \<inter> fmdom' (AliasToAccount ?u)))"
      by simp
    then show ?thesis
      using Cons.IH[OF inv run] by (auto simp: unmap_alias_def people_deposit_def dec_sufficients_def)
  qed
qed auto

text \<open>C35: A clean-up call that was authorized succeeds, removes exactly the mappings it names, and reports
  the weight of the number of distinct aliases in it.\<close>

theorem authorized_clean_up_exact:
  assumes inv: "people_inv s" and auth: "authorize_clean_up_stale_aliases cfg source aliases s = Inr v"
    and org: "p_authorized cfg org"
  shows "\<exists>s'. clean_up_stale_aliases cfg org aliases s =
      Inr (s', \<lparr>actual_weight = Some (w_clean_up_stale_alias cfg (card (set aliases))), pays_fee = Pays_Yes\<rparr>) \<and>
    people_inv s' \<and>
    (\<forall>ca. fmlookup (AliasToAccount s') ca = (if ca \<in> set aliases then None else fmlookup (AliasToAccount s) ca)) \<and>
    (\<forall>ca \<in> set aliases. \<exists>a rv. fmlookup (AliasToAccount s) ca = Some a \<and> fmlookup (AccountToAlias s) a = Some rv \<and>
       (account_contexts cfg (ca_context ca) \<longrightarrow>
        ms_ring_revision (member_svc cfg) PEOPLE_IDENTIFIER (rca_ring rv) (service s) = None))"
proof -
  have checked: "check_stale_aliases cfg s aliases = Inr ()" and ne: "aliases \<noteq> []"
    using auth by (auto simp: authorize_clean_up_stale_aliases_def bindE_Inr ensure_Inr)
  have all: "check_stale_aliases cfg s cas = Inr () \<Longrightarrow> \<forall>ca \<in> set cas. check_stale_alias cfg s ca = Inr ()" for cas
    by (induction cas) (auto simp: bindE_Inr)
  have stale: "\<exists>a rv. fmlookup (AliasToAccount s) ca = Some a \<and> fmlookup (AccountToAlias s) a = Some rv \<and>
       (account_contexts cfg (ca_context ca) \<longrightarrow>
        ms_ring_revision (member_svc cfg) PEOPLE_IDENTIFIER (rca_ring rv) (service s) = None)" if "ca \<in> set aliases" for ca
    using all[OF checked] that
    by (fastforce simp: check_stale_alias_def ensure_alias_is_stale_def bindE_Inr ok_or_Inr ensure_Inr map_err_Inr split: if_splits option.splits)
  obtain m s' where loop: "clean_up_aliases_loop aliases 0 s = (m, s')" by force
  have dom: "set aliases \<inter> fmdom' (AliasToAccount s) = set aliases"
  proof (intro Int_absorb2 subsetI)
    fix ca assume "ca \<in> set aliases"
    from stale[OF this] show "ca \<in> fmdom' (AliasToAccount s)" by (auto intro: fmdom'I)
  qed
  note spec = clean_up_loop_spec[OF inv loop]
  have m: "m = card (set aliases)" using spec dom by simp
  moreover have "0 < m" using ne m by (simp add: card_gt_0_iff)
  ultimately have "clean_up_stale_aliases cfg org aliases s =
      Inr (s', \<lparr>actual_weight = Some (w_clean_up_stale_alias cfg (card (set aliases))), pays_fee = Pays_Yes\<rparr>)"
    using org loop by (simp add: clean_up_stale_aliases_def)
  then show ?thesis using spec stale clean_up_loop_inv[OF inv loop] by blast
qed

definition pex_stale :: "(nat, nat, nat list) pst" where
  "pex_stale = exec_all (\<lambda>(now, org, a) s. state_of (set_alias_account (pex_cfg\<lparr>account_contexts := (\<lambda>_. True)\<rparr>) now org a now s))
     [(1, PexPerson (PersonalAlias pex_alias), 8), (1, PexPerson (PersonalAlias pex_old_alias), 9)] (people_genesis [])"

lemma set_alias_step_inv: "people_inv s \<Longrightarrow> people_inv (exec_op (\<lambda>(now, org, a) s. state_of (set_alias_account cfg now org a now s)) c s)"
  using set_alias_account_inv[of s cfg] by (cases c) (fastforce simp: exec_op_def state_of_Inr split: sum.splits)

lemma pex_stale_inv: "people_inv pex_stale"
  by (simp add: pex_stale_def set_alias_step_inv people_genesis_inv)

theorem authorized_clean_up_exact_witness:
  "\<exists>s' p. clean_up_stale_aliases pex_cfg PexAuthorized [rca_ca pex_old_alias] pex_stale = Inr (s', p) \<and>
     fmlookup (AliasToAccount s') (rca_ca pex_old_alias) = None \<and> fmlookup (AliasToAccount s') (rca_ca pex_alias) = Some 8"
proof -
  have "is_ok (authorize_clean_up_stale_aliases pex_cfg Local [rca_ca pex_old_alias] pex_stale)" by code_simp
  then obtain v where v: "authorize_clean_up_stale_aliases pex_cfg Local [rca_ca pex_old_alias] pex_stale = Inr v"
    by (auto simp: is_ok_iff)
  have "fmlookup (AliasToAccount pex_stale) (rca_ca pex_alias) = Some 8" by code_simp
  then show ?thesis
    using authorized_clean_up_exact[OF pex_stale_inv v, of PexAuthorized] by (auto simp: pex_cfg_def pex_alias_def pex_old_alias_def)
qed

text \<open>What the offchain worker submits is authorized: it names at most a bounded number of aliases, all
  of contexts that are no longer configured.\<close>

theorem stale_worker_call_authorized:
  assumes inv: "people_inv s" and run: "people_offchain_worker cfg order block s = Some aliases"
  shows "is_ok (authorize_clean_up_stale_aliases cfg Local aliases s) \<and> aliases \<noteq> [] \<and> length aliases \<le> MAX_BULK_CLEANUP \<and>
    list_all (\<lambda>ca. \<not> account_contexts cfg (ca_context ca)) aliases"
proof -
  let ?found = "filter (\<lambda>rv. \<not> account_contexts cfg (ca_context (rca_ca rv))) (List.map_filter (fmlookup (AccountToAlias s)) order)"
  have al: "aliases = take MAX_BULK_CLEANUP (map rca_ca ?found)" "aliases \<noteq> []"
    using run by (auto simp: people_offchain_worker_def Let_def split: if_splits)
  have found: "\<exists>a rv. fmlookup (AccountToAlias s) a = Some rv \<and> rca_ca rv = ca \<and> \<not> account_contexts cfg (ca_context ca)"
    if "ca \<in> set aliases" for ca
    using that unfolding al(1) by (fastforce simp: List.map_filter_def dest!: in_set_takeD)
  have stale: "check_stale_alias cfg s ca = Inr ()" if "ca \<in> set aliases" for ca
  proof -
    obtain a rv where rv: "fmlookup (AccountToAlias s) a = Some rv" "rca_ca rv = ca" "\<not> account_contexts cfg (ca_context ca)"
      using found[OF \<open>ca \<in> set aliases\<close>] by blast
    have "fmlookup (AliasToAccount s) ca = Some a" using alias_mapped(2)[OF inv rv(1)] rv(2) by simp
    then show ?thesis using rv by (simp add: check_stale_alias_def ensure_alias_is_stale_def)
  qed
  have "(\<And>ca. ca \<in> set cas \<Longrightarrow> check_stale_alias cfg s ca = Inr ()) \<Longrightarrow> check_stale_aliases cfg s cas = Inr ()" for cas
    by (induction cas) auto
  then have "check_stale_aliases cfg s aliases = Inr ()" using stale by blast
  moreover have "list_all (\<lambda>ca. \<not> account_contexts cfg (ca_context ca)) aliases"
    using found by (auto simp: list_all_iff)
  ultimately show ?thesis using al by (simp add: authorize_clean_up_stale_aliases_def)
qed

theorem stale_worker_call_authorized_witness:
  "people_offchain_worker pex_cfg [8, 9] 2 pex_stale = Some [rca_ca pex_old_alias] \<and>
   is_ok (authorize_clean_up_stale_aliases pex_cfg Local [rca_ca pex_old_alias] pex_stale)"
proof -
  have "people_offchain_worker pex_cfg [8, 9] 2 pex_stale = Some [rca_ca pex_old_alias]" by code_simp
  then show ?thesis using stale_worker_call_authorized[OF pex_stale_inv] by blast
qed

subsection \<open>Suspension\<close>

lemma close_histories_Inr:
  fixes s :: "('acc, 'm, 'ms) pst"
  shows "is_ok (close_histories now ids seen s :: 'x people_err + _) \<longleftrightarrow> distinct ids \<and> seen \<inter> set ids = {} \<and>
    (\<forall>pid \<in> set ids. \<exists>r. fmlookup (People s) pid = Some r \<and> history_open (pr_history r))"
proof (induction ids arbitrary: seen)
  case Nil
  then show ?case by simp
next
  case (Cons pid ids)
  have "is_ok (close_histories now (pid # ids) seen s :: 'x people_err + _) \<longleftrightarrow> pid \<notin> seen \<and>
      (\<exists>r. fmlookup (People s) pid = Some r \<and> history_open (pr_history r)) \<and>
      is_ok (close_histories now ids (insert pid seen) s :: 'x people_err + _)"
  proof (cases "fmlookup (People s) pid")
    case (Some r)
    show ?thesis
      by (cases "close_history (pr_history r) now"; cases "close_histories now ids (insert pid seen) s :: 'x people_err + _")
        (use close_history_None[of "pr_history r" now] in \<open>auto simp: Some ensure_def\<close>)
  qed (auto simp: ensure_def)
  then show ?case using Cons.IH[of "insert pid seen"] by auto
qed

lemma closed_records_in:
  assumes "closed_records now s recs" "(pid, rec) \<in> set recs"
  obtains r p h where "fmlookup (People s) pid = Some r" "close_history (pr_history r) now = Some (p, h)" "rec = r\<lparr>pr_history := h\<rparr>"
  using assms by (fastforce simp: closed_records_def)

lemma closed_records_keys:
  assumes "closed_records now s recs"
  shows "map (pr_key \<circ> snd) recs = map (\<lambda>pid. pr_key (the (fmlookup (People s) pid))) (map fst recs)"
proof -
  have "pr_key (snd x) = pr_key (the (fmlookup (People s) (fst x)))" if "x \<in> set recs" for x
    using closed_records_in[OF assms, of "fst x" "snd x"] that by (metis option.sel person_record.select_convs(1)
      person_record.surjective person_record.update_convs(3) prod.collapse)
  then show ?thesis by simp
qed

lemma suspend_result:
  fixes cfg :: "('acc, 'm, 'ms, 'x, 'o, 'proof, 'sig) pcfg"
  assumes run: "suspend_personhood cfg now ids s = Inr s'"
  shows "fmlookup (People s') pid =
    (if pid \<in> set ids
     then map_option (\<lambda>r. r\<lparr>pr_account := None, pr_history := snd (the (close_history (pr_history r) now))\<rparr>) (fmlookup (People s) pid)
     else fmlookup (People s) pid)"
proof -
  obtain recs ms where c: "close_histories now ids {} s = (Inr recs :: 'x people_err + _)" and s': "store_suspended recs (s\<lparr>service := ms\<rparr>) = s'"
    using run unfolding suspend_personhood_def bindE_Inr with_service_Inr sum.inject by blast
  have cl: "closed_records now s recs" "map fst recs = ids" using close_histories_spec[OF c] by auto
  then have d: "distinct (map fst recs)" by (simp add: closed_records_def)
  show ?thesis
  proof (cases "map_of recs pid")
    case None
    then have "pid \<notin> set ids" unfolding cl(2)[symmetric] by (simp add: map_of_eq_None_iff)
    then show ?thesis using None by (simp add: s'[symmetric] store_suspended_People[OF d])
  next
    case (Some rec)
    then have "(pid, rec) \<in> set recs" by (rule map_of_SomeD)
    then obtain r p h where r: "fmlookup (People s) pid = Some r" "close_history (pr_history r) now = Some (p, h)" "rec = r\<lparr>pr_history := h\<rparr>"
      by (rule closed_records_in[OF cl(1)])
    have "pid \<in> set ids" using \<open>(pid, rec) \<in> set recs\<close> cl(2) by force
    moreover have "rec\<lparr>pr_account := None\<rparr> = r\<lparr>pr_account := None, pr_history := h\<rparr>" by (cases r) (simp add: r(3))
    ultimately show ?thesis using Some r by (simp add: s'[symmetric] store_suspended_People[OF d])
  qed
qed

text \<open>C13: A batch of suspensions is applied as a whole or not at all: it succeeds exactly if it names
  distinct people who are recognized at the moment and the member service removes their keys; it then
  closes their histories and clears their accounts, and changes no other record.\<close>

theorem suspension_all_or_nothing:
  "(is_ok (suspend_personhood cfg now ids s) \<longleftrightarrow> distinct ids \<and>
      (\<forall>pid \<in> set ids. \<exists>r. fmlookup (People s) pid = Some r \<and> history_open (pr_history r)) \<and>
      is_ok (ms_remove (member_svc cfg) PEOPLE_IDENTIFIER (map (\<lambda>pid. pr_key (the (fmlookup (People s) pid))) ids) (service s))) \<and>
   (case suspend_personhood cfg now ids s of
      Inl _ \<Rightarrow> True
    | Inr s' \<Rightarrow> fmlookup (People s') pid =
        (if pid \<in> set ids
         then map_option (\<lambda>r. r\<lparr>pr_account := None, pr_history := snd (the (close_history (pr_history r) now))\<rparr>) (fmlookup (People s) pid)
         else fmlookup (People s) pid))"
  for cfg :: "('acc, 'm, 'ms, 'x, 'o, 'proof, 'sig) pcfg"
proof -
  have "is_ok (suspend_personhood cfg now ids s) \<longleftrightarrow> is_ok (close_histories now ids {} s :: 'x people_err + _) \<and>
      is_ok (ms_remove (member_svc cfg) PEOPLE_IDENTIFIER (map (\<lambda>pid. pr_key (the (fmlookup (People s) pid))) ids) (service s))"
  proof (cases "close_histories now ids {} s :: 'x people_err + _")
    case (Inr recs)
    note c = close_histories_spec[OF Inr]
    have "map (pr_key \<circ> snd) recs = map (\<lambda>pid. pr_key (the (fmlookup (People s) pid))) ids"
      using closed_records_keys[of now s recs] c by blast
    then show ?thesis
      by (cases "ms_remove (member_svc cfg) PEOPLE_IDENTIFIER (map (\<lambda>pid. pr_key (the (fmlookup (People s) pid))) ids) (service s)")
        (simp_all add: suspend_personhood_def Inr with_service_def)
  qed (simp add: suspend_personhood_def)
  then show ?thesis using close_histories_Inr[where ?'x = 'x, of now ids "{}" s] suspend_result[of cfg now ids s _ pid]
    by (simp split: sum.splits)
qed

definition pex_two :: "(nat, nat, nat list) pst" where
  "pex_two = exec_all pex_step (take 2 pex_ops) (people_genesis [])"

theorem suspension_all_or_nothing_witness:
  "is_ok (suspend_personhood pex_cfg 50 [0, 1] pex_two) \<and> \<not> is_ok (suspend_personhood pex_cfg 50 [0, 0] pex_two) \<and>
   \<not> is_ok (suspend_personhood pex_cfg 50 [0, 2] pex_two)"
proof -
  have p0: "map_option (history_open \<circ> pr_history) (fmlookup (People pex_two) 0) = Some True" by code_simp
  have p1: "map_option (history_open \<circ> pr_history) (fmlookup (People pex_two) 1) = Some True" by code_simp
  have p2: "map_option pr_key (fmlookup (People pex_two) 2) = None" by code_simp
  have keys: "map (\<lambda>pid. map_option pr_key (fmlookup (People pex_two) pid)) [0, 1] = [Some 101, Some 102]"
    "service pex_two = [101, 102]" by code_simp+
  show ?thesis
    using p0 p1 p2 keys suspension_all_or_nothing[of pex_cfg 50 "[0, 1]" pex_two 0]
      suspension_all_or_nothing[of pex_cfg 50 "[0, 0]" pex_two 0] suspension_all_or_nothing[of pex_cfg 50 "[0, 2]" pex_two 0]
    by (auto simp: pex_cfg_def pex_service_def)
qed

text \<open>A suspended person can become a personal identity again: neither the proof of the identity nor the
  call that sets its account looks at the suspension, so a person whose history is closed sets an account
  and uses it.\<close>

theorem suspended_person_regains_identity:
  assumes r: "fmlookup (People s) pid = Some r" "\<not> history_open (pr_history r)" "pr_account r = None"
    and sig: "verify_signature cfg signature (implication_hash ext imp) (pr_key r)"
    and unused: "fmlookup (AccountToPersonalId s) a = None" "fmlookup (AccountToAlias s) a = None"
    and call: "p_none cfg none" "in_tolerance v now" "as_people_origin cfg org = Some (PersonalIdentity pid)"
    and later: "p_signed cfg signed = Some a" "validate_nonce_for_account ext a nonce ns = Inr (requires, provided)"
  shows "\<exists>w s' p. validate_identity_with_proof cfg ext now imp none (CallSetPersonalIdAccount a v) signature pid s
      = Inr (w, UsingProof, Some (PersonalIdentity pid)) \<and>
    set_personal_id_account cfg now org a v s = Inr (s', p) \<and> pays_fee p = Pays_No \<and>
    map_option (history_open \<circ> pr_history) (fmlookup (People s') pid) = Some False \<and>
    validate_identity_with_account cfg ext signed nonce ns s'
      = Inr (NonceValidity requires provided, UsingAccount a nonce, Some (PersonalIdentity pid))"
proof -
  have t: "call_in_time v now = Inr ()" using call(2) by (simp add: call_in_time_def in_tolerance_def)
  obtain w where w: "validate_identity_with_proof cfg ext now imp none (CallSetPersonalIdAccount a v) signature pid s
      = Inr (w, UsingProof, Some (PersonalIdentity pid))"
    using call(1) t r sig by (simp add: validate_identity_with_proof_def)
  obtain s' p where run: "set_personal_id_account cfg now org a v s = Inr (s', p)" "pays_fee p = Pays_No"
    "fmlookup (People s') pid = Some (r\<lparr>pr_account := Some a\<rparr>)" "fmlookup (AccountToPersonalId s') a = Some pid"
    using call r unused by (simp add: set_personal_id_account_def ensure_personal_identity_def pays_info_def Let_def
        people_deposit_def inc_sufficients_def)
  then show ?thesis using w later r(2) by (simp add: validate_identity_with_account_def use_account_def)
qed

theorem suspended_person_regains_identity_witness:
  "\<exists>s' p. set_personal_id_account pex_cfg 5 (PexPerson (PersonalIdentity 0)) 9 5 pex_state = Inr (s', p) \<and>
     map_option (history_open \<circ> pr_history) (fmlookup (People s') 0) = Some False"
proof -
  have "map_option (\<lambda>r. (pr_key r, history_open (pr_history r), pr_account r)) (fmlookup (People pex_state) 0) = Some (101, False, None)"
    by code_simp
  then obtain r where r: "fmlookup (People pex_state) 0 = Some r" "\<not> history_open (pr_history r)" "pr_account r = None" "pr_key r = 101"
    by auto
  have u: "fmlookup (AccountToPersonalId pex_state) 9 = None" by code_simp
  have "map_option rca_ring (fmlookup (AccountToAlias pex_state) 9) = None" by code_simp
  then have u': "fmlookup (AccountToAlias pex_state) 9 = None" by simp
  show ?thesis
    using suspended_person_regains_identity[OF r(1-3), of pex_cfg 101 pex_ext "()" 9 PexNone 5 5
        "PexPerson (PersonalIdentity 0)" "PexSigned 9" 0 "()" "[]" "[0]"] r(4) u u'
    by (auto simp: pex_cfg_def pex_ext_def in_tolerance_def sat_add_def max_of_def account_setup_time_tolerance_def)
qed

text \<open>The dispatch of a clean-up trusts its authorization: it removes a mapping that is not stale.\<close>

theorem clean_up_dispatch_trusts_caller:
  assumes inv: "people_inv s" and m: "fmlookup (AliasToAccount s) ca = Some a" and org: "p_authorized cfg org"
  shows "\<exists>s' p. clean_up_stale_aliases cfg org [ca] s = Inr (s', p) \<and>
    fmlookup (AliasToAccount s') ca = None \<and> fmlookup (AccountToAlias s') a = None"
proof -
  obtain rv where "fmlookup (AccountToAlias s) a = Some rv" "rca_ca rv = ca" using alias_mapped(1)[OF inv m] by blast
  then show ?thesis
    using m org by (simp add: clean_up_stale_aliases_def people_deposit_def dec_sufficients_def)
qed

theorem clean_up_dispatch_trusts_caller_witness:
  "is_ok (clean_up_stale_aliases pex_cfg PexAuthorized [rca_ca pex_alias] pex_state) \<and>
   authorize_clean_up_stale_aliases pex_cfg Local [rca_ca pex_alias] pex_state =
     Inl (InvalidCustom (custom_invalidity_code AliasNotStaleInvalid))"
proof -
  have m: "fmlookup (AliasToAccount pex_state) (rca_ca pex_alias) = Some 8" by code_simp
  then obtain rv where rv: "fmlookup (AccountToAlias pex_state) 8 = Some rv" "rca_ca rv = rca_ca pex_alias"
    using alias_mapped(1)[OF pex_inv] by blast
  have "map_option rca_ring (fmlookup (AccountToAlias pex_state) 8) = Some 0" by code_simp
  then have "rca_ring rv = 0" using rv(1) by simp
  moreover have "ca_context (rca_ca pex_alias) = ''game''" by (simp add: pex_alias_def)
  ultimately have "authorize_clean_up_stale_aliases pex_cfg Local [rca_ca pex_alias] pex_state =
     Inl (InvalidCustom (custom_invalidity_code AliasNotStaleInvalid))"
    using m rv by (simp add: authorize_clean_up_stale_aliases_def check_stale_alias_def ensure_alias_is_stale_def pex_cfg_def pex_service_def)
  moreover have "p_authorized pex_cfg PexAuthorized" by (simp add: pex_cfg_def)
  from clean_up_dispatch_trusts_caller[OF pex_inv m this] have "is_ok (clean_up_stale_aliases pex_cfg PexAuthorized [rca_ca pex_alias] pex_state)"
    by auto
  ultimately show ?thesis by blast
qed

end
