(* ===== verification/Members_Active.thy ===== *)
theory Members_Active
  imports Members_Invariant
begin

text \<open>
  The keys that are active in a collection, which is all that the users of the members pallet rely on: adding
  and removing members changes them, and nothing the pallet does in between (building, onboarding, merging,
  removing suspended keys, cleaning up) does, whatever collection it works on.
\<close>

definition kept_active :: "coll_id \<Rightarrow> ('acc, 'loc, 'm, 'r, 'i) mst \<Rightarrow> ('acc, 'loc, 'm, 'r, 'i) mst \<Rightarrow> bool" where
  "kept_active i s s' \<longleftrightarrow> fmlookup (Collections s') i = fmlookup (Collections s) i \<and>
     (\<forall>k. active_at (view s' i) k = active_at (view s i) k)"

lemma kept_active_refl [simp]: "kept_active i s s"
  by (simp add: kept_active_def)

lemma kept_active_trans: "kept_active i s s1 \<Longrightarrow> kept_active i s1 s2 \<Longrightarrow> kept_active i s s2"
  by (simp add: kept_active_def)

lemma kept_active_Members:
  assumes "Collections s' = Collections s"
    and "\<And>k. fmlookup (Members s') (i, k) = fmlookup (Members s) (i, k)"
  shows "kept_active i s s'"
  using assms by (simp add: kept_active_def active_at_def)

lemma kept_active_view: "Collections s' = Collections s \<Longrightarrow> view s' i = view s i \<Longrightarrow> kept_active i s s'"
  by (simp add: kept_active_def)

lemma kept_active_other: "only_at j s s' \<Longrightarrow> i \<noteq> j \<Longrightarrow> kept_active i s s'"
  by (simp add: kept_active_def only_at_def)

lemma kept_active_only:
  "only_at j s s' \<and> X \<Longrightarrow> (i = j \<Longrightarrow> \<forall>k. active_at (view s' i) k = active_at (view s i) k) \<Longrightarrow> kept_active i s s'"
  by (cases "i = j") (auto simp: kept_active_def only_at_def)

subsection \<open>The operations on the keys of a collection\<close>

lemma build_ring_active:
  assumes run: "build_ring cfg now j r n s = Inr s'"
  shows "kept_active i s s'"
  by (rule kept_active_Members)
    (use run in \<open>auto simp: build_ring_def archive_root_def on_ring_root_change_def members_deposit_def bindE_Inr
      ok_or_Inr Let_def split: option.splits if_splits prod.splits\<close>)

lemma queue_active:
  assumes "coll_ok m P Q C X v" "k \<in> set (c_queue v p)"
  shows "active_at v k"
  using assms unfolding coll_ok_def queue_fwd_def by (fastforce simp: active_at_def)

lemma onboard_members_active:
  fixes s :: "('acc, 'loc, 'm, 'r, 'i) mst"
  assumes inv: "members_inv cfg s" and room: "room_in cfg j s" and run: "onboard_members cfg j b s = Inr (s', x)"
  shows "kept_active i s s'"
proof -
  obtain info where info: "fmlookup (Collections s) j = Some info"
    using run by (cases "fmlookup (Collections s) j") (simp_all add: onboard_members_def)
  note cinv = inv_live[OF inv info]
  then have ok: "coll_ok (ci_mode info) (flexible_ring_capacity cfg) (onboarding_queue_page_size cfg) (ring_capacity cfg (ci_ring_size info)) {} (view s j)"
    by (simp add: coll_inv_def)
  let ?C = "ring_capacity cfg (ci_ring_size info)" and ?cur = "current_ring s j"
  obtain old t where ends: "queue_ends s j = (old, t)" by force
  let ?slots = "?C - total (status_of s j ?cur)"
  let ?two = "length (queue_page_of s j old) < ?slots \<and> old \<noteq> t"
  let ?kti = "if ?two then queue_page_of s j old @ queue_page_of s j (next_page old) else queue_page_of s j old"
  show ?thesis
  proof (cases "should_onboard_members j ?cur (status_of s j ?cur) ?slots (length ?kti) (get_or 0 (OnboardingSize s) j) ?C s")
    case None
    then have "s' = s" using onboard_members_None[OF info cinv refl refl refl ends refl refl, of b] run by (cases b) auto
    then show ?thesis by simp
  next
    case (Some y)
    obtain n filled where sh: "should_onboard_members j ?cur (status_of s j ?cur) ?slots (length ?kti) (get_or 0 (OnboardingSize s) j) ?C s
        = Some (n, filled)" using Some by (cases y) simp
    from onboard_members_ok[OF info cinv room_roomy[OF room info] refl refl refl ends refl refl sh, of b] run
    obtain h' where r: "only_at j s s'" and veq: "view s' j = (fold (place (flexible_ring_capacity cfg) ?cur) (take n ?kti)
        ((view s j)\<lparr>c_queue := (c_queue (view s j))(old := [], (if ?two then next_page old else old) := drop n ?kti), c_head := h'\<rparr>))
        \<lparr>c_active := c_active (view s j) + n, c_current := if tot (view s j) ?cur + n = ?C then Suc ?cur else ?cur\<rparr>"
      by auto
    have was: "active_at (view s j) k" if "k \<in> set (take n ?kti)" for k
    proof -
      have "k \<in> set (c_queue (view s j) old) \<or> k \<in> set (c_queue (view s j) (next_page old))"
        using in_set_takeD[OF that] by (auto split: if_splits)
      then show ?thesis using queue_active[OF ok] by blast
    qed
    have "active_at (view s' j) k = active_at (view s j) k" for k
    proof -
      have "active_at (view s' j) k \<longleftrightarrow> k \<in> set (take n ?kti) \<or> active_at (view s j) k"
        unfolding veq using active_place_all[of "flexible_ring_capacity cfg" ?cur "take n ?kti"] by (simp add: active_at_def)
      then show ?thesis using was by blast
    qed
    then show ?thesis using kept_active_only[of j s s' True i] r by simp
  qed
qed

lemma merge_queue_pages_active:
  assumes run: "merge_queue_pages cfg j h n ks1 ks2 s = Inr s'" and dist: "i = j \<Longrightarrow> distinct ks1"
  shows "kept_active i s s'"
proof (cases "i = j")
  case True
  have m: "Collections s' = Collections s" "Members s' = fold (\<lambda>k m. case fmlookup m (j, k) of Some (Onboarding _ t) \<Rightarrow> fmupd (j, k) (Onboarding n t) m | _ \<Rightarrow> m) ks1 (Members s)"
    using run by (auto simp: merge_queue_pages_def bindE_Inr ensure_Inr Let_def)
  then show ?thesis
    by (auto simp: kept_active_def active_at_def merge_members_lookup[OF dist[OF True]] split: option.splits ring_position.splits)
next
  case False
  then show ?thesis using merge_queue_pages_local(1,4)[OF run] by (intro kept_active_view) simp_all
qed

lemma available_ring_frame:
  "available_ring cfg j C u = (x, s2) \<Longrightarrow> Members s2 = Members u \<and> Collections s2 = Collections u"
  by (auto simp: available_ring_def Let_def split: if_splits)

lemma self_include_active:
  assumes run: "do_self_include cfg j m s = Inr s'"
  shows "kept_active i s s'"
proof -
  obtain info where info: "fmlookup (Collections s) j = Some info"
    by (cases "fmlookup (Collections s) j") (use run in \<open>simp_all add: do_self_include_def\<close>)
  have ao: "append_only (rings_mode s j)"
    by (rule ccontr) (use run info in \<open>simp add: do_self_include_def ensure_def Let_def\<close>)
  obtain pos0 where pos0: "fmlookup (Members s) (j, m) = Some pos0"
    by (cases "fmlookup (Members s) (j, m)") (use run info ao in \<open>simp_all add: do_self_include_def Let_def\<close>)
  obtain p t where pos: "fmlookup (Members s) (j, m) = Some (Onboarding p t)"
    by (cases pos0) (use run info ao pos0 in \<open>simp_all add: do_self_include_def Let_def\<close>)
  have mem: "m \<in> set (queue_page_of s j p)"
    by (rule ccontr) (use run info ao pos in \<open>simp add: do_self_include_def Let_def\<close>)
  obtain head tl where ends: "queue_ends s j = (head, tl)" by force
  let ?keys = "remove1 m (queue_page_of s j p)"
  let ?s1 = "if ?keys = [] then s\<lparr>OnboardingQueue := fmdrop (j, p) (OnboardingQueue s),
      QueuePageIndices := fmupd j (if head = p \<and> head \<noteq> tl then next_page p else head, tl) (QueuePageIndices s)\<rparr>
    else s\<lparr>OnboardingQueue := fmupd (j, p) ?keys (OnboardingQueue s)\<rparr>"
  obtain x s2 where av0: "available_ring cfg j (ring_capacity cfg (ci_ring_size info)) ?s1 = (x, s2)" by (rule prod.exhaust)
  obtain ring page rk st where x: "x = (ring, page, rk, st)" by (rule prod_cases4)
  note av = av0[unfolded x]
  have s2: "Members s2 = Members s" "Collections s2 = Collections s" using available_ring_frame[OF av] by simp_all
  have "Members s' = fmupd (j, m) (Included ring page (length rk)) (Members s) \<and> Collections s' = Collections s"
    using run s2 by (auto simp: do_self_include_def info pos mem ao ends av bindE_Inr ok_or_Inr Let_def split: if_splits)
  then show ?thesis using pos by (auto simp: kept_active_def active_at_def)
qed

subsection \<open>Operations on other collections\<close>

lemma suspended_not_live: "members_inv cfg s \<Longrightarrow> contains_key (SuspendedCollections s) j \<Longrightarrow> contains_key (Collections s) i \<Longrightarrow> i \<noteq> j"
  using inv_suspended by fastforce

lemma delete_queue_page_active:
  assumes run: "delete_onboarding_queue_page j p s = (s', n)" and i: "i \<noteq> j"
  shows "kept_active i s s'"
  by (rule kept_active_Members) (use run i in \<open>auto simp: delete_onboarding_queue_page_def Let_def fold_drop_lookup\<close>)

lemma finalize_active: "i \<noteq> j \<Longrightarrow> kept_active i s (finalize_collection_deletion j s)"
  by (rule kept_active_Members) (auto simp: finalize_collection_deletion_def members_deposit_def Let_def split: option.splits)

lemma enqueue_ring_active:
  assumes run: "enqueue_ring_for_deletion cfg now j r s = (s', n)"
  shows "kept_active i s s'"
  by (rule kept_active_Members)
    (use run in \<open>auto simp: enqueue_ring_for_deletion_def archive_root_def on_ring_root_change_def Let_def split: option.splits if_splits\<close>)

lemma remove_suspended_active:
  assumes inv: "members_inv cfg s" and pend: "pending_of s j r \<noteq> []" and run: "remove_suspended_keys cfg now j r s = (s', w)"
  shows "kept_active i s s'"
proof (cases "fmlookup (Collections s) j")
  case None
  then show ?thesis using run by (simp add: remove_suspended_keys_def)
next
  case (Some info)
  from remove_suspended_keys_ok[OF Some inv_live[OF inv Some] pend run] show ?thesis
    by (intro kept_active_only[of j s s' True]) simp_all
qed

text \<open>In a flexible collection no ring is queued for deletion.\<close>

lemma delete_ring_page_active:
  assumes inv: "members_inv cfg s" and live: "fmlookup (Collections s) i = Some info" "ci_mode info = Flexible"
    and rm: "contains_key (RingDeletionQueue s) (j, r, p)"
    and run: "delete_ring_page j r p (s\<lparr>RingDeletionQueue := fmdrop (j, r, p) (RingDeletionQueue s)\<rparr>) = (s', n)"
  shows "kept_active i s s'"
proof -
  have "\<not> c_removed (view s i) r p" for r p
    using inv_live[OF inv live(1)] live(2) unfolding coll_inv_def coll_ok_def mode_ok_def by blast
  then have "i \<noteq> j" using rm by auto
  then show ?thesis
    using delete_ring_page_local(1)[OF run] delete_ring_page_local(4)[OF run] by (intro kept_active_view) simp_all
qed

lemma call_active:
  assumes inv: "members_inv cfg s" and ok: "members_op_ok cfg (now, OpCall src order org d call) s"
    and auth: "authorize_members_call cfg now src call s"
    and run: "dispatch_members_call cfg now org order d call s = Inr (s', pst)"
    and live: "fmlookup (Collections s) i = Some info" "ci_mode info = Flexible"
  shows "kept_active i s s'"
proof (cases call)
  case (CallBuildRing j r e rv n)
  then show ?thesis
    using run build_ring_active by (auto simp: dispatch_members_call_def build_ring_authorized_def bindE_Inr)
next
  case (CallOnboardMembers j r h m)
  then show ?thesis
    using run ok onboard_members_active[OF inv] by (auto simp: dispatch_members_call_def onboard_members_authorized_def bindE_Inr)
next
  case (CallMergeQueuePages j h n)
  have m: "merge_queue_pages cfg j h n (queue_page_of s j h) (queue_page_of s j n) s = Inr s'"
    using run CallMergeQueuePages by (auto simp: dispatch_members_call_def merge_queue_pages_authorized_def bindE_Inr)
  have "distinct (c_queue (view s i) h)"
    using inv_live[OF inv live(1)] unfolding coll_inv_def coll_ok_def queue_shape_def by blast
  then show ?thesis by (intro merge_queue_pages_active[OF m]) simp
next
  case (CallRemoveSuspendedKeys j r rv)
  then have "pending_of s j r \<noteq> []"
    using auth by (auto simp: authorize_members_call_def is_ok_iff ensure_can_remove_suspended_keys_def bindE_Inr ensure_Inr
        should_remove_suspended_keys_def split: if_splits)
  then show ?thesis
    using run CallRemoveSuspendedKeys remove_suspended_active[OF inv]
    by (auto simp: dispatch_members_call_def remove_suspended_keys_authorized_def bindE_Inr split: prod.splits)
next
  case (CallDeleteRingPage j r p)
  then show ?thesis
    using auth run delete_ring_page_active[OF inv live]
    by (auto simp: authorize_members_call_def dispatch_members_call_def delete_ring_page_authorized_def bindE_Inr
        ensure_can_delete_ring_page_def is_ok_iff ensure_Inr split: prod.splits)
next
  case (CallEnqueueRingDeletion j r)
  then show ?thesis
    using run enqueue_ring_active
    by (auto simp: dispatch_members_call_def enqueue_ring_deletion_authorized_def bindE_Inr split: prod.splits)
next
  case (CallDeleteOnboardingQueuePage j p)
  then have "contains_key (SuspendedCollections s) j"
    using auth by (auto simp: authorize_members_call_def ensure_can_delete_onboarding_queue_page_def is_ok_iff bindE_Inr ensure_Inr)
  then have "i \<noteq> j" using suspended_not_live[OF inv] live by blast
  then show ?thesis
    using run CallDeleteOnboardingQueuePage delete_queue_page_active
    by (auto simp: dispatch_members_call_def delete_onboarding_queue_page_authorized_def bindE_Inr split: prod.splits)
next
  case (CallFinalizeCollectionDeletion j)
  then have "contains_key (SuspendedCollections s) j"
    using auth by (auto simp: authorize_members_call_def ensure_can_finalize_collection_deletion_def is_ok_iff bindE_Inr ensure_Inr)
  then have "i \<noteq> j" using suspended_not_live[OF inv] live by blast
  then show ?thesis
    using run CallFinalizeCollectionDeletion finalize_active
    by (auto simp: dispatch_members_call_def finalize_collection_deletion_authorized_def bindE_Inr)
next
  case (CallRemoveOrphanedMembers j)
  then have "contains_key (SuspendedCollections s) j"
    using auth by (auto simp: authorize_members_call_def ensure_can_remove_orphaned_members_def is_ok_iff bindE_Inr ensure_Inr)
  then have "i \<noteq> j" using suspended_not_live[OF inv] live by blast
  moreover have "s' = s\<lparr>Members := fold (\<lambda>k. fmdrop (j, k)) (take ORPHANED_MEMBERS_REMOVAL_LIMIT order) (Members s)\<rparr>"
    using run CallRemoveOrphanedMembers
    by (auto simp: dispatch_members_call_def remove_orphaned_members_authorized_def bindE_Inr Let_def)
  ultimately show ?thesis by (intro kept_active_Members) (simp_all add: fold_drop_lookup)
next
  case (CallMarkRingStale j r)
  then have "s' = s\<lparr>StaleRings := fmupd (j, r) () (StaleRings s)\<rparr>"
    using run by (auto simp: dispatch_members_call_def mark_ring_stale_authorized_def bindE_Inr)
  then show ?thesis by (intro kept_active_Members) simp_all
next
  case (CallCleanUpOldRoots j r n)
  then obtain k where "clean_up_loop now (old_root_retention_duration cfg) j r n 0 s = (s', k)"
    using run by (auto simp: dispatch_members_call_def clean_up_old_roots_authorized_def bindE_Inr split: prod.splits)
  from clean_up_loop_frame[OF this] show ?thesis by (intro kept_active_view) simp_all
qed

subsection \<open>Every operation\<close>

text \<open>The operations that are meant to change the active keys of a collection, or to end it.\<close>

fun changes_members :: "coll_id \<Rightarrow> ('loc, 'm, 'o) members_op \<Rightarrow> bool" where
  "changes_members i (OpAddMembers j ms) = (j = i)"
| "changes_members i (OpRemoveMembers j ms) = (j = i)"
| "changes_members i (OpDeleteCollection own j) = (j = i)"
| "changes_members i _ = False"

lemma members_step_active:
  assumes inv: "members_inv cfg s" and ok: "members_op_ok cfg (now, op) s" and run: "members_step cfg (now, op) s = Inr s'"
    and live: "fmlookup (Collections s) i = Some info" "ci_mode info = Flexible" and keep: "\<not> changes_members i op"
  shows "kept_active i s s'"
proof (cases op)
  case (OpCall src order org d call)
  then show ?thesis using run ok call_active[OF inv _ _ _ live] by (auto simp: bindE_Inr ensure_Inr post_state_Inr)
next
  case (OpMergeRings org j b t)
  then obtain pst where m: "merge_rings cfg now org j b t s = Inr (s', pst)" using run by (auto simp: post_state_Inr)
  then obtain inf where inf: "fmlookup (Collections s) j = Some inf" by (auto simp: merge_rings_def bindE_Inr ok_or_Inr)
  from merge_rings_ok[OF inf inv_live[OF inv inf] m] show ?thesis by (intro kept_active_only[of j s s' True]) simp_all
next
  case OpSetOnboardingSize
  then show ?thesis
    using run by (intro kept_active_Members) (auto simp: post_state_Inr set_onboarding_size_def bindE_Inr members_deposit_def)
next
  case (OpSelfInclude org j k t)
  then obtain s1 where inc: "do_self_include cfg j k s = Inr s1" and s': "s' = members_deposit (MemberSelfIncluded j k) s1"
    using run by (auto simp: post_state_Inr self_include_def bindE_Inr ensure_Inr split: option.splits members_origin.splits)
  have "kept_active i s1 s'" unfolding s' by (rule kept_active_Members) (simp_all add: members_deposit_def)
  with self_include_active[OF inc] show ?thesis by (rule kept_active_trans)
next
  case (OpCreateCollection own j n md e d)
  then have "fmlookup (Collections s) j = None" using run by (auto simp: create_collection_def bindE_Inr ensure_Inr)
  then have "i \<noteq> j" using live by auto
  then show ?thesis
    using run OpCreateCollection by (auto simp: create_collection_def bindE_Inr ok_or_Inr Let_def kept_active_def active_at_def)
next
  case (OpAddMembers j ms)
  then obtain inf where inf: "fmlookup (Collections s) j = Some inf" and loop: "add_members_loop cfg now j ms s = Inr s'"
    using run by (auto simp: add_members_def bindE_Inr ok_or_Inr)
  have "only_at j s s'" using add_members_loop_ok[OF inv_live[OF inv inf] _ loop] ok OpAddMembers by simp
  then show ?thesis using keep OpAddMembers by (intro kept_active_other[of j]) auto
next
  case (OpRemoveRing j r)
  then show ?thesis
    using run enqueue_ring_active[of cfg now j r s] by (cases "enqueue_ring_for_deletion cfg now j r s")
      (auto simp: remove_ring_def bindE_Inr ensure_Inr split: if_splits)
next
  case (OpRemoveMembers j ms)
  then obtain inf where inf: "fmlookup (Collections s) j = Some inf" "ci_mode inf = Flexible"
    and loop: "queue_member_suspensions_loop (flexible_ring_capacity cfg) j ms s = Inr s'"
    using run ok by (auto simp: queue_member_suspensions_def bindE_Inr ensure_Inr mode_is_def split: option.splits)
  have "only_at j s s'" using suspensions_loop_ok[OF inf(2) inv_live[OF inv inf(1)] loop] by blast
  then show ?thesis using keep OpRemoveMembers by (intro kept_active_other[of j]) auto
next
  case (OpDeleteCollection own j)
  then show ?thesis
    using run keep by (auto simp: delete_collection_def bindE_Inr ensure_Inr ok_or_Inr Let_def members_deposit_def kept_active_def active_at_def)
next
  case OpStartSession
  then show ?thesis
    using run by (intro kept_active_Members) (auto simp: start_removal_session_def bindE_Inr split: if_splits)
next
  case OpEndSession
  then show ?thesis
    using run by (intro kept_active_Members) (auto simp: end_removal_session_def bindE_Inr split: if_splits)
qed

text \<open>Adding and removing keys.\<close>

lemma push_active:
  assumes run: "push_to_onboarding_queue cfg now i k s = Inr s'"
  shows "active_at (view s' i) x \<longleftrightarrow> x = k \<or> active_at (view s i) x"
  using run by (auto simp: push_to_onboarding_queue_def bindE_Inr ok_or_Inr Let_def members_deposit_def active_at_def
      split: option.splits if_splits prod.splits)

lemma add_members_active:
  "coll_inv cfg info (view s i) \<Longrightarrow> snd (queue_ends s i) + length ks + n \<le> max_of 32 \<Longrightarrow> add_members_loop cfg now i ks s = Inr s' \<Longrightarrow>
   set ks \<inter> {k. active_at (view s i) k} = {} \<and> distinct ks \<and> snd (queue_ends s' i) + n \<le> max_of 32 \<and>
   (\<forall>x. active_at (view s' i) x \<longleftrightarrow> x \<in> set ks \<or> active_at (view s i) x)"
proof (induction ks arbitrary: s)
  case (Cons k ks)
  from Cons.prems(3) obtain s1 where pos: "fmlookup (Members s) (i, k) = None \<or> fmlookup (Members s) (i, k) = Some Suspended"
    and push: "push_to_onboarding_queue cfg now i k s = Inr s1" and rest: "add_members_loop cfg now i ks s1 = Inr s'"
    by (auto simp: bindE_Inr ensure_Inr split: option.splits)
  have 1: "coll_inv cfg info (view s1 i)" "snd (queue_ends s1 i) \<le> Suc (snd (queue_ends s i))"
    using push_ok[OF Cons.prems(1) pos _ push] Cons.prems(2) by auto
  have "snd (queue_ends s1 i) + length ks + n \<le> max_of 32" using 1(2) Cons.prems(2) by simp
  from Cons.IH[OF 1(1) this rest] push_active[OF push] pos show ?case by (auto simp: active_at_def)
qed simp

lemma suspensions_active:
  "queue_member_suspensions_loop ps i ks s = Inr s' \<Longrightarrow>
   active_at (view s' i) x \<longleftrightarrow> x \<notin> set ks \<and> active_at (view s i) x"
proof (induction ks arbitrary: s)
  case (Cons k ks)
  from Cons.prems obtain position where pos: "fmlookup (Members s) (i, k) = Some position" by (auto simp: bindE_Inr ok_or_Inr)
  obtain s1 where "Members s1 = fmupd (i, k) Suspended (Members s)" "queue_member_suspensions_loop ps i ks s1 = Inr s'"
  proof (cases position)
    case (Included r p slot)
    with Cons.prems pos obtain ixs where "index_insert slot (pending_of s i r) = Some ixs"
      "queue_member_suspensions_loop ps i ks (s\<lparr>PendingSuspensions := fmupd (i, r) ixs (PendingSuspensions s),
          Members := fmupd (i, k) Suspended (Members s)\<rparr>) = Inr s'"
      by (auto simp: bindE_Inr ok_or_Inr ensure_Inr)
    then show ?thesis by (intro that) simp_all
  next
    case (Onboarding p t)
    with Cons.prems pos show ?thesis by (intro that[rotated]) (auto simp: bindE_Inr ensure_Inr Let_def split: if_splits)
  next
    case Suspended
    with Cons.prems pos show ?thesis by (intro that[rotated]) (auto simp: bindE_Inr)
  qed
  then show ?case using Cons.IH[of s1] by (auto simp: active_at_def)
qed simp

end
