(* ===== verification/PeopleMembers.thy ===== *)
theory PeopleMembers
  imports PeopleProperties Members_Example Members_Active
begin

text \<open>
  The registry of people on top of its member service. The locale \<open>member_registry\<close> is what the registry
  relies on: adding and removing keys of the people collection changes its active keys by exactly these keys,
  and nothing else changes them. Inside it, recognition and membership agree: a person is recognized exactly
  while the person's key is active in the collection. The members pallet provides the service in the runtime
  (\<open>type MemberService = Members\<close> in \<^verbatim>\<open>runtimes/next-people-paseo/src/people.rs\<close>), and its model is the
  interpretation.
\<close>

subsection \<open>Recognized keys\<close>

definition recognized :: "('acc, 'm, 'ms) pst \<Rightarrow> personal_id \<Rightarrow> ('m \<times> bool) option" where
  "recognized s pid = map_option (\<lambda>r. (pr_key r, history_open (pr_history r))) (fmlookup (People s) pid)"

definition recognized_keys :: "('acc, 'm, 'ms) pst \<Rightarrow> 'm set" where
  "recognized_keys s = {k. \<exists>pid. recognized s pid = Some (k, True)}"

lemma recognized_keys_insert:
  assumes new: "recognized s' = (recognized s)(pid := Some (k, True))" and old: "\<And>k'. recognized s pid \<noteq> Some (k', True)"
  shows "recognized_keys s' = insert k (recognized_keys s)"
proof -
  have "x \<in> recognized_keys s' \<longleftrightarrow> x = k \<or> x \<in> recognized_keys s" for x
  proof
    assume "x \<in> recognized_keys s'"
    then obtain q where "recognized s' q = Some (x, True)" by (auto simp: recognized_keys_def)
    then show "x = k \<or> x \<in> recognized_keys s" by (cases "q = pid") (auto simp: recognized_keys_def new)
  next
    assume "x = k \<or> x \<in> recognized_keys s"
    then show "x \<in> recognized_keys s'"
    proof
      assume "x = k"
      then have "recognized s' pid = Some (x, True)" by (simp add: new)
      then show ?thesis by (auto simp: recognized_keys_def)
    next
      assume "x \<in> recognized_keys s"
      then obtain q where "recognized s q = Some (x, True)" by (auto simp: recognized_keys_def)
      moreover from this have "q \<noteq> pid" using old by auto
      ultimately have "recognized s' q = Some (x, True)" by (simp add: new)
      then show ?thesis by (auto simp: recognized_keys_def)
    qed
  qed
  then show ?thesis by blast
qed

text \<open>Most operations change neither the service nor who is recognized.\<close>

definition same_standing :: "('acc, 'm, 'ms) pst \<Rightarrow> ('acc, 'm, 'ms) pst \<Rightarrow> bool" where
  "same_standing s s' \<longleftrightarrow> service s' = service s \<and> recognized s' = recognized s"

lemma same_standing_refl [simp]: "same_standing s s"
  by (simp add: same_standing_def)

lemma same_standing_trans: "same_standing s s1 \<Longrightarrow> same_standing s1 s2 \<Longrightarrow> same_standing s s2"
  by (simp add: same_standing_def)

lemma same_standing_frame: "service s' = service s \<Longrightarrow> People s' = People s \<Longrightarrow> same_standing s s'"
  by (simp add: same_standing_def recognized_def fun_eq_iff)

lemma same_standing_deposit [simp]:
  "same_standing s (people_deposit e s)" "same_standing s (people_deposit e (s\<lparr>PeopleCollectionCreated := b\<rparr>))"
  by (simp_all add: same_standing_def recognized_def fun_eq_iff people_deposit_def)

lemma same_standing_account:
  "service s' = service s \<Longrightarrow> fmlookup (People s) pid = Some r \<Longrightarrow> People s' = fmupd pid (r\<lparr>pr_account := a\<rparr>) (People s) \<Longrightarrow>
   same_standing s s'"
  by (auto simp: same_standing_def recognized_def fun_eq_iff)

lemma standing_keys: "same_standing s s' \<Longrightarrow> recognized_keys s' = recognized_keys s"
  by (simp add: same_standing_def recognized_keys_def)

lemma set_alias_account_standing: "set_alias_account cfg now org a v s = Inr (s', p) \<Longrightarrow> same_standing s s'"
  by (rule same_standing_frame)
    (auto simp: set_alias_account_def bindE_Inr Let_def people_deposit_def inc_sufficients_def dec_sufficients_def
      split: option.splits if_splits)

lemma unset_alias_account_standing: "unset_alias_account cfg org s = Inr s' \<Longrightarrow> same_standing s s'"
  by (rule same_standing_frame) (auto simp: unset_alias_account_def bindE_Inr Let_def people_deposit_def dec_sufficients_def)

lemma clean_up_alias_standing: "clean_up_alias ca s = Inr s' \<Longrightarrow> same_standing s s'"
  by (rule same_standing_frame) (auto simp: clean_up_alias_def bindE_Inr people_deposit_def dec_sufficients_def)

lemma clean_up_loop_service: "clean_up_aliases_loop cas n s = (m, s') \<Longrightarrow> service s' = service s"
  by (induction cas n s rule: clean_up_aliases_loop.induct)
    (auto simp: people_deposit_def dec_sufficients_def split: option.splits if_splits)

lemma clean_up_loop_standing: "clean_up_aliases_loop cas n s = (m, s') \<Longrightarrow> same_standing s s'"
  using clean_up_loop_service clean_up_aliases_frame same_standing_frame by metis

lemma set_personal_id_account_standing:
  assumes run: "set_personal_id_account cfg now org a v s = Inr (s', p)"
  shows "same_standing s s'"
proof -
  obtain pid r where r: "fmlookup (People s) pid = Some r"
    and "service s' = service s \<and> People s' = fmupd pid (r\<lparr>pr_account := Some a\<rparr>) (People s)"
    using run
    by (simp add: set_personal_id_account_def bindE_Inr ok_or_Inr ensure_Inr Let_def)
      (elim exE conjE, case_tac "pr_account xa", auto simp: people_deposit_def inc_sufficients_def dec_sufficients_def)
  then show ?thesis by (intro same_standing_account[OF _ r]) simp_all
qed

lemma unset_personal_id_account_standing: "unset_personal_id_account cfg org s = Inr (s', p) \<Longrightarrow> same_standing s s'"
  by (auto simp: unset_personal_id_account_def bindE_Inr ok_or_Inr Let_def people_deposit_def dec_sufficients_def
      intro!: same_standing_account)

lemma reserve_new_id_standing: "reserve_new_id s = (pid, s') \<Longrightarrow> same_standing s s'"
  by (rule same_standing_frame) (auto simp: reserve_new_id_def Let_def)

lemma as_person_standing: "as_person_prepare ext val ns s = Inr (ns', s') \<Longrightarrow> same_standing s s'"
  by (rule same_standing_frame) (auto simp: as_person_prepare_def bindE_Inr split: extension_val.splits)

lemma closed_id:
  assumes "close_histories now ids {} s = (Inr recs :: 'x people_err + _)" "pid \<in> set ids"
  shows "\<exists>r q h. fmlookup (People s) pid = Some r \<and> close_history (pr_history r) now = Some (q, h)"
proof -
  note cs = close_histories_spec[OF assms(1)]
  then have "pid \<in> set (map fst recs)" using assms(2) by simp
  then obtain rec where "(pid, rec) \<in> set recs" by auto
  then show ?thesis using cs by (fastforce simp: closed_records_def)
qed

subsection \<open>The interface\<close>

locale member_registry =
  fixes svc :: "('ms, 'x, 'm, 'proof) member_service"
    and good :: "'ms \<Rightarrow> bool"
    and active :: "'ms \<Rightarrow> 'm set"
    and room :: "nat \<Rightarrow> 'ms \<Rightarrow> bool"
    and svc_step :: "'sop \<Rightarrow> 'ms \<Rightarrow> 'x + 'ms"
    and svc_ok :: "'sop \<Rightarrow> 'ms \<Rightarrow> bool"
  assumes verify_law: "verify_context_ok svc"
    and create_law: "good ms \<Longrightarrow> ms_create svc PEOPLE_IDENTIFIER n Flexible e d ms = Inr ms' \<Longrightarrow>
      good ms' \<and> active ms' = active ms"
    and add_law: "good ms \<Longrightarrow> room (length ks + n) ms \<Longrightarrow> ms_add svc t PEOPLE_IDENTIFIER ks ms = Inr ms' \<Longrightarrow>
      good ms' \<and> room n ms' \<and> active ms' = active ms \<union> set ks"
    and remove_law: "good ms \<Longrightarrow> ms_remove svc PEOPLE_IDENTIFIER ks ms = Inr ms' \<Longrightarrow>
      good ms' \<and> active ms' = active ms - set ks"
    and start_law: "good ms \<Longrightarrow> ms_start svc PEOPLE_IDENTIFIER ms = Inr ms' \<Longrightarrow> good ms' \<and> active ms' = active ms"
    and end_law: "good ms \<Longrightarrow> ms_end svc PEOPLE_IDENTIFIER ms = Inr ms' \<Longrightarrow> good ms' \<and> active ms' = active ms"
    and step_law: "good ms \<Longrightarrow> svc_ok op ms \<Longrightarrow> svc_step op ms = Inr ms' \<Longrightarrow> good ms' \<and> active ms' = active ms"

text \<open>The side conditions of a run: there are ids left, and the service has room for the keys to add.\<close>

fun registry_op_ok ::
  "(nat \<Rightarrow> 'ms \<Rightarrow> bool) \<Rightarrow> ('sop \<Rightarrow> 'ms \<Rightarrow> bool) \<Rightarrow> block_number \<times> secs \<times> ('acc, 'm, 'o, 'proof, 'sig, 'imp, 'sop) people_op
     \<Rightarrow> ('acc, 'm, 'ms) pst \<Rightarrow> bool" where
  "registry_op_ok room svc_ok (now, t, OpRecognize pid mk) s = room 1 (service s)"
| "registry_op_ok room svc_ok (now, t, OpForceRecognize org ks) s =
     (room (length ks) (service s) \<and> NextPersonalId s + length ks \<le> max_of 64)"
| "registry_op_ok room svc_ok (now, t, OpService sop) s = svc_ok sop (service s)"
| "registry_op_ok room svc_ok op s = people_op_ok op s"

lemma registry_people_op_ok: "registry_op_ok room svc_ok op s \<Longrightarrow> people_op_ok op s"
  by (cases "(room, svc_ok, op, s)" rule: registry_op_ok.cases) simp_all

definition registry_inv :: "('ms \<Rightarrow> bool) \<Rightarrow> ('ms \<Rightarrow> 'm set) \<Rightarrow> ('acc, 'm, 'ms) pst \<Rightarrow> bool" where
  "registry_inv good active s \<longleftrightarrow> people_inv s \<and> good (service s) \<and> active (service s) = recognized_keys s"

lemma registry_inv_standing:
  "registry_inv good active s \<Longrightarrow> people_inv s' \<Longrightarrow> same_standing s s' \<Longrightarrow> registry_inv good active s'"
  by (simp add: registry_inv_def standing_keys) (simp add: same_standing_def)

context member_registry
begin

lemma service_only:
  assumes "registry_inv good active s" "with_service res s = Inr s'" "people_inv s'"
    and "\<And>ms. res = Inr ms \<Longrightarrow> good ms \<and> active ms = active (service s)"
  shows "registry_inv good active s'"
proof -
  obtain ms where "res = Inr ms" "s' = s\<lparr>service := ms\<rparr>" using assms(2) by (auto simp: with_service_Inr)
  then show ?thesis using assms(1,3,4) by (simp add: registry_inv_def recognized_keys_def recognized_def)
qed

lemma recognize_standing:
  assumes inv: "registry_inv good active s" and sv: "member_svc cfg = svc" and room: "room (Suc n) (service s)"
    and run: "recognize_personhood cfg t pid mk s = Inr s'"
  shows "registry_inv good active s' \<and> room n (service s')"
proof -
  have p: "people_inv s" and g: "good (service s)" and act: "active (service s) = recognized_keys s"
    using inv by (simp_all add: registry_inv_def)
  have p': "people_inv s'" using recognize_inv[OF p run] by simp
  have added: "good ms \<and> room n ms \<and> active ms = insert k (recognized_keys s)"
    if "ms_add svc t PEOPLE_IDENTIFIER [k] (service s) = Inr ms" for k ms
    using add_law[OF g, of "[k]" n t ms] that room act by simp
  show ?thesis
  proof (cases mk)
    case (Some k)
    then obtain ms where ms: "ms_add svc t PEOPLE_IDENTIFIER [k] (service s) = Inr ms" and res: "contains_key (ReservedPersonalId s) pid"
      and s': "service s' = ms" "People s' = fmupd pid \<lparr>pr_key = k, pr_account = None, pr_history = open_since t\<rparr> (People s)"
      using run sv by (auto simp: recognize_personhood_def bindE_Inr ensure_Inr with_service_Inr Let_def people_deposit_def)
    have "fmlookup (People s) pid = None" using people_inv_parts(5)[OF p] res unfolding ids_ok_def by blast
    then have "recognized_keys s' = insert k (recognized_keys s)"
      by (intro recognized_keys_insert[where pid = pid]) (simp_all add: recognized_def s'(2) fun_eq_iff)
    then show ?thesis using added[OF ms] p' by (simp add: registry_inv_def s'(1))
  next
    case None
    then obtain r h ms where r: "fmlookup (People s) pid = Some r" and h: "open_history (pr_history r) t = Inr h"
      and ms: "ms_add svc t PEOPLE_IDENTIFIER [pr_key r] (service s) = Inr ms"
      and s': "service s' = ms" "People s' = fmupd pid (r\<lparr>pr_history := h\<rparr>) (People s)"
      using run sv by (auto simp: recognize_personhood_def bindE_Inr ensure_Inr ok_or_Inr map_err_Inr with_service_Inr people_deposit_def)
    have closed: "\<not> history_open (pr_history r)" and "history_open h" using h by (auto simp: open_history_Inr history_open_def)
    then have "recognized_keys s' = insert (pr_key r) (recognized_keys s)"
      using r by (intro recognized_keys_insert[where pid = pid]) (simp_all add: recognized_def s'(2) fun_eq_iff)
    then show ?thesis using added[OF ms] p' by (simp add: registry_inv_def s'(1))
  qed
qed

lemma recognize_all_standing:
  assumes sv: "member_svc cfg = svc"
  shows "registry_inv good active s \<Longrightarrow> room (length ks) (service s) \<Longrightarrow> NextPersonalId s + length ks \<le> max_of 64 \<Longrightarrow>
    recognize_all cfg t ks s = Inr s' \<Longrightarrow> registry_inv good active s'"
proof (induction ks arbitrary: s)
  case (Cons k ks)
  obtain pid s1 where r: "reserve_new_id s = (pid, s1)" by force
  then obtain s2 where rec: "recognize_personhood cfg t pid (Some k) s1 = Inr s2" and rest: "recognize_all cfg t ks s2 = Inr s'"
    using Cons.prems(4) by (auto simp: bindE_Inr)
  have p: "people_inv s" and room: "NextPersonalId s < max_of 64" using Cons.prems(1,3) by (simp_all add: registry_inv_def)
  note 1 = reserve_new_id_inv[OF p room r]
  have i1: "registry_inv good active s1" using registry_inv_standing[OF Cons.prems(1) _ reserve_new_id_standing[OF r]] 1 by blast
  have "room (Suc (length ks)) (service s1)" using 1 Cons.prems(2) by simp
  from recognize_standing[OF i1 sv this rec] have 2: "registry_inv good active s2" "room (length ks) (service s2)" by simp_all
  have "NextPersonalId s2 = NextPersonalId s1" using recognize_inv[OF _ rec] 1 by simp
  then have "NextPersonalId s2 + length ks \<le> max_of 64" using 1 Cons.prems(3) by simp
  then show ?case using Cons.IH[OF 2] rest by blast
qed simp

lemma suspend_standing:
  assumes inv: "registry_inv good active s" and sv: "member_svc cfg = svc" and run: "suspend_personhood cfg t ids s = Inr s'"
  shows "registry_inv good active s'"
proof -
  have p: "people_inv s" and g: "good (service s)" and act: "active (service s) = recognized_keys s"
    using inv by (simp_all add: registry_inv_def)
  have p': "people_inv s'" by (rule suspend_inv[OF p run])
  let ?key = "\<lambda>pid. pr_key (the (fmlookup (People s) pid))"
  obtain recs where c: "close_histories t ids {} s = (Inr recs :: 'x people_err + _)"
    by (cases "close_histories t ids {} s :: 'x people_err + _") (use run in \<open>simp_all add: suspend_personhood_def\<close>)
  let ?rem = "ms_remove svc PEOPLE_IDENTIFIER (map (pr_key \<circ> snd) recs) (service s)"
  obtain ms where ms: "?rem = Inr ms"
    by (cases ?rem) (use run sv c in \<open>simp_all add: suspend_personhood_def with_service_def\<close>)
  have s': "store_suspended recs (s\<lparr>service := ms\<rparr>) = s'"
    using run sv c ms by (simp add: suspend_personhood_def with_service_def)
  note cs = close_histories_spec[OF c]
  have ks: "map (pr_key \<circ> snd) recs = map ?key ids" using closed_records_keys[of t s recs] cs by blast
  have svc': "service s' = ms" using store_suspended_frame[of recs "s\<lparr>service := ms\<rparr>"] s' by simp
  have law: "good ms" "active ms = recognized_keys s - ?key ` set ids"
    using remove_law[OF g, of "map ?key ids" ms] ms act unfolding ks by simp_all
  have closed: "recognized s' pid = (if pid \<in> set ids then map_option (\<lambda>(k, _). (k, False)) (recognized s pid) else recognized s pid)" for pid
  proof (cases "pid \<in> set ids \<and> fmlookup (People s) pid \<noteq> None")
    case True
    then obtain r q h where r: "fmlookup (People s) pid = Some r" and "close_history (pr_history r) t = Some (q, h)"
      using closed_id[OF c, of pid] by blast
    then have "\<not> history_open (snd (the (close_history (pr_history r) t)))" using close_history_closes by auto
    then show ?thesis using True r suspend_result[OF run, of pid] by (simp add: recognized_def)
  next
    case False
    then show ?thesis using suspend_result[OF run, of pid] by (auto simp: recognized_def)
  qed
  have "recognized_keys s' = recognized_keys s - ?key ` set ids"
  proof (intro equalityI subsetI)
    fix k assume "k \<in> recognized_keys s'"
    then obtain pid where pid: "recognized s' pid = Some (k, True)" by (auto simp: recognized_keys_def)
    then have out: "pid \<notin> set ids" and rec: "recognized s pid = Some (k, True)"
      using closed[of pid] by (auto split: if_splits)
    have "k \<noteq> ?key q" if q: "q \<in> set ids" for q
    proof
      assume k: "k = ?key q"
      obtain r where r: "fmlookup (People s) q = Some r" using closed_id[OF c q] by blast
      then have "fmlookup (Keys s) k = Some q" using people_inv_parts(4)[OF p] k unfolding keys_ok_def by auto
      moreover have "fmlookup (Keys s) k = Some pid" using people_inv_parts(4)[OF p] rec unfolding keys_ok_def recognized_def by auto
      ultimately show False using out q by simp
    qed
    then show "k \<in> recognized_keys s - ?key ` set ids" using rec by (auto simp: recognized_keys_def)
  next
    fix k assume k: "k \<in> recognized_keys s - ?key ` set ids"
    then obtain pid where pid: "recognized s pid = Some (k, True)" by (auto simp: recognized_keys_def)
    then have "?key pid = k" by (auto simp: recognized_def)
    then have "pid \<notin> set ids" using k by auto
    then have "recognized s' pid = Some (k, True)" using closed[of pid] pid by simp
    then show "k \<in> recognized_keys s'" by (auto simp: recognized_keys_def)
  qed
  then show ?thesis using law p' by (simp add: registry_inv_def svc')
qed

lemma registry_step:
  assumes inv: "registry_inv good active s" and sv: "member_svc cfg = svc" and ok: "registry_op_ok room svc_ok op s"
    and run: "people_step cfg ext ns svc_step op s = Inr s'"
  shows "registry_inv good active s'"
proof -
  obtain now t p where op: "op = (now, t, p)" by (metis prod_cases3)
  have pi: "people_inv s" using inv by (simp add: registry_inv_def)
  have g: "good (service s)" using inv by (simp add: registry_inv_def)
  have pi': "people_inv s'" using people_step_inv[OF pi _ registry_people_op_ok[OF ok] run] verify_law sv by simp
  note st = registry_inv_standing[OF inv pi']
  show ?thesis
  proof (cases p)
    case (OpForceRecognize org ks)
    then obtain s1 where s1: "recognize_all cfg t ks s = Inr s1" "s' = people_deposit (ForcePersonhoodRecognized ks) s1"
      using run op by (auto simp: force_recognize_personhood_def bindE_Inr ensure_Inr)
    have "registry_inv good active s1" using recognize_all_standing[OF sv inv _ _ s1(1)] ok op OpForceRecognize by simp
    moreover have "same_standing s1 s'" by (simp add: s1(2))
    ultimately show ?thesis using registry_inv_standing pi' by blast
  next
    case (OpRecognize pid mk)
    then show ?thesis using recognize_standing[OF inv sv, of 0 t pid mk s'] run op ok by simp
  next
    case (OpSuspend ids)
    then show ?thesis using suspend_standing[OF inv sv] run op by simp
  next
    case (OpService sop)
    then show ?thesis using run op ok g step_law by (intro service_only[OF inv _ pi', of "svc_step sop (service s)"]) auto
  next
    case OpStartMutation
    then show ?thesis
      using run op g sv start_law
      by (intro service_only[OF inv _ pi', of "ms_start svc PEOPLE_IDENTIFIER (service s)"]) (auto simp: start_people_set_mutation_session_def)
  next
    case OpEndMutation
    then show ?thesis
      using run op g sv end_law
      by (intro service_only[OF inv _ pi', of "ms_end svc PEOPLE_IDENTIFIER (service s)"]) (auto simp: end_people_set_mutation_session_def)
  next
    case (OpCreatePeopleCollection src org)
    let ?res = "ms_create svc PEOPLE_IDENTIFIER PEOPLE_ONBOARDING_SIZE Flexible (p_ring_exponent cfg) (Some (p_self_inclusion_delay cfg)) (service s)"
    obtain s1 where s1: "with_service ?res s = Inr s1" "s' = people_deposit CollectionCreated (s1\<lparr>PeopleCollectionCreated := True\<rparr>)"
      using run op sv OpCreatePeopleCollection by (auto simp: create_people_collection_def do_create_people_collection_def bindE_Inr ensure_Inr)
    have "people_inv s1" using pi' unfolding s1(2) by simp
    then have "registry_inv good active s1" using create_law[OF g] by (intro service_only[OF inv s1(1)]) auto
    moreover have "same_standing s1 s'" by (simp add: s1(2))
    ultimately show ?thesis using registry_inv_standing pi' by blast
  next
    case (OpAsPerson imp info org call)
    then have "same_standing s s'" using run op as_person_standing by (auto simp: bindE_Inr map_err_Inr)
    then show ?thesis by (rule st)
  next
    case (OpCleanUpStaleAliases src org cas)
    then have "same_standing s s'"
      using run op clean_up_loop_standing by (auto simp: clean_up_stale_aliases_def bindE_Inr ensure_Inr state_of_Inr split: prod.splits)
    then show ?thesis by (rule st)
  next
    case OpReserveNewId
    then show ?thesis using run op reserve_new_id_standing[of s] st by (cases "reserve_new_id s") auto
  next
    case (OpCancelIdReservation q)
    then have "same_standing s s'" using run op by (auto simp: cancel_id_reservation_def bindE_Inr ensure_Inr intro: same_standing_frame)
    then show ?thesis by (rule st)
  next
    case (OpRenewIdReservation q)
    then have "same_standing s s'" using run op by (auto simp: renew_id_reservation_def intro: same_standing_frame split: if_splits)
    then show ?thesis by (rule st)
  qed (use run op in \<open>auto simp: state_of_Inr intro!: st intro: set_alias_account_standing unset_alias_account_standing
      set_personal_id_account_standing unset_personal_id_account_standing clean_up_alias_standing\<close>)
qed

lemma registry_run:
  assumes sv: "member_svc cfg = svc"
  shows "registry_inv good active s \<Longrightarrow> run_ok (people_step cfg ext ns svc_step) (registry_op_ok room svc_ok) ops s \<Longrightarrow>
    registry_inv good active (exec_all (people_step cfg ext ns svc_step) ops s)"
proof (induction ops arbitrary: s)
  case (Cons op ops)
  then have "registry_inv good active (exec_op (people_step cfg ext ns svc_step) op s)"
    using registry_step[OF Cons.prems(1) sv, of op ext ns]
    by (cases "people_step cfg ext ns svc_step op s") (simp_all add: exec_op_def)
  then show ?case using Cons by simp
qed simp

end

subsection \<open>The members pallet provides the service\<close>

definition members_service ::
  "('acc, 'm, 'r, 'i, 'o, 'chunk, 'cap, 'proof) mcfg \<Rightarrow> 'loc \<Rightarrow> (('acc, 'loc, 'm, 'r, 'i) mst, members_err, 'm, 'proof) member_service" where
  "members_service cfg own = \<lparr>
     ms_create = create_collection cfg own,
     ms_add = add_members cfg,
     ms_remove = queue_member_suspensions cfg,
     ms_start = start_removal_session,
     ms_end = end_removal_session,
     ms_rings_state = rings_state,
     ms_ring_revision = ring_revision,
     ms_verify = verify_membership cfg,
     ms_active_count = members_active_count\<rparr>"

lemma members_service_sel [simp]:
  "ms_create (members_service cfg own) = create_collection cfg own" "ms_add (members_service cfg own) = add_members cfg"
  "ms_remove (members_service cfg own) = queue_member_suspensions cfg" "ms_start (members_service cfg own) = start_removal_session"
  "ms_end (members_service cfg own) = end_removal_session" "ms_verify (members_service cfg own) = verify_membership cfg"
  by (simp_all add: members_service_def)

text \<open>The people collection is flexible, once it exists, and is never deleted.\<close>

definition people_collection_ok ::
  "('acc, 'm, 'r, 'i, 'o, 'chunk, 'cap, 'proof) mcfg \<Rightarrow> ('acc, 'loc, 'm, 'r, 'i) mst \<Rightarrow> bool" where
  "people_collection_ok cfg ms \<longleftrightarrow> members_cfg_ok cfg \<and> members_inv cfg ms \<and>
     fmlookup (RetiredIdentifiers ms) PEOPLE_IDENTIFIER = None \<and>
     (\<forall>info. fmlookup (Collections ms) PEOPLE_IDENTIFIER = Some info \<longrightarrow> ci_mode info = Flexible)"

definition people_active :: "('acc, 'loc, 'm, 'r, 'i) mst \<Rightarrow> 'm set" where
  "people_active ms = {k. active_at (view ms PEOPLE_IDENTIFIER) k}"

definition people_room :: "nat \<Rightarrow> ('acc, 'loc, 'm, 'r, 'i) mst \<Rightarrow> bool" where
  "people_room n ms \<longleftrightarrow> snd (queue_ends ms PEOPLE_IDENTIFIER) + n \<le> max_of 32"

definition background_ok ::
  "('acc, 'm, 'r, 'i, 'o, 'chunk, 'cap, 'proof) mcfg \<Rightarrow> secs \<times> ('loc, 'm, 'o) members_op \<Rightarrow> ('acc, 'loc, 'm, 'r, 'i) mst \<Rightarrow> bool" where
  "background_ok cfg op ms \<longleftrightarrow> members_op_ok cfg op ms \<and> \<not> changes_members PEOPLE_IDENTIFIER (snd op) \<and>
     \<not> opens_or_ends PEOPLE_IDENTIFIER (snd op)"

lemma absent_people_empty:
  "people_collection_ok cfg ms \<Longrightarrow> fmlookup (Collections ms) PEOPLE_IDENTIFIER = None \<Longrightarrow> view ms PEOPLE_IDENTIFIER = empty_coll"
  by (simp add: people_collection_ok_def members_inv_def)

lemma active_empty [simp]: "\<not> active_at empty_coll k"
  by (simp add: active_at_def empty_coll_def)

lemma background_step:
  assumes good: "people_collection_ok cfg ms" and ok: "background_ok cfg op ms" and run: "members_step cfg op ms = Inr ms'"
  shows "people_collection_ok cfg ms' \<and> people_active ms' = people_active ms"
proof -
  have cfg: "members_cfg_ok cfg" and inv: "members_inv cfg ms" using good by (simp_all add: people_collection_ok_def)
  have mok: "members_op_ok cfg op ms" and kind: "\<not> opens_or_ends PEOPLE_IDENTIFIER (snd op)" "\<not> changes_members PEOPLE_IDENTIFIER (snd op)"
    using ok by (simp_all add: background_ok_def)
  have "members_inv cfg ms'" using members_step_evolves[OF cfg inv mok run] by (simp add: evolves_def)
  moreover note same = members_step_identifier[OF cfg inv mok run kind(1)]
  ultimately have good': "people_collection_ok cfg ms'" using good by (simp add: people_collection_ok_def)
  have "people_active ms' = people_active ms"
  proof (cases "fmlookup (Collections ms) PEOPLE_IDENTIFIER")
    case None
    then show ?thesis using same absent_people_empty[OF good] absent_people_empty[OF good'] by (simp add: people_active_def)
  next
    case (Some info)
    have "ci_mode info = Flexible" using good Some by (simp add: people_collection_ok_def)
    with members_step_active[OF inv, where now = "fst op" and op = "snd op" and s' = ms' and i = PEOPLE_IDENTIFIER and info = info] mok run Some kind
    show ?thesis by (simp add: kept_active_def people_active_def)
  qed
  with good' show ?thesis by blast
qed

lemma people_collection_create:
  assumes good: "people_collection_ok cfg ms" and run: "create_collection cfg own PEOPLE_IDENTIFIER n Flexible e d ms = Inr ms'"
  shows "people_collection_ok cfg ms' \<and> people_active ms' = people_active ms"
proof -
  have cfg: "members_cfg_ok cfg" and inv: "members_inv cfg ms" using good by (simp_all add: people_collection_ok_def)
  have "evolves cfg ms ms'" "RetiredIdentifiers ms' = RetiredIdentifiers ms" using create_collection_inv[OF cfg inv run] by simp_all
  moreover have "(\<forall>info. fmlookup (Collections ms') PEOPLE_IDENTIFIER = Some info \<longrightarrow> ci_mode info = Flexible) \<and> Members ms' = Members ms"
    using run by (auto simp: create_collection_def bindE_Inr ok_or_Inr Let_def)
  ultimately show ?thesis using good by (simp add: people_collection_ok_def evolves_def people_active_def active_at_def)
qed

lemma people_collection_add:
  assumes good: "people_collection_ok cfg ms" and room: "people_room (length ks + n) ms" and run: "add_members cfg t PEOPLE_IDENTIFIER ks ms = Inr ms'"
  shows "people_collection_ok cfg ms' \<and> people_room n ms' \<and> people_active ms' = people_active ms \<union> set ks"
proof -
  have cfg: "members_cfg_ok cfg" and inv: "members_inv cfg ms" using good by (simp_all add: people_collection_ok_def)
  obtain info where info: "fmlookup (Collections ms) PEOPLE_IDENTIFIER = Some info" and loop: "add_members_loop cfg t PEOPLE_IDENTIFIER ks ms = Inr ms'"
    using run by (auto simp: add_members_def bindE_Inr ok_or_Inr)
  have "members_op_ok cfg (t, OpAddMembers PEOPLE_IDENTIFIER ks) ms" using room by (simp add: people_room_def)
  from members_step_keeps[OF cfg inv this, of ms'] run have "keeps cfg ms ms'" by simp
  then have "people_collection_ok cfg ms'" using good by (simp add: people_collection_ok_def keeps_def)
  moreover have "snd (queue_ends ms PEOPLE_IDENTIFIER) + length ks + n \<le> max_of 32" using room by (simp add: people_room_def)
  from add_members_active[OF inv_live[OF inv info] this loop]
  have "people_room n ms' \<and> people_active ms' = people_active ms \<union> set ks" by (auto simp: people_room_def people_active_def)
  ultimately show ?thesis by blast
qed

lemma people_collection_remove:
  assumes good: "people_collection_ok cfg ms" and run: "queue_member_suspensions cfg PEOPLE_IDENTIFIER ks ms = Inr ms'"
  shows "people_collection_ok cfg ms' \<and> people_active ms' = people_active ms - set ks"
proof -
  have cfg: "members_cfg_ok cfg" and inv: "members_inv cfg ms" using good by (simp_all add: people_collection_ok_def)
  have loop: "queue_member_suspensions_loop (flexible_ring_capacity cfg) PEOPLE_IDENTIFIER ks ms = Inr ms'"
    using run by (auto simp: queue_member_suspensions_def bindE_Inr)
  have act: "people_active ms' = people_active ms - set ks"
    using suspensions_active[OF loop] by (auto simp: people_active_def)
  show ?thesis
  proof (cases "fmlookup (Collections ms) PEOPLE_IDENTIFIER")
    case None
    have "fmlookup (Members ms) (PEOPLE_IDENTIFIER, k) = None" for k
    proof -
      have "c_members (view ms PEOPLE_IDENTIFIER) k = None" unfolding absent_people_empty[OF good None] by (simp add: empty_coll_def)
      then show ?thesis by simp
    qed
    then have "ks = []" "ms' = ms" using loop by (cases ks; simp)+
    then show ?thesis using good act by simp
  next
    case (Some info)
    then have "members_op_ok cfg (0, OpRemoveMembers PEOPLE_IDENTIFIER ks) ms" using good by (simp add: mode_is_def people_collection_ok_def)
    from members_step_keeps[OF cfg inv this, of ms'] run have "keeps cfg ms ms'" by simp
    then show ?thesis using good act by (simp add: people_collection_ok_def keeps_def)
  qed
qed

interpretation registry: member_registry "members_service cfg own" "people_collection_ok cfg" people_active people_room
    "members_step cfg" "background_ok cfg"
  for cfg :: "('acc, 'm, 'r, 'i, 'o, 'chunk, 'cap, 'proof) mcfg" and own :: 'loc
proof unfold_locales
  show "verify_context_ok (members_service cfg own)"
    by (auto simp: verify_context_ok_def verify_membership_def bindE_Inr)
  show "people_collection_ok cfg ms' \<and> people_active ms' = people_active ms"
    if "people_collection_ok cfg ms" "ms_start (members_service cfg own) PEOPLE_IDENTIFIER ms = Inr ms'" for ms ms'
    using background_step[OF that(1), of "(0, OpStartSession PEOPLE_IDENTIFIER)"] that(2) by (simp add: background_ok_def)
  show "people_collection_ok cfg ms' \<and> people_active ms' = people_active ms"
    if "people_collection_ok cfg ms" "ms_end (members_service cfg own) PEOPLE_IDENTIFIER ms = Inr ms'" for ms ms'
    using background_step[OF that(1), of "(0, OpEndSession PEOPLE_IDENTIFIER)"] that(2) by (simp add: background_ok_def)
qed (use people_collection_create people_collection_add people_collection_remove background_step in \<open>simp_all\<close>)

subsection \<open>Recognition and membership agree\<close>

text \<open>C10: In every state the two pallets reach together, a person is recognized (the history has an open period)
  exactly while the person's key waits for a ring of the people collection or is in one, and every such key
  belongs to a person.\<close>

theorem recognition_matches_membership:
  assumes cfg: "members_cfg_ok mcfg" and svc: "member_svc cfg = members_service mcfg own"
    and run: "run_ok (people_step cfg ext ns (members_step mcfg)) (registry_op_ok people_room (background_ok mcfg)) ops
      (people_genesis members_genesis)"
    and s: "s = exec_all (people_step cfg ext ns (members_step mcfg)) ops (people_genesis members_genesis)"
  shows "(\<forall>pid r. fmlookup (People s) pid = Some r \<longrightarrow>
      (history_open (pr_history r) \<longleftrightarrow>
        (\<exists>p. fmlookup (Members (service s)) (PEOPLE_IDENTIFIER, pr_key r) = Some p \<and> \<not> suspended p))) \<and>
    (\<forall>k p. fmlookup (Members (service s)) (PEOPLE_IDENTIFIER, k) = Some p \<longrightarrow> \<not> suspended p \<longrightarrow> contains_key (Keys s) k)"
proof -
  have act: "k \<in> people_active (service s) \<longleftrightarrow> (\<exists>p. fmlookup (Members (service s)) (PEOPLE_IDENTIFIER, k) = Some p \<and> \<not> suspended p)" for k
    by (auto simp: people_active_def active_at_def split: option.splits)
  have "registry_inv (people_collection_ok mcfg) people_active (people_genesis members_genesis)"
    using cfg genesis_inv[of mcfg] people_genesis_inv
    by (auto simp: registry_inv_def people_collection_ok_def people_genesis_def members_genesis_def people_active_def active_at_def
        recognized_keys_def recognized_def)
  from registry.registry_run[OF svc this run]
  have inv: "people_inv s" "people_active (service s) = recognized_keys s" by (simp_all add: registry_inv_def s)
  have keys: "fmlookup (Keys s) k = Some pid" if "recognized s pid = Some (k, b)" for k pid b
    using people_inv_parts(4)[OF inv(1)] that unfolding keys_ok_def recognized_def by auto
  have "history_open (pr_history r) \<longleftrightarrow> pr_key r \<in> recognized_keys s" if "fmlookup (People s) pid = Some r" for pid r
  proof
    assume "history_open (pr_history r)"
    then have "recognized s pid = Some (pr_key r, True)" using that by (simp add: recognized_def)
    then show "pr_key r \<in> recognized_keys s" by (auto simp: recognized_keys_def)
  next
    assume "pr_key r \<in> recognized_keys s"
    then obtain q where q: "recognized s q = Some (pr_key r, True)" by (auto simp: recognized_keys_def)
    have "recognized s pid = Some (pr_key r, history_open (pr_history r))" using that by (simp add: recognized_def)
    then have "q = pid" using keys[OF q] keys by fastforce
    then show "history_open (pr_history r)" using q that by (simp add: recognized_def)
  qed
  moreover have "contains_key (Keys s) k" if "k \<in> recognized_keys s" for k
    using that keys by (auto simp: recognized_keys_def)
  ultimately show ?thesis unfolding inv(2)[symmetric] act by blast
qed

type_synonym pm_members = "(nat, nat, nat, nat list, nat list) mst"

definition pm_mcfg :: "(nat, nat, nat list, nat list, mex_origin, unit, nat, nat) mcfg" where
  "pm_mcfg = mex_cfg\<lparr>ring_capacity := (\<lambda>_. 16), onboarding_queue_page_size := 12\<rparr>"

definition pm_cfg :: "(nat, nat, pm_members, members_err, pex_origin, nat, nat) pcfg" where
  "pm_cfg = \<lparr>
     member_svc = members_service pm_mcfg 7,
     p_ring_exponent = R2e9,
     account_contexts = (\<lambda>c. c = ''game''),
     stale_alias_cleanup_interval = 2,
     p_self_inclusion_delay = 60,
     p_manager_or_root = (\<lambda>org. org = PexRoot),
     p_signed = (\<lambda>org. case org of PexSigned a \<Rightarrow> Some a | _ \<Rightarrow> None),
     p_authorized = (\<lambda>org. org = PexAuthorized),
     p_none = (\<lambda>org. org = PexNone),
     as_people_origin = (\<lambda>org. case org of PexPerson p \<Rightarrow> Some p | _ \<Rightarrow> None),
     verify_signature = (\<lambda>sg _ k. sg = k),
     extract_actual_weight = (\<lambda>p w. case actual_weight p of None \<Rightarrow> w | Some a \<Rightarrow> a),
     w_under_alias = zero_w,
     w_clean_up_stale_alias = (\<lambda>_. zero_w)\<rparr>"

definition pm_ops :: "(block_number \<times> secs \<times> (nat, nat, pex_origin, nat, nat, unit, secs \<times> (nat, nat, mex_origin) members_op) people_op) list" where
  "pm_ops = [
     (1, 10, OpCreatePeopleCollection Local PexAuthorized),
     (1, 10, OpForceRecognize PexRoot [11, 12, 13, 14, 15, 16, 17, 18, 19, 20, 21]),
     (2, 20, OpService (20, OpCall Local [] MexAuthorized 0 (CallOnboardMembers PEOPLE_IDENTIFIER 0 0 (Some 11)))),
     (3, 30, OpStartMutation),
     (4, 40, OpSuspend [3]),
     (5, 50, OpEndMutation)]"

abbreviation pm_step where
  "pm_step \<equiv> people_step pm_cfg pex_ext () (members_step pm_mcfg)"

definition pm_state :: "(nat, nat, pm_members) pst" where
  "pm_state = exec_all pm_step pm_ops (people_genesis members_genesis)"

lemma pm_cfg_ok: "members_cfg_ok pm_mcfg"
  by (simp add: members_cfg_ok_def pm_mcfg_def mex_cfg_def max_of_def)

lemma pm_run: "run_ok pm_step (registry_op_ok people_room (background_ok pm_mcfg)) pm_ops (people_genesis members_genesis)"
  by code_simp

theorem recognition_matches_membership_witness:
  "(\<exists>p. fmlookup (Members (service pm_state)) (PEOPLE_IDENTIFIER, 12) = Some p \<and> \<not> suspended p) \<and>
   \<not> (\<exists>p. fmlookup (Members (service pm_state)) (PEOPLE_IDENTIFIER, 14) = Some p \<and> \<not> suspended p)"
proof -
  have svc: "member_svc pm_cfg = members_service pm_mcfg 7" by (simp add: pm_cfg_def)
  have "map_option (\<lambda>r. (pr_key r, history_open (pr_history r))) (fmlookup (People pm_state) 1) = Some (12, True)"
    "map_option (\<lambda>r. (pr_key r, history_open (pr_history r))) (fmlookup (People pm_state) 3) = Some (14, False)"
    by code_simp+
  then show ?thesis
    using recognition_matches_membership[OF pm_cfg_ok svc pm_run pm_state_def] by auto
qed

end
