(* ===== verification/ChunksManager.thy ===== *)
theory ChunksManager
  imports Reality TxPriority "HOL-Library.Code_Target_Nat"
begin

text \<open>
  The pallet \<^verbatim>\<open>pallets/chunks-manager/src/lib.rs\<close>: the chunks of the cryptographic setup of each ring size,
  stored in pages. Root sets the hash each page must have; then anybody uploads the pages.

  Decoding and hashing are parameters: \<open>decode_chunks\<close> decodes a vector of chunks and checks them,
  \<open>blake2_256\<close> is the hash. A chunk that was stored is not checked again, so a stored page is the list of its
  chunks. The loop of \<open>get_chunks\<close> would not end for pages of size 0; it is a partial function, and \<open>None\<close>
  there is the division by zero with which \<open>get_location\<close> panics.
\<close>

unbundle bit_operations_syntax

subsection \<open>Data\<close>

definition MAX_PAGE_SIZE :: nat where
  "MAX_PAGE_SIZE = push_bit 16 1"

definition MAX_PAGE_COUNT :: nat where
  "MAX_PAGE_COUNT = 20000"

datatype chunks_event =
  ChunkPageHashesInitialized ring_exponent nat
| ChunksAdded ring_exponent page_index nat

datatype chunks_error = ChunkNotFound | InvalidChunks | InvalidChunkRange

record 'c chunks_state =
  Chunks :: "(ring_exponent \<times> page_index, 'c list) storage_map"
  ChunkPageHashes :: "(ring_exponent \<times> page_index, bytes) storage_map"
  chunks_events :: "chunks_event list"

record ('c, 'o) chunks_config =
  chunk_page_size :: nat
  c_manager_or_root :: "'o \<Rightarrow> bool"
  c_authorized :: "'o \<Rightarrow> bool"
  decode_chunks :: "bytes \<Rightarrow> 'c list option"
  blake2_256 :: "bytes \<Rightarrow> bytes"

type_synonym chunks_err = "(chunks_error, unit) dispatch_error"

definition chunks_genesis :: "'c chunks_state" where
  "chunks_genesis = \<lparr>Chunks = fmempty, ChunkPageHashes = fmempty, chunks_events = []\<rparr>"

definition chunks_deposit :: "chunks_event \<Rightarrow> 'c chunks_state \<Rightarrow> 'c chunks_state" where
  "chunks_deposit e s = s\<lparr>chunks_events := chunks_events s @ [e]\<rparr>"

definition chunks_integrity_test :: "('c, 'o) chunks_config \<Rightarrow> bool" where
  "chunks_integrity_test cfg \<longleftrightarrow> chunk_page_size cfg > 0 \<and> chunk_page_size cfg \<le> MAX_PAGE_SIZE"

subsection \<open>Calls\<close>

text \<open>A bounded vector decodes as a vector that is not longer than its bound.\<close>

definition decode_page :: "('c, 'o) chunks_config \<Rightarrow> bytes \<Rightarrow> 'c list option" where
  "decode_page cfg enc =
     (case decode_chunks cfg enc of
        None \<Rightarrow> None
      | Some cs \<Rightarrow> if length cs \<le> chunk_page_size cfg then Some cs else None)"

definition add_chunks ::
  "('c, 'o) chunks_config \<Rightarrow> 'o \<Rightarrow> ring_exponent \<Rightarrow> page_index \<Rightarrow> bytes \<Rightarrow> 'c chunks_state \<Rightarrow> chunks_err + 'c chunks_state" where
  "add_chunks cfg origin ring_exponent page_index encoded_chunks s =
     bindE (ensure (c_authorized cfg origin) BadOrigin) (\<lambda>_.
     bindE (ok_or (decode_page cfg encoded_chunks) (Module InvalidChunks)) (\<lambda>page.
     Inr (chunks_deposit (ChunksAdded ring_exponent page_index (length page))
            (s\<lparr>Chunks := fmupd (ring_exponent, page_index) page (Chunks s)\<rparr>))))"

definition authorize_add_chunks ::
  "('c, 'o) chunks_config \<Rightarrow> ring_exponent \<Rightarrow> page_index \<Rightarrow> bytes \<Rightarrow> 'c chunks_state
     \<Rightarrow> invalid_transaction + (ring_exponent \<times> page_index) valid_transaction" where
  "authorize_add_chunks cfg ring_exponent page_index encoded_chunks s =
     bindE (ensure (\<not> contains_key (Chunks s) (ring_exponent, page_index)) InvalidCall) (\<lambda>_.
     bindE (ensure (fmlookup (ChunkPageHashes s) (ring_exponent, page_index) = Some (blake2_256 cfg encoded_chunks)) InvalidCall) (\<lambda>_.
     Inr \<lparr>tag_prefix = ''pallet-chunk-manager'', provides = (ring_exponent, page_index), propagate = True,
          longevity = None, priority = BACKGROUND_PROGRESS\<rparr>))"

definition add_chunk_page_hashes :: "ring_exponent \<Rightarrow> bytes list \<Rightarrow> 'c chunks_state \<Rightarrow> 'c chunks_state" where
  "add_chunk_page_hashes ring_exponent page_hashes s =
     chunks_deposit (ChunkPageHashesInitialized ring_exponent (length page_hashes))
       (s\<lparr>ChunkPageHashes := fold (\<lambda>(page_index, page_hash). fmupd (ring_exponent, page_index) page_hash)
            (List.enumerate 0 page_hashes) (ChunkPageHashes s)\<rparr>)"

definition set_chunk_page_hashes ::
  "('c, 'o) chunks_config \<Rightarrow> 'o \<Rightarrow> ring_exponent \<Rightarrow> bytes list \<Rightarrow> 'c chunks_state \<Rightarrow> chunks_err + 'c chunks_state" where
  "set_chunk_page_hashes cfg origin ring_exponent page_hashes s =
     bindE (ensure (c_manager_or_root cfg origin) BadOrigin) (\<lambda>_.
     Inr (add_chunk_page_hashes ring_exponent page_hashes s))"

text \<open>The genesis build panics (\<open>None\<close>) for an exponent that no ring has.\<close>

fun chunks_genesis_build :: "(nat \<times> bytes list) list \<Rightarrow> 'c chunks_state \<Rightarrow> 'c chunks_state option" where
  "chunks_genesis_build [] s = Some s"
| "chunks_genesis_build ((expo, hashes) # rest) s =
     (if hashes = [] then chunks_genesis_build rest s
      else (case new_from_exponent expo of
              Inl _ \<Rightarrow> None
            | Inr ring_exponent \<Rightarrow> chunks_genesis_build rest (add_chunk_page_hashes ring_exponent hashes s)))"

subsection \<open>Reading chunks\<close>

definition get_location :: "nat \<Rightarrow> ring_exponent \<Rightarrow> nat \<Rightarrow> page_index \<times> nat" where
  "get_location page_size ring_exponent chunk_index =
     (let ring_size = push_bit (exponent ring_exponent) 1;
          total_pages = max 1 (ring_size div page_size);
          page_mask = total_pages - 1
      in ((chunk_index div page_size) AND page_mask, chunk_index mod page_size))"

definition get_chunk :: "('c, 'o) chunks_config \<Rightarrow> ring_exponent \<Rightarrow> nat \<Rightarrow> 'c chunks_state \<Rightarrow> chunks_error + 'c" where
  "get_chunk cfg ring_exponent chunk_index s =
     (let (page_idx, position) = get_location (chunk_page_size cfg) ring_exponent chunk_index
      in ok_or (Option.bind (fmlookup (Chunks s) (ring_exponent, page_idx))
                  (\<lambda>page. if position < length page then Some (page ! position) else None)) ChunkNotFound)"

partial_function (option) get_chunks_loop ::
  "('c, 'o) chunks_config \<Rightarrow> ring_exponent \<Rightarrow> nat \<Rightarrow> 'c chunks_state \<Rightarrow> nat \<Rightarrow> 'c list \<Rightarrow> (chunks_error + 'c list) option" where
  "get_chunks_loop cfg ring_exponent end_index s chunk_index result =
     (if chunk_index < end_index
      then (if chunk_page_size cfg = 0 then None
            else (let (page_idx, position) = get_location (chunk_page_size cfg) ring_exponent chunk_index
                  in (case fmlookup (Chunks s) (ring_exponent, page_idx) of
                        None \<Rightarrow> Some (Inl ChunkNotFound)
                      | Some page \<Rightarrow>
                          (let count = min (chunk_page_size cfg - position) (end_index - chunk_index)
                           in if length page < position + count then Some (Inl ChunkNotFound)
                              else get_chunks_loop cfg ring_exponent end_index s (chunk_index + count)
                                     (result @ take count (drop position page))))))
      else Some (Inr result))"

definition chunks_get_chunks ::
  "('c, 'o) chunks_config \<Rightarrow> ring_exponent \<Rightarrow> nat \<Rightarrow> nat \<Rightarrow> 'c chunks_state \<Rightarrow> (chunks_error + 'c list) option" where
  "chunks_get_chunks cfg ring_exponent start end_index s =
     (if start < end_index then get_chunks_loop cfg ring_exponent end_index s start []
      else Some (Inl InvalidChunkRange))"

declare get_chunks_loop.simps [code]

subsection \<open>The loop reads chunk by chunk\<close>

text \<open>The reference: the first error, or all the chunks.\<close>

fun collect :: "('e + 'a) list \<Rightarrow> 'e + 'a list" where
  "collect [] = Inr []"
| "collect (x # xs) = bindE x (\<lambda>a. bindE (collect xs) (\<lambda>as. Inr (a # as)))"

lemma collect_append: "collect (xs @ ys) = bindE (collect xs) (\<lambda>as. bindE (collect ys) (\<lambda>bs. Inr (as @ bs)))"
  by (induction xs) (auto simp: bindE_def split: sum.splits)

lemma collect_map_Inr: "(\<And>x. x \<in> set xs \<Longrightarrow> f x = Inr (g x)) \<Longrightarrow> collect (map f xs) = Inr (map g xs)"
  by (induction xs) auto

lemma collect_error: "x \<in> set xs \<Longrightarrow> x = Inl e \<Longrightarrow> \<exists>e'. collect xs = Inl e' \<and> Inl e' \<in> set xs"
  by (induction xs) (auto simp: bindE_def split: sum.splits)

lemma get_chunk_error: "get_chunk cfg e i s = Inl x \<Longrightarrow> x = ChunkNotFound"
  by (auto simp: get_chunk_def ok_or_Inl split: prod.splits)

lemma collect_chunks_error:
  assumes "i \<in> set is" "get_chunk cfg e i s = Inl x"
  shows "collect (map (\<lambda>i. get_chunk cfg e i s) is) = Inl ChunkNotFound"
proof -
  obtain e' where c: "collect (map (\<lambda>i. get_chunk cfg e i s) is) = Inl e'" "Inl e' \<in> set (map (\<lambda>i. get_chunk cfg e i s) is)"
  proof -
    have "get_chunk cfg e i s \<in> set (map (\<lambda>i. get_chunk cfg e i s) is)" using assms(1) by simp
    from collect_error[OF this assms(2)] show ?thesis using that by blast
  qed
  then obtain j where "get_chunk cfg e j s = Inl e'" by auto
  then show ?thesis using c(1) get_chunk_error by blast
qed

lemma location_in_page:
  assumes "j < p - i mod p"
  shows "get_location p e (i + j) = (fst (get_location p e i), i mod p + j)"
proof -
  have "i mod p + j < p" using assms by simp
  moreover have "i + j = i div p * p + (i mod p + j)" by (simp add: mult.commute)
  ultimately have "(i + j) div p = i div p" "(i + j) mod p = i mod p + j"
    by (metis Euclidean_Rings.div_eq_0_iff add_cancel_left_right div_mult_self3 gr_implies_not0 mult.commute)
      (metis \<open>i + j = i div p * p + (i mod p + j)\<close> \<open>i mod p + j < p\<close> mod_less mod_mult_self3)
  then show ?thesis by (simp add: get_location_def Let_def)
qed

lemma page_slice:
  "n + m \<le> length xs \<Longrightarrow> map (\<lambda>j. xs ! (n + (j - i))) [i..<i + m] = take m (drop n xs)"
  by (rule nth_equalityI) auto

lemma loop_reads_page:
  assumes loc: "get_location (chunk_page_size cfg) e i = (pg, pos)" and pos: "pos = i mod chunk_page_size cfg"
    and page: "fmlookup (Chunks s) (e, pg) = Some page" and fit: "pos + m \<le> length page" "m \<le> chunk_page_size cfg - pos"
  shows "collect (map (\<lambda>i. get_chunk cfg e i s) [i..<i + m]) = Inr (take m (drop pos page))"
proof -
  have "get_chunk cfg e k s = Inr (page ! (pos + (k - i)))" if "k \<in> set [i..<i + m]" for k
  proof -
    have "k - i < chunk_page_size cfg - i mod chunk_page_size cfg" using that fit pos by auto
    then have "get_location (chunk_page_size cfg) e (i + (k - i)) = (pg, pos + (k - i))"
      using location_in_page[of "k - i" "chunk_page_size cfg" i e] pos by (simp add: loc)
    moreover have "i + (k - i) = k" "pos + (k - i) < length page" using that fit by auto
    ultimately show ?thesis using page by (simp add: get_chunk_def)
  qed
  then have "collect (map (\<lambda>i. get_chunk cfg e i s) [i..<i + m]) = Inr (map (\<lambda>j. page ! (pos + (j - i))) [i..<i + m])"
    by (rule collect_map_Inr)
  then show ?thesis using page_slice[OF fit(1), of i] by simp
qed

lemma get_chunks_loop_eq:
  assumes p: "0 < chunk_page_size cfg"
  shows "get_chunks_loop cfg e b s i acc =
    Some (bindE (collect (map (\<lambda>i. get_chunk cfg e i s) [i..<b])) (\<lambda>cs. Inr (acc @ cs)))"
proof (induction "b - i" arbitrary: i acc rule: less_induct)
  case less
  let ?p = "chunk_page_size cfg" and ?g = "\<lambda>i. get_chunk cfg e i s"
  show ?case
  proof (cases "i < b")
    case False
    then show ?thesis by (simp add: get_chunks_loop.simps[of cfg e b s i])
  next
    case True
    obtain pg pos where loc: "get_location ?p e i = (pg, pos)" by force
    then have pos: "pos = i mod ?p" by (simp add: get_location_def Let_def)
    then have pp: "pos < ?p" using p by simp
    define m where "m = min (?p - pos) (b - i)"
    have m: "0 < m" "i + m \<le> b" "m \<le> ?p - pos" using True pp by (auto simp: m_def)
    show ?thesis
    proof (cases "fmlookup (Chunks s) (e, pg)")
      case None
      then have "?g i = Inl ChunkNotFound" by (simp add: get_chunk_def loc)
      then have "collect (map ?g [i..<b]) = Inl ChunkNotFound" using collect_chunks_error[of i "[i..<b]"] True by simp
      then show ?thesis using True p None by (simp add: get_chunks_loop.simps[of cfg e b s i] loc)
    next
      case (Some page)
      show ?thesis
      proof (cases "length page < pos + m")
        case True
        have "get_location ?p e (i + (m - 1)) = (pg, pos + (m - 1))"
          using location_in_page[of "m - 1" ?p i e] m pos by (simp add: loc)
        then have "?g (i + (m - 1)) = Inl ChunkNotFound" using True m Some by (simp add: get_chunk_def)
        moreover have "i + (m - 1) \<in> set [i..<b]" using m by auto
        ultimately have "collect (map ?g [i..<b]) = Inl ChunkNotFound" using collect_chunks_error by blast
        then show ?thesis using \<open>i < b\<close> p Some True by (simp add: get_chunks_loop.simps[of cfg e b s i] loc m_def[symmetric])
      next
        case False
        have split: "[i..<b] = [i..<i + m] @ [i + m..<b]" using m upt_add_eq_append[of i "i + m" "b - (i + m)"] by simp
        have "collect (map ?g [i..<i + m]) = Inr (take m (drop pos page))"
          using loop_reads_page[OF loc pos Some] False m by simp
        moreover have "get_chunks_loop cfg e b s i acc = get_chunks_loop cfg e b s (i + m) (acc @ take m (drop pos page))"
          using \<open>i < b\<close> p Some False by (subst get_chunks_loop.simps) (simp add: loc m_def[symmetric])
        moreover have "b - (i + m) < b - i" using m True by simp
        ultimately show ?thesis
          using less[of "i + m"] unfolding split map_append collect_append
          by (cases "collect (map ?g [i + m..<b])") simp_all
      qed
    qed
  qed
qed

text \<open>C37: Reading a range of chunks page by page ends, and gives what reading each chunk of the range by its
  index gives: all the chunks in order, or the error that one is missing.\<close>

theorem get_chunks_is_pointwise:
  assumes "chunks_integrity_test cfg"
  shows "chunks_get_chunks cfg e a b s =
    Some (if a < b then collect (map (\<lambda>i. get_chunk cfg e i s) [a..<b]) else Inl InvalidChunkRange)"
proof -
  have "0 < chunk_page_size cfg" using assms by (simp add: chunks_integrity_test_def)
  then show ?thesis
    by (cases "collect (map (\<lambda>i. get_chunk cfg e i s) [a..<b])") (simp_all add: chunks_get_chunks_def get_chunks_loop_eq)
qed

subsection \<open>Uploading all pages\<close>

definition paginate :: "nat \<Rightarrow> 'c list \<Rightarrow> 'c list list" where
  "paginate p cs = map (\<lambda>j. take p (drop (j * p) cs)) [0..<max 1 (length cs div p)]"

text \<open>The ring and the pages are powers of two, so the mask changes nothing within the ring.\<close>

lemma location_in_ring:
  assumes p: "p = 2 ^ k" and i: "i < 2 ^ exponent e"
  shows "fst (get_location p e i) = i div p \<and> snd (get_location p e i) = i mod p \<and>
    i div p < max 1 (2 ^ exponent e div p)"
proof (cases "k \<le> exponent e")
  case True
  have tot: "(2::nat) ^ exponent e div p = 2 ^ (exponent e - k)" using True by (simp add: p power_diff)
  have "i div p < 2 ^ (exponent e - k)"
  proof -
    have "(2::nat) ^ exponent e = 2 ^ (exponent e - k) * p" using True by (simp add: p power_add[symmetric])
    then show ?thesis using i by (simp add: less_mult_imp_div_less)
  qed
  moreover have "(i div p) AND (2 ^ (exponent e - k) - 1) = i div p mod 2 ^ (exponent e - k)"
    by (simp add: take_bit_eq_mod[symmetric] take_bit_eq_mask mask_eq_exp_minus_1)
  ultimately show ?thesis by (simp add: get_location_def Let_def tot push_bit_eq_mult)
next
  case False
  then have "(2::nat) ^ exponent e < p" by (simp add: p)
  then show ?thesis using i by (simp add: get_location_def Let_def push_bit_eq_mult)
qed

lemma paginated_chunk:
  assumes p: "p = 2 ^ k" and n: "length cs = 2 ^ exponent e" and i: "i < 2 ^ exponent e"
  shows "i div p < length (paginate p cs)" "i mod p < length (paginate p cs ! (i div p))" "paginate p cs ! (i div p) ! (i mod p) = cs ! i"
proof -
  have pp: "0 < p" by (simp add: p)
  have j: "i div p < max 1 (length cs div p)" using location_in_ring[OF p i] n by simp
  then show "i div p < length (paginate p cs)" by (simp add: paginate_def)
  have e: "paginate p cs ! (i div p) = take p (drop (i div p * p) cs)" using j by (simp add: paginate_def)
  have m: "i mod p < p" "i div p * p \<le> i" and eq: "i div p * p + i mod p = i" using pp by simp_all
  have "drop (i div p * p) cs ! (i mod p) = cs ! (i div p * p + i mod p)" using m(2) i n by (intro nth_drop) linarith
  then have nth: "drop (i div p * p) cs ! (i mod p) = cs ! i" unfolding eq .
  have "i mod p < length cs - i div p * p" using eq i n by linarith
  then show "i mod p < length (paginate p cs ! (i div p))" "paginate p cs ! (i div p) ! (i mod p) = cs ! i"
    using m(1) nth unfolding e by simp_all
qed

lemma get_chunks_of_pages:
  assumes p: "chunk_page_size cfg = 2 ^ k" and n: "length cs = 2 ^ exponent e"
    and pages: "\<And>j. j < length (paginate (chunk_page_size cfg) cs) \<Longrightarrow> fmlookup (Chunks s) (e, j) = Some (paginate (chunk_page_size cfg) cs ! j)"
    and ab: "a < b" "b \<le> 2 ^ exponent e"
  shows "chunks_get_chunks cfg e a b s = Some (Inr (take (b - a) (drop a cs)))"
proof -
  have "get_chunk cfg e i s = Inr (cs ! i)" if "i \<in> set [a..<b]" for i
  proof -
    have i: "i < 2 ^ exponent e" using that ab by simp
    obtain pg pos where loc: "get_location (chunk_page_size cfg) e i = (pg, pos)" by force
    then show ?thesis
      using location_in_ring[OF p i] paginated_chunk[OF p n i] pages[of "i div chunk_page_size cfg"] by (simp add: get_chunk_def)
  qed
  then have "collect (map (\<lambda>i. get_chunk cfg e i s) [a..<b]) = Inr (map (\<lambda>i. cs ! i) [a..<b])" by (rule collect_map_Inr)
  moreover have "map (\<lambda>i. cs ! i) [a..<b] = take (b - a) (drop a cs)" using ab n by (intro nth_equalityI) auto
  ultimately show ?thesis using p ab by (simp add: chunks_get_chunks_def get_chunks_loop_eq)
qed

text \<open>The pages are uploaded in any order, each authorized where it runs.\<close>

fun upload_pages ::
  "('c, 'o) chunks_config \<Rightarrow> 'o \<Rightarrow> ring_exponent \<Rightarrow> bytes list \<Rightarrow> page_index list \<Rightarrow> 'c chunks_state \<Rightarrow> chunks_err + 'c chunks_state" where
  "upload_pages cfg org e encs [] s = Inr s"
| "upload_pages cfg org e encs (j # js) s =
     bindE (map_err (\<lambda>_. BadOrigin) (authorize_add_chunks cfg e j (encs ! j) s)) (\<lambda>_.
     bindE (add_chunks cfg org e j (encs ! j) s) (upload_pages cfg org e encs js))"

lemma page_hashes_set:
  "fmlookup (fold (\<lambda>(j, h). fmupd (e, j) h) (List.enumerate n hs) m) (e, j) =
     (if n \<le> j \<and> j < n + length hs then Some (hs ! (j - n)) else fmlookup m (e, j))"
proof (induction hs arbitrary: n m)
  case (Cons h hs)
  then show ?case by (auto simp: nth_Cons' not_less_eq_eq)
qed auto

lemma upload_pages_stores:
  assumes "c_authorized cfg org" "distinct js" "\<And>j. j \<in> set js \<Longrightarrow> j < length encs"
    and "\<And>j. j \<in> set js \<Longrightarrow> decode_page cfg (encs ! j) = Some (pages ! j)"
    and "\<And>j. j \<in> set js \<Longrightarrow> fmlookup (Chunks s) (e, j) = None"
    and "\<And>j. j \<in> set js \<Longrightarrow> fmlookup (ChunkPageHashes s) (e, j) = Some (blake2_256 cfg (encs ! j))"
  shows "\<exists>s'. upload_pages cfg org e encs js s = Inr s' \<and>
    (\<forall>j. fmlookup (Chunks s') (e, j) = (if j \<in> set js then Some (pages ! j) else fmlookup (Chunks s) (e, j)))"
  using assms
proof (induction js arbitrary: s)
  case (Cons j js)
  let ?s = "chunks_deposit (ChunksAdded e j (length (pages ! j))) (s\<lparr>Chunks := fmupd (e, j) (pages ! j) (Chunks s)\<rparr>)"
  have "upload_pages cfg org e encs (j # js) s = upload_pages cfg org e encs js ?s"
    using Cons.prems by (simp add: authorize_add_chunks_def add_chunks_def)
  moreover obtain s' where "upload_pages cfg org e encs js ?s = Inr s'"
    "\<forall>j. fmlookup (Chunks s') (e, j) = (if j \<in> set js then Some (pages ! j) else fmlookup (Chunks ?s) (e, j))"
    using Cons.IH[of ?s] Cons.prems by (fastforce simp: chunks_deposit_def)
  ultimately show ?case by (auto simp: chunks_deposit_def)
qed simp

lemma set_hashes_stores:
  "c_manager_or_root cfg org \<Longrightarrow> \<exists>s'. set_chunk_page_hashes cfg org e hs s = Inr s' \<and> Chunks s' = Chunks s \<and>
     (\<forall>j < length hs. fmlookup (ChunkPageHashes s') (e, j) = Some (hs ! j))"
  by (simp add: set_chunk_page_hashes_def add_chunk_page_hashes_def chunks_deposit_def page_hashes_set)


subsection \<open>A configuration to evaluate on\<close>

text \<open>Chunks are characters, a page of 256 of them is encoded as it is, and its hash is its first character.\<close>

definition cex_cfg :: "(char, nat) chunks_config" where
  "cex_cfg = \<lparr>chunk_page_size = 256, c_manager_or_root = (\<lambda>org. org = 0), c_authorized = (\<lambda>org. org = 1),
     decode_chunks = Some, blake2_256 = take 1\<rparr>"

theorem get_chunks_is_pointwise_witness:
  "chunks_get_chunks cex_cfg R2e9 3 5 chunks_genesis = Some (Inl ChunkNotFound)"
proof -
  have "chunks_integrity_test cex_cfg" by (simp add: chunks_integrity_test_def cex_cfg_def MAX_PAGE_SIZE_def push_bit_eq_mult)
  moreover have "[3..<5] = [3, 4 :: nat]" by (simp add: upt_rec)
  moreover have "get_chunk cex_cfg R2e9 3 chunks_genesis = Inl ChunkNotFound"
    by (simp add: get_chunk_def chunks_genesis_def split: prod.splits)
  ultimately show ?thesis using get_chunks_is_pointwise[of cex_cfg R2e9 3 5 chunks_genesis] by simp
qed


subsection \<open>Stored pages\<close>

datatype 'o chunks_op =
  OpAddChunks 'o ring_exponent page_index bytes
| OpSetHashes 'o ring_exponent "bytes list"

fun chunks_step :: "('c, 'o) chunks_config \<Rightarrow> 'o chunks_op \<Rightarrow> 'c chunks_state \<Rightarrow> chunks_err + 'c chunks_state" where
  "chunks_step cfg (OpAddChunks org e j enc) s =
     bindE (map_err (\<lambda>_. BadOrigin) (authorize_add_chunks cfg e j enc s)) (\<lambda>_. add_chunks cfg org e j enc s)"
| "chunks_step cfg (OpSetHashes org e hs) s = set_chunk_page_hashes cfg org e hs s"

interpretation chunk_page: pallet_machine "chunks_step cfg" "\<lambda>_ _. True" "\<lambda>s. fmlookup (Chunks s) key = Some page"
  for cfg :: "('c, 'o) chunks_config" and key page
proof
  fix s s' :: "'c chunks_state" and c :: "'o chunks_op"
  assume "fmlookup (Chunks s) key = Some page" "chunks_step cfg c s = Inr s'"
  then show "fmlookup (Chunks s') key = Some page"
    by (cases c) (auto simp: authorize_add_chunks_def add_chunks_def set_chunk_page_hashes_def add_chunk_page_hashes_def
        chunks_deposit_def bindE_Inr map_err_Inr ensure_Inr)
qed

lemma chunks_run_ok: "run_ok step (\<lambda>_ _. True) ops s"
  by (induction ops arbitrary: s) simp_all

text \<open>A stored page is never replaced, not even after its expected hash has been changed.\<close>

theorem stored_pages_permanent:
  assumes "fmlookup (Chunks s) (e, j) = Some page"
  shows "fmlookup (Chunks (exec_all (chunks_step cfg) ops s)) (e, j) = Some page"
  by (rule chunk_page.exec_all_inv[OF assms chunks_run_ok])

theorem stored_pages_permanent_witness:
  "fmlookup (Chunks (exec_all (chunks_step cex_cfg) [OpSetHashes 0 R2e9 [''b''], OpAddChunks 1 R2e9 0 ''bcd'']
     (chunks_genesis\<lparr>Chunks := fmupd (R2e9, 0) ''a'' fmempty\<rparr>))) (R2e9, 0) = Some ''a''"
  by (rule stored_pages_permanent) simp

text \<open>A page size that is not a power of two passes the integrity test, and then chunks of one ring
  overlap: the mask drops page numbers.\<close>

theorem page_size_power_of_two_unchecked:
  "chunks_integrity_test (cex_cfg\<lparr>chunk_page_size := 3\<rparr>) \<and> get_location 3 R2e9 6 = get_location 3 R2e9 0"
  by (simp add: chunks_integrity_test_def MAX_PAGE_SIZE_def get_location_def push_bit_eq_mult Let_def)

end
