(* ===== verification/ProductContext.thy ===== *)
theory ProductContext
  imports Prelude
begin

text \<open>
  The ring contexts of products, \<^verbatim>\<open>support/src/context.rs\<close>, and the label formats, \<^verbatim>\<open>support/src/labels.rs\<close>.
  A context is the hash of a preimage built from the product name, the network suffix and 32 bytes; the hash
  is a parameter. Numbers below \<open>2 ^ 32\<close> are written as four bytes, the lowest first.
\<close>

subsection \<open>Suffixes\<close>

definition u32_le :: "nat \<Rightarrow> bytes" where
  "u32_le n = map (\<lambda>i. char_of (n div 256 ^ i)) [0..<4]"

definition zeros :: "nat \<Rightarrow> bytes" where
  "zeros n = replicate n (char_of (0::nat))"

datatype product_context_suffix = Index nat | Raw bytes

definition INDEX_MAGIC :: bytes where
  "INDEX_MAGIC = map char_of [0x12, 0xe8, 0x60, 0x13, 0x73, 0x6c, 0x54, 0x98, 0xf0, 0x50, 0xb0, 0x3c, 0xdc, 0x16,
     0x95, 0x7d, 0xff, 0x0e, 0x42, 0x2f, 0xb9, 0x2c, 0xa7, 0x7e, 0xc3, 0xab, 0x16, 0x8f :: nat]"

fun suffix_bytes :: "product_context_suffix \<Rightarrow> bytes" where
  "suffix_bytes (Index i) = u32_le i @ INDEX_MAGIC"
| "suffix_bytes (Raw b) = b"

definition PRODUCT_PREFIX :: bytes where
  "PRODUCT_PREFIX = ''product/''"

definition product_preimage :: "bytes \<Rightarrow> bytes \<Rightarrow> product_context_suffix \<Rightarrow> bytes" where
  "product_preimage product_name network_suffix suffix =
     PRODUCT_PREFIX @ product_name @ ''.'' @ network_suffix @ ''/'' @ suffix_bytes suffix"

definition build_product_context ::
  "(bytes \<Rightarrow> context_id) \<Rightarrow> bytes \<Rightarrow> bytes \<Rightarrow> product_context_suffix \<Rightarrow> context_id" where
  "build_product_context hash product_name network_suffix suffix =
     hash (product_preimage product_name network_suffix suffix)"

definition SIGNING :: product_context_suffix where
  "SIGNING = Raw (''sig/'' @ zeros 28)"

definition signing_context :: "(bytes \<Rightarrow> context_id) \<Rightarrow> bytes \<Rightarrow> bytes \<Rightarrow> context_id" where
  "signing_context hash product_name network_suffix = build_product_context hash product_name network_suffix SIGNING"

definition signing_payload :: "(bytes \<Rightarrow> context_id) \<Rightarrow> bytes \<Rightarrow> bytes \<Rightarrow> bytes \<Rightarrow> bytes" where
  "signing_payload hash product_name network_suffix msg = signing_context hash product_name network_suffix @ msg"

subsection \<open>The allocations of the personhood product\<close>

definition PRODUCT_NAME :: bytes where
  "PRODUCT_NAME = ''peopl''"

definition raw_u32_u8 :: "nat \<Rightarrow> nat \<Rightarrow> nat \<Rightarrow> product_context_suffix" where
  "raw_u32_u8 family val tail = Raw (''sys/'' @ u32_le family @ u32_le val @ [char_of tail] @ zeros 19)"

definition raw_u32_u32 :: "nat \<Rightarrow> nat \<Rightarrow> nat \<Rightarrow> product_context_suffix" where
  "raw_u32_u32 family first second = Raw (''sys/'' @ u32_le family @ u32_le first @ u32_le second @ zeros 16)"

datatype personhood_allocation =
  SCORE | RESOURCES | PEOPLE_LITE_AUTH | DOTNS_GATEWAY | PEOPLE_AIRDROPS
| resources_notification nat nat
| statement_store_slot nat nat
| long_term_storage nat nat
| pgas_claim nat nat

fun allocation_suffix :: "personhood_allocation \<Rightarrow> product_context_suffix" where
  "allocation_suffix SCORE = Index 0"
| "allocation_suffix RESOURCES = Index 1"
| "allocation_suffix PEOPLE_LITE_AUTH = Index 2"
| "allocation_suffix DOTNS_GATEWAY = Index 3"
| "allocation_suffix PEOPLE_AIRDROPS = Index 4"
| "allocation_suffix (resources_notification period seq) = raw_u32_u8 1 period seq"
| "allocation_suffix (statement_store_slot period seq) = raw_u32_u32 2 period seq"
| "allocation_suffix (long_term_storage period counter) = raw_u32_u8 3 period counter"
| "allocation_suffix (pgas_claim day slot) = raw_u32_u32 4 day slot"

text \<open>The arguments of an allocation fit the types of the code: \<open>u32\<close> and \<open>u8\<close>.\<close>

fun allocation_typed :: "personhood_allocation \<Rightarrow> bool" where
  "allocation_typed (resources_notification period seq) \<longleftrightarrow> period < 2 ^ 32 \<and> seq < 2 ^ 8"
| "allocation_typed (statement_store_slot period seq) \<longleftrightarrow> period < 2 ^ 32 \<and> seq < 2 ^ 32"
| "allocation_typed (long_term_storage period counter) \<longleftrightarrow> period < 2 ^ 32 \<and> counter < 2 ^ 8"
| "allocation_typed (pgas_claim day slot) \<longleftrightarrow> day < 2 ^ 32 \<and> slot < 2 ^ 32"
| "allocation_typed _ \<longleftrightarrow> True"

subsection \<open>Labels\<close>

definition is_ascii_lowercase :: "char \<Rightarrow> bool" where
  "is_ascii_lowercase c \<longleftrightarrow> (97::nat) \<le> of_char c \<and> of_char c \<le> (122::nat)"

definition is_ascii_digit :: "char \<Rightarrow> bool" where
  "is_ascii_digit c \<longleftrightarrow> (48::nat) \<le> of_char c \<and> of_char c \<le> (57::nat)"

definition MIN_LITE_USERNAME_DIGITS :: nat where
  "MIN_LITE_USERNAME_DIGITS = 2"

definition is_person_label :: "bytes \<Rightarrow> bool" where
  "is_person_label b \<longleftrightarrow> b \<noteq> [] \<and> list_all is_ascii_lowercase b"

definition is_dns_label_range :: "bytes \<Rightarrow> nat \<Rightarrow> nat \<Rightarrow> bool" where
  "is_dns_label_range b start stop =
     (if stop \<le> start then False
      else if b ! start = CHR ''-'' \<or> b ! (stop - 1) = CHR ''-'' then False
      else list_all (\<lambda>c. is_ascii_lowercase c \<or> is_ascii_digit c \<or> c = CHR ''-'') (take (stop - start) (drop start b)))"

definition is_dns_label :: "bytes \<Rightarrow> bool" where
  "is_dns_label b = is_dns_label_range b 0 (length b)"

definition is_product_name :: "bytes \<Rightarrow> bool" where
  "is_product_name name = is_dns_label name"

text \<open>The loop that looks for the single dot: \<open>None\<close> is the early return on a second one.\<close>

fun find_dot :: "nat \<Rightarrow> bytes \<Rightarrow> nat \<Rightarrow> nat \<Rightarrow> nat option" where
  "find_dot len [] i dot_index = Some dot_index"
| "find_dot len (c # cs) i dot_index =
     (if c = CHR ''.''
      then (if dot_index \<noteq> len then None else find_dot len cs (Suc i) i)
      else find_dot len cs (Suc i) dot_index)"

definition is_lite_person_label :: "bytes \<Rightarrow> bool" where
  "is_lite_person_label b =
     (let len = length b
      in if len < MIN_LITE_USERNAME_DIGITS + 2 then False
         else (case find_dot len b 0 len of
                 None \<Rightarrow> False
               | Some dot_index \<Rightarrow>
                   if dot_index = len then False
                   else if \<not> is_dns_label_range b 0 dot_index then False
                   else (let suffix_start = dot_index + 1
                         in if len - suffix_start < MIN_LITE_USERNAME_DIGITS then False
                            else list_all is_ascii_digit (drop suffix_start b))))"

subsection \<open>The label grammar\<close>

text \<open>The grammar: a stem that is a DNS label, one dot, and two or more digits.\<close>

definition dns_label :: "bytes \<Rightarrow> bool" where
  "dns_label b \<longleftrightarrow> b \<noteq> [] \<and> hd b \<noteq> CHR ''-'' \<and> last b \<noteq> CHR ''-'' \<and>
     (\<forall>c \<in> set b. is_ascii_lowercase c \<or> is_ascii_digit c \<or> c = CHR ''-'')"

lemma is_dns_label_prefix: "n \<le> length b \<Longrightarrow> is_dns_label_range b 0 n = dns_label (take n b)"
proof (cases "n = 0")
  case False
  assume n: "n \<le> length b"
  have "hd (take n b) = b ! 0" using False n by (cases b) (auto simp: hd_conv_nth take_Cons')
  moreover have "last (take n b) = b ! (n - 1)" using False n by (subst last_conv_nth) (auto simp: min_def)
  ultimately show ?thesis using False n by (auto simp: is_dns_label_range_def dns_label_def list_all_iff)
qed (simp add: is_dns_label_range_def dns_label_def)

lemma is_dns_label_iff: "is_dns_label b = dns_label b"
  by (simp add: is_dns_label_def is_dns_label_prefix)

lemma dns_label_no_dot: "dns_label b \<Longrightarrow> CHR ''.'' \<notin> set b"
  by (auto simp: dns_label_def is_ascii_lowercase_def is_ascii_digit_def)

lemma digits_no_dot: "list_all is_ascii_digit b \<Longrightarrow> CHR ''.'' \<notin> set b"
  by (auto simp: list_all_iff is_ascii_digit_def)

lemma find_dot_none: "CHR ''.'' \<notin> set b \<Longrightarrow> find_dot len b i d = Some d"
  by (induction b arbitrary: i) auto

lemma find_dot_second: "d \<noteq> len \<Longrightarrow> find_dot len b i d = (if CHR ''.'' \<in> set b then None else Some d)"
  by (induction b arbitrary: i) auto

lemma find_dot_first:
  "CHR ''.'' \<notin> set xs \<Longrightarrow> i + length xs \<noteq> len \<Longrightarrow>
   find_dot len (xs @ CHR ''.'' # ys) i len = (if CHR ''.'' \<in> set ys then None else Some (i + length xs))"
  by (induction xs arbitrary: i) (auto simp: find_dot_second)

text \<open>
  C33: A name is accepted as a lite-person label exactly when it is in the grammar: a stem that is a DNS label,
  a single dot and at least two digits.
\<close>

theorem lite_person_label_grammar:
  "is_lite_person_label b \<longleftrightarrow>
     (\<exists>stem digits. b = stem @ ''.'' @ digits \<and> is_dns_label stem \<and>
        MIN_LITE_USERNAME_DIGITS \<le> length digits \<and> list_all is_ascii_digit digits)"
proof (cases "CHR ''.'' \<in> set b")
  case False
  then show ?thesis by (auto simp: is_lite_person_label_def find_dot_none Let_def)
next
  case True
  obtain stem digits where b: "b = stem @ CHR ''.'' # digits" and s: "CHR ''.'' \<notin> set stem"
    using split_list_first[OF True] by blast
  have uniq: "stem' = stem \<and> digits' = digits"
    if "b = stem' @ ''.'' @ digits'" "is_dns_label stem'" for stem' digits'
    using that s b dns_label_no_dot[of stem'] by (auto simp: is_dns_label_iff append_eq_append_conv2 append_eq_Cons_conv Cons_eq_append_conv)
  have grammar: "is_lite_person_label b \<longleftrightarrow> is_dns_label stem \<and> MIN_LITE_USERNAME_DIGITS \<le> length digits \<and> list_all is_ascii_digit digits"
  proof (cases "CHR ''.'' \<in> set digits")
    case True
    then show ?thesis using b s digits_no_dot[of digits]
      by (auto simp: is_lite_person_label_def find_dot_first Let_def)
  next
    case False
    then have f: "find_dot (length b) b 0 (length b) = Some (length stem)" using b s by (simp add: find_dot_first)
    have r: "is_dns_label_range b 0 (length stem) = is_dns_label stem"
      using b by (simp add: is_dns_label_prefix is_dns_label_iff)
    have "is_dns_label stem \<Longrightarrow> stem \<noteq> []" by (simp add: is_dns_label_iff dns_label_def)
    then show ?thesis using b f r
      by (cases stem) (auto simp: is_lite_person_label_def MIN_LITE_USERNAME_DIGITS_def Let_def)
  qed
  have dot: "b = stem @ ''.'' @ digits" using b by simp
  show ?thesis
  proof
    assume "is_lite_person_label b"
    then show "\<exists>stem digits. b = stem @ ''.'' @ digits \<and> is_dns_label stem \<and>
        MIN_LITE_USERNAME_DIGITS \<le> length digits \<and> list_all is_ascii_digit digits"
      using dot grammar by (intro exI[of _ stem] exI[of _ digits]) simp
  next
    assume "\<exists>stem digits. b = stem @ ''.'' @ digits \<and> is_dns_label stem \<and>
        MIN_LITE_USERNAME_DIGITS \<le> length digits \<and> list_all is_ascii_digit digits"
    then obtain stem' digits' where g: "b = stem' @ ''.'' @ digits'" "is_dns_label stem'"
        "MIN_LITE_USERNAME_DIGITS \<le> length digits'" "list_all is_ascii_digit digits'" by (elim exE conjE)
    have "stem' = stem" "digits' = digits" using uniq[OF g(1,2)] by simp_all
    then show "is_lite_person_label b" using g(2-4) grammar by simp
  qed
qed

subsection \<open>Contexts are separate\<close>

lemma u32_le_length [simp]: "length (u32_le n) = 4"
  by (simp add: u32_le_def)

lemma u32_le_cons: "u32_le n = [char_of n, char_of (n div 256), char_of (n div 65536), char_of (n div 16777216)]"
proof -
  have "[0..<4] = [0, 1, 2, 3 :: nat]" by (simp add: upt_rec)
  then show ?thesis by (simp add: u32_le_def)
qed

lemma char_of_eq_mod: "(char_of (a::nat) :: char) = char_of b \<longleftrightarrow> a mod 256 = b mod 256"
proof
  assume "(char_of a :: char) = char_of b"
  then have "of_char (char_of a :: char) = (of_char (char_of b :: char) :: nat)" by simp
  then show "a mod 256 = b mod 256" by simp
next
  assume "a mod 256 = b mod 256"
  then show "(char_of a :: char) = char_of b" by (simp add: char_of_eq_iff take_bit_eq_mod)
qed

lemma u32_digits:
  "(n::nat) = n mod 256 + 256 * (n div 256 mod 256) + 65536 * (n div 65536 mod 256) + 16777216 * (n div 16777216)"
proof -
  have d: "n div 256 div 256 = n div 65536" "n div 65536 div 256 = n div 16777216" by (simp_all add: div_mult2_eq[symmetric])
  have "n = 256 * (n div 256) + n mod 256" by simp
  moreover have "n div 256 = 256 * (n div 65536) + n div 256 mod 256" using d(1) by (metis mult_div_mod_eq)
  moreover have "n div 65536 = 256 * (n div 16777216) + n div 65536 mod 256" using d(2) by (metis mult_div_mod_eq)
  ultimately show ?thesis by linarith
qed

lemma u32_le_inject: "n < 2 ^ 32 \<Longrightarrow> m < 2 ^ 32 \<Longrightarrow> u32_le n = u32_le m \<longleftrightarrow> n = m"
  using u32_digits[of n] u32_digits[of m] by (auto simp: u32_le_cons char_of_eq_mod)


lemma u8_inject: "n < 2 ^ 8 \<Longrightarrow> m < 2 ^ 8 \<Longrightarrow> (char_of (n::nat) :: char) = char_of m \<longleftrightarrow> n = m"
  by (simp add: char_of_eq_mod)

lemma suffix_length: "length (suffix_bytes (allocation_suffix a)) = 32"
  by (cases a) (simp_all add: INDEX_MAGIC_def raw_u32_u8_def raw_u32_u32_def zeros_def)

text \<open>The contexts in use under one product and network: the allocations and the signing context.\<close>

datatype context_use = Allocated personhood_allocation | Signing

fun use_suffix :: "context_use \<Rightarrow> product_context_suffix" where
  "use_suffix (Allocated a) = allocation_suffix a"
| "use_suffix Signing = SIGNING"

fun use_typed :: "context_use \<Rightarrow> bool" where
  "use_typed (Allocated a) = allocation_typed a"
| "use_typed Signing = True"

definition indexed :: "context_use \<Rightarrow> bool" where
  "indexed u \<longleftrightarrow> (case use_suffix u of Index _ \<Rightarrow> True | Raw _ \<Rightarrow> False)"

text \<open>An enumerable suffix ends with the last byte of the marker, the others end with a zero byte.\<close>

lemma allocation_last:
  "last (suffix_bytes (use_suffix u)) = char_of (if indexed u then 0x8f else 0 :: nat)"
proof (cases u)
  case (Allocated a)
  then show ?thesis
    by (cases a) (simp_all add: indexed_def raw_u32_u8_def raw_u32_u32_def INDEX_MAGIC_def zeros_def)
qed (simp add: indexed_def SIGNING_def zeros_def)

lemma use_suffix_length: "length (suffix_bytes (use_suffix u)) = 32"
  by (cases u) (simp_all add: suffix_length SIGNING_def zeros_def)

lemma use_suffix_inject:
  assumes t: "use_typed a" "use_typed b" and e: "suffix_bytes (use_suffix a) = suffix_bytes (use_suffix b)"
  shows "a = b"
proof -
  have i: "indexed a = indexed b"
    using allocation_last[of a] allocation_last[of b] e by (auto simp: char_of_eq_mod split: if_splits)
  note d = indexed_def raw_u32_u8_def raw_u32_u32_def SIGNING_def u32_le_inject u8_inject
  show ?thesis
  proof (cases a)
    case (Allocated x)
    show ?thesis
    proof (cases b)
      case (Allocated y)
      then show ?thesis using \<open>a = Allocated x\<close> t e i by (cases x; cases y) (simp_all add: d)
    next
      case Signing
      then show ?thesis using Allocated e i by (cases x) (simp_all add: d)
    qed
  next
    case Signing
    show ?thesis
    proof (cases b)
      case (Allocated y)
      then show ?thesis using Signing e i by (cases y) (simp_all add: d)
    qed (use Signing in simp)
  qed
qed

lemma append_dot_inject:
  "CHR ''.'' \<notin> set xs \<Longrightarrow> CHR ''.'' \<notin> set ys \<Longrightarrow> xs @ CHR ''.'' # us = ys @ CHR ''.'' # vs \<longleftrightarrow> xs = ys \<and> us = vs"
proof (induction xs arbitrary: ys)
  case Nil
  then show ?case by (cases ys) auto
next
  case (Cons x xs)
  then show ?case by (cases ys) auto
qed



end
