(* ===== verification/Score.thy ===== *)
theory Score
  imports Shared TxPriority ProductContext "HOL-Library.Word"
begin

text \<open>
  The pallet \<^verbatim>\<open>pallets/score/src/lib.rs\<close> with its types, \<^verbatim>\<open>types.rs\<close>: participants of the game gather a score
  by attending, reach personhood at a threshold, lose it by missing too many games, and turn score into
  points of a payout round that are paid as credit.

  \<open>score_state\<close> holds the storage items under their names; \<open>s_world\<close> is the rest of the chain: the
  currency, the registry of people and the reference counters of accounts. \<open>score_config\<close> holds the pallet's
  \<open>Config\<close>: origins, constants, the currency, the registry, the signature check. The bit field of the attendance
  history is an 8-bit word. A function called inside another whose error is swallowed leaves the world as it was
  when it fails: the currency operations are transactional, and the suspension of one id checks before it writes.
\<close>

unbundle bit_operations_syntax

subsection \<open>Attendance histories and streaks\<close>

type_synonym attendance_history = "8 word"

definition default_attendance_history :: attendance_history where
  "default_attendance_history = 0xFF"

definition store_attendance :: "bool \<Rightarrow> attendance_history \<Rightarrow> attendance_history" where
  "store_attendance attended h = push_bit 1 h OR (if attended then 1 else 0)"

definition count_ones :: "8 word \<Rightarrow> nat" where
  "count_ones w = length (filter (bit w) [0..<8])"

definition misses_in_window :: "nat \<Rightarrow> attendance_history \<Rightarrow> nat" where
  "misses_in_window window h =
     (let window' = min window 8;
          mask = (if window' \<ge> 8 then 0xFF else push_bit window' 1 - 1);
          attended_bits = h AND mask
      in window' - count_ones attended_bits)"

datatype streak = Attended nat | Absent nat

definition default_streak :: streak where
  "default_streak = Attended 0"

fun add_attendance :: "nat \<Rightarrow> streak \<Rightarrow> streak" where
  "add_attendance amount (Attended count) = Attended (sat_add 8 count amount)"
| "add_attendance amount (Absent _) = Attended amount"

fun add_absence :: "nat \<Rightarrow> streak \<Rightarrow> streak" where
  "add_absence amount (Absent count) = Absent (sat_add 8 count amount)"
| "add_absence amount (Attended _) = Absent amount"

fun streak_attendance :: "streak \<Rightarrow> nat" where
  "streak_attendance (Attended count) = count"
| "streak_attendance (Absent _) = 0"

fun streak_absence :: "streak \<Rightarrow> nat" where
  "streak_absence (Absent count) = count"
| "streak_absence (Attended _) = 0"

fun reset_attendance :: "streak \<Rightarrow> streak" where
  "reset_attendance (Attended _) = Attended 0"
| "reset_attendance (Absent n) = Absent n"

subsection \<open>Data\<close>

definition MAX_PERSONHOOD_THRESHOLD_TIERS :: nat where
  "MAX_PERSONHOOD_THRESHOLD_TIERS = 16"

definition MAX_PERSONHOOD_THRESHOLD :: nat where
  "MAX_PERSONHOOD_THRESHOLD = 21"

definition OPERATE_PAYOUT_ROUND_LIMIT :: nat where
  "OPERATE_PAYOUT_ROUND_LIMIT = 1000"

definition CUSTOM_ERROR_FAR_FUTURE :: nat where
  "CUSTOM_ERROR_FAR_FUTURE = 87"

record personhood_tier =
  pt_population :: nat
  pt_score :: nat

record absence_tier =
  at_population :: nat
  at_window :: nat
  at_allowed_misses :: nat

definition default_personhood_tiers :: "personhood_tier list" where
  "default_personhood_tiers =
     [\<lparr>pt_population = 5000, pt_score = 1\<rparr>, \<lparr>pt_population = 10000, pt_score = 3\<rparr>,
      \<lparr>pt_population = 20000, pt_score = 6\<rparr>, \<lparr>pt_population = 35000, pt_score = 10\<rparr>,
      \<lparr>pt_population = 50000, pt_score = 15\<rparr>,
      \<lparr>pt_population = max_of 32, pt_score = MAX_PERSONHOOD_THRESHOLD\<rparr>]"

definition default_absence_tiers :: "absence_tier list" where
  "default_absence_tiers =
     [\<lparr>at_population = 5000, at_window = 6, at_allowed_misses = 5\<rparr>,
      \<lparr>at_population = 10000, at_window = 5, at_allowed_misses = 4\<rparr>,
      \<lparr>at_population = 20000, at_window = 4, at_allowed_misses = 3\<rparr>,
      \<lparr>at_population = 35000, at_window = 3, at_allowed_misses = 2\<rparr>,
      \<lparr>at_population = 50000, at_window = 2, at_allowed_misses = 1\<rparr>,
      \<lparr>at_population = max_of 32, at_window = 6, at_allowed_misses = 1\<rparr>]"

datatype recognition =
  ExternallyRecognized | NotRecognized | SuspendedId personal_id | RecognizedId personal_id

fun is_recognized :: "recognition \<Rightarrow> bool" where
  "is_recognized (RecognizedId _) = True"
| "is_recognized ExternallyRecognized = True"
| "is_recognized _ = False"

definition is_externally_recognized :: "recognition \<Rightarrow> bool" where
  "is_externally_recognized r \<longleftrightarrow> r = ExternallyRecognized"

record participant =
  pa_score :: nat
  pa_streak :: streak
  pa_history :: attendance_history
  pa_credit :: balance
  pa_cashed_out :: bool
  pa_reached :: bool
  pa_ever_reached :: bool
  pa_recognition :: recognition
  pa_last_attended :: "nat option"
  pa_games_recognized :: nat

type_synonym score_round = nat

record score_schedule =
  sc_remaining :: nat
  sc_amount :: balance
  sc_duration :: block_number

record round_info =
  ri_finish_at :: block_number
  ri_credit :: balance

record round_payout =
  rp_remaining :: balance
  rp_point_price :: balance
  rp_remainder :: balance
  rp_total_points :: nat

datatype 'acc score_event =
  CreditClaimed "'acc account_or_person" 'acc balance
| PersonhoodRecognized "'acc account_or_person" bool
| PayoutRoundsScheduled balance nat block_number
| PayoutScheduleRemoved nat
| RoundTransitioned score_round
| PayoutRoundOperated score_round
| CashedOut "'acc account_or_person"
| PersonhoodThresholdScheduleSet
| AbsenceGraceScheduleSet
| AttendanceForced "'acc account_or_person" bool nat

datatype score_error =
  NotPerson | HasNotReachedPersonhood | NoReward | NoScore | NoSchedule | TooManySchedules | RecognizedErr
| CashOutCooldown | RoundOnGoingOrNoSchedule | NoRound | BadOriginNotPersonNotSigned
| BadOriginNotPersonNotSignedNotAccountParticipant | BadOriginNotSignedNotAccountParticipant
| AlreadyParticipating | KeyMustBeProvided | KeyMustNotBeProvided | HasReachedPersonhood
| InvalidProofOfOwnership | WindowTooLarge | AllowedMissesTooLarge | AbsenceScheduleNotSorted
| PersonhoodScheduleEmpty | PersonhoodScoreThresholdZero | PersonhoodScoreThresholdTooLarge
| PersonhoodScheduleNotSorted | PersonhoodScheduleNotMonotonic | PersonhoodScheduleNotTotal

datatype score_hold_reason = Payout | Credit

record ('acc, 'w) score_state =
  Participants :: "('acc account_or_person, participant) storage_map"
  PersonhoodThreshold :: nat
  PersonhoodThresholdSchedule :: "personhood_tier list"
  AbsenceGraceSchedule :: "absence_tier list"
  AbsenceGraceRatio :: "nat \<times> nat"
  CurrentRoundPoints :: nat
  CurrentRoundIndex :: score_round
  RoundsPoints :: "(score_round \<times> 'acc account_or_person, nat) storage_map"
  RoundPayouts :: "(score_round, round_payout) storage_map"
  RoundPlanning :: "round_info option"
  ScoreSchedules :: "score_schedule list"
  score_events :: "'acc score_event list"
  s_world :: 'w

definition score_genesis :: "'w \<Rightarrow> ('acc, 'w) score_state" where
  "score_genesis w = \<lparr>Participants = fmempty, PersonhoodThreshold = 0,
     PersonhoodThresholdSchedule = default_personhood_tiers, AbsenceGraceSchedule = default_absence_tiers,
     AbsenceGraceRatio = (0, 0), CurrentRoundPoints = 0, CurrentRoundIndex = 0, RoundsPoints = fmempty,
     RoundPayouts = fmempty, RoundPlanning = None, ScoreSchedules = [], score_events = [], s_world = w\<rparr>"

text \<open>
  The registry of people is the trait \<open>PeopleTrait\<close>; \<open>active_people\<close> is the \<open>active_count\<close> of the person origin.
\<close>

record ('acc, 'x, 'w, 'o, 'm, 'sig) score_config =
  s_manager_or_root :: "'o \<Rightarrow> bool"
  s_root :: "'o \<Rightarrow> bool"
  s_authorized :: "'o \<Rightarrow> bool"
  s_signed :: "'o \<Rightarrow> 'acc option"
  s_participant :: "'o \<Rightarrow> 'acc option"
  s_person :: "'o \<Rightarrow> context_id \<Rightarrow> alias_id option"
  s_hash :: "bytes \<Rightarrow> context_id"
  s_suffix :: bytes
  s_pot :: 'acc
  s_max_schedules :: nat
  s_offchain_interval :: block_number
  s_hold :: "score_hold_reason \<Rightarrow> 'acc \<Rightarrow> balance \<Rightarrow> 'w \<Rightarrow> 'x + 'w"
  s_release :: "score_hold_reason \<Rightarrow> 'acc \<Rightarrow> balance \<Rightarrow> precision \<Rightarrow> 'w \<Rightarrow> 'x + 'w \<times> balance"
  s_transfer :: "'acc \<Rightarrow> 'acc \<Rightarrow> balance \<Rightarrow> preservation \<Rightarrow> 'w \<Rightarrow> 'x + 'w \<times> balance"
  s_inc_sufficients :: "'acc \<Rightarrow> 'w \<Rightarrow> 'w"
  s_dec_sufficients :: "'acc \<Rightarrow> 'w \<Rightarrow> 'w"
  ppl_reserve :: "'w \<Rightarrow> personal_id \<times> 'w"
  ppl_recognize :: "personal_id \<Rightarrow> 'm option \<Rightarrow> 'w \<Rightarrow> 'x + 'w"
  ppl_suspend :: "personal_id list \<Rightarrow> 'w \<Rightarrow> 'x + 'w"
  ppl_start_session :: "'w \<Rightarrow> 'x + 'w"
  ppl_end_session :: "'w \<Rightarrow> 'x + 'w"
  ppl_can_start_session :: "'w \<Rightarrow> bool"
  active_people :: "'w \<Rightarrow> nat"
  encode_account :: "'acc \<Rightarrow> bytes"
  s_verify_signature :: "'sig \<Rightarrow> bytes \<Rightarrow> 'm \<Rightarrow> bool"
  w_transition :: weight
  w_authorize_transition :: weight
  w_operate :: "nat \<Rightarrow> weight"
  w_authorize_operate :: "nat \<Rightarrow> weight"
  ocw_fits :: "weight \<Rightarrow> bool"

type_synonym ('acc, 'x, 'w, 'o, 'm, 'sig) scfg = "('acc, 'x, 'w, 'o, 'm, 'sig) score_config"
type_synonym ('acc, 'w) sst = "('acc, 'w) score_state"
type_synonym 'x score_err = "(score_error, 'x) dispatch_error"
type_synonym ('acc, 'x, 'w) score_result = "'x score_err + ('acc, 'w) score_state \<times> post_info"

definition score_deposit :: "'acc score_event \<Rightarrow> ('acc, 'w) sst \<Rightarrow> ('acc, 'w) sst" where
  "score_deposit e s = s\<lparr>score_events := score_events s @ [e]\<rparr>"

definition score_context :: "('acc, 'x, 'w, 'o, 'm, 'sig) scfg \<Rightarrow> context_id" where
  "score_context cfg = build_product_context (s_hash cfg) PRODUCT_NAME (s_suffix cfg) (allocation_suffix SCORE)"

subsection \<open>Schedules\<close>

text \<open>The loops carry the limits of the tier before.\<close>

fun personhood_tiers_loop :: "nat \<Rightarrow> nat \<Rightarrow> personhood_tier list \<Rightarrow> score_error + nat" where
  "personhood_tiers_loop prev_pop prev_score [] = Inr prev_pop"
| "personhood_tiers_loop prev_pop prev_score (tier # tiers) =
     bindE (ensure (pt_score tier > 0) PersonhoodScoreThresholdZero) (\<lambda>_.
     bindE (ensure (pt_score tier \<le> MAX_PERSONHOOD_THRESHOLD) PersonhoodScoreThresholdTooLarge) (\<lambda>_.
     bindE (ensure (pt_population tier \<ge> prev_pop) PersonhoodScheduleNotSorted) (\<lambda>_.
     bindE (ensure (pt_score tier \<ge> prev_score) PersonhoodScheduleNotMonotonic) (\<lambda>_.
     personhood_tiers_loop (pt_population tier) (pt_score tier) tiers))))"

definition validate_personhood_threshold_tiers :: "personhood_tier list \<Rightarrow> score_error + unit" where
  "validate_personhood_threshold_tiers tiers =
     bindE (ensure (tiers \<noteq> []) PersonhoodScheduleEmpty) (\<lambda>_.
     bindE (personhood_tiers_loop 0 0 tiers) (\<lambda>prev_pop.
     ensure (prev_pop = max_of 32) PersonhoodScheduleNotTotal))"

fun absence_tiers_loop :: "nat \<Rightarrow> absence_tier list \<Rightarrow> score_error + unit" where
  "absence_tiers_loop prev_threshold [] = Inr ()"
| "absence_tiers_loop prev_threshold (tier # tiers) =
     bindE (ensure (at_window tier \<le> 8) WindowTooLarge) (\<lambda>_.
     bindE (ensure (at_allowed_misses tier < at_window tier \<or> (at_window tier = 0 \<and> at_allowed_misses tier = 0))
              AllowedMissesTooLarge) (\<lambda>_.
     bindE (ensure (at_population tier \<ge> prev_threshold) AbsenceScheduleNotSorted) (\<lambda>_.
     absence_tiers_loop (at_population tier) tiers)))"

definition validate_absence_grace_tiers :: "absence_tier list \<Rightarrow> score_error + unit" where
  "validate_absence_grace_tiers tiers = absence_tiers_loop 0 tiers"

definition calculate_personhood_threshold :: "nat \<Rightarrow> ('acc, 'w) sst \<Rightarrow> nat" where
  "calculate_personhood_threshold active_count s =
     (case find (\<lambda>t. active_count \<le> pt_population t) (PersonhoodThresholdSchedule s) of
        Some t \<Rightarrow> pt_score t
      | None \<Rightarrow> MAX_PERSONHOOD_THRESHOLD)"

text \<open>The last tier serves a population that exceeds all of them.\<close>

definition calculate_absence_grace_ratio :: "nat \<Rightarrow> ('acc, 'w) sst \<Rightarrow> nat \<times> nat" where
  "calculate_absence_grace_ratio active_count s =
     (let tiers = AbsenceGraceSchedule s in
      if tiers = [] then (0, 0)
      else (let tier = (case find (\<lambda>t. active_count \<le> at_population t) tiers of
                          Some t \<Rightarrow> t
                        | None \<Rightarrow> last tiers)
            in (at_allowed_misses tier, at_window tier)))"

definition update_thresholds :: "('acc, 'x, 'w, 'o, 'm, 'sig) scfg \<Rightarrow> ('acc, 'w) sst \<Rightarrow> ('acc, 'w) sst" where
  "update_thresholds cfg s =
     (let active_count = active_people cfg (s_world s)
      in s\<lparr>PersonhoodThreshold := calculate_personhood_threshold active_count s,
           AbsenceGraceRatio := calculate_absence_grace_ratio active_count s\<rparr>)"

definition score_integrity_test :: "('acc, 'x, 'w, 'o, 'm, 'sig) scfg \<Rightarrow> bool" where
  "score_integrity_test cfg \<longleftrightarrow>
     is_ok (validate_personhood_threshold_tiers default_personhood_tiers) \<and>
     is_ok (validate_absence_grace_tiers default_absence_tiers) \<and>
     ocw_fits cfg (weight_add (w_transition cfg) (w_authorize_transition cfg)) \<and>
     ocw_fits cfg (weight_add (w_operate cfg OPERATE_PAYOUT_ROUND_LIMIT)
                     (w_authorize_operate cfg OPERATE_PAYOUT_ROUND_LIMIT))"

subsection \<open>Origins\<close>

definition ensure_signed_or_participant :: "('acc, 'x, 'w, 'o, 'm, 'sig) scfg \<Rightarrow> 'o \<Rightarrow> 'x score_err + 'acc" where
  "ensure_signed_or_participant cfg origin =
     (case s_signed cfg origin of
        Some a \<Rightarrow> Inr a
      | None \<Rightarrow> ok_or (s_participant cfg origin) (Module BadOriginNotSignedNotAccountParticipant))"

definition ensure_signed_or_person ::
  "('acc, 'x, 'w, 'o, 'm, 'sig) scfg \<Rightarrow> 'o \<Rightarrow> 'x score_err + 'acc account_or_person" where
  "ensure_signed_or_person cfg origin =
     (case s_signed cfg origin of
        Some a \<Rightarrow> Inr (Account a)
      | None \<Rightarrow> ok_or (map_option Person (s_person cfg origin (score_context cfg))) (Module BadOriginNotPersonNotSigned))"

definition ensure_signed_or_participant_or_person ::
  "('acc, 'x, 'w, 'o, 'm, 'sig) scfg \<Rightarrow> 'o \<Rightarrow> 'x score_err + 'acc account_or_person" where
  "ensure_signed_or_participant_or_person cfg origin =
     (case s_person cfg origin (score_context cfg) of
        Some al \<Rightarrow> Inr (Person al)
      | None \<Rightarrow>
          (case ensure_signed_or_participant cfg origin of
             Inr a \<Rightarrow> Inr (Account a)
           | Inl _ \<Rightarrow> Inl (Module BadOriginNotPersonNotSignedNotAccountParticipant)))"

definition score_ensure_person :: "('acc, 'x, 'w, 'o, 'm, 'sig) scfg \<Rightarrow> 'o \<Rightarrow> 'x score_err + alias_id" where
  "score_ensure_person cfg origin = ok_or (s_person cfg origin (score_context cfg)) BadOrigin"

subsection \<open>Payout rounds\<close>

definition score_schedule_payout_rounds ::
  "('acc, 'x, 'w, 'o, 'm, 'sig) scfg \<Rightarrow> 'o \<Rightarrow> balance \<Rightarrow> nat \<Rightarrow> block_number
     \<Rightarrow> ('acc, 'w) sst \<Rightarrow> ('acc, 'x, 'w) score_result" where
  "score_schedule_payout_rounds cfg origin amount count duration s =
     bindE (ensure (s_manager_or_root cfg origin) BadOrigin) (\<lambda>_.
     bindE (map_err Foreign (s_hold cfg Payout (s_pot cfg) (sat_mul 128 amount count) (s_world s))) (\<lambda>w.
     bindE (ensure (length (ScoreSchedules s) < s_max_schedules cfg) (Module TooManySchedules)) (\<lambda>_.
     Inr (score_deposit (PayoutRoundsScheduled amount count duration)
            (s\<lparr>s_world := w,
               ScoreSchedules := ScoreSchedules s @
                 [\<lparr>sc_remaining = count, sc_amount = amount, sc_duration = duration\<rparr>]\<rparr>), pays_info Pays_No))))"

definition score_remove_payout_schedule ::
  "('acc, 'x, 'w, 'o, 'm, 'sig) scfg \<Rightarrow> 'o \<Rightarrow> nat \<Rightarrow> ('acc, 'w) sst \<Rightarrow> ('acc, 'x, 'w) score_result" where
  "score_remove_payout_schedule cfg origin index s =
     bindE (ensure (s_manager_or_root cfg origin) BadOrigin) (\<lambda>_.
     bindE (ensure (index < length (ScoreSchedules s)) (Module NoSchedule)) (\<lambda>_.
     let schedule = ScoreSchedules s ! index;
         schedules = take index (ScoreSchedules s) @ drop (Suc index) (ScoreSchedules s);
         amount_to_release = sat_mul 128 (sc_amount schedule) (sc_remaining schedule) in
     bindE (map_err Foreign (s_release cfg Payout (s_pot cfg) amount_to_release BestEffort (s_world s))) (\<lambda>(w, _).
     Inr (score_deposit (PayoutScheduleRemoved index) (s\<lparr>s_world := w, ScoreSchedules := schedules\<rparr>),
          pays_info Pays_No))))"

definition validate_transition_round :: "block_number \<Rightarrow> score_round \<Rightarrow> ('acc, 'w) sst \<Rightarrow> unit + unit" where
  "validate_transition_round now round_index s =
     (if round_index \<noteq> CurrentRoundIndex s then Inl ()
      else (let end_current_round = (case RoundPlanning s of Some r \<Rightarrow> now \<ge> ri_finish_at r | None \<Rightarrow> False);
                schedule_exists = (case ScoreSchedules s of sch # _ \<Rightarrow> sc_remaining sch > 0 | [] \<Rightarrow> False);
                start_new_round_planning = (RoundPlanning s = None \<and> schedule_exists)
            in if end_current_round \<or> start_new_round_planning then Inr () else Inl ()))"

text \<open>The current round goes into payout, if there is one. The index is a \<open>u32\<close> that wraps.\<close>

definition finish_current_round :: "('acc, 'w) sst \<Rightarrow> ('acc, 'w) sst" where
  "finish_current_round s =
     (case RoundPlanning s of
        None \<Rightarrow> s
      | Some current_round \<Rightarrow>
          (let points = CurrentRoundPoints s;
               current_round_index = CurrentRoundIndex s;
               credit = ri_credit current_round;
               point_price = (if points = 0 then 0 else credit div points);
               remainder = credit - sat_mul 128 point_price points
           in s\<lparr>RoundPlanning := None, CurrentRoundPoints := 0,
                RoundPayouts := fmupd current_round_index
                  \<lparr>rp_remaining = credit, rp_point_price = point_price, rp_remainder = remainder,
                   rp_total_points = points\<rparr> (RoundPayouts s),
                CurrentRoundIndex := (current_round_index + 1) mod 2 ^ 32\<rparr>))"

definition plan_next_round :: "block_number \<Rightarrow> ('acc, 'w) sst \<Rightarrow> ('acc, 'w) sst" where
  "plan_next_round now s =
     (case ScoreSchedules s of
        [] \<Rightarrow> s
      | first_schedule # rest \<Rightarrow>
          (let schedule = first_schedule\<lparr>sc_remaining := sc_remaining first_schedule - 1\<rparr>
           in s\<lparr>RoundPlanning := Some \<lparr>ri_finish_at = sat_add 32 now (sc_duration schedule),
                                      ri_credit = sc_amount schedule\<rparr>,
                ScoreSchedules := (if sc_remaining schedule = 0 then rest else schedule # rest)\<rparr>))"

definition transition_round ::
  "('acc, 'x, 'w, 'o, 'm, 'sig) scfg \<Rightarrow> block_number \<Rightarrow> 'o \<Rightarrow> score_round
     \<Rightarrow> ('acc, 'w) sst \<Rightarrow> ('acc, 'x, 'w) score_result" where
  "transition_round cfg now origin round_index s =
     bindE (ensure (s_authorized cfg origin) BadOrigin) (\<lambda>_.
     bindE (map_err (\<lambda>_. Module RoundOnGoingOrNoSchedule) (validate_transition_round now round_index s)) (\<lambda>_.
     Inr (score_deposit (RoundTransitioned round_index) (plan_next_round now (finish_current_round s)),
          pays_info Pays_Yes)))"

definition validate_operate_payout_round :: "score_round \<Rightarrow> ('acc, 'w) sst \<Rightarrow> unit + round_payout" where
  "validate_operate_payout_round round_index s = ok_or (fmlookup (RoundPayouts s) round_index) ()"

text \<open>What a participant with \<open>points\<close> gets: the price of the points and their share of the remainder.\<close>

definition points_reward :: "round_payout \<Rightarrow> nat \<Rightarrow> balance" where
  "points_reward rnd points =
     (let base_reward = sat_mul 128 (rp_point_price rnd) points;
          remainder_portion = (if rp_total_points rnd = 0 then 0
                               else sat_mul 128 (rp_remainder rnd) points div rp_total_points rnd)
      in sat_add 128 base_reward remainder_portion)"

text \<open>
  The loop drains the points of the round; \<open>order\<close> is the storage order of what is left of the prefix. It
  returns the total credited and whether no points are left.
\<close>

fun payout_loop ::
  "round_payout \<Rightarrow> score_round \<Rightarrow> nat \<Rightarrow> 'acc account_or_person list \<Rightarrow> balance
     \<Rightarrow> ('acc, 'w) sst \<Rightarrow> balance \<times> bool \<times> ('acc, 'w) sst" where
  "payout_loop rnd r limit [] credited s = (credited, limit \<noteq> 0, s)"
| "payout_loop rnd r limit (who # order) credited s =
     (if limit = 0 then (credited, False, s)
      else (let points = get_or 0 (RoundsPoints s) (r, who);
                s1 = s\<lparr>RoundsPoints := fmdrop (r, who) (RoundsPoints s)\<rparr>
            in case fmlookup (Participants s1) who of
                 None \<Rightarrow> payout_loop rnd r (limit - 1) order credited s1
               | Some score \<Rightarrow>
                   (let reward = points_reward rnd points;
                        score' = score\<lparr>pa_credit := sat_add 128 (pa_credit score) reward\<rparr>
                    in payout_loop rnd r (limit - 1) order (sat_add 128 credited reward)
                         (s1\<lparr>Participants := fmupd who score' (Participants s1)\<rparr>))))"

text \<open>The operation inside the storage layer: an error undoes all of it.\<close>

definition operate_in_layer ::
  "('acc, 'x, 'w, 'o, 'm, 'sig) scfg \<Rightarrow> 'acc account_or_person list \<Rightarrow> score_round \<Rightarrow> nat \<Rightarrow> round_payout
     \<Rightarrow> ('acc, 'w) sst \<Rightarrow> 'x + ('acc, 'w) sst" where
  "operate_in_layer cfg order round_index limit rnd s =
     (let (credited, no_more_points, s1) = payout_loop rnd round_index limit order 0 s;
          pot = s_pot cfg in
      bindE (s_release cfg Payout pot credited Exact (s_world s1)) (\<lambda>(w1, released).
      bindE (s_hold cfg Credit pot released w1) (\<lambda>w2.
      let remaining = rp_remaining rnd - credited in
      if no_more_points
      then bindE (s_release cfg Payout pot remaining Exact w2) (\<lambda>(w3, _).
           Inr (s1\<lparr>s_world := w3, RoundPayouts := fmdrop round_index (RoundPayouts s1)\<rparr>))
      else Inr (s1\<lparr>s_world := w2,
                   RoundPayouts := fmupd round_index (rnd\<lparr>rp_remaining := remaining\<rparr>) (RoundPayouts s1)\<rparr>))))"

definition recycle_round_payout ::
  "('acc, 'x, 'w, 'o, 'm, 'sig) scfg \<Rightarrow> score_round \<Rightarrow> ('acc, 'w) sst \<Rightarrow> ('acc, 'w) sst" where
  "recycle_round_payout cfg round_index s =
     (case fmlookup (RoundPayouts s) round_index of
        None \<Rightarrow> s
      | Some rnd \<Rightarrow>
          (let s1 = s\<lparr>RoundPayouts := fmdrop round_index (RoundPayouts s)\<rparr>
           in if rp_remaining rnd = 0 then s1
              else (case s_release cfg Payout (s_pot cfg) (rp_remaining rnd) BestEffort (s_world s1) of
                      Inl _ \<Rightarrow> s1
                    | Inr (w, _) \<Rightarrow> s1\<lparr>s_world := w\<rparr>)))"

definition operate_payout_round ::
  "('acc, 'x, 'w, 'o, 'm, 'sig) scfg \<Rightarrow> 'acc account_or_person list \<Rightarrow> 'o \<Rightarrow> score_round \<Rightarrow> nat
     \<Rightarrow> ('acc, 'w) sst \<Rightarrow> ('acc, 'x, 'w) score_result" where
  "operate_payout_round cfg order origin round_index limit s =
     bindE (ensure (s_authorized cfg origin) BadOrigin) (\<lambda>_.
     bindE (map_err (\<lambda>_. Module NoRound) (validate_operate_payout_round round_index s)) (\<lambda>rnd.
     case operate_in_layer cfg order round_index limit rnd s of
       Inr s' \<Rightarrow> Inr (score_deposit (PayoutRoundOperated round_index) s', pays_info Pays_Yes)
     | Inl _ \<Rightarrow> Inr (recycle_round_payout cfg round_index s, pays_info Pays_Yes)))"

definition award_participant_payout_points ::
  "'acc account_or_person \<Rightarrow> nat \<Rightarrow> ('acc, 'w) sst \<Rightarrow> ('acc, 'w) sst" where
  "award_participant_payout_points who points s =
     (if points = 0 then s
      else (let round_index = CurrentRoundIndex s
            in case checked_add 32 (CurrentRoundPoints s) points of
                 Some new_round_points \<Rightarrow>
                   s\<lparr>RoundsPoints := fmupd (round_index, who)
                       (sat_add 32 (get_or 0 (RoundsPoints s) (round_index, who)) points) (RoundsPoints s),
                     CurrentRoundPoints := new_round_points\<rparr>
               | None \<Rightarrow> s))"

definition cash_out ::
  "('acc, 'x, 'w, 'o, 'm, 'sig) scfg \<Rightarrow> 'o \<Rightarrow> ('acc, 'w) sst \<Rightarrow> ('acc, 'x, 'w) score_result" where
  "cash_out cfg origin s =
     bindE (ensure_signed_or_participant cfg origin) (\<lambda>account.
     let who = Account account in
     bindE (ok_or (fmlookup (Participants s) who) (Module NoScore)) (\<lambda>score.
     bindE (ensure (\<not> pa_ever_reached score) (Module HasReachedPersonhood)) (\<lambda>_.
     bindE (ensure (\<not> pa_cashed_out score) (Module CashOutCooldown)) (\<lambda>_.
     let reduction = sat_add 8 (pa_score score) 1 div 2;
         score' = score\<lparr>pa_score := pa_score score - reduction, pa_streak := reset_attendance (pa_streak score),
                       pa_cashed_out := True\<rparr>;
         s1 = award_participant_payout_points who reduction s
     in Inr (score_deposit (CashedOut who) (s1\<lparr>Participants := fmupd who score' (Participants s1)\<rparr>),
             pays_info Pays_No)))))"

definition redeem_credit ::
  "('acc, 'x, 'w, 'o, 'm, 'sig) scfg \<Rightarrow> 'o \<Rightarrow> 'acc \<Rightarrow> ('acc, 'w) sst \<Rightarrow> ('acc, 'x, 'w) score_result" where
  "redeem_credit cfg origin destination s =
     bindE (ensure_signed_or_participant_or_person cfg origin) (\<lambda>who.
     bindE (ok_or (fmlookup (Participants s) who) (Module NoScore)) (\<lambda>score.
     bindE (ensure (pa_credit score \<noteq> 0) (Module NoReward)) (\<lambda>_.
     let pot = s_pot cfg in
     bindE (map_err Foreign (s_release cfg Credit pot (pa_credit score) Exact (s_world s))) (\<lambda>(w1, released).
     bindE (map_err Foreign (s_transfer cfg pot destination released Expendable w1)) (\<lambda>(w2, transferred).
     Inr (score_deposit (CreditClaimed who destination transferred)
            (s\<lparr>s_world := w2, Participants := fmupd who (score\<lparr>pa_credit := 0\<rparr>) (Participants s)\<rparr>),
          pays_info Pays_No))))))"

subsection \<open>Personhood\<close>

definition register ::
  "('acc, 'x, 'w, 'o, 'm, 'sig) scfg \<Rightarrow> 'o \<Rightarrow> ('m \<times> 'sig) option \<Rightarrow> ('acc, 'w) sst \<Rightarrow> ('acc, 'x, 'w) score_result" where
  "register cfg origin key s =
     bindE (ensure_signed_or_participant cfg origin) (\<lambda>account.
     let who = Account account in
     bindE (ok_or (fmlookup (Participants s) who) (Module NoScore)) (\<lambda>score.
     bindE (ensure (pa_reached score \<or> pa_score score \<ge> PersonhoodThreshold s) (Module HasNotReachedPersonhood)) (\<lambda>_.
     bindE (case pa_recognition score of
              SuspendedId i \<Rightarrow>
                bindE (ensure (key = None) (Module KeyMustNotBeProvided)) (\<lambda>_.
                bindE (map_err Foreign (ppl_recognize cfg i None (s_world s))) (\<lambda>w. Inr (i, True, w)))
            | NotRecognized \<Rightarrow>
                bindE (ok_or key (Module KeyMustBeProvided)) (\<lambda>(member_key, proof_of_ownership).
                bindE (ensure (s_verify_signature cfg proof_of_ownership
                                 (''pop register using'' @ encode_account cfg account) member_key)
                        (Module InvalidProofOfOwnership)) (\<lambda>_.
                let (i, w) = ppl_reserve cfg (s_world s) in
                bindE (map_err Foreign (ppl_recognize cfg i (Some member_key) w)) (\<lambda>w'. Inr (i, False, w'))))
            | _ \<Rightarrow> Inl (Module RecognizedErr)) (\<lambda>(i, resumed, w).
     let score' = score\<lparr>pa_recognition := RecognizedId i, pa_reached := True, pa_ever_reached := True\<rparr>
     in Inr (score_deposit (PersonhoodRecognized who resumed)
               (s\<lparr>s_world := w, Participants := fmupd who score' (Participants s)\<rparr>), pays_info Pays_No)))))"

definition set_absence_grace_schedule ::
  "('acc, 'x, 'w, 'o, 'm, 'sig) scfg \<Rightarrow> 'o \<Rightarrow> absence_tier list \<Rightarrow> ('acc, 'w) sst \<Rightarrow> ('acc, 'x, 'w) score_result" where
  "set_absence_grace_schedule cfg origin schedule s =
     bindE (ensure (s_manager_or_root cfg origin) BadOrigin) (\<lambda>_.
     bindE (map_err Module (validate_absence_grace_tiers schedule)) (\<lambda>_.
     Inr (score_deposit AbsenceGraceScheduleSet (s\<lparr>AbsenceGraceSchedule := schedule\<rparr>), pays_info Pays_No)))"

definition set_personhood_threshold_schedule ::
  "('acc, 'x, 'w, 'o, 'm, 'sig) scfg \<Rightarrow> 'o \<Rightarrow> personhood_tier list \<Rightarrow> ('acc, 'w) sst \<Rightarrow> ('acc, 'x, 'w) score_result" where
  "set_personhood_threshold_schedule cfg origin schedule s =
     bindE (ensure (s_manager_or_root cfg origin) BadOrigin) (\<lambda>_.
     bindE (map_err Module (validate_personhood_threshold_tiers schedule)) (\<lambda>_.
     Inr (score_deposit PersonhoodThresholdScheduleSet (s\<lparr>PersonhoodThresholdSchedule := schedule\<rparr>),
          pays_info Pays_No)))"

subsection \<open>Interface for the game\<close>

definition can_onboard_for_recognition :: "'acc \<Rightarrow> ('acc, 'w) sst \<Rightarrow> 'x score_err + unit" where
  "can_onboard_for_recognition who s =
     ensure (\<not> contains_key (Participants s) (Account who)) (Module AlreadyParticipating)"

definition new_participant :: "nat \<Rightarrow> bool \<Rightarrow> recognition \<Rightarrow> participant" where
  "new_participant score reached recog =
     \<lparr>pa_score = score, pa_streak = default_streak, pa_history = default_attendance_history, pa_credit = 0,
      pa_cashed_out = False, pa_reached = reached, pa_ever_reached = reached, pa_recognition = recog,
      pa_last_attended = None, pa_games_recognized = 0\<rparr>"

definition onboard_for_recognition ::
  "('acc, 'x, 'w, 'o, 'm, 'sig) scfg \<Rightarrow> 'acc \<Rightarrow> ('acc, 'w) sst \<Rightarrow> 'x score_err + ('acc, 'w) sst" where
  "onboard_for_recognition cfg who s =
     bindE (can_onboard_for_recognition who s) (\<lambda>_.
     Inr (s\<lparr>s_world := s_inc_sufficients cfg who (s_world s),
            Participants := fmupd (Account who) (new_participant 0 False NotRecognized) (Participants s)\<rparr>))"

definition onboard_externally_recognized :: "alias_id \<Rightarrow> ('acc, 'w) sst \<Rightarrow> 'x score_err + ('acc, 'w) sst" where
  "onboard_externally_recognized who s =
     bindE (ensure (\<not> contains_key (Participants s) (Person who)) (Module AlreadyParticipating)) (\<lambda>_.
     Inr (s\<lparr>Participants := fmupd (Person who)
              (new_participant (PersonhoodThreshold s) True ExternallyRecognized) (Participants s)\<rparr>))"

definition offboard ::
  "('acc, 'x, 'w, 'o, 'm, 'sig) scfg \<Rightarrow> 'acc account_or_person \<Rightarrow> ('acc, 'w) sst \<Rightarrow> 'x score_err + ('acc, 'w) sst" where
  "offboard cfg who s =
     bindE (case map_option pa_recognition (fmlookup (Participants s) who) of
              Some (RecognizedId i) \<Rightarrow>
                map_err Foreign
                  (bindE (ppl_start_session cfg (s_world s)) (\<lambda>w1.
                   bindE (ppl_suspend cfg [i] w1) (\<lambda>w2.
                   ppl_end_session cfg w2)))
            | _ \<Rightarrow> Inr (s_world s)) (\<lambda>w.
     let w' = (case fmlookup (Participants s) who of
                 None \<Rightarrow> w
               | Some score \<Rightarrow>
                   if pa_credit score = 0 then w
                   else (case s_release cfg Credit (s_pot cfg) (pa_credit score) Exact w of
                           Inr (w1, _) \<Rightarrow> w1
                         | Inl _ \<Rightarrow> w));
         w'' = (case who of Account account \<Rightarrow> s_dec_sufficients cfg account w' | Person _ \<Rightarrow> w')
     in Inr (s\<lparr>s_world := w'', Participants := fmdrop who (Participants s)\<rparr>))"

definition start_attendance_report_session ::
  "('acc, 'x, 'w, 'o, 'm, 'sig) scfg \<Rightarrow> ('acc, 'w) sst \<Rightarrow> 'x score_err + ('acc, 'w) sst" where
  "start_attendance_report_session cfg s =
     (let s1 = update_thresholds cfg s
      in bindE (map_err Foreign (ppl_start_session cfg (s_world s1))) (\<lambda>w. Inr (s1\<lparr>s_world := w\<rparr>)))"

definition end_attendance_report_session ::
  "('acc, 'x, 'w, 'o, 'm, 'sig) scfg \<Rightarrow> ('acc, 'w) sst \<Rightarrow> 'x score_err + ('acc, 'w) sst" where
  "end_attendance_report_session cfg s =
     bindE (map_err Foreign (ppl_end_session cfg (s_world s))) (\<lambda>w. Inr (s\<lparr>s_world := w\<rparr>))"

definition can_start_attendance_report_session :: "('acc, 'x, 'w, 'o, 'm, 'sig) scfg \<Rightarrow> ('acc, 'w) sst \<Rightarrow> bool" where
  "can_start_attendance_report_session cfg s = ppl_can_start_session cfg (s_world s)"

definition reached_personhood :: "'acc account_or_person \<Rightarrow> ('acc, 'w) sst \<Rightarrow> bool" where
  "reached_personhood who s = (case fmlookup (Participants s) who of Some p \<Rightarrow> pa_reached p | None \<Rightarrow> False)"

text \<open>
  \<open>set_attendance\<close> in the order of the code: the participant after the attendance is counted, whether
  personhood is acquired and whether it is to be lost, and the suspension in the registry.
\<close>

definition count_attendance :: "bool \<Rightarrow> nat \<Rightarrow> nat \<Rightarrow> participant \<Rightarrow> participant" where
  "count_attendance attended game_index threshold p =
     (let p1 = (if is_externally_recognized (pa_recognition p) then p\<lparr>pa_score := threshold\<rparr> else p);
          p2 = (if attended then p1\<lparr>pa_last_attended := Some game_index\<rparr> else p1);
          p3 = (if attended \<and> (case pa_recognition p2 of RecognizedId _ \<Rightarrow> True | _ \<Rightarrow> False)
                then p2\<lparr>pa_games_recognized := sat_add 32 (pa_games_recognized p2) 1\<rparr> else p2);
          p4 = (if attended
                then (let st = add_attendance 1 (pa_streak p3);
                          uncapped_score = sat_add 8 (pa_score p3) (streak_attendance st)
                      in p3\<lparr>pa_streak := st, pa_score := min uncapped_score MAX_PERSONHOOD_THRESHOLD\<rparr>)
                else (let st = add_absence 1 (pa_streak p3);
                          p' = p3\<lparr>pa_streak := st\<rparr>
                      in if is_externally_recognized (pa_recognition p') then p'
                         else p'\<lparr>pa_score := pa_score p' - streak_absence st\<rparr>))
      in p4\<lparr>pa_history := store_attendance attended (pa_history p4)\<rparr>)"

definition must_suspend :: "bool \<Rightarrow> nat \<times> nat \<Rightarrow> nat \<Rightarrow> participant \<Rightarrow> bool" where
  "must_suspend attended ratio threshold p =
     (let (allowed_misses, window) = ratio;
          misses = misses_in_window window (pa_history p)
      in \<not> attended \<and> pa_reached p \<and>
         (case pa_recognition p of
            ExternallyRecognized \<Rightarrow> False
          | SuspendedId _ \<Rightarrow> False
          | RecognizedId _ \<Rightarrow> window = 0 \<or> misses > allowed_misses
          | NotRecognized \<Rightarrow> window = 0 \<or> misses > allowed_misses \<or> pa_score p < threshold))"

definition set_attendance ::
  "('acc, 'x, 'w, 'o, 'm, 'sig) scfg \<Rightarrow> 'acc account_or_person \<Rightarrow> bool \<Rightarrow> nat \<Rightarrow> ('acc, 'w) sst
     \<Rightarrow> 'x score_err + ('acc, 'w) sst \<times> participant" where
  "set_attendance cfg who attended game_index s =
     bindE (ok_or (fmlookup (Participants s) who) (Module NoScore)) (\<lambda>score.
     let threshold = PersonhoodThreshold s;
         p = count_attendance attended game_index threshold score;
         acquire_personhood = (\<not> pa_reached p \<and> pa_score p \<ge> threshold);
         (recog, suspend, w) =
           (if must_suspend attended (AbsenceGraceRatio s) threshold p
            then (case pa_recognition p of
                    RecognizedId i \<Rightarrow>
                      (case ppl_suspend cfg [i] (s_world s) of
                         Inr w' \<Rightarrow> (SuspendedId i, True, w')
                       | Inl _ \<Rightarrow> (pa_recognition p, False, s_world s))
                  | r \<Rightarrow> (r, True, s_world s))
            else (pa_recognition p, False, s_world s));
         reached = (if acquire_personhood then True else if suspend then False else pa_reached p);
         p' = p\<lparr>pa_recognition := recog, pa_reached := reached,
               pa_ever_reached := pa_ever_reached p \<or> reached, pa_cashed_out := False\<rparr>
     in Inr (s\<lparr>s_world := w, Participants := fmupd who p' (Participants s)\<rparr>, p'))"

definition force_set_attendance ::
  "('acc, 'x, 'w, 'o, 'm, 'sig) scfg \<Rightarrow> 'o \<Rightarrow> 'acc account_or_person \<Rightarrow> bool \<Rightarrow> nat \<Rightarrow> ('acc, 'w) sst
     \<Rightarrow> ('acc, 'x, 'w) score_result" where
  "force_set_attendance cfg origin who attended game_index s =
     bindE (ensure (s_root cfg origin) BadOrigin) (\<lambda>_.
     bindE (start_attendance_report_session cfg s) (\<lambda>s1.
     bindE (set_attendance cfg who attended game_index s1) (\<lambda>(s2, _).
     bindE (end_attendance_report_session cfg s2) (\<lambda>s3.
     Inr (score_deposit (AttendanceForced who attended game_index) s3, pays_info Pays_No)))))"

subsection \<open>Authorized calls and the offchain worker\<close>

datatype score_tag = TagTransitionRound score_round | TagPayoutRound score_round

definition build_transaction_validity :: "score_tag \<Rightarrow> score_tag valid_transaction" where
  "build_transaction_validity tag =
     \<lparr>tag_prefix = ''indiv-pallet-score'', provides = tag, propagate = True, longevity = None,
      priority = BACKGROUND_PROGRESS\<rparr>"

definition authorize_transition_round ::
  "block_number \<Rightarrow> score_round \<Rightarrow> ('acc, 'w) sst \<Rightarrow> invalid_transaction + score_tag valid_transaction" where
  "authorize_transition_round now round_index s =
     bindE (map_err (\<lambda>_. let current = CurrentRoundIndex s in
              if round_index = sat_add 32 current 1 \<or> round_index = current then InvalidFuture
              else if round_index > current then InvalidCustom CUSTOM_ERROR_FAR_FUTURE
              else InvalidStale) (validate_transition_round now round_index s)) (\<lambda>_.
     Inr (build_transaction_validity (TagTransitionRound round_index)))"

definition authorize_operate_payout_round ::
  "score_round \<Rightarrow> ('acc, 'w) sst \<Rightarrow> invalid_transaction + score_tag valid_transaction" where
  "authorize_operate_payout_round round_index s =
     bindE (map_err (\<lambda>_.
              if round_index = CurrentRoundIndex s then InvalidFuture
              else if round_index > CurrentRoundIndex s then InvalidCustom CUSTOM_ERROR_FAR_FUTURE
              else InvalidStale) (validate_operate_payout_round round_index s)) (\<lambda>_.
     Inr (build_transaction_validity (TagPayoutRound round_index)))"

datatype score_worker_call = WorkTransition score_round | WorkOperate score_round nat

text \<open>\<open>order\<close> is the order in which \<open>RoundPayouts\<close> is iterated.\<close>

definition score_offchain_worker ::
  "('acc, 'x, 'w, 'o, 'm, 'sig) scfg \<Rightarrow> score_round list \<Rightarrow> block_number \<Rightarrow> ('acc, 'w) sst \<Rightarrow> score_worker_call list" where
  "score_offchain_worker cfg order block s =
     (if s_offchain_interval cfg = 0 \<or> block mod s_offchain_interval cfg \<noteq> 0 then []
      else (if is_ok (validate_transition_round block (CurrentRoundIndex s) s)
            then [WorkTransition (CurrentRoundIndex s)] else []) @
           map (\<lambda>r. WorkOperate r OPERATE_PAYOUT_ROUND_LIMIT)
             (filter (\<lambda>r. is_ok (validate_operate_payout_round r s)) order))"

subsection \<open>The transaction extension \<open>ScoreAsParticipant\<close>\<close>

text \<open>
  \<^verbatim>\<open>extension.rs\<close>. The nonce check of the framework is a parameter: \<open>validate_nonce\<close> gives the tags the
  transaction requires and provides, \<open>prepare_nonce\<close> increments the nonce.
\<close>

datatype 'acc as_participant_val = UseAsParticipant 'acc | NoParticipantVal

definition validate_as_participant ::
  "('acc, 'x, 'w, 'o, 'm, 'sig) scfg \<Rightarrow> ('acc \<Rightarrow> 'n \<Rightarrow> 'w \<Rightarrow> invalid_transaction + 't list \<times> 't list) \<Rightarrow> ('acc \<Rightarrow> 'o)
     \<Rightarrow> 'n option \<Rightarrow> 'o \<Rightarrow> ('acc, 'w) sst
     \<Rightarrow> invalid_transaction + ('t list \<times> 't list \<times> nat) \<times> 'acc as_participant_val \<times> 'o" where
  "validate_as_participant cfg validate_nonce account_participant data origin s =
     (case data of
        Some nonce \<Rightarrow>
          bindE (ok_or (s_signed cfg origin) InvalidCall) (\<lambda>who.
          bindE (ensure (contains_key (Participants s) (Account who)) InvalidCall) (\<lambda>_.
          bindE (validate_nonce who nonce (s_world s)) (\<lambda>(requires, provides).
          Inr ((requires, provides, USER_DEFAULT), UseAsParticipant who, account_participant who))))
      | None \<Rightarrow> Inr (([], [], 0), NoParticipantVal, origin))"

definition prepare_as_participant ::
  "('acc \<Rightarrow> 'n \<Rightarrow> 'w \<Rightarrow> invalid_transaction + 'w) \<Rightarrow> 'n option \<Rightarrow> 'acc as_participant_val \<Rightarrow> ('acc, 'w) sst
     \<Rightarrow> invalid_transaction + ('acc, 'w) sst" where
  "prepare_as_participant prepare_nonce data val s =
     (case val of
        UseAsParticipant account \<Rightarrow>
          bindE (ok_or data InvalidCall) (\<lambda>nonce.
          bindE (prepare_nonce account nonce (s_world s)) (\<lambda>w. Inr (s\<lparr>s_world := w\<rparr>)))
      | NoParticipantVal \<Rightarrow> Inr s)"

subsection \<open>The storage migration\<close>

text \<open>\<^verbatim>\<open>migration.rs\<close>: every participant gets the counter of games, as zero.\<close>

record old_participant =
  op_score :: nat
  op_streak :: streak
  op_history :: attendance_history
  op_credit :: balance
  op_cashed_out :: bool
  op_reached :: bool
  op_ever_reached :: bool
  op_recognition :: recognition
  op_last_attended :: "nat option"

definition migrate_participant :: "old_participant \<Rightarrow> participant" where
  "migrate_participant old =
     \<lparr>pa_score = op_score old, pa_streak = op_streak old, pa_history = op_history old, pa_credit = op_credit old,
      pa_cashed_out = op_cashed_out old, pa_reached = op_reached old, pa_ever_reached = op_ever_reached old,
      pa_recognition = op_recognition old, pa_last_attended = op_last_attended old, pa_games_recognized = 0\<rparr>"

definition migrate_participants ::
  "('acc account_or_person, old_participant) storage_map \<Rightarrow> ('acc account_or_person, participant) storage_map" where
  "migrate_participants old = fmmap migrate_participant old"

end
