(* ===== verification/Score_Attendance.thy ===== *)
theory Score_Attendance
  imports Score
begin

text \<open>
  The attendance history of \<^verbatim>\<open>pallets/score/src/types.rs\<close> refines a list of the last games, the score of a streak has
  a closed form, and the schedules that \<open>lib.rs\<close> accepts are total and monotone.
\<close>

subsection \<open>The bit field is the list of the last eight games\<close>

definition last_games :: "attendance_history \<Rightarrow> bool list" where
  "last_games h = map (bit h) [0..<8]"

lemma last_games_length [simp]: "length (last_games h) = 8"
  by (simp add: last_games_def)

lemma last_games_default: "last_games default_attendance_history = replicate 8 True"
  by (simp add: last_games_def default_attendance_history_def numeral_eq_Suc)

lemma last_games_store: "last_games (store_attendance a h) = take 8 (a # last_games h)"
proof (rule nth_equalityI)
  fix i assume "i < length (last_games (store_attendance a h))"
  then have i: "i < 8" by simp
  have "bit (store_attendance a h) i = (if i = 0 then a else bit h (i - 1))"
    unfolding store_attendance_def bit_or_iff bit_push_bit_iff using i by (cases i) auto
  then show "last_games (store_attendance a h) ! i = take 8 (a # last_games h) ! i"
    using i by (cases i) (auto simp: last_games_def nth_Cons')
qed simp

lemma window_mask:
  assumes "w \<le> 8"
  shows "bit (h AND (if w \<ge> 8 then 0xFF else push_bit w 1 - 1) :: 8 word) i \<longleftrightarrow> i < w \<and> bit h i"
proof -
  have "(if w \<ge> 8 then 0xFF else push_bit w 1 - 1) = (mask w :: 8 word)"
    using assms by (cases "w = 8") (auto simp: mask_eq_exp_minus_1 push_bit_eq_mult)
  then show ?thesis using assms by (auto simp: bit_and_iff bit_mask_iff dest: bit_imp_le_length)
qed

lemma filter_window: "w \<le> n \<Longrightarrow> filter (\<lambda>i. i < w \<and> P i) [0..<n] = filter P [0..<w]"
proof (induction n)
  case (Suc n)
  then show ?case by (cases "w = Suc n") (auto intro: filter_cong)
qed simp

lemma misses_in_window_eq: "misses_in_window w h = length (filter Not (take w (last_games h)))"
proof -
  let ?v = "min w 8"
  have "bit (h AND (if ?v \<ge> 8 then 0xFF else push_bit ?v 1 - 1)) = (\<lambda>i. i < ?v \<and> bit h i)"
    by (rule ext, rule window_mask) simp
  then have "count_ones (h AND (if ?v \<ge> 8 then 0xFF else push_bit ?v 1 - 1)) = length (filter (bit h) [0..<?v])"
    unfolding count_ones_def by (simp only: filter_window[OF min.cobounded2])
  moreover have "take w (last_games h) = map (bit h) [0..<?v]"
    by (cases "w \<le> 8") (simp_all add: last_games_def take_map take_upt min_def)
  moreover have "length (filter (bit h) [0..<?v]) + length (filter (Not \<circ> bit h) [0..<?v]) = ?v"
    using sum_length_filter_compl[of "bit h" "[0..<?v]"] by (simp add: comp_def)
  ultimately show ?thesis by (simp add: misses_in_window_def Let_def filter_map)
qed

lemma last_games_run:
  "last_games (fold store_attendance as h) = take 8 (rev as @ last_games h)"
  by (induction as arbitrary: h) (simp_all add: last_games_store take_Cons' min_def)

text \<open>
  C30: After any sequence of games, the misses counted in a window of \<open>w\<close> games are the absences among the last
  \<open>min w 8\<close> games of the participant. Games before the first one count as attended.
\<close>

theorem attendance_window_exact:
  "misses_in_window w (fold store_attendance games default_attendance_history)
     = length (filter Not (take (min w 8) (rev games)))"
proof -
  have "take w (take 8 (rev games @ replicate 8 True))
      = take (min w 8) (rev games) @ take (min w 8 - length games) (replicate 8 True)"
    by (simp add: min.commute)
  then show ?thesis by (simp add: misses_in_window_eq last_games_run last_games_default)
qed

subsection \<open>The score of a streak\<close>

definition attend_games :: "nat \<Rightarrow> nat \<Rightarrow> participant \<Rightarrow> participant" where
  "attend_games threshold k p = ((count_attendance True 0 threshold) ^^ k) p"

lemma count_attended:
  "\<not> is_externally_recognized (pa_recognition p) \<Longrightarrow>
   pa_streak (count_attendance True g t p) = add_attendance 1 (pa_streak p) \<and>
   pa_score (count_attendance True g t p)
     = min (sat_add 8 (pa_score p) (streak_attendance (add_attendance 1 (pa_streak p)))) MAX_PERSONHOOD_THRESHOLD \<and>
   pa_recognition (count_attendance True g t p) = pa_recognition p"
  by (simp add: count_attendance_def Let_def)

lemma attend_run:
  assumes "pa_recognition p = NotRecognized" "pa_streak p = Attended 0" "pa_score p = 0"
  shows "pa_recognition (attend_games t k p) = NotRecognized \<and>
    pa_streak (attend_games t k p) = Attended (min k 255) \<and>
    pa_score (attend_games t k p) = min (k * (k + 1) div 2) 21"
proof (induction k)
  case 0
  then show ?case using assms by (simp add: attend_games_def)
next
  case (Suc k)
  have e: "attend_games t (Suc k) p = count_attendance True 0 t (attend_games t k p)"
    by (simp add: attend_games_def)
  have tri: "Suc k * (Suc k + 1) div 2 = k * (k + 1) div 2 + Suc k" by simp
  have big: "21 \<le> k * (k + 1) div 2" if "6 \<le> k"
  proof -
    have "6 * 7 \<le> k * (k + 1)" using that by (intro mult_le_mono) auto
    then show ?thesis by simp
  qed
  have streak: "add_attendance 1 (Attended (min k 255)) = Attended (min (Suc k) 255)"
    by (simp add: sat_add_def max_of_def)
  have "min (sat_add 8 (min (k * (k + 1) div 2) 21) (min (Suc k) 255)) 21 = min (Suc k * (Suc k + 1) div 2) 21"
    unfolding tri using big by (cases "6 \<le> k") (auto simp: sat_add_def max_of_def min_def)
  then show ?case
    using Suc.IH count_attended[of "attend_games t k p" 0 t] streak
    by (simp only: e is_externally_recognized_def MAX_PERSONHOOD_THRESHOLD_def streak_attendance.simps)
      (simp add: is_externally_recognized_def)
qed

text \<open>
  A new participant who attends \<open>k\<close> games in a row has the score \<open>k (k + 1) / 2\<close>, up to the maximum of 21, which the
  sixth game reaches.
\<close>

theorem streak_score:
  "pa_score (attend_games threshold k (new_participant 0 False NotRecognized))
     = min (k * (k + 1) div 2) MAX_PERSONHOOD_THRESHOLD"
  using attend_run[of "new_participant 0 False NotRecognized" threshold k]
  by (simp add: new_participant_def default_streak_def MAX_PERSONHOOD_THRESHOLD_def)

subsection \<open>Schedules\<close>

lemma tiers_loop_sorted:
  "personhood_tiers_loop pop sc tiers = Inr last_pop \<Longrightarrow>
   sorted_wrt (\<lambda>a b. pt_population a \<le> pt_population b \<and> pt_score a \<le> pt_score b) tiers \<and>
   (\<forall>t \<in> set tiers. pop \<le> pt_population t \<and> sc \<le> pt_score t \<and> 0 < pt_score t \<and> pt_score t \<le> MAX_PERSONHOOD_THRESHOLD) \<and>
   last_pop = (if tiers = [] then pop else pt_population (last tiers))"
proof (induction tiers arbitrary: pop sc)
  case (Cons t ts)
  then have c: "0 < pt_score t" "pt_score t \<le> MAX_PERSONHOOD_THRESHOLD" "pop \<le> pt_population t" "sc \<le> pt_score t"
    and l: "personhood_tiers_loop (pt_population t) (pt_score t) ts = Inr last_pop"
    by (auto simp: res_simps)
  from Cons.IH[OF l] c show ?case by (auto intro: order_trans)
qed simp

definition valid_thresholds :: "personhood_tier list \<Rightarrow> bool" where
  "valid_thresholds tiers \<longleftrightarrow> is_ok (validate_personhood_threshold_tiers tiers)"

lemma valid_thresholdsD:
  assumes "valid_thresholds tiers"
  shows "sorted_wrt (\<lambda>a b. pt_population a \<le> pt_population b \<and> pt_score a \<le> pt_score b) tiers"
    "t \<in> set tiers \<Longrightarrow> 0 < pt_score t \<and> pt_score t \<le> MAX_PERSONHOOD_THRESHOLD"
    "tiers \<noteq> []" "pt_population (last tiers) = max_of 32"
proof -
  obtain u where "validate_personhood_threshold_tiers tiers = Inr u"
    using assms by (auto simp: valid_thresholds_def is_ok_iff)
  then have ne: "tiers \<noteq> []" and l: "personhood_tiers_loop 0 0 tiers = Inr (max_of 32)"
    by (auto simp: validate_personhood_threshold_tiers_def res_simps)
  note f = tiers_loop_sorted[OF l]
  show "sorted_wrt (\<lambda>a b. pt_population a \<le> pt_population b \<and> pt_score a \<le> pt_score b) tiers"
    "t \<in> set tiers \<Longrightarrow> 0 < pt_score t \<and> pt_score t \<le> MAX_PERSONHOOD_THRESHOLD"
    "tiers \<noteq> []" "pt_population (last tiers) = max_of 32"
    using f ne by auto
qed

lemma find_tier:
  assumes "valid_thresholds tiers" "n \<le> max_of 32"
  obtains t where "find (\<lambda>t. n \<le> pt_population t) tiers = Some t" "t \<in> set tiers" "n \<le> pt_population t"
proof (cases "find (\<lambda>t. n \<le> pt_population t) tiers")
  case None
  moreover have "last tiers \<in> set tiers" "n \<le> pt_population (last tiers)"
    using valid_thresholdsD[OF assms(1)] assms(2) by auto
  ultimately show ?thesis by (auto simp: find_None_iff)
next
  case (Some t)
  then show ?thesis using that by (metis (mono_tags, lifting) find_Some_iff nth_mem)
qed

lemma find_tier_mono:
  assumes s: "sorted_wrt (\<lambda>a b. pt_population a \<le> pt_population b \<and> pt_score a \<le> pt_score b) tiers"
    and "find (\<lambda>t. n \<le> pt_population t) tiers = Some t" "find (\<lambda>t. m \<le> pt_population t) tiers = Some u" "n \<le> m"
  shows "pt_score t \<le> pt_score u"
  using assms(1-3) by (induction tiers) (use assms(4) in \<open>auto simp: find_Some_iff split: if_splits\<close>)

text \<open>
  A schedule that \<open>set_personhood_threshold_schedule\<close> accepts gives every population its threshold: some tier
  of the schedule applies, its threshold is between 1 and 21, and a larger population never has a lower one.
\<close>

theorem accepted_thresholds_total_monotone:
  assumes set: "set_personhood_threshold_schedule cfg origin tiers s = Inr (s', info)" and n: "n \<le> m" "m \<le> max_of 32"
  shows "calculate_personhood_threshold n s' \<in> pt_score ` set tiers \<and>
    1 \<le> calculate_personhood_threshold n s' \<and> calculate_personhood_threshold n s' \<le> MAX_PERSONHOOD_THRESHOLD \<and>
    calculate_personhood_threshold n s' \<le> calculate_personhood_threshold m s'"
proof (intro conjI)
  have v: "valid_thresholds tiers" and sch: "PersonhoodThresholdSchedule s' = tiers"
    using set by (auto simp: set_personhood_threshold_schedule_def valid_thresholds_def score_deposit_def res_simps is_ok_iff)
  obtain t where t: "find (\<lambda>t. n \<le> pt_population t) tiers = Some t" "t \<in> set tiers"
    using find_tier[OF v, of n] n by auto
  obtain u where u: "find (\<lambda>t. m \<le> pt_population t) tiers = Some u"
    using find_tier[OF v n(2)] by blast
  have c: "calculate_personhood_threshold n s' = pt_score t" "calculate_personhood_threshold m s' = pt_score u"
    using t u sch by (simp_all add: calculate_personhood_threshold_def)
  show "calculate_personhood_threshold n s' \<in> pt_score ` set tiers"
    "1 \<le> calculate_personhood_threshold n s'" "calculate_personhood_threshold n s' \<le> MAX_PERSONHOOD_THRESHOLD"
    "calculate_personhood_threshold n s' \<le> calculate_personhood_threshold m s'"
    using c t(2) valid_thresholdsD(2)[OF v t(2)] find_tier_mono[OF valid_thresholdsD(1)[OF v] t(1) u n(1)] by auto
qed

lemma default_thresholds_valid: "valid_thresholds default_personhood_tiers"
  by (simp add: valid_thresholds_def default_personhood_tiers_def validate_personhood_threshold_tiers_def
      MAX_PERSONHOOD_THRESHOLD_def max_of_def ensure_def)

end
