(* ===== verification/Score_Invariant.thy ===== *)
theory Score_Invariant
  imports Score_Attendance
begin

text \<open>
  The invariant of the score pallet, \<^verbatim>\<open>pallets/score/src/lib.rs\<close>, and its preservation by every operation.

  \<^item> \<open>people_ok\<close>: scores stay at most 21, and the flags of a participant agree with the recognition.
  \<^item> \<open>rounds_ok\<close>: the points of the current round add up to \<open>CurrentRoundPoints\<close>, and what remains of a payout covers
    the rewards of the points that are left in its round.
  \<^item> \<open>funded\<close>: the funds on hold in the pot cover the credit of all participants, and everything scheduled, planned
    and in payout.

  The currency is outside the repository; \<open>funds_laws\<close> states what the pallet relies on, with \<open>held\<close> the funds the
  pot has on hold for a reason.
\<close>

subsection \<open>What the pallet relies on\<close>

definition funds_laws :: "('acc, 'x, 'w, 'o, 'm, 'sig) scfg \<Rightarrow> (score_hold_reason \<Rightarrow> 'w \<Rightarrow> balance) \<Rightarrow> bool" where
  "funds_laws cfg held \<longleftrightarrow>
     (\<forall>r a w w'. s_hold cfg r (s_pot cfg) a w = Inr w' \<longrightarrow>
        (\<forall>q. held q w' = held q w + (if q = r then a else 0))) \<and>
     (\<forall>r a w w' n. s_release cfg r (s_pot cfg) a Exact w = Inr (w', n) \<longrightarrow>
        n = a \<and> a \<le> held r w \<and> (\<forall>q. held q w' = held q w - (if q = r then a else 0))) \<and>
     (\<forall>r a w w' n. s_release cfg r (s_pot cfg) a BestEffort w = Inr (w', n) \<longrightarrow>
        n = min a (held r w) \<and> (\<forall>q. held q w' = held q w - (if q = r then n else 0))) \<and>
     (\<forall>q dest a w w' n. s_transfer cfg (s_pot cfg) dest a Expendable w = Inr (w', n) \<longrightarrow> held q w' = held q w) \<and>
     (\<forall>q a w. held q (s_inc_sufficients cfg a w) = held q w \<and> held q (s_dec_sufficients cfg a w) = held q w) \<and>
     (\<forall>q w. held q (snd (ppl_reserve cfg w)) = held q w) \<and>
     (\<forall>q i k w w'. ppl_recognize cfg i k w = Inr w' \<longrightarrow> held q w' = held q w) \<and>
     (\<forall>q is w w'. ppl_suspend cfg is w = Inr w' \<longrightarrow> held q w' = held q w) \<and>
     (\<forall>q w w'. ppl_start_session cfg w = Inr w' \<longrightarrow> held q w' = held q w) \<and>
     (\<forall>q w w'. ppl_end_session cfg w = Inr w' \<longrightarrow> held q w' = held q w)"

lemma funds_lawsD:
  assumes "funds_laws cfg held"
  shows "s_hold cfg r (s_pot cfg) a w = Inr w' \<Longrightarrow> held q w' = held q w + (if q = r then a else 0)"
    and "s_release cfg r (s_pot cfg) a Exact w = Inr (w', n) \<Longrightarrow>
      n = a \<and> a \<le> held r w \<and> held q w' = held q w - (if q = r then a else 0)"
    and "s_release cfg r (s_pot cfg) a BestEffort w = Inr (w', n) \<Longrightarrow>
      held q w' = held q w - (if q = r then min a (held r w) else 0)"
    and "s_transfer cfg (s_pot cfg) dest a Expendable w = Inr (w', n) \<Longrightarrow> held q w' = held q w"
    and "held q (s_inc_sufficients cfg acc w) = held q w" "held q (s_dec_sufficients cfg acc w) = held q w"
    and "ppl_reserve cfg w = (i, w') \<Longrightarrow> held q w' = held q w"
    and "ppl_recognize cfg i k w = Inr w' \<Longrightarrow> held q w' = held q w"
    and "ppl_suspend cfg is w = Inr w' \<Longrightarrow> held q w' = held q w"
    and "ppl_start_session cfg w = Inr w' \<Longrightarrow> held q w' = held q w"
    and "ppl_end_session cfg w = Inr w' \<Longrightarrow> held q w' = held q w"
  using assms unfolding funds_laws_def by (metis snd_conv)+

subsection \<open>The invariant\<close>

fun participant_ok :: "'acc account_or_person \<Rightarrow> participant \<Rightarrow> bool" where
  "participant_ok who p \<longleftrightarrow>
     pa_score p \<le> MAX_PERSONHOOD_THRESHOLD \<and>
     (pa_reached p \<longrightarrow> pa_ever_reached p) \<and>
     (case pa_recognition p of
        ExternallyRecognized \<Rightarrow> pa_reached p \<and> aop_account who = None
      | RecognizedId _ \<Rightarrow> pa_reached p \<and> aop_account who \<noteq> None
      | SuspendedId _ \<Rightarrow> pa_ever_reached p \<and> aop_account who \<noteq> None
      | NotRecognized \<Rightarrow> aop_account who \<noteq> None)"

declare participant_ok.simps [simp del]

definition people_ok :: "('acc, 'w) sst \<Rightarrow> bool" where
  "people_ok s \<longleftrightarrow>
     (\<forall>who p. fmlookup (Participants s) who = Some p \<longrightarrow> participant_ok who p) \<and>
     PersonhoodThreshold s \<le> MAX_PERSONHOOD_THRESHOLD \<and>
     valid_thresholds (PersonhoodThresholdSchedule s)"

type_synonym 'acc round_points = "(score_round \<times> 'acc account_or_person, nat) storage_map"

definition points_in :: "'acc round_points \<Rightarrow> score_round \<Rightarrow> nat" where
  "points_in pts r = fmsum (\<lambda>(r', _) n. if r' = r then n else 0) pts"

definition rewards_in :: "round_payout \<Rightarrow> 'acc round_points \<Rightarrow> score_round \<Rightarrow> balance" where
  "rewards_in rnd pts r = fmsum (\<lambda>(r', _) n. if r' = r then points_reward rnd n else 0) pts"

definition rounds_ok :: "('acc, 'w) sst \<Rightarrow> bool" where
  "rounds_ok s \<longleftrightarrow>
     CurrentRoundPoints s \<le> max_of 32 \<and>
     points_in (RoundsPoints s) (CurrentRoundIndex s) = CurrentRoundPoints s \<and>
     (\<forall>r who n. fmlookup (RoundsPoints s) (r, who) = Some n \<longrightarrow> r \<le> CurrentRoundIndex s) \<and>
     (\<forall>r rnd. fmlookup (RoundPayouts s) r = Some rnd \<longrightarrow>
        r < CurrentRoundIndex s \<and> rp_remaining rnd \<le> max_of 128 \<and> rewards_in rnd (RoundsPoints s) r \<le> rp_remaining rnd) \<and>
     (\<forall>ri. RoundPlanning s = Some ri \<longrightarrow> ri_credit ri \<le> max_of 128) \<and>
     (\<forall>sch \<in> set (ScoreSchedules s). 0 < sc_remaining sch \<and> sc_amount sch * sc_remaining sch \<le> max_of 128)"

definition credit_sum :: "('acc account_or_person, participant) storage_map \<Rightarrow> balance" where
  "credit_sum ps = fmsum (\<lambda>_ p. pa_credit p) ps"

definition reserved_funds :: "('acc, 'w) sst \<Rightarrow> balance" where
  "reserved_funds s =
     sum_list (map (\<lambda>sch. sc_amount sch * sc_remaining sch) (ScoreSchedules s)) +
     (case RoundPlanning s of None \<Rightarrow> 0 | Some ri \<Rightarrow> ri_credit ri) +
     fmsum (\<lambda>_ rnd. rp_remaining rnd) (RoundPayouts s)"

definition funded :: "(score_hold_reason \<Rightarrow> 'w \<Rightarrow> balance) \<Rightarrow> ('acc, 'w) sst \<Rightarrow> bool" where
  "funded held s \<longleftrightarrow> credit_sum (Participants s) \<le> held Credit (s_world s) \<and> reserved_funds s \<le> held Payout (s_world s)"

definition score_inv :: "(score_hold_reason \<Rightarrow> 'w \<Rightarrow> balance) \<Rightarrow> ('acc, 'w) sst \<Rightarrow> bool" where
  "score_inv held s \<longleftrightarrow> people_ok s \<and> rounds_ok s \<and> funded held s"

lemma score_inv_genesis: "score_inv held (score_genesis w)"
  by (simp add: score_inv_def people_ok_def rounds_ok_def funded_def score_genesis_def points_in_def
      credit_sum_def reserved_funds_def default_thresholds_valid)

lemma score_invD:
  assumes "score_inv held s"
  shows "people_ok s" "rounds_ok s" "funded held s"
  using assms by (simp_all add: score_inv_def)

lemma score_inv_deposit [simp]: "score_inv held (score_deposit e s) = score_inv held s"
  by (simp add: score_inv_def people_ok_def rounds_ok_def funded_def reserved_funds_def score_deposit_def)

text \<open>The three parts read different items; an update of the others keeps them.\<close>

lemma people_ok_cong:
  "Participants s' = Participants s \<Longrightarrow> PersonhoodThreshold s' = PersonhoodThreshold s \<Longrightarrow>
   PersonhoodThresholdSchedule s' = PersonhoodThresholdSchedule s \<Longrightarrow> people_ok s' = people_ok s"
  by (simp add: people_ok_def)

lemma rounds_ok_cong:
  "RoundsPoints s' = RoundsPoints s \<Longrightarrow> CurrentRoundPoints s' = CurrentRoundPoints s \<Longrightarrow>
   CurrentRoundIndex s' = CurrentRoundIndex s \<Longrightarrow> RoundPayouts s' = RoundPayouts s \<Longrightarrow>
   RoundPlanning s' = RoundPlanning s \<Longrightarrow> ScoreSchedules s' = ScoreSchedules s \<Longrightarrow> rounds_ok s' = rounds_ok s"
  by (simp add: rounds_ok_def)

lemma reserved_cong:
  "RoundPayouts s' = RoundPayouts s \<Longrightarrow> RoundPlanning s' = RoundPlanning s \<Longrightarrow>
   ScoreSchedules s' = ScoreSchedules s \<Longrightarrow> reserved_funds s' = reserved_funds s"
  by (simp add: reserved_funds_def)

text \<open>
  An update of one participant and of the world: the participant stays well-formed, and the funds on hold follow the
  change of the credit.
\<close>

lemma credit_sum_upd:
  "fmlookup ps who = Some p \<Longrightarrow> credit_sum (fmupd who p' ps) + pa_credit p = credit_sum ps + pa_credit p'"
  using fmsum_upd_old[of ps who p "\<lambda>_ p. pa_credit p" p'] by (simp add: credit_sum_def)

lemma credit_sum_new: "fmlookup ps who = None \<Longrightarrow> credit_sum (fmupd who p' ps) = credit_sum ps + pa_credit p'"
  using fmsum_upd_new[of ps who "\<lambda>_ p. pa_credit p" p'] by (simp add: credit_sum_def)

lemma credit_sum_drop:
  "credit_sum (fmdrop who ps) + (case fmlookup ps who of None \<Rightarrow> 0 | Some p \<Rightarrow> pa_credit p) = credit_sum ps"
  using fmsum_drop_add[of ps who _ "\<lambda>_ p. pa_credit p"] fmsum_drop_None[of ps who "\<lambda>_ p. pa_credit p"]
  by (cases "fmlookup ps who") (simp_all add: credit_sum_def)

lemma credit_le_sum: "fmlookup ps who = Some p \<Longrightarrow> pa_credit p \<le> credit_sum ps"
  using fmsum_ge[of ps who p "\<lambda>_ p. pa_credit p"] by (simp add: credit_sum_def)

lemma inv_participant:
  assumes inv: "score_inv held s" and p: "participant_ok who p'"
    and c: "credit_sum (fmupd who p' (Participants s)) \<le> held Credit w" and r: "held Payout (s_world s) \<le> held Payout w"
  shows "score_inv held (s\<lparr>s_world := w, Participants := fmupd who p' (Participants s)\<rparr>)"
  using inv p c r unfolding score_inv_def
  by (auto simp: people_ok_def rounds_ok_def funded_def reserved_funds_def split: if_splits)

lemma inv_world:
  "score_inv held s \<Longrightarrow> (\<And>q. held q (s_world s) \<le> held q w) \<Longrightarrow> score_inv held (s\<lparr>s_world := w\<rparr>)"
  unfolding score_inv_def people_ok_def rounds_ok_def funded_def reserved_funds_def by (auto intro: order_trans)

subsection \<open>Points and rewards\<close>

lemma points_in_drop:
  "points_in (fmdrop (r, who) pts) r + get_or 0 pts (r, who) = points_in pts r"
  using fmsum_drop_add[of pts "(r, who)" _ "\<lambda>(r', _) n. if r' = r then n else 0"]
    fmsum_drop_None[of pts "(r, who)" "\<lambda>(r', _) n. if r' = r then n else 0"]
  by (cases "fmlookup pts (r, who)") (simp_all add: points_in_def get_or_def)

lemma points_in_upd:
  "points_in (fmupd (r, who) n pts) q = points_in (fmdrop (r, who) pts) q + (if r = q then n else 0)"
  by (simp add: points_in_def fmsum_upd)

lemma rewards_in_drop:
  "rewards_in rnd (fmdrop (r, who) pts) q
     + (if r = q then (case fmlookup pts (r, who) of None \<Rightarrow> 0 | Some n \<Rightarrow> points_reward rnd n) else 0) = rewards_in rnd pts q"
  using fmsum_drop_add[of pts "(r, who)" _ "\<lambda>(r', _) n. if r' = q then points_reward rnd n else 0"]
    fmsum_drop_None[of pts "(r, who)" "\<lambda>(r', _) n. if r' = q then points_reward rnd n else 0"]
  by (cases "fmlookup pts (r, who)"; cases "r = q") (simp_all add: rewards_in_def)

lemma rewards_in_upd_other: "r \<noteq> q \<Longrightarrow> rewards_in rnd (fmupd (r, who) n pts) q = rewards_in rnd pts q"
  using rewards_in_drop[of rnd r who pts q] by (simp add: rewards_in_def fmsum_upd)

lemma points_le: "get_or 0 pts (r, who) \<le> points_in pts r"
  using points_in_drop[of r who pts] by linarith

lemma points_reward_0 [simp]: "points_reward rnd 0 = 0"
  by (simp add: points_reward_def sat_defs)

lemma reward_of: "points_reward rnd (get_or 0 pts k) = (case fmlookup pts k of None \<Rightarrow> 0 | Some n \<Rightarrow> points_reward rnd n)"
  by (auto simp: get_or_def split: option.splits)

text \<open>The rewards of a round never exceed its credit: the portions of the remainder are rounded down.\<close>

lemma sum_div_le: "finite A \<Longrightarrow> (\<Sum>x\<in>A. f x div (d::nat)) \<le> sum f A div d"
proof (induction rule: finite_induct)
  case (insert x A)
  have "f x div d + sum f A div d \<le> (f x + sum f A) div d" using div_add1_eq[of "f x" "sum f A" d] by linarith
  then show ?case using insert.IH insert(1,2) by simp
qed simp

lemma rewards_le_credit:
  assumes P: "points_in pts r = P" and rem: "rem = credit - price * P" and price: "price = (if P = 0 then 0 else credit div P)"
    and rnd: "rp_point_price rnd = price" "rp_remainder rnd = rem" "rp_total_points rnd = P"
  shows "rewards_in rnd pts r \<le> credit"
proof (cases "P = 0")
  case True
  have "points_reward rnd n = 0" if "fmlookup pts (r, who) = Some n" for who n
    using points_le[of pts r who] P True that by (simp add: get_or_def)
  then have "rewards_in rnd pts r = 0" unfolding rewards_in_def by (intro fmsum_zero) auto
  then show ?thesis by simp
next
  case False
  let ?A = "fmdom' pts" and ?pt = "\<lambda>k. if fst k = r then the (fmlookup pts k) else 0"
  have sum: "(\<Sum>k\<in>?A. ?pt k) = P"
    unfolding P[symmetric] points_in_def fmsum_def by (rule sum.cong) (auto split: prod.splits)
  have one: "points_reward rnd n \<le> price * n + rem * n div P" for n
  proof -
    have "sat_mul 128 rem n div P \<le> rem * n div P" by (intro div_le_mono) (simp add: sat_mul_def)
    moreover have "sat_mul 128 price n \<le> price * n" by (simp add: sat_mul_def)
    ultimately show ?thesis using sat_add_upper[of 128 "sat_mul 128 price n" "sat_mul 128 rem n div P"] False
      by (simp add: points_reward_def rnd)
  qed
  have "rewards_in rnd pts r \<le> (\<Sum>k\<in>?A. price * ?pt k + rem * ?pt k div P)"
    unfolding rewards_in_def fmsum_def using one by (intro sum_mono) (auto split: prod.splits)
  also have "\<dots> = price * P + (\<Sum>k\<in>?A. rem * ?pt k div P)" by (simp add: sum.distrib sum_distrib_left[symmetric] sum)
  also have "(\<Sum>k\<in>?A. rem * ?pt k div P) \<le> (\<Sum>k\<in>?A. rem * ?pt k) div P" by (rule sum_div_le) simp
  also have "(\<Sum>k\<in>?A. rem * ?pt k) div P = rem" using False by (simp add: sum_distrib_left[symmetric] sum)
  finally show ?thesis using rem price False by simp
qed

subsection \<open>The payout loop\<close>

text \<open>
  What holds in the loop, with \<open>cap\<close> what the payout had left at the start \<open>s0\<close>: the credit given so far and the rewards
  still to give fit into it.
\<close>

definition paying :: "round_payout \<Rightarrow> score_round \<Rightarrow> balance \<Rightarrow> ('acc, 'w) sst \<Rightarrow> balance \<Rightarrow> ('acc, 'w) sst \<Rightarrow> bool" where
  "paying rnd r cap s0 credited s \<longleftrightarrow>
     credited + rewards_in rnd (RoundsPoints s) r \<le> cap \<and>
     credit_sum (Participants s) \<le> credit_sum (Participants s0) + credited \<and>
     (\<forall>who p. fmlookup (Participants s) who = Some p \<longrightarrow> participant_ok who p) \<and>
     (\<exists>ps pts. s = s0\<lparr>Participants := ps, RoundsPoints := pts\<rparr>) \<and>
     (\<forall>q who. q \<noteq> r \<longrightarrow> fmlookup (RoundsPoints s) (q, who) = fmlookup (RoundsPoints s0) (q, who)) \<and>
     (\<forall>k. contains_key (RoundsPoints s) k \<longrightarrow> contains_key (RoundsPoints s0) k)"

lemma participant_ok_credit: "participant_ok who (p\<lparr>pa_credit := c\<rparr>) = participant_ok who p"
  by (cases "pa_recognition p") (simp_all add: participant_ok.simps)

lemma paying_start:
  assumes "rewards_in rnd (RoundsPoints s) r \<le> cap" "\<forall>who p. fmlookup (Participants s) who = Some p \<longrightarrow> participant_ok who p"
  shows "paying rnd r cap s 0 s"
proof -
  have "\<exists>ps pts. s = s\<lparr>Participants := ps, RoundsPoints := pts\<rparr>"
    by (rule exI[of _ "Participants s"], rule exI[of _ "RoundsPoints s"]) simp
  then show ?thesis using assms unfolding paying_def by simp
qed

lemma paying_drop:
  assumes pay: "paying rnd r cap s0 credited s"
  shows "credited + rewards_in rnd (fmdrop (r, who) (RoundsPoints s)) r
      + points_reward rnd (get_or 0 (RoundsPoints s) (r, who)) \<le> cap"
    and "paying rnd r cap s0 credited (s\<lparr>RoundsPoints := fmdrop (r, who) (RoundsPoints s)\<rparr>)"
proof -
  have e: "rewards_in rnd (fmdrop (r, who) (RoundsPoints s)) r
      + points_reward rnd (get_or 0 (RoundsPoints s) (r, who)) = rewards_in rnd (RoundsPoints s) r"
    using rewards_in_drop[of rnd r who "RoundsPoints s" r] by (simp add: reward_of)
  show "credited + rewards_in rnd (fmdrop (r, who) (RoundsPoints s)) r
      + points_reward rnd (get_or 0 (RoundsPoints s) (r, who)) \<le> cap"
    using e pay unfolding paying_def by linarith
  obtain ps pts where f: "s = s0\<lparr>Participants := ps, RoundsPoints := pts\<rparr>" using pay by (auto simp: paying_def)
  have "s\<lparr>RoundsPoints := fmdrop (r, who) (RoundsPoints s)\<rparr>
      = s0\<lparr>Participants := ps, RoundsPoints := fmdrop (r, who) (RoundsPoints s)\<rparr>"
    by (subst f) simp
  then have "\<exists>ps pts. s\<lparr>RoundsPoints := fmdrop (r, who) (RoundsPoints s)\<rparr> = s0\<lparr>Participants := ps, RoundsPoints := pts\<rparr>"
    by blast
  moreover have "credited + rewards_in rnd (fmdrop (r, who) (RoundsPoints s)) r \<le> cap" using e pay unfolding paying_def by linarith
  ultimately show "paying rnd r cap s0 credited (s\<lparr>RoundsPoints := fmdrop (r, who) (RoundsPoints s)\<rparr>)"
    using pay unfolding paying_def by auto
qed

lemma paying_credit:
  assumes pay: "paying rnd r cap s0 credited s" and cap: "cap \<le> max_of 128"
    and fit: "credited + rewards_in rnd (RoundsPoints s) r + reward \<le> cap"
    and p: "fmlookup (Participants s) who = Some p"
  shows "paying rnd r cap s0 (sat_add 128 credited reward)
    (s\<lparr>Participants := fmupd who (p\<lparr>pa_credit := sat_add 128 (pa_credit p) reward\<rparr>) (Participants s)\<rparr>)"
proof -
  have c: "sat_add 128 credited reward = credited + reward" using fit cap by (intro sat_add_exact) linarith
  obtain ps pts where f: "s = s0\<lparr>Participants := ps, RoundsPoints := pts\<rparr>" using pay by (auto simp: paying_def)
  have "\<exists>ps' pts'. s\<lparr>Participants := ps''\<rparr> = s0\<lparr>Participants := ps', RoundsPoints := pts'\<rparr>" for ps''
    by (rule exI[of _ ps''], rule exI[of _ pts], subst f) simp
  moreover have "credit_sum (fmupd who (p\<lparr>pa_credit := sat_add 128 (pa_credit p) reward\<rparr>) (Participants s))
      \<le> credit_sum (Participants s) + reward"
    using credit_sum_upd[OF p, of "p\<lparr>pa_credit := sat_add 128 (pa_credit p) reward\<rparr>"] sat_add_upper[of 128 "pa_credit p" reward]
    by simp
  ultimately show ?thesis using pay p fit unfolding paying_def c by (auto simp: participant_ok_credit)
qed

lemma payout_loop_paying:
  assumes "payout_loop rnd r limit order credited s = (credited', finished, s')"
    and "paying rnd r cap s0 credited s" "cap \<le> max_of 128"
  shows "paying rnd r cap s0 credited' s'"
  using assms
proof (induction order arbitrary: limit credited s)
  case (Cons who order)
  let ?n = "get_or 0 (RoundsPoints s) (r, who)"
  let ?s1 = "s\<lparr>RoundsPoints := fmdrop (r, who) (RoundsPoints s)\<rparr>"
  note d = paying_drop[OF Cons.prems(2), of who]
  show ?case
  proof (cases "limit = 0 \<or> fmlookup (Participants ?s1) who = None")
    case True
    then show ?thesis using Cons.IH[of "limit - 1" credited ?s1] Cons.prems d(2) by (auto simp: Let_def split: if_splits)
  next
    case False
    then obtain p where p: "fmlookup (Participants ?s1) who = Some p" by auto
    have fit: "credited + rewards_in rnd (RoundsPoints ?s1) r + points_reward rnd ?n \<le> cap" using d(1) by simp
    show ?thesis
      using Cons.IH[OF _ paying_credit[OF d(2) Cons.prems(3) fit p] Cons.prems(3)] Cons.prems(1) False p
      by (simp add: Let_def)
  qed
qed simp

end
