(* ===== verification/Score_Steps.thy ===== *)
theory Score_Steps
  imports Score_Invariant
begin

text \<open>
  Every operation of \<^verbatim>\<open>pallets/score/src/lib.rs\<close> keeps the invariant. \<open>score_op\<close> lists the entry points: the
  extrinsics, the functions the game calls, and \<open>OpWorld\<close>, a step of the rest of the chain, which does not take
  funds the pot has on hold. The locale \<open>pallet_machine\<close> is interpreted on \<open>score_step\<close>.
\<close>

subsection \<open>Rounds\<close>

lemma points_in_none: "(\<And>who. fmlookup pts (q, who) = None) \<Longrightarrow> points_in pts q = 0"
  unfolding points_in_def by (intro fmsum_zero) auto

lemma sum_list_remove:
  fixes f :: "'a \<Rightarrow> nat"
  assumes "i < length xs"
  shows "sum_list (map f (take i xs @ drop (Suc i) xs)) + f (xs ! i) = sum_list (map f xs)"
proof -
  have "sum_list (map f (take i xs @ xs ! i # drop (Suc i) xs)) = sum_list (map f xs)"
    using id_take_nth_drop[OF assms] by metis
  then show ?thesis by simp
qed

lemma schedule_rounds_inv:
  assumes laws: "funds_laws cfg held" and inv: "score_inv held s" and ok: "0 < count" "amount * count \<le> max_of 128"
    and c: "score_schedule_payout_rounds cfg origin amount count duration s = Inr (s', info)"
  shows "score_inv held s'"
proof -
  let ?sch = "\<lparr>sc_remaining = count, sc_amount = amount, sc_duration = duration\<rparr>"
  obtain w where h: "s_hold cfg Payout (s_pot cfg) (sat_mul 128 amount count) (s_world s) = Inr w"
    and s': "s' = score_deposit (PayoutRoundsScheduled amount count duration)
      (s\<lparr>s_world := w, ScoreSchedules := ScoreSchedules s @ [?sch]\<rparr>)"
    using c by (auto simp: score_schedule_payout_rounds_def res_simps)
  have hw: "held q w = held q (s_world s) + (if q = Payout then amount * count else 0)" for q
    using funds_lawsD(1)[OF laws h] ok(2) by (simp add: sat_mul_exact)
  have "score_inv held (s\<lparr>s_world := w, ScoreSchedules := ScoreSchedules s @ [?sch]\<rparr>)"
    using inv ok hw by (auto simp: score_inv_def people_ok_def rounds_ok_def funded_def reserved_funds_def)
  then show ?thesis unfolding s' by simp
qed

lemma remove_schedule_inv:
  assumes laws: "funds_laws cfg held" and inv: "score_inv held s"
    and c: "score_remove_payout_schedule cfg origin i s = Inr (s', info)"
  shows "score_inv held s'"
proof -
  let ?sch = "ScoreSchedules s ! i" and ?rest = "take i (ScoreSchedules s) @ drop (Suc i) (ScoreSchedules s)"
  obtain w n where i: "i < length (ScoreSchedules s)"
    and h: "s_release cfg Payout (s_pot cfg) (sat_mul 128 (sc_amount ?sch) (sc_remaining ?sch)) BestEffort (s_world s) = Inr (w, n)"
    and s': "s' = score_deposit (PayoutScheduleRemoved i) (s\<lparr>s_world := w, ScoreSchedules := ?rest\<rparr>)"
    using c by (auto simp: score_remove_payout_schedule_def res_simps Let_def)
  have ex: "sc_amount ?sch * sc_remaining ?sch \<le> max_of 128" using inv i by (auto simp: score_inv_def rounds_ok_def)
  have hw: "held Credit w = held Credit (s_world s)"
      "held Payout (s_world s) \<le> held Payout w + sc_amount ?sch * sc_remaining ?sch"
    using funds_lawsD(3)[OF laws h, of Credit] funds_lawsD(3)[OF laws h, of Payout] by (auto simp: sat_mul_exact[OF ex])
  have sub: "set ?rest \<subseteq> set (ScoreSchedules s)" by (auto dest: in_set_takeD in_set_dropD)
  have sum: "sum_list (map (\<lambda>sch. sc_amount sch * sc_remaining sch) ?rest) + sc_amount ?sch * sc_remaining ?sch
      = sum_list (map (\<lambda>sch. sc_amount sch * sc_remaining sch) (ScoreSchedules s))"
    by (rule sum_list_remove[OF i])
  have "rounds_ok (s\<lparr>s_world := w, ScoreSchedules := ?rest\<rparr>)" using inv sub unfolding score_inv_def rounds_ok_def by auto
  moreover have "reserved_funds (s\<lparr>s_world := w, ScoreSchedules := ?rest\<rparr>) + sc_amount ?sch * sc_remaining ?sch = reserved_funds s"
    using sum by (simp add: reserved_funds_def)
  ultimately have "score_inv held (s\<lparr>s_world := w, ScoreSchedules := ?rest\<rparr>)"
    using inv hw unfolding score_inv_def people_ok_def funded_def by auto
  then show ?thesis unfolding s' by simp
qed

lemma finish_round_inv:
  assumes inv: "score_inv held s" and wrap: "CurrentRoundIndex s < max_of 32"
  shows "score_inv held (finish_current_round s)" "RoundPlanning (finish_current_round s) = None"
    "ScoreSchedules (finish_current_round s) = ScoreSchedules s"
proof -
  show "RoundPlanning (finish_current_round s) = None" "ScoreSchedules (finish_current_round s) = ScoreSchedules s"
    by (auto simp: finish_current_round_def Let_def split: option.splits)
  show "score_inv held (finish_current_round s)"
  proof (cases "RoundPlanning s")
    case None
    then show ?thesis using inv by (simp add: finish_current_round_def)
  next
    case (Some ri)
    let ?P = "CurrentRoundPoints s" and ?i = "CurrentRoundIndex s" and ?c = "ri_credit ri"
    let ?price = "if ?P = 0 then 0 else ?c div ?P"
    let ?rnd = "\<lparr>rp_remaining = ?c, rp_point_price = ?price, rp_remainder = ?c - sat_mul 128 ?price ?P, rp_total_points = ?P\<rparr>"
    have r: "rounds_ok s" "people_ok s" "funded held s" using inv by (simp_all add: score_inv_def)
    have cm: "?c \<le> max_of 128" using r(1) Some by (auto simp: rounds_ok_def)
    have "?price * ?P \<le> ?c" by simp
    then have "sat_mul 128 ?price ?P = ?price * ?P" using cm by (intro sat_mul_exact) linarith
    then have cover: "rewards_in ?rnd (RoundsPoints s) ?i \<le> ?c"
      using r(1) rewards_le_credit[of "RoundsPoints s" ?i ?P "?c - ?price * ?P" ?c ?price ?rnd] by (auto simp: rounds_ok_def)
    have fresh: "fmlookup (RoundPayouts s) ?i = None"
    proof (rule ccontr)
      assume "fmlookup (RoundPayouts s) ?i \<noteq> None"
      then obtain x where "fmlookup (RoundPayouts s) ?i = Some x" by blast
      then have "?i < ?i" using r(1) unfolding rounds_ok_def by blast
      then show False by simp
    qed
    have nx: "(?i + 1) mod 2 ^ 32 = Suc ?i" using wrap by (simp add: max_of_def)
    have f: "finish_current_round s = s\<lparr>RoundPlanning := None, CurrentRoundPoints := 0,
        RoundPayouts := fmupd ?i ?rnd (RoundPayouts s), CurrentRoundIndex := Suc ?i\<rparr>"
      using Some nx by (simp add: finish_current_round_def Let_def)
    have none: "points_in (RoundsPoints s) (Suc ?i) = 0"
    proof (rule points_in_none)
      fix who
      show "fmlookup (RoundsPoints s) (Suc ?i, who) = None"
      proof (cases "fmlookup (RoundsPoints s) (Suc ?i, who)")
        case (Some n)
        then have "Suc ?i \<le> ?i" using r(1) unfolding rounds_ok_def by blast
        then show ?thesis by simp
      qed
    qed
    have "rounds_ok (finish_current_round s)"
      using r(1) cover none cm unfolding f rounds_ok_def by (auto simp: le_Suc_eq less_Suc_eq split: if_splits)
    moreover have "reserved_funds (finish_current_round s) = reserved_funds s"
      unfolding f using Some fresh by (simp add: reserved_funds_def fmsum_upd_new)
    ultimately show ?thesis using r(2,3) unfolding score_inv_def funded_def people_ok_def f by simp
  qed
qed

lemma plan_round_inv:
  assumes inv: "score_inv held s" and none: "RoundPlanning s = None"
  shows "score_inv held (plan_next_round now s)"
proof (cases "ScoreSchedules s")
  case Nil
  then show ?thesis using inv by (simp add: plan_next_round_def)
next
  case (Cons f rest)
  then have f: "0 < sc_remaining f" "sc_amount f * sc_remaining f \<le> max_of 128" using inv by (auto simp: score_inv_def rounds_ok_def)
  obtain n where n: "sc_remaining f = Suc n" using f(1) gr0_implies_Suc by blast
  let ?f = "f\<lparr>sc_remaining := n\<rparr>"
  let ?s = "s\<lparr>RoundPlanning := Some \<lparr>ri_finish_at = sat_add 32 now (sc_duration f), ri_credit = sc_amount f\<rparr>,
    ScoreSchedules := (if n = 0 then rest else ?f # rest)\<rparr>"
  have e: "plan_next_round now s = ?s" using Cons n by (simp add: plan_next_round_def Let_def)
  have "sc_amount f \<le> sc_amount f * sc_remaining f" "sc_amount f * n \<le> sc_amount f * sc_remaining f" using n by simp_all
  then have a: "sc_amount f \<le> max_of 128" "sc_amount f * n \<le> max_of 128" using f(2) by linarith+
  have "rounds_ok ?s" using inv a Cons unfolding score_inv_def rounds_ok_def by (auto split: if_splits)
  moreover have "reserved_funds ?s = reserved_funds s" using Cons n none by (simp add: reserved_funds_def)
  ultimately show ?thesis using inv unfolding e score_inv_def funded_def people_ok_def by simp
qed

lemma transition_round_inv:
  assumes inv: "score_inv held s" and wrap: "CurrentRoundIndex s < max_of 32"
    and c: "transition_round cfg now origin i s = Inr (s', info)"
  shows "score_inv held s'"
proof -
  have "s' = score_deposit (RoundTransitioned i) (plan_next_round now (finish_current_round s))"
    using c by (auto simp: transition_round_def res_simps)
  then show ?thesis using plan_round_inv[OF finish_round_inv(1,2)[OF inv wrap]] by simp
qed

lemma recycle_inv:
  assumes laws: "funds_laws cfg held" and inv: "score_inv held s"
  shows "score_inv held (recycle_round_payout cfg r s)"
proof (cases "fmlookup (RoundPayouts s) r")
  case None
  then show ?thesis using inv by (simp add: recycle_round_payout_def)
next
  case (Some rnd)
  let ?s1 = "s\<lparr>RoundPayouts := fmdrop r (RoundPayouts s)\<rparr>"
  have rd: "reserved_funds ?s1 + rp_remaining rnd = reserved_funds s"
    using fmsum_drop_add[OF Some, of "\<lambda>_ rnd. rp_remaining rnd"] by (simp add: reserved_funds_def)
  have ro: "rounds_ok ?s1" using inv by (auto simp: score_inv_def rounds_ok_def)
  have i1: "score_inv held ?s1" using inv rd ro by (auto simp: score_inv_def funded_def people_ok_def)
  show ?thesis
  proof (cases "rp_remaining rnd = 0 \<or> (\<exists>e. s_release cfg Payout (s_pot cfg) (rp_remaining rnd) BestEffort (s_world ?s1) = Inl e)")
    case True
    then show ?thesis using i1 Some by (auto simp: recycle_round_payout_def Let_def)
  next
    case False
    then obtain w n where h: "s_release cfg Payout (s_pot cfg) (rp_remaining rnd) BestEffort (s_world s) = Inr (w, n)"
      by (cases "s_release cfg Payout (s_pot cfg) (rp_remaining rnd) BestEffort (s_world s)") auto
    have "held Credit w = held Credit (s_world s)" "held Payout (s_world s) \<le> held Payout w + rp_remaining rnd"
      using funds_lawsD(3)[OF laws h, of Credit] funds_lawsD(3)[OF laws h, of Payout] by auto
    then have "score_inv held (?s1\<lparr>s_world := w\<rparr>)"
      using inv rd ro by (auto simp: score_inv_def funded_def people_ok_def rounds_ok_def reserved_funds_def)
    then show ?thesis using False h Some by (simp add: recycle_round_payout_def Let_def)
  qed
qed

lemma operate_layer_inv:
  assumes laws: "funds_laws cfg held" and inv: "score_inv held s" and rnd: "fmlookup (RoundPayouts s) r = Some rnd"
    and c: "operate_in_layer cfg order r limit rnd s = Inr s'"
  shows "score_inv held s'"
proof -
  have rk: "rounds_ok s" "people_ok s" "funded held s" using inv by (simp_all add: score_inv_def)
  have cap: "rewards_in rnd (RoundsPoints s) r \<le> rp_remaining rnd" "rp_remaining rnd \<le> max_of 128" "r < CurrentRoundIndex s"
    using rk(1) rnd by (auto simp: rounds_ok_def)
  obtain credited fin s1 where l: "payout_loop rnd r limit order 0 s = (credited, fin, s1)" by (metis prod_cases3)
  have pay: "paying rnd r (rp_remaining rnd) s credited s1"
    using payout_loop_paying[OF l paying_start cap(2)] cap(1) rk(2) by (auto simp: people_ok_def)
  then obtain ps pts where s1: "s1 = s\<lparr>Participants := ps, RoundsPoints := pts\<rparr>" by (auto simp: paying_def)
  have fits: "credited + rewards_in rnd pts r \<le> rp_remaining rnd" "credit_sum ps \<le> credit_sum (Participants s) + credited"
    and ok: "\<forall>who p. fmlookup ps who = Some p \<longrightarrow> participant_ok who p"
    and other: "\<forall>q who. q \<noteq> r \<longrightarrow> fmlookup pts (q, who) = fmlookup (RoundsPoints s) (q, who)"
    and keys: "\<forall>k. contains_key pts k \<longrightarrow> contains_key (RoundsPoints s) k"
    using pay unfolding paying_def s1 by simp_all
  have bound: "\<forall>q who n. fmlookup pts (q, who) = Some n \<longrightarrow> q \<le> CurrentRoundIndex s"
    using keys rk(1) unfolding rounds_ok_def by blast
  have same: "fmsum (\<lambda>(r', _) n. if r' = q then g n else 0) pts = fmsum (\<lambda>(r', _) n. if r' = q then g n else 0) (RoundsPoints s)"
    if "q \<noteq> r" for q and g :: "nat \<Rightarrow> nat"
  proof -
    have "fmsum (\<lambda>(r', _) n. if r' = q then g n else 0) m = fmsum (\<lambda>(r', _) n. g n) (fmfilter (\<lambda>k. fst k = q) m)" for m :: "'a round_points"
      unfolding fmsum_def by (rule sum.mono_neutral_cong_right) (auto simp: fmdom'_filter split: prod.splits)
    moreover have "fmfilter (\<lambda>k. fst k = q) pts = fmfilter (\<lambda>k. fst k = q) (RoundsPoints s)"
      by (rule fmap_ext) (use other that in \<open>auto\<close>)
    ultimately show ?thesis by metis
  qed
  obtain w1 released w2 where w1: "s_release cfg Payout (s_pot cfg) credited Exact (s_world s) = Inr (w1, released)"
    and w2: "s_hold cfg Credit (s_pot cfg) released w1 = Inr w2"
    using c l unfolding operate_in_layer_def by (auto simp: s1 res_simps Let_def)
  have rel: "released = credited" "credited \<le> held Payout (s_world s)" using funds_lawsD(2)[OF laws w1] by auto
  have h2: "held Payout w2 = held Payout (s_world s) - credited" "held Credit w2 = held Credit (s_world s) + credited"
    using funds_lawsD(2)[OF laws w1, of Payout] funds_lawsD(2)[OF laws w1, of Credit]
      funds_lawsD(1)[OF laws w2, of Payout] funds_lawsD(1)[OF laws w2, of Credit] rel by auto
  have rsv: "reserved_funds (s1\<lparr>s_world := w, RoundPayouts := fmdrop r (RoundPayouts s1)\<rparr>) + rp_remaining rnd = reserved_funds s" for w
    using fmsum_drop_add[OF rnd, of "\<lambda>_ rnd. rp_remaining rnd"] by (simp add: reserved_funds_def s1)
  have rest: "reserved_funds (s1\<lparr>s_world := w, RoundPayouts := fmupd r rnd' (RoundPayouts s1)\<rparr>)
      = reserved_funds (s1\<lparr>s_world := w, RoundPayouts := fmdrop r (RoundPayouts s1)\<rparr>) + rp_remaining rnd'" for w rnd'
    by (simp add: reserved_funds_def s1 fmsum_upd)
  show ?thesis
  proof (cases fin)
    case True
    obtain w3 n where w3: "s_release cfg Payout (s_pot cfg) (rp_remaining rnd - credited) Exact w2 = Inr (w3, n)"
      and s': "s' = s1\<lparr>s_world := w3, RoundPayouts := fmdrop r (RoundPayouts s1)\<rparr>"
      using c l w1 w2 True unfolding operate_in_layer_def by (auto simp: s1 res_simps Let_def)
    have "held Payout w3 = held Payout w2 - (rp_remaining rnd - credited)" "held Credit w3 = held Credit w2"
      using funds_lawsD(2)[OF laws w3, of Payout] funds_lawsD(2)[OF laws w3, of Credit] by auto
    moreover have "rounds_ok s'"
      using rk(1) bound cap same[of _ "\<lambda>n. n"] same[of _ "points_reward _"] unfolding s' s1 rounds_ok_def points_in_def rewards_in_def
      by (auto split: if_splits)
    moreover have "people_ok s'" using rk(2) ok unfolding s' s1 by (simp add: people_ok_def)
    moreover have "reserved_funds s' + rp_remaining rnd = reserved_funds s" using rsv[of w3] unfolding s' .
    ultimately show ?thesis using rk(3) h2 fits unfolding score_inv_def funded_def s'
      by (simp add: s1) linarith
  next
    case False
    have s': "s' = s1\<lparr>s_world := w2, RoundPayouts := fmupd r (rnd\<lparr>rp_remaining := rp_remaining rnd - credited\<rparr>) (RoundPayouts s1)\<rparr>"
      using c l w1 w2 False unfolding operate_in_layer_def by (auto simp: s1 res_simps Let_def)
    have cur: "CurrentRoundIndex s \<noteq> r" using cap(3) by simp
    have "points_reward (rnd\<lparr>rp_remaining := x\<rparr>) = points_reward rnd" for x by (rule ext) (simp add: points_reward_def)
    then have new: "rewards_in (rnd\<lparr>rp_remaining := x\<rparr>) pts r = rewards_in rnd pts r" for x by (simp add: rewards_in_def cong: if_cong)
    have "rounds_ok s'"
      using rk(1) bound cap cur new fits same[of _ "\<lambda>n. n"] same[of _ "points_reward _"]
      unfolding s' s1 rounds_ok_def points_in_def[abs_def] rewards_in_def by (auto split: if_splits)
    moreover have "people_ok s'" using rk(2) ok unfolding s' s1 by (simp add: people_ok_def)
    moreover have "reserved_funds s' + credited = reserved_funds s"
      using rsv[of w2] rest[where w = w2 and rnd' = "rnd\<lparr>rp_remaining := rp_remaining rnd - credited\<rparr>"] fits(1) unfolding s' by simp
    ultimately show ?thesis using rk(3) h2 rel fits(2) unfolding score_inv_def funded_def s'
      by (simp add: s1) linarith
  qed
qed

lemma operate_payout_round_inv:
  assumes laws: "funds_laws cfg held" and inv: "score_inv held s"
    and c: "operate_payout_round cfg order origin r limit s = Inr (s', info)"
  shows "score_inv held s'"
proof -
  obtain rnd where rnd: "fmlookup (RoundPayouts s) r = Some rnd"
    using c by (auto simp: operate_payout_round_def validate_operate_payout_round_def res_simps)
  show ?thesis
  proof (cases "operate_in_layer cfg order r limit rnd s")
    case (Inl e)
    then have "s' = recycle_round_payout cfg r s"
      using c rnd by (auto simp: operate_payout_round_def validate_operate_payout_round_def res_simps)
    then show ?thesis using recycle_inv[OF laws inv] by simp
  next
    case (Inr t)
    then have "s' = score_deposit (PayoutRoundOperated r) t"
      using c rnd by (auto simp: operate_payout_round_def validate_operate_payout_round_def res_simps)
    then show ?thesis using operate_layer_inv[OF laws inv rnd Inr] by simp
  qed
qed

subsection \<open>Participants\<close>

lemma count_attendance_keeps:
  "pa_recognition (count_attendance a g t p) = pa_recognition p" "pa_reached (count_attendance a g t p) = pa_reached p"
  "pa_ever_reached (count_attendance a g t p) = pa_ever_reached p" "pa_credit (count_attendance a g t p) = pa_credit p"
  by (simp_all add: count_attendance_def Let_def)

lemma count_attendance_bound:
  assumes "pa_score p \<le> MAX_PERSONHOOD_THRESHOLD" "t \<le> MAX_PERSONHOOD_THRESHOLD"
  shows "pa_score (count_attendance a g t p) \<le> MAX_PERSONHOOD_THRESHOLD"
  using assms by (auto simp: count_attendance_def Let_def intro: le_trans[OF diff_le_self])

lemma count_attendance_ok:
  "participant_ok who p \<Longrightarrow> t \<le> MAX_PERSONHOOD_THRESHOLD \<Longrightarrow> participant_ok who (count_attendance a g t p)"
  using count_attendance_bound[of p t a g]
  by (cases "pa_recognition p") (auto simp: participant_ok.simps count_attendance_keeps)

lemma inv_lookup:
  assumes "score_inv held s" "fmlookup (Participants s) who = Some p"
  shows "participant_ok who p" "pa_credit p \<le> held Credit (s_world s)"
  using assms credit_le_sum[OF assms(2)] by (auto simp: score_inv_def people_ok_def funded_def intro: le_trans)

text \<open>A new value of a participant with the same credit.\<close>

lemma inv_same_credit:
  assumes "score_inv held s" "fmlookup (Participants s) who = Some p" "participant_ok who p'" "pa_credit p' = pa_credit p"
    and "\<And>q. held q w = held q (s_world s)"
  shows "score_inv held (s\<lparr>s_world := w, Participants := fmupd who p' (Participants s)\<rparr>)"
proof (rule inv_participant[OF assms(1,3)])
  show "credit_sum (fmupd who p' (Participants s)) \<le> held Credit w"
    using credit_sum_upd[OF assms(2), of p'] assms(1,4,5) by (simp add: score_inv_def funded_def)
qed (simp add: assms(5))

text \<open>
  What \<open>set_attendance\<close> stores: only a recognized participant changes the recognition, and then the registry has
  suspended the id.
\<close>

lemma set_attendance_run:
  assumes c: "set_attendance cfg who a g s = Inr (s', p')"
  obtains p recog suspend reached w where "fmlookup (Participants s) who = Some p"
    and "recog = pa_recognition p \<and> w = s_world s \<and> (suspend \<longrightarrow> recog = NotRecognized) \<or>
      (\<exists>i. pa_recognition p = RecognizedId i \<and> recog = SuspendedId i \<and> suspend \<and> ppl_suspend cfg [i] (s_world s) = Inr w)"
    and "reached = (if \<not> pa_reached p \<and> pa_score (count_attendance a g (PersonhoodThreshold s) p) \<ge> PersonhoodThreshold s
      then True else if suspend then False else pa_reached p)"
    and "p' = count_attendance a g (PersonhoodThreshold s) p\<lparr>pa_recognition := recog, pa_reached := reached,
      pa_ever_reached := pa_ever_reached p \<or> reached, pa_cashed_out := False\<rparr>"
    and "s' = s\<lparr>s_world := w, Participants := fmupd who p' (Participants s)\<rparr>"
proof -
  let ?t = "PersonhoodThreshold s"
  obtain p where p: "fmlookup (Participants s) who = Some p" using c by (auto simp: set_attendance_def res_simps)
  let ?p = "count_attendance a g ?t p"
  let ?T = "if must_suspend a (AbsenceGraceRatio s) ?t ?p
            then (case pa_recognition ?p of
                    RecognizedId i \<Rightarrow>
                      (case ppl_suspend cfg [i] (s_world s) of
                         Inr w' \<Rightarrow> (SuspendedId i, True, w')
                       | Inl _ \<Rightarrow> (pa_recognition ?p, False, s_world s))
                  | r \<Rightarrow> (r, True, s_world s))
            else (pa_recognition ?p, False, s_world s)"
  obtain recog suspend w where case': "?T = (recog, suspend, w)" by (cases ?T rule: prod_cases3) simp
  define reached where "reached = (if \<not> pa_reached ?p \<and> pa_score ?p \<ge> ?t then True else if suspend then False else pa_reached ?p)"
  have e: "p' = ?p\<lparr>pa_recognition := recog, pa_reached := reached,
      pa_ever_reached := pa_ever_reached ?p \<or> reached, pa_cashed_out := False\<rparr>"
    and s': "s' = s\<lparr>s_world := w, Participants := fmupd who p' (Participants s)\<rparr>"
    using c p case' by (auto simp: set_attendance_def reached_def Let_def)
  have change: "recog = pa_recognition p \<and> w = s_world s \<and> (suspend \<longrightarrow> recog = NotRecognized) \<or>
      (\<exists>i. pa_recognition p = RecognizedId i \<and> recog = SuspendedId i \<and> suspend \<and> ppl_suspend cfg [i] (s_world s) = Inr w)"
  proof (cases "must_suspend a (AbsenceGraceRatio s) ?t ?p")
    case True
    then have "pa_recognition ?p = NotRecognized \<or> (\<exists>i. pa_recognition ?p = RecognizedId i)"
      by (auto simp: must_suspend_def Let_def split: prod.splits recognition.splits)
    then show ?thesis using case' True by (auto simp: count_attendance_keeps split: sum.splits)
  qed (use case' in \<open>simp add: count_attendance_keeps\<close>)
  show ?thesis using that[OF p change _ _ s'] e reached_def by (simp add: count_attendance_keeps)
qed

lemma set_attendance_inv:
  assumes laws: "funds_laws cfg held" and inv: "score_inv held s"
    and c: "set_attendance cfg who a g s = Inr (s', p')"
  shows "score_inv held s'"
  using c
proof (cases rule: set_attendance_run)
  case (1 p recog suspend reached w)
  let ?p = "count_attendance a g (PersonhoodThreshold s) p"
  have ok: "participant_ok who ?p"
    using inv_lookup(1)[OF inv 1(1)] inv by (intro count_attendance_ok) (auto simp: score_inv_def people_ok_def)
  have held: "held q w = held q (s_world s)" for q using 1(2) funds_lawsD(9)[OF laws] by auto
  have "participant_ok who p'" using ok 1(2) unfolding 1(3,4)
    by (cases "pa_recognition p") (auto simp: participant_ok.simps count_attendance_keeps)
  then show ?thesis unfolding 1(5) by (intro inv_same_credit[OF inv 1(1) _ _ held]) (simp_all add: 1(4) count_attendance_keeps)
qed

lemma register_inv:
  assumes laws: "funds_laws cfg held" and inv: "score_inv held s" and c: "register cfg origin key s = Inr (s', info)"
  shows "score_inv held s'"
proof -
  obtain account p where a: "ensure_signed_or_participant cfg origin = Inr account"
    and p: "fmlookup (Participants s) (Account account) = Some p"
    using c by (auto simp: register_def res_simps Let_def)
  let ?new = "\<lambda>i. p\<lparr>pa_recognition := RecognizedId i, pa_reached := True, pa_ever_reached := True\<rparr>"
  have "\<exists>i resumed w. (\<forall>q. held q w = held q (s_world s)) \<and>
    s' = score_deposit (PersonhoodRecognized (Account account) resumed)
      (s\<lparr>s_world := w, Participants := fmupd (Account account) (?new i) (Participants s)\<rparr>)"
  proof (cases "pa_recognition p")
    case NotRecognized
    obtain i w0 where i: "ppl_reserve cfg (s_world s) = (i, w0)" by (cases "ppl_reserve cfg (s_world s)")
    obtain k w where r: "ppl_recognize cfg i (Some k) w0 = Inr w"
      and s': "s' = score_deposit (PersonhoodRecognized (Account account) False)
        (s\<lparr>s_world := w, Participants := fmupd (Account account) (?new i) (Participants s)\<rparr>)"
      using c a p i NotRecognized by (auto simp: register_def res_simps Let_def)
    then show ?thesis using funds_lawsD(7)[OF laws i] funds_lawsD(8)[OF laws r] by metis
  next
    case (SuspendedId i)
    then obtain w where r: "ppl_recognize cfg i None (s_world s) = Inr w"
      and s': "s' = score_deposit (PersonhoodRecognized (Account account) True)
        (s\<lparr>s_world := w, Participants := fmupd (Account account) (?new i) (Participants s)\<rparr>)"
      using c a p by (auto simp: register_def res_simps Let_def)
    then show ?thesis using funds_lawsD(8)[OF laws r] by metis
  qed (use c a p in \<open>auto simp: register_def res_simps Let_def\<close>)
  then obtain i resumed w where w: "\<And>q. held q w = held q (s_world s)"
    and s': "s' = score_deposit (PersonhoodRecognized (Account account) resumed)
      (s\<lparr>s_world := w, Participants := fmupd (Account account) (?new i) (Participants s)\<rparr>)"
    by blast
  have "participant_ok (Account account) (p\<lparr>pa_recognition := RecognizedId i, pa_reached := True, pa_ever_reached := True\<rparr>)"
    using inv_lookup(1)[OF inv p] by (simp add: participant_ok.simps)
  then show ?thesis unfolding s' by (simp add: inv_same_credit[OF inv p _ _ w])
qed

lemma award_inv:
  assumes inv: "score_inv held s"
  shows "score_inv held (award_participant_payout_points who n s)"
    "Participants (award_participant_payout_points who n s) = Participants s"
    "s_world (award_participant_payout_points who n s) = s_world s"
proof -
  show "Participants (award_participant_payout_points who n s) = Participants s"
    "s_world (award_participant_payout_points who n s) = s_world s"
    by (auto simp: award_participant_payout_points_def Let_def split: option.splits)
  let ?i = "CurrentRoundIndex s" and ?pts = "RoundsPoints s"
  show "score_inv held (award_participant_payout_points who n s)"
  proof (cases "n = 0 \<or> checked_add 32 (CurrentRoundPoints s) n = None")
    case True
    then show ?thesis using inv by (auto simp: award_participant_payout_points_def Let_def)
  next
    case False
    then have sum: "CurrentRoundPoints s + n \<le> max_of 32" by (auto simp: checked_add_def split: if_splits)
    have r: "rounds_ok s" using inv by (simp add: score_inv_def)
    let ?new = "get_or 0 ?pts (?i, who) + n"
    have "get_or 0 ?pts (?i, who) \<le> CurrentRoundPoints s" using points_le[of ?pts ?i who] r by (simp add: rounds_ok_def)
    then have ex: "sat_add 32 (get_or 0 ?pts (?i, who)) n = ?new" using sum by (intro sat_add_exact) linarith
    let ?s = "s\<lparr>RoundsPoints := fmupd (?i, who) ?new ?pts, CurrentRoundPoints := CurrentRoundPoints s + n\<rparr>"
    have e: "award_participant_payout_points who n s = ?s"
      using False sum ex by (simp add: award_participant_payout_points_def checked_add_def Let_def)
    have "points_in (fmupd (?i, who) ?new ?pts) ?i = CurrentRoundPoints s + n"
      using points_in_drop[of ?i who ?pts] r by (simp add: points_in_upd rounds_ok_def)
    moreover have "rewards_in rnd (fmupd (?i, who) ?new ?pts) q = rewards_in rnd ?pts q" if "q < ?i" for rnd q
      using that by (intro rewards_in_upd_other) simp
    moreover have "\<forall>q v m. fmlookup (fmupd (?i, who) ?new ?pts) (q, v) = Some m \<longrightarrow> q \<le> ?i"
      using r unfolding rounds_ok_def by (metis Pair_inject fmupd_lookup order_refl)
    ultimately have "rounds_ok ?s" using r sum unfolding rounds_ok_def by simp
    then show ?thesis using inv unfolding e by (simp add: score_inv_def people_ok_def funded_def reserved_funds_def)
  qed
qed

lemma cash_out_inv:
  assumes inv: "score_inv held s" and c: "cash_out cfg origin s = Inr (s', info)"
  shows "score_inv held s'"
proof -
  obtain who p n where p: "fmlookup (Participants s) who = Some p"
    and s': "s' = score_deposit (CashedOut who) ((award_participant_payout_points who n s)\<lparr>Participants := fmupd who
      (p\<lparr>pa_score := pa_score p - n, pa_streak := reset_attendance (pa_streak p), pa_cashed_out := True\<rparr>)
      (Participants (award_participant_payout_points who n s))\<rparr>)"
    using c by (auto simp: cash_out_def res_simps Let_def)
  let ?a = "award_participant_payout_points who n s"
  let ?p = "p\<lparr>pa_score := pa_score p - n, pa_streak := reset_attendance (pa_streak p), pa_cashed_out := True\<rparr>"
  have "participant_ok who ?p" using inv_lookup(1)[OF inv p] by (cases "pa_recognition p") (auto simp: participant_ok.simps)
  then have "score_inv held (?a\<lparr>s_world := s_world ?a, Participants := fmupd who ?p (Participants ?a)\<rparr>)"
    by (intro inv_same_credit[OF award_inv(1)[OF inv]]) (simp_all add: award_inv[OF inv] p)
  then show ?thesis unfolding s' by simp
qed

lemma redeem_credit_inv:
  assumes laws: "funds_laws cfg held" and inv: "score_inv held s" and c: "redeem_credit cfg origin dest s = Inr (s', info)"
  shows "score_inv held s'"
proof -
  obtain who p w1 n w2 m where p: "fmlookup (Participants s) who = Some p"
    and w1: "s_release cfg Credit (s_pot cfg) (pa_credit p) Exact (s_world s) = Inr (w1, n)"
    and w2: "s_transfer cfg (s_pot cfg) dest n Expendable w1 = Inr (w2, m)"
    and s': "s' = score_deposit (CreditClaimed who dest m)
      (s\<lparr>s_world := w2, Participants := fmupd who (p\<lparr>pa_credit := 0\<rparr>) (Participants s)\<rparr>)"
    using c by (auto simp: redeem_credit_def res_simps Let_def)
  have h: "held Credit w2 = held Credit (s_world s) - pa_credit p" "held Payout w2 = held Payout (s_world s)"
    using funds_lawsD(2)[OF laws w1] funds_lawsD(4)[OF laws w2] by auto
  have "credit_sum (fmupd who (p\<lparr>pa_credit := 0\<rparr>) (Participants s)) \<le> held Credit w2"
    using credit_sum_upd[OF p, of "p\<lparr>pa_credit := 0\<rparr>"] h inv by (simp add: score_inv_def funded_def) linarith
  then have "score_inv held (s\<lparr>s_world := w2, Participants := fmupd who (p\<lparr>pa_credit := 0\<rparr>) (Participants s)\<rparr>)"
    using inv_lookup(1)[OF inv p] h by (intro inv_participant[OF inv]) (simp_all add: participant_ok_credit)
  then show ?thesis unfolding s' by simp
qed

lemma offboard_inv:
  fixes cfg :: "('acc, 'x, 'w, 'o, 'm, 'sig) scfg"
  assumes laws: "funds_laws cfg held" and inv: "score_inv held s" and c: "offboard cfg who s = Inr s'"
  shows "score_inv held s'"
proof -
  let ?ps = "Participants s"
  obtain w w1 where m: "(case map_option pa_recognition (fmlookup ?ps who) of
              Some (RecognizedId i) \<Rightarrow>
                map_err Foreign
                  (bindE (ppl_start_session cfg (s_world s)) (\<lambda>w1.
                   bindE (ppl_suspend cfg [i] w1) (\<lambda>w2.
                   ppl_end_session cfg w2)))
            | _ \<Rightarrow> Inr (s_world s)) = (Inr w :: 'x score_err + 'w)"
    and w1: "w1 = (case fmlookup ?ps who of
                 None \<Rightarrow> w
               | Some score \<Rightarrow>
                   if pa_credit score = 0 then w
                   else (case s_release cfg Credit (s_pot cfg) (pa_credit score) Exact w of
                           Inr (w1, _) \<Rightarrow> w1
                         | Inl _ \<Rightarrow> w))"
    and s': "s' = s\<lparr>s_world := (case who of Account account \<Rightarrow> s_dec_sufficients cfg account w1 | Person _ \<Rightarrow> w1),
      Participants := fmdrop who ?ps\<rparr>"
    using c by (auto simp: offboard_def bindE_Inr Let_def)
  have w: "held q w = held q (s_world s)" for q
    using m funds_lawsD(9-11)[OF laws]
    by (cases "map_option pa_recognition (fmlookup ?ps who)") (auto simp: res_simps split: recognition.splits)
  let ?credit = "case fmlookup ?ps who of None \<Rightarrow> 0 | Some p \<Rightarrow> pa_credit p"
  have "held Payout w1 = held Payout w \<and> held Credit w \<le> held Credit w1 + ?credit"
    unfolding w1 using funds_lawsD(2)[OF laws] by (auto split: option.splits sum.splits)
  then have h: "held Payout (s_world s') = held Payout (s_world s)" "held Credit (s_world s) \<le> held Credit (s_world s') + ?credit"
    unfolding s' w by (auto simp: funds_lawsD(5,6)[OF laws] split: account_or_person.splits)
  have "credit_sum (fmdrop who ?ps) + ?credit = credit_sum ?ps" by (rule credit_sum_drop)
  then have "funded held s'" "rounds_ok s'" "people_ok s'"
    using h inv by (auto simp: s' score_inv_def funded_def rounds_ok_def people_ok_def reserved_funds_def)
  then show ?thesis by (simp add: score_inv_def)
qed

lemma onboard_inv:
  assumes laws: "funds_laws cfg held" and inv: "score_inv held s" and c: "onboard_for_recognition cfg who s = Inr s'"
  shows "score_inv held s'"
proof -
  have n: "fmlookup (Participants s) (Account who) = None"
    and s': "s' = s\<lparr>s_world := s_inc_sufficients cfg who (s_world s),
      Participants := fmupd (Account who) (new_participant 0 False NotRecognized) (Participants s)\<rparr>"
    using c by (auto simp: onboard_for_recognition_def can_onboard_for_recognition_def res_simps)
  show ?thesis unfolding s'
    using credit_sum_new[OF n, of "new_participant 0 False NotRecognized"] inv
    by (intro inv_participant[OF inv])
      (simp_all add: funds_lawsD(5)[OF laws] participant_ok.simps new_participant_def score_inv_def funded_def)
qed

lemma onboard_external_inv:
  assumes inv: "score_inv held s" and c: "onboard_externally_recognized who s = Inr s'"
  shows "score_inv held s'"
proof -
  let ?p = "new_participant (PersonhoodThreshold s) True ExternallyRecognized"
  have n: "fmlookup (Participants s) (Person who) = None"
    and s': "s' = s\<lparr>s_world := s_world s, Participants := fmupd (Person who) ?p (Participants s)\<rparr>"
    using c by (auto simp: onboard_externally_recognized_def res_simps)
  show ?thesis unfolding s' using credit_sum_new[OF n, of ?p] inv
    by (intro inv_participant[OF inv]) (simp_all add: participant_ok.simps new_participant_def score_inv_def funded_def people_ok_def)
qed

lemma threshold_bound:
  assumes "valid_thresholds (PersonhoodThresholdSchedule s)"
  shows "calculate_personhood_threshold n s \<le> MAX_PERSONHOOD_THRESHOLD"
  using valid_thresholdsD(2)[OF assms] by (auto simp: calculate_personhood_threshold_def find_Some_iff split: option.splits)

lemma start_session_inv:
  assumes laws: "funds_laws cfg held" and inv: "score_inv held s" and c: "start_attendance_report_session cfg s = Inr s'"
  shows "score_inv held s'"
proof -
  obtain w where w: "ppl_start_session cfg (s_world s) = Inr w" and s': "s' = update_thresholds cfg s\<lparr>s_world := w\<rparr>"
    using c by (auto simp: start_attendance_report_session_def update_thresholds_def res_simps Let_def)
  have "PersonhoodThreshold s' \<le> MAX_PERSONHOOD_THRESHOLD"
    using inv threshold_bound[of s] by (simp add: s' update_thresholds_def Let_def score_inv_def people_ok_def)
  then show ?thesis using inv funds_lawsD(10)[OF laws w]
    by (simp add: s' update_thresholds_def Let_def score_inv_def people_ok_def rounds_ok_def funded_def reserved_funds_def)
qed

lemma end_session_inv:
  assumes laws: "funds_laws cfg held" and inv: "score_inv held s" and c: "end_attendance_report_session cfg s = Inr s'"
  shows "score_inv held s'"
  using c inv_world[OF inv] funds_lawsD(11)[OF laws]
  by (auto simp: end_attendance_report_session_def res_simps)

lemma force_attendance_inv:
  assumes "funds_laws cfg held" "score_inv held s" "force_set_attendance cfg origin who a g s = Inr (s', info)"
  shows "score_inv held s'"
  using assms(3) end_session_inv[OF assms(1) set_attendance_inv[OF assms(1) start_session_inv[OF assms(1,2)]]]
  by (auto simp: force_set_attendance_def res_simps)

lemma schedules_inv:
  assumes "score_inv held s"
  shows "set_absence_grace_schedule cfg origin ts s = Inr (s', info) \<Longrightarrow> score_inv held s'"
    "set_personhood_threshold_schedule cfg origin us s = Inr (s', info) \<Longrightarrow> score_inv held s'"
proof -
  show "score_inv held s'" if c: "set_absence_grace_schedule cfg origin ts s = Inr (s', info)"
  proof -
    have "score_inv held (s\<lparr>AbsenceGraceSchedule := ts\<rparr>)"
      using assms by (simp add: score_inv_def people_ok_def rounds_ok_def funded_def reserved_funds_def)
    then show ?thesis using c by (auto simp: set_absence_grace_schedule_def res_simps)
  qed
  show "score_inv held s'" if c: "set_personhood_threshold_schedule cfg origin us s = Inr (s', info)"
  proof -
    have "valid_thresholds us" using c by (auto simp: set_personhood_threshold_schedule_def valid_thresholds_def is_ok_iff res_simps)
    then have "score_inv held (s\<lparr>PersonhoodThresholdSchedule := us\<rparr>)"
      using assms by (simp add: score_inv_def people_ok_def rounds_ok_def funded_def reserved_funds_def)
    then show ?thesis using c by (auto simp: set_personhood_threshold_schedule_def res_simps)
  qed
qed

subsection \<open>The pallet as a machine\<close>

datatype ('acc, 'o, 'm, 'sig, 'w) score_op =
  OpSchedulePayoutRounds 'o balance nat block_number
| OpRemovePayoutSchedule 'o nat
| OpTransitionRound block_number 'o score_round
| OpOperatePayoutRound "'acc account_or_person list" 'o score_round nat
| OpCashOut 'o
| OpRedeemCredit 'o 'acc
| OpRegister 'o "('m \<times> 'sig) option"
| OpSetAbsenceGrace 'o "absence_tier list"
| OpSetThresholds 'o "personhood_tier list"
| OpForceSetAttendance 'o "'acc account_or_person" bool nat
| OpOnboard 'acc
| OpOnboardExternally alias_id
| OpOffboard "'acc account_or_person"
| OpStartSession
| OpEndSession
| OpSetAttendance "'acc account_or_person" bool nat
| OpWorld 'w

text \<open>The new state of a call with post-dispatch information.\<close>

definition called :: "('acc, 'x, 'w) score_result \<Rightarrow> 'x score_err + ('acc, 'w) sst" where
  "called r = bindE r (\<lambda>(s, _). Inr s)"

fun score_step ::
  "('acc, 'x, 'w, 'o, 'm, 'sig) scfg \<Rightarrow> ('acc, 'o, 'm, 'sig, 'w) score_op \<Rightarrow> ('acc, 'w) sst \<Rightarrow> 'x score_err + ('acc, 'w) sst" where
  "score_step cfg (OpSchedulePayoutRounds origin amount count duration) s =
     called (score_schedule_payout_rounds cfg origin amount count duration s)"
| "score_step cfg (OpRemovePayoutSchedule origin i) s = called (score_remove_payout_schedule cfg origin i s)"
| "score_step cfg (OpTransitionRound now origin r) s = called (transition_round cfg now origin r s)"
| "score_step cfg (OpOperatePayoutRound order origin r limit) s = called (operate_payout_round cfg order origin r limit s)"
| "score_step cfg (OpCashOut origin) s = called (cash_out cfg origin s)"
| "score_step cfg (OpRedeemCredit origin dest) s = called (redeem_credit cfg origin dest s)"
| "score_step cfg (OpRegister origin key) s = called (register cfg origin key s)"
| "score_step cfg (OpSetAbsenceGrace origin ts) s = called (set_absence_grace_schedule cfg origin ts s)"
| "score_step cfg (OpSetThresholds origin ts) s = called (set_personhood_threshold_schedule cfg origin ts s)"
| "score_step cfg (OpForceSetAttendance origin who a g) s = called (force_set_attendance cfg origin who a g s)"
| "score_step cfg (OpOnboard who) s = onboard_for_recognition cfg who s"
| "score_step cfg (OpOnboardExternally who) s = onboard_externally_recognized who s"
| "score_step cfg (OpOffboard who) s = offboard cfg who s"
| "score_step cfg OpStartSession s = start_attendance_report_session cfg s"
| "score_step cfg OpEndSession s = end_attendance_report_session cfg s"
| "score_step cfg (OpSetAttendance who a g) s = bindE (set_attendance cfg who a g s) (\<lambda>(s', _). Inr s')"
| "score_step cfg (OpWorld w) s = Inr (s\<lparr>s_world := w\<rparr>)"

text \<open>
  The side conditions: rounds are scheduled with a count and an amount whose product fits a balance, the round index
  does not wrap, and the rest of the chain does not take funds on hold.
\<close>

fun score_op_ok ::
  "(score_hold_reason \<Rightarrow> 'w \<Rightarrow> balance) \<Rightarrow> ('acc, 'o, 'm, 'sig, 'w) score_op \<Rightarrow> ('acc, 'w) sst \<Rightarrow> bool" where
  "score_op_ok held (OpSchedulePayoutRounds _ amount count _) s \<longleftrightarrow> 0 < count \<and> amount * count \<le> max_of 128"
| "score_op_ok held (OpTransitionRound _ _ _) s \<longleftrightarrow> CurrentRoundIndex s < max_of 32"
| "score_op_ok held (OpWorld w) s \<longleftrightarrow> held Payout (s_world s) \<le> held Payout w \<and> held Credit (s_world s) \<le> held Credit w"
| "score_op_ok held _ s \<longleftrightarrow> True"

lemma called_Inr: "called r = Inr s \<longleftrightarrow> (\<exists>info. r = Inr (s, info))"
  by (auto simp: called_def res_simps)

lemma score_step_inv:
  assumes laws: "funds_laws cfg held" and inv: "score_inv held s" and ok: "score_op_ok held c s"
    and step: "score_step cfg c s = Inr s'"
  shows "score_inv held s'"
proof (cases c)
  case (OpSchedulePayoutRounds origin amount count duration)
  then show ?thesis using schedule_rounds_inv[OF laws inv] ok step by (auto simp: called_Inr)
next
  case (OpRemovePayoutSchedule origin i)
  then show ?thesis using remove_schedule_inv[OF laws inv] step by (auto simp: called_Inr)
next
  case (OpTransitionRound now origin r)
  then show ?thesis using transition_round_inv[OF inv] ok step by (auto simp: called_Inr)
next
  case (OpOperatePayoutRound order origin r limit)
  then show ?thesis using operate_payout_round_inv[OF laws inv] step by (auto simp: called_Inr)
next
  case (OpCashOut origin)
  then show ?thesis using cash_out_inv[OF inv] step by (auto simp: called_Inr)
next
  case (OpRedeemCredit origin dest)
  then show ?thesis using redeem_credit_inv[OF laws inv] step by (auto simp: called_Inr)
next
  case (OpRegister origin key)
  then show ?thesis using register_inv[OF laws inv] step by (auto simp: called_Inr)
next
  case (OpSetAbsenceGrace origin ts)
  then show ?thesis using schedules_inv(1)[OF inv] step by (auto simp: called_Inr)
next
  case (OpSetThresholds origin ts)
  then show ?thesis using schedules_inv(2)[OF inv] step by (auto simp: called_Inr)
next
  case (OpForceSetAttendance origin who a g)
  then show ?thesis using force_attendance_inv[OF laws inv] step by (auto simp: called_Inr)
next
  case (OpOnboard who)
  then show ?thesis using onboard_inv[OF laws inv] step by simp
next
  case (OpOnboardExternally who)
  then show ?thesis using onboard_external_inv[OF inv] step by simp
next
  case (OpOffboard who)
  then show ?thesis using offboard_inv[OF laws inv] step by simp
next
  case OpStartSession
  then show ?thesis using start_session_inv[OF laws inv] step by simp
next
  case OpEndSession
  then show ?thesis using end_session_inv[OF laws inv] step by simp
next
  case (OpSetAttendance who a g)
  then show ?thesis using set_attendance_inv[OF laws inv] step by (auto simp: res_simps)
next
  case (OpWorld w)
  have "held q (s_world s) \<le> held q w" for q using ok OpWorld by (cases q) auto
  then show ?thesis using inv_world[OF inv, of w] step OpWorld by simp
qed

interpretation score: pallet_machine "score_step cfg"
  "\<lambda>c s. funds_laws cfg held \<and> score_op_ok held c s" "score_inv held"
  for cfg :: "('acc, 'x, 'w, 'o, 'm, 'sig) scfg" and held
  by unfold_locales (auto intro: score_step_inv)

end
