(* ===== verification/ScoreRegistry.thy ===== *)
theory ScoreRegistry
  imports Score_Steps
begin

text \<open>
  The score pallet on the registry of people: \<^verbatim>\<open>pallets/score/src/lib.rs\<close> reaches the registry through the trait
  \<open>PeopleTrait\<close>, which \<^verbatim>\<open>pallets/people-multi/src/lib.rs\<close> implements.

  The locale \<open>people_registry\<close> is that interface with the laws the score pallet relies on: which ids are recognized,
  and which were ever given out. Inside it, a participant whom the score pallet holds for recognized is recognized in
  the registry. \<open>on_people\<close> puts the model of the registry behind the interface; the interpretation discharges the laws.
\<close>

subsection \<open>The interface\<close>

text \<open>The operations of the configuration that reach the currency and the account counters.\<close>

datatype 'acc funds_call =
  Hold score_hold_reason balance | Release score_hold_reason balance precision | Transfer 'acc balance
| IncSufficients 'acc | DecSufficients 'acc

fun funds_do :: "('acc, 'x, 'w, 'o, 'm, 'sig) scfg \<Rightarrow> 'acc funds_call \<Rightarrow> 'w \<Rightarrow> 'x + 'w" where
  "funds_do cfg (Hold r a) w = s_hold cfg r (s_pot cfg) a w"
| "funds_do cfg (Release r a p) w = bindE (s_release cfg r (s_pot cfg) a p w) (\<lambda>(w, _). Inr w)"
| "funds_do cfg (Transfer dest a) w = bindE (s_transfer cfg (s_pot cfg) dest a Expendable w) (\<lambda>(w, _). Inr w)"
| "funds_do cfg (IncSufficients acc) w = Inr (s_inc_sufficients cfg acc w)"
| "funds_do cfg (DecSufficients acc) w = Inr (s_dec_sufficients cfg acc w)"

locale people_registry =
  fixes cfg :: "('acc, 'x, 'w, 'o, 'm, 'sig) scfg"
    and good :: "'w \<Rightarrow> bool"
    and room :: "'w \<Rightarrow> bool"
    and recognized_ids :: "'w \<Rightarrow> personal_id set"
    and known_ids :: "'w \<Rightarrow> personal_id set"
  assumes known_law: "good w \<Longrightarrow> recognized_ids w \<subseteq> known_ids w"
    and reserve_law: "good w \<Longrightarrow> room w \<Longrightarrow> ppl_reserve cfg w = (i, w') \<Longrightarrow>
      good w' \<and> i \<notin> known_ids w \<and> known_ids w' = insert i (known_ids w) \<and> recognized_ids w' = recognized_ids w"
    and recognize_law: "good w \<Longrightarrow> ppl_recognize cfg i k w = Inr w' \<Longrightarrow>
      good w' \<and> known_ids w' = known_ids w \<and> recognized_ids w' = insert i (recognized_ids w)"
    and suspend_law: "good w \<Longrightarrow> ppl_suspend cfg [i] w = Inr w' \<Longrightarrow>
      good w' \<and> known_ids w' = known_ids w \<and> recognized_ids w' = recognized_ids w - {i}"
    and start_law: "good w \<Longrightarrow> ppl_start_session cfg w = Inr w' \<Longrightarrow>
      good w' \<and> known_ids w' = known_ids w \<and> recognized_ids w' = recognized_ids w"
    and end_law: "good w \<Longrightarrow> ppl_end_session cfg w = Inr w' \<Longrightarrow>
      good w' \<and> known_ids w' = known_ids w \<and> recognized_ids w' = recognized_ids w"
    and funds_law: "good w \<Longrightarrow> funds_do cfg c w = Inr w' \<Longrightarrow>
      good w' \<and> known_ids w' = known_ids w \<and> recognized_ids w' = recognized_ids w"

text \<open>The personal id a participant has, with whether it is recognized.\<close>

definition held_id :: "('acc account_or_person, participant) storage_map \<Rightarrow> 'acc account_or_person \<Rightarrow> (personal_id \<times> bool) option" where
  "held_id ps who = (case fmlookup ps who of
     None \<Rightarrow> None
   | Some p \<Rightarrow> (case pa_recognition p of RecognizedId i \<Rightarrow> Some (i, True) | SuspendedId i \<Rightarrow> Some (i, False) | _ \<Rightarrow> None))"

definition ids_agree :: "('w \<Rightarrow> personal_id set) \<Rightarrow> ('w \<Rightarrow> personal_id set) \<Rightarrow> ('acc, 'w) sst \<Rightarrow> bool" where
  "ids_agree recognized_ids known_ids s \<longleftrightarrow>
     (\<forall>who i b. held_id (Participants s) who = Some (i, b) \<longrightarrow>
        i \<in> known_ids (s_world s) \<and> (b \<longleftrightarrow> i \<in> recognized_ids (s_world s))) \<and>
     (\<forall>who who' i b b'. held_id (Participants s) who = Some (i, b) \<and> held_id (Participants s) who' = Some (i, b') \<longrightarrow> who = who')"

text \<open>
  The side conditions: there is room for an id when a participant registers, and the rest of the chain neither
  recognizes nor suspends the ids of participants and does not forget ids.
\<close>

fun people_side_ok ::
  "('w \<Rightarrow> bool) \<Rightarrow> ('w \<Rightarrow> bool) \<Rightarrow> ('w \<Rightarrow> personal_id set) \<Rightarrow> ('w \<Rightarrow> personal_id set)
     \<Rightarrow> ('acc, 'o, 'm, 'sig, 'w) score_op \<Rightarrow> ('acc, 'w) sst \<Rightarrow> bool" where
  "people_side_ok good room recognized_ids known_ids (OpRegister _ _) s \<longleftrightarrow> room (s_world s)"
| "people_side_ok good room recognized_ids known_ids (OpWorld w) s \<longleftrightarrow>
     good w \<and> known_ids (s_world s) \<subseteq> known_ids w \<and>
     (\<forall>who i b. held_id (Participants s) who = Some (i, b) \<longrightarrow> (i \<in> recognized_ids w \<longleftrightarrow> i \<in> recognized_ids (s_world s)))"
| "people_side_ok good room recognized_ids known_ids _ s \<longleftrightarrow> True"

lemma held_id_upd: "held_id (fmupd who p ps) who' = (if who = who' then
    (case pa_recognition p of RecognizedId i \<Rightarrow> Some (i, True) | SuspendedId i \<Rightarrow> Some (i, False) | _ \<Rightarrow> None) else held_id ps who')"
  by (simp add: held_id_def)

lemma held_id_drop: "held_id (fmdrop who ps) who' = (if who = who' then None else held_id ps who')"
  by (simp add: held_id_def)

lemma held_id_same:
  "fmlookup ps who = Some p \<Longrightarrow> pa_recognition p' = pa_recognition p \<Longrightarrow> held_id (fmupd who p' ps) = held_id ps"
  by (rule ext) (auto simp: held_id_def)

lemma payout_loop_ids:
  "payout_loop rnd r limit order c s = (c', fin, s') \<Longrightarrow> held_id (Participants s') = held_id (Participants s) \<and> s_world s' = s_world s"
proof (induction order arbitrary: limit c s)
  case (Cons who order)
  show ?case
  proof (cases "limit = 0 \<or> fmlookup (Participants s) who = None")
    case True
    then show ?thesis using Cons.IH[of "limit - 1" c "s\<lparr>RoundsPoints := fmdrop (r, who) (RoundsPoints s)\<rparr>"] Cons.prems
      by (auto simp: Let_def split: if_splits)
  next
    case False
    then obtain p where p: "fmlookup (Participants s) who = Some p" by auto
    let ?p = "p\<lparr>pa_credit := sat_add 128 (pa_credit p) (points_reward rnd (get_or 0 (RoundsPoints s) (r, who)))\<rparr>"
    have "held_id (fmupd who ?p (Participants s)) = held_id (Participants s)" using p by (rule held_id_same) simp
    then show ?thesis using Cons.IH Cons.prems False p by (fastforce simp: Let_def)
  qed
qed simp

subsection \<open>The score pallet on any registry\<close>

definition settled_on ::
  "('w \<Rightarrow> bool) \<Rightarrow> ('w \<Rightarrow> personal_id set) \<Rightarrow> ('w \<Rightarrow> personal_id set) \<Rightarrow> ('acc, 'w) sst \<Rightarrow> bool" where
  "settled_on good recognized_ids known_ids s \<longleftrightarrow> good (s_world s) \<and> ids_agree recognized_ids known_ids s"

text \<open>A step of the world that leaves the ids alone.\<close>

definition unmoved_on ::
  "('w \<Rightarrow> bool) \<Rightarrow> ('w \<Rightarrow> personal_id set) \<Rightarrow> ('w \<Rightarrow> personal_id set) \<Rightarrow> 'w \<Rightarrow> 'w \<Rightarrow> bool" where
  "unmoved_on good recognized_ids known_ids w w' \<longleftrightarrow>
     good w' \<and> known_ids w' = known_ids w \<and> recognized_ids w' = recognized_ids w"

context people_registry
begin

abbreviation settled :: "('acc, 'w) sst \<Rightarrow> bool" where
  "settled \<equiv> settled_on good recognized_ids known_ids"

abbreviation unmoved :: "'w \<Rightarrow> 'w \<Rightarrow> bool" where
  "unmoved \<equiv> unmoved_on good recognized_ids known_ids"

lemmas settled_def = settled_on_def [of good recognized_ids known_ids]
lemmas unmoved_def = unmoved_on_def [of good recognized_ids known_ids]

lemma unmoved_refl: "good w \<Longrightarrow> unmoved w w"
  by (simp add: unmoved_def)

lemma unmoved_trans: "unmoved w w1 \<Longrightarrow> unmoved w1 w2 \<Longrightarrow> unmoved w w2"
  by (simp add: unmoved_def)

lemma funds_unmoved:
  assumes "good w"
  shows "s_hold cfg r (s_pot cfg) a w = Inr w' \<Longrightarrow> unmoved w w'"
    and "s_release cfg r (s_pot cfg) a p w = Inr (w', n) \<Longrightarrow> unmoved w w'"
    and "s_transfer cfg (s_pot cfg) dest a Expendable w = Inr (w', n) \<Longrightarrow> unmoved w w'"
    and "unmoved w (s_inc_sufficients cfg acc w)" "unmoved w (s_dec_sufficients cfg acc w)"
  using funds_law[OF assms, of "Hold r a" w'] funds_law[OF assms, of "Release r a p" w'] funds_law[OF assms, of "Transfer dest a" w']
    funds_law[OF assms, of "IncSufficients acc"] funds_law[OF assms, of "DecSufficients acc"]
  by (simp_all add: unmoved_def)

lemma settled_unmoved:
  "settled s \<Longrightarrow> held_id (Participants s') = held_id (Participants s) \<Longrightarrow> unmoved (s_world s) (s_world s') \<Longrightarrow> settled s'"
  by (simp add: settled_def unmoved_def ids_agree_def)

lemma settled_world:
  "settled s \<Longrightarrow> Participants s' = Participants s \<Longrightarrow> unmoved (s_world s) (s_world s') \<Longrightarrow> settled s'"
  by (rule settled_unmoved) simp_all

lemma settled_good: "settled s \<Longrightarrow> good (s_world s)"
  by (simp add: settled_def)

lemma recycle_unmoved:
  assumes "settled s"
  shows "settled (recycle_round_payout cfg r s)"
proof (rule settled_unmoved[OF assms])
  show "held_id (Participants (recycle_round_payout cfg r s)) = held_id (Participants s)"
    by (auto simp: recycle_round_payout_def Let_def split: option.splits sum.splits)
  show "unmoved (s_world s) (s_world (recycle_round_payout cfg r s))"
    using funds_unmoved(2)[OF settled_good[OF assms]] unmoved_refl[OF settled_good[OF assms]]
    by (auto simp: recycle_round_payout_def Let_def split: option.splits sum.splits)
qed

lemma operate_settled:
  assumes st: "settled s" and c: "operate_payout_round cfg order origin r limit s = Inr (s', info)"
  shows "settled s'"
proof -
  obtain rnd where rnd: "fmlookup (RoundPayouts s) r = Some rnd"
    using c by (auto simp: operate_payout_round_def validate_operate_payout_round_def res_simps)
  show ?thesis
  proof (cases "operate_in_layer cfg order r limit rnd s")
    case (Inl e)
    then have "s' = recycle_round_payout cfg r s"
      using c rnd by (auto simp: operate_payout_round_def validate_operate_payout_round_def res_simps)
    then show ?thesis using recycle_unmoved[OF st] by simp
  next
    case (Inr t)
    obtain credited fin s1 where l: "payout_loop rnd r limit order 0 s = (credited, fin, s1)" by (metis prod_cases3)
    note k = payout_loop_ids[OF l]
    obtain w1 n w2 where w1: "s_release cfg Payout (s_pot cfg) credited Exact (s_world s) = Inr (w1, n)"
      and w2: "s_hold cfg Credit (s_pot cfg) n w1 = Inr w2"
      using Inr k by (auto simp: operate_in_layer_def l res_simps Let_def)
    have u1: "unmoved (s_world s) w1" by (rule funds_unmoved(2)[OF settled_good[OF st] w1])
    then have u2: "unmoved (s_world s) w2" using funds_unmoved(1)[OF _ w2] unmoved_trans[of "s_world s" w1 w2] by (simp add: unmoved_def)
    have "unmoved (s_world s) (s_world t) \<and> Participants t = Participants s1"
    proof (cases fin)
      case True
      then obtain w3 m where w3: "s_release cfg Payout (s_pot cfg) (rp_remaining rnd - credited) Exact w2 = Inr (w3, m)"
        and t: "s_world t = w3" "Participants t = Participants s1"
        using Inr k w1 w2 by (auto simp: operate_in_layer_def l res_simps Let_def)
      show ?thesis using funds_unmoved(2)[OF _ w3] u2 unmoved_trans[OF u2] t by (simp add: unmoved_def)
    next
      case False
      then show ?thesis using Inr k w1 w2 u2 by (auto simp: operate_in_layer_def l res_simps Let_def)
    qed
    moreover have "s' = score_deposit (PayoutRoundOperated r) t"
      using c rnd Inr by (auto simp: operate_payout_round_def validate_operate_payout_round_def res_simps)
    ultimately show ?thesis using k by (intro settled_unmoved[OF st]) (simp_all add: score_deposit_def)
  qed
qed

text \<open>A participant gets an id that no other has.\<close>

lemma settled_upd:
  assumes st: "settled s" and g: "good w" and i: "i \<in> known_ids w" "b \<longleftrightarrow> i \<in> recognized_ids w"
    and recog: "pa_recognition p' = (if b then RecognizedId i else SuspendedId i)"
    and own: "\<And>who' c. held_id (Participants s) who' = Some (i, c) \<Longrightarrow> who' = who"
    and rest: "known_ids (s_world s) \<subseteq> known_ids w" "\<And>j. j \<noteq> i \<Longrightarrow> j \<in> recognized_ids w \<longleftrightarrow> j \<in> recognized_ids (s_world s)"
  shows "settled (s\<lparr>s_world := w, Participants := fmupd who p' (Participants s)\<rparr>)"
proof -
  have h: "held_id (fmupd who p' (Participants s)) v = (if v = who then Some (i, b) else held_id (Participants s) v)" for v
    using recog by (cases b) (auto simp: held_id_upd)
  have a: "ids_agree recognized_ids known_ids s" using st by (simp add: settled_def)
  have "ids_agree recognized_ids known_ids (s\<lparr>s_world := w, Participants := fmupd who p' (Participants s)\<rparr>)"
    unfolding ids_agree_def
  proof (intro conjI allI impI)
    fix v j c
    assume "held_id (Participants (s\<lparr>s_world := w, Participants := fmupd who p' (Participants s)\<rparr>)) v = Some (j, c)"
    then have v: "(if v = who then Some (i, b) else held_id (Participants s) v) = Some (j, c)" by (simp add: h)
    have "v \<noteq> who \<Longrightarrow> j \<noteq> i" using v own[of v c] by auto
    then show "j \<in> known_ids (s_world (s\<lparr>s_world := w, Participants := fmupd who p' (Participants s)\<rparr>))"
      "c \<longleftrightarrow> j \<in> recognized_ids (s_world (s\<lparr>s_world := w, Participants := fmupd who p' (Participants s)\<rparr>))"
      using v i rest a unfolding ids_agree_def by (auto split: if_splits)
  next
    fix v v' j c c'
    assume "held_id (Participants (s\<lparr>s_world := w, Participants := fmupd who p' (Participants s)\<rparr>)) v = Some (j, c) \<and>
      held_id (Participants (s\<lparr>s_world := w, Participants := fmupd who p' (Participants s)\<rparr>)) v' = Some (j, c')"
    then show "v = v'" using a own unfolding ids_agree_def by (simp add: h split: if_splits)
  qed
  then show ?thesis using g by (simp add: settled_def)
qed

lemma settled_same:
  assumes "settled s" "fmlookup (Participants s) who = Some p" "pa_recognition p' = pa_recognition p" "unmoved (s_world s) w"
  shows "settled (s\<lparr>s_world := w, Participants := fmupd who p' (Participants s)\<rparr>)"
  by (rule settled_unmoved[OF assms(1)]) (simp_all add: held_id_same[OF assms(2,3)] assms(4))

lemma settled_deposit [simp]: "settled (score_deposit e s) = settled s"
  by (simp add: settled_def ids_agree_def score_deposit_def)

lemma settled_dropped:
  assumes st: "settled s" and g: "good w" and k: "known_ids (s_world s) \<subseteq> known_ids w"
    and r: "\<And>who' i b. who' \<noteq> who \<Longrightarrow> held_id (Participants s) who' = Some (i, b) \<Longrightarrow> i \<in> recognized_ids w \<longleftrightarrow> i \<in> recognized_ids (s_world s)"
  shows "settled (s\<lparr>s_world := w, Participants := fmdrop who (Participants s)\<rparr>)"
proof -
  let ?s = "s\<lparr>s_world := w, Participants := fmdrop who (Participants s)\<rparr>"
  have a: "ids_agree recognized_ids known_ids s" using st by (simp add: settled_def)
  have "ids_agree recognized_ids known_ids ?s"
    unfolding ids_agree_def
  proof (intro conjI allI impI)
    fix v j c
    assume "held_id (Participants ?s) v = Some (j, c)"
    then have v: "v \<noteq> who" "held_id (Participants s) v = Some (j, c)" by (auto simp: held_id_drop split: if_splits)
    then show "j \<in> known_ids (s_world ?s)" "c \<longleftrightarrow> j \<in> recognized_ids (s_world ?s)"
      using a k r[OF v] unfolding ids_agree_def by auto
  next
    fix v v' j c c'
    assume "held_id (Participants ?s) v = Some (j, c) \<and> held_id (Participants ?s) v' = Some (j, c')"
    then show "v = v'" using a unfolding ids_agree_def by (simp add: held_id_drop split: if_splits)
  qed
  then show ?thesis using g by (simp add: settled_def)
qed

lemma register_settled:
  assumes st: "settled s" and rm: "room (s_world s)" and c: "register cfg origin key s = Inr (s', info)"
  shows "settled s'"
proof -
  have g: "good (s_world s)" by (rule settled_good[OF st])
  have a: "ids_agree recognized_ids known_ids s" using st by (simp add: settled_def)
  obtain account p where acc: "ensure_signed_or_participant cfg origin = Inr account"
    and p: "fmlookup (Participants s) (Account account) = Some p"
    using c by (auto simp: register_def res_simps Let_def)
  let ?new = "\<lambda>i. p\<lparr>pa_recognition := RecognizedId i, pa_reached := True, pa_ever_reached := True\<rparr>"
  show ?thesis
  proof (cases "pa_recognition p")
    case NotRecognized
    obtain i w0 where i: "ppl_reserve cfg (s_world s) = (i, w0)" by (cases "ppl_reserve cfg (s_world s)")
    obtain k w where r: "ppl_recognize cfg i (Some k) w0 = Inr w"
      and s': "s' = score_deposit (PersonhoodRecognized (Account account) False)
        (s\<lparr>s_world := w, Participants := fmupd (Account account) (?new i) (Participants s)\<rparr>)"
      using c acc p i NotRecognized by (auto simp: register_def res_simps Let_def)
    have w0: "good w0" "i \<notin> known_ids (s_world s)" "known_ids w0 = insert i (known_ids (s_world s))"
        "recognized_ids w0 = recognized_ids (s_world s)"
      using reserve_law[OF g rm i] by simp_all
    have w: "good w" "known_ids w = known_ids w0" "recognized_ids w = insert i (recognized_ids w0)"
      using recognize_law[OF w0(1) r] by simp_all
    have "settled (s\<lparr>s_world := w, Participants := fmupd (Account account) (?new i) (Participants s)\<rparr>)"
      using w w0 a by (intro settled_upd[OF st, where i = i and b = True]) (auto simp: ids_agree_def)
    then show ?thesis unfolding s' by simp
  next
    case (SuspendedId i)
    obtain w where r: "ppl_recognize cfg i None (s_world s) = Inr w"
      and s': "s' = score_deposit (PersonhoodRecognized (Account account) True)
        (s\<lparr>s_world := w, Participants := fmupd (Account account) (?new i) (Participants s)\<rparr>)"
      using c acc p SuspendedId by (auto simp: register_def res_simps Let_def)
    have w: "good w" "known_ids w = known_ids (s_world s)" "recognized_ids w = insert i (recognized_ids (s_world s))"
      using recognize_law[OF g r] by simp_all
    have own: "held_id (Participants s) (Account account) = Some (i, False)" using p SuspendedId by (simp add: held_id_def)
    then have i: "i \<in> known_ids (s_world s)" "\<And>v c. held_id (Participants s) v = Some (i, c) \<Longrightarrow> v = Account account"
      using a unfolding ids_agree_def by blast+
    then have "settled (s\<lparr>s_world := w, Participants := fmupd (Account account) (?new i) (Participants s)\<rparr>)"
      using w by (intro settled_upd[OF st, where i = i and b = True]) auto
    then show ?thesis unfolding s' by simp
  qed (use c acc p in \<open>auto simp: register_def res_simps Let_def\<close>)
qed

lemma set_attendance_settled:
  assumes st: "settled s" and c: "set_attendance cfg who att g s = Inr (s', p')"
  shows "settled s'"
proof -
  have gd: "good (s_world s)" by (rule settled_good[OF st])
  have a: "ids_agree recognized_ids known_ids s" using st by (simp add: settled_def)
  obtain p w where p: "fmlookup (Participants s) who = Some p"
    and s': "s' = s\<lparr>s_world := w, Participants := fmupd who p' (Participants s)\<rparr>"
    and w: "pa_recognition p' = pa_recognition p \<and> w = s_world s \<or>
      (\<exists>i. pa_recognition p = RecognizedId i \<and> pa_recognition p' = SuspendedId i \<and> ppl_suspend cfg [i] (s_world s) = Inr w)"
    using c by (cases rule: set_attendance_run) auto
  from w show ?thesis
  proof
    assume "pa_recognition p' = pa_recognition p \<and> w = s_world s"
    then show ?thesis unfolding s' using settled_same[OF st p, of p' w] unmoved_refl[OF gd] by simp
  next
    assume "\<exists>i. pa_recognition p = RecognizedId i \<and> pa_recognition p' = SuspendedId i \<and> ppl_suspend cfg [i] (s_world s) = Inr w"
    then obtain i where i: "pa_recognition p = RecognizedId i" "pa_recognition p' = SuspendedId i" "ppl_suspend cfg [i] (s_world s) = Inr w"
      by blast
    have wl: "good w" "known_ids w = known_ids (s_world s)" "recognized_ids w = recognized_ids (s_world s) - {i}"
      using suspend_law[OF gd i(3)] by simp_all
    have own: "held_id (Participants s) who = Some (i, True)" using p i(1) by (simp add: held_id_def)
    then have "i \<in> known_ids (s_world s)" "\<And>v c. held_id (Participants s) v = Some (i, c) \<Longrightarrow> v = who"
      using a unfolding ids_agree_def by blast+
    then show ?thesis unfolding s' using wl i(2) by (intro settled_upd[OF st, where i = i and b = False]) auto
  qed
qed

lemma offboard_settled:
  assumes st: "settled s" and c: "offboard cfg who s = Inr s'"
  shows "settled s'"
proof -
  have g: "good (s_world s)" by (rule settled_good[OF st])
  have a: "ids_agree recognized_ids known_ids s" using st by (simp add: settled_def)
  let ?ps = "Participants s"
  obtain w w1 where m: "(case map_option pa_recognition (fmlookup ?ps who) of
              Some (RecognizedId i) \<Rightarrow>
                map_err Foreign
                  (bindE (ppl_start_session cfg (s_world s)) (\<lambda>w1.
                   bindE (ppl_suspend cfg [i] w1) (\<lambda>w2.
                   ppl_end_session cfg w2)))
            | _ \<Rightarrow> Inr (s_world s)) = (Inr w :: 'x score_err + 'w)"
    and w1: "w1 = (case fmlookup ?ps who of
                 None \<Rightarrow> w
               | Some score \<Rightarrow>
                   if pa_credit score = 0 then w
                   else (case s_release cfg Credit (s_pot cfg) (pa_credit score) Exact w of
                           Inr (w1, _) \<Rightarrow> w1
                         | Inl _ \<Rightarrow> w))"
    and s': "s' = s\<lparr>s_world := (case who of Account account \<Rightarrow> s_dec_sufficients cfg account w1 | Person _ \<Rightarrow> w1),
      Participants := fmdrop who ?ps\<rparr>"
    using c by (auto simp: offboard_def bindE_Inr Let_def)
  have w: "good w \<and> known_ids w = known_ids (s_world s) \<and>
      (\<forall>j. (\<forall>b. held_id ?ps who \<noteq> Some (j, b)) \<longrightarrow> (j \<in> recognized_ids w \<longleftrightarrow> j \<in> recognized_ids (s_world s)))"
  proof (cases "\<exists>p i. fmlookup ?ps who = Some p \<and> pa_recognition p = RecognizedId i")
    case False
    then have "w = s_world s" using m
      by (cases "map_option pa_recognition (fmlookup ?ps who)") (auto split: recognition.splits)
    then show ?thesis using g by simp
  next
    case True
    then obtain p i where p: "fmlookup ?ps who = Some p" "pa_recognition p = RecognizedId i" by blast
    then obtain u1 u2 where u: "ppl_start_session cfg (s_world s) = Inr u1" "ppl_suspend cfg [i] u1 = Inr u2" "ppl_end_session cfg u2 = Inr w"
      using m by (auto simp: res_simps)
    have "held_id ?ps who = Some (i, True)" using p by (simp add: held_id_def)
    then show ?thesis using start_law[OF g u(1)] suspend_law[OF _ u(2)] end_law[OF _ u(3)] by auto
  qed
  have "unmoved w w1" unfolding w1 using funds_unmoved(2) w unmoved_refl[of w] by (auto split: option.splits sum.splits)
  then have u: "unmoved w (s_world s')" unfolding s' using funds_unmoved(5)[of w1] unmoved_trans[of w w1]
    by (auto simp: unmoved_def split: account_or_person.splits)
  have other: "\<forall>b'. held_id ?ps who \<noteq> Some (i, b')" if "v \<noteq> who" "held_id ?ps v = Some (i, b)" for v i b
    using that a unfolding ids_agree_def by blast
  have "settled (s\<lparr>s_world := s_world s', Participants := fmdrop who ?ps\<rparr>)"
    using u w other by (intro settled_dropped[OF st]) (auto simp: unmoved_def)
  moreover have "s' = s\<lparr>s_world := s_world s', Participants := fmdrop who ?ps\<rparr>" by (simp add: s')
  ultimately show ?thesis by simp
qed

lemma session_settled:
  assumes st: "settled s"
  shows "start_attendance_report_session cfg s = Inr s' \<Longrightarrow> settled s'"
    and "end_attendance_report_session cfg s = Inr s' \<Longrightarrow> settled s'"
proof -
  assume "start_attendance_report_session cfg s = Inr s'"
  then obtain w where "ppl_start_session cfg (s_world s) = Inr w" "s' = update_thresholds cfg s\<lparr>s_world := w\<rparr>"
    by (auto simp: start_attendance_report_session_def update_thresholds_def res_simps Let_def)
  then show "settled s'" using start_law[OF settled_good[OF st]]
    by (intro settled_world[OF st]) (simp_all add: unmoved_def update_thresholds_def Let_def)
next
  assume "end_attendance_report_session cfg s = Inr s'"
  then obtain w where "ppl_end_session cfg (s_world s) = Inr w" "s' = s\<lparr>s_world := w\<rparr>"
    by (auto simp: end_attendance_report_session_def res_simps)
  then show "settled s'" using end_law[OF settled_good[OF st]] by (intro settled_world[OF st]) (simp_all add: unmoved_def)
qed

lemma new_participant_settled:
  assumes st: "settled s" and n: "fmlookup (Participants s) who = None" "unmoved (s_world s) w"
    and r: "r = NotRecognized \<or> r = ExternallyRecognized"
  shows "settled (s\<lparr>s_world := w, Participants := fmupd who (new_participant k b r) (Participants s)\<rparr>)"
proof (rule settled_unmoved[OF st])
  have "held_id (Participants s) who = None" using n by (simp add: held_id_def)
  then show "held_id (Participants (s\<lparr>s_world := w, Participants := fmupd who (new_participant k b r) (Participants s)\<rparr>)) = held_id (Participants s)"
    using r by (intro ext) (auto simp: held_id_upd new_participant_def)
qed (simp add: n)

lemma score_step_settled:
  assumes st: "settled s" and ok: "people_side_ok good room recognized_ids known_ids c s" and step: "score_step cfg c s = Inr s'"
  shows "settled s'"
proof -
  note g = settled_good[OF st]
  note fu = funds_unmoved[OF g]
  note same = settled_unmoved[OF st] unmoved_refl[OF g]
  show ?thesis
  proof (cases c)
    case (OpSchedulePayoutRounds origin amount count duration)
    then show ?thesis using step fu(1)
      by (auto simp: called_Inr score_schedule_payout_rounds_def score_deposit_def res_simps intro!: settled_world[OF st])
  next
    case (OpRemovePayoutSchedule origin i)
    then show ?thesis using step fu(2)
      by (auto simp: called_Inr score_remove_payout_schedule_def score_deposit_def res_simps Let_def intro!: settled_world[OF st])
  next
    case (OpTransitionRound now origin r)
    have "s_world (plan_next_round now (finish_current_round s)) = s_world s \<and> Participants (plan_next_round now (finish_current_round s)) = Participants s"
      by (auto simp: plan_next_round_def finish_current_round_def Let_def split: option.splits list.splits)
    then show ?thesis using OpTransitionRound step same by (auto simp: called_Inr transition_round_def res_simps)
  next
    case (OpOperatePayoutRound order origin r limit)
    then show ?thesis using step operate_settled[OF st] by (auto simp: called_Inr)
  next
    case (OpCashOut origin)
    then obtain who p n where p: "fmlookup (Participants s) who = Some p"
      and s': "s' = score_deposit (CashedOut who) ((award_participant_payout_points who n s)\<lparr>Participants := fmupd who
        (p\<lparr>pa_score := pa_score p - n, pa_streak := reset_attendance (pa_streak p), pa_cashed_out := True\<rparr>)
        (Participants (award_participant_payout_points who n s))\<rparr>)"
      using step by (auto simp: called_Inr cash_out_def res_simps Let_def)
    have aw: "Participants (award_participant_payout_points who n s) = Participants s \<and> s_world (award_participant_payout_points who n s) = s_world s"
      by (auto simp: award_participant_payout_points_def Let_def split: option.splits)
    have "held_id (fmupd who (p\<lparr>pa_score := pa_score p - n, pa_streak := reset_attendance (pa_streak p), pa_cashed_out := True\<rparr>) (Participants s))
        = held_id (Participants s)" using p by (rule held_id_same) simp
    then show ?thesis unfolding s' using same aw by simp
  next
    case (OpRedeemCredit origin dest)
    then obtain who p w1 n w2 m where p: "fmlookup (Participants s) who = Some p"
      and w1: "s_release cfg Credit (s_pot cfg) (pa_credit p) Exact (s_world s) = Inr (w1, n)"
      and w2: "s_transfer cfg (s_pot cfg) dest n Expendable w1 = Inr (w2, m)"
      and s': "s' = score_deposit (CreditClaimed who dest m)
        (s\<lparr>s_world := w2, Participants := fmupd who (p\<lparr>pa_credit := 0\<rparr>) (Participants s)\<rparr>)"
      using step by (auto simp: called_Inr redeem_credit_def res_simps Let_def)
    have "unmoved (s_world s) w2" using fu(2)[OF w1] funds_unmoved(3)[OF _ w2] unmoved_trans by (simp add: unmoved_def)
    then show ?thesis unfolding s' using settled_same[OF st p] by simp
  next
    case (OpRegister origin key)
    then show ?thesis using step ok register_settled[OF st] by (auto simp: called_Inr)
  next
    case (OpSetAbsenceGrace origin ts)
    then show ?thesis using step same by (auto simp: called_Inr set_absence_grace_schedule_def res_simps)
  next
    case (OpSetThresholds origin ts)
    then show ?thesis using step same by (auto simp: called_Inr set_personhood_threshold_schedule_def res_simps)
  next
    case (OpForceSetAttendance origin who att g)
    then obtain s1 s2 p s3 where "start_attendance_report_session cfg s = Inr s1" "set_attendance cfg who att g s1 = Inr (s2, p)"
      "end_attendance_report_session cfg s2 = Inr s3" "s' = score_deposit (AttendanceForced who att g) s3"
      using step by (auto simp: called_Inr force_set_attendance_def res_simps)
    then show ?thesis using session_settled set_attendance_settled st by (metis settled_deposit)
  next
    case (OpOnboard who)
    then show ?thesis using step new_participant_settled[OF st _ fu(4)]
      by (auto simp: onboard_for_recognition_def can_onboard_for_recognition_def res_simps)
  next
    case (OpOnboardExternally who)
    then show ?thesis using step new_participant_settled[OF st _ unmoved_refl[OF g], of "Person who"]
      by (auto simp: onboard_externally_recognized_def res_simps)
  next
    case (OpOffboard who)
    then show ?thesis using step offboard_settled[OF st] by simp
  next
    case OpStartSession
    then show ?thesis using step session_settled(1)[OF st] by simp
  next
    case OpEndSession
    then show ?thesis using step session_settled(2)[OF st] by simp
  next
    case (OpSetAttendance who att g)
    then show ?thesis using step set_attendance_settled[OF st] by (auto simp: res_simps)
  next
    case (OpWorld w)
    then show ?thesis using step ok st unfolding settled_def ids_agree_def by (auto, blast+)
  qed
qed

end

end
