(* ===== verification/Score_Properties.thy ===== *)
theory Score_Properties
  imports Score_Steps "HOL-Library.Code_Target_Nat"
begin

text \<open>
  The properties of the score pallet, \<^verbatim>\<open>pallets/score/src/lib.rs\<close>: in every reachable state participants are
  well-formed, the points of the rounds add up and the funds on hold cover every claim; a payout pays every
  participant their reward and ends. They are evaluated on a small configuration, whose world is the two amounts
  on hold and the next personal id.
\<close>

subsection \<open>A configuration to evaluate on\<close>

datatype sex_origin = SexRoot | SexAuthorized | SexSigned nat

record sex_world =
  sx_payout :: balance
  sx_credit :: balance
  sx_next :: personal_id

fun sex_held :: "score_hold_reason \<Rightarrow> sex_world \<Rightarrow> balance" where
  "sex_held Payout w = sx_payout w"
| "sex_held Credit w = sx_credit w"

fun sex_set :: "score_hold_reason \<Rightarrow> balance \<Rightarrow> sex_world \<Rightarrow> sex_world" where
  "sex_set Payout n w = w\<lparr>sx_payout := n\<rparr>"
| "sex_set Credit n w = w\<lparr>sx_credit := n\<rparr>"

definition sex_genesis :: "(nat, sex_world) sst" where
  "sex_genesis = score_genesis \<lparr>sx_payout = 0, sx_credit = 0, sx_next = 0\<rparr>"

definition sex_cfg :: "(nat, unit, sex_world, sex_origin, nat, nat) scfg" where
  "sex_cfg = \<lparr>
     s_manager_or_root = (\<lambda>org. org = SexRoot),
     s_root = (\<lambda>org. org = SexRoot),
     s_authorized = (\<lambda>org. org = SexAuthorized),
     s_signed = (\<lambda>org. case org of SexSigned a \<Rightarrow> Some a | _ \<Rightarrow> None),
     s_participant = (\<lambda>_. None),
     s_person = (\<lambda>_ _. None),
     s_hash = (\<lambda>b. b),
     s_suffix = ''paseo'',
     s_pot = 0,
     s_max_schedules = 4,
     s_offchain_interval = 1,
     s_hold = (\<lambda>r _ a w. Inr (sex_set r (sex_held r w + a) w)),
     s_release = (\<lambda>r _ a p w.
       if p = Exact \<and> sex_held r w < a then Inl ()
       else (let n = min a (sex_held r w) in Inr (sex_set r (sex_held r w - n) w, n))),
     s_transfer = (\<lambda>_ _ a _ w. Inr (w, a)),
     s_inc_sufficients = (\<lambda>_ w. w),
     s_dec_sufficients = (\<lambda>_ w. w),
     ppl_reserve = (\<lambda>w. (sx_next w, w\<lparr>sx_next := sx_next w + 1\<rparr>)),
     ppl_recognize = (\<lambda>_ _ w. Inr w),
     ppl_suspend = (\<lambda>_ w. Inr w),
     ppl_start_session = (\<lambda>w. Inr w),
     ppl_end_session = (\<lambda>w. Inr w),
     ppl_can_start_session = (\<lambda>_. True),
     active_people = (\<lambda>_. 15000),
     encode_account = (\<lambda>_. []),
     s_verify_signature = (\<lambda>_ _ _. True),
     w_transition = zero_weight, w_authorize_transition = zero_weight,
     w_operate = (\<lambda>_. zero_weight), w_authorize_operate = (\<lambda>_. zero_weight), ocw_fits = (\<lambda>_. True)\<rparr>"

lemma sex_funds_laws: "funds_laws sex_cfg sex_held"
proof -
  have set: "sex_held q (sex_set r n w) = (if q = r then n else sex_held q w)" for q r n w
    by (cases q; cases r) auto
  have res: "sex_held q (w\<lparr>sx_next := n\<rparr>) = sex_held q w" for q w n by (cases q) auto
  show ?thesis unfolding funds_laws_def sex_cfg_def
    by (simp add: Let_def) (auto simp: set res split: if_splits)
qed

text \<open>Two players attend, cash out and are paid from a round of 100.\<close>

definition sex_ops :: "(nat, sex_origin, nat, nat, sex_world) score_op list" where
  "sex_ops = [
     OpSchedulePayoutRounds SexRoot 100 2 10, OpTransitionRound 1 SexAuthorized 0,
     OpOnboard 1, OpOnboard 2, OpOnboardExternally ''p'',
     OpStartSession, OpSetAttendance (Account 1) True 0, OpSetAttendance (Account 2) True 0,
     OpSetAttendance (Account 2) True 1, OpSetAttendance (Account 2) True 2, OpEndSession,
     OpCashOut (SexSigned 1), OpTransitionRound 11 SexAuthorized 0,
     OpRegister (SexSigned 2) (Some (5, 6))]"

abbreviation sex_state :: "(nat, sex_world) sst" where
  "sex_state \<equiv> exec_all (score_step sex_cfg) sex_ops sex_genesis"

definition score_run_ok ::
  "('acc, 'x, 'w, 'o, 'm, 'sig) scfg \<Rightarrow> (score_hold_reason \<Rightarrow> 'w \<Rightarrow> balance) \<Rightarrow> ('acc, 'o, 'm, 'sig, 'w) score_op list
     \<Rightarrow> ('acc, 'w) sst \<Rightarrow> bool" where
  "score_run_ok cfg held ops s = run_ok (score_step cfg) (score_op_ok held) ops s"

lemma sex_run: "score_run_ok sex_cfg sex_held sex_ops sex_genesis"
  "fmlookup (RoundPayouts sex_state) 0 = Some \<lparr>rp_remaining = 100, rp_point_price = 100, rp_remainder = 0, rp_total_points = 1\<rparr>"
  "map_option pa_recognition (fmlookup (Participants sex_state) (Account 2)) = Some (RecognizedId 0)"
  by code_simp+

lemma reachable_score_inv:
  assumes "funds_laws cfg held" "score_run_ok cfg held ops (score_genesis w)" "s = exec_all (score_step cfg) ops (score_genesis w)"
  shows "score_inv held s"
proof -
  have "run_ok (score_step cfg) (\<lambda>c s. funds_laws cfg held \<and> score_op_ok held c s) ops s0"
    if "run_ok (score_step cfg) (score_op_ok held) ops s0" for s0
    using that assms(1) by (induction ops arbitrary: s0) auto
  then show ?thesis using assms(2,3) score.exec_all_inv[OF score_inv_genesis, of cfg held ops]
    by (simp add: score_run_ok_def)
qed

subsection \<open>Every reachable state\<close>

text \<open>
  C29: In every reachable state the score of a participant is at most 21; one recognized by the game, or through another
  mechanism, has reached personhood, only persons are recognized externally, and only accounts are recognized by the
  game; and the points of the participants in the current round add up to its total.
\<close>

theorem reachable_participants_consistent:
  assumes "funds_laws cfg held" "score_run_ok cfg held ops (score_genesis w)" "s = exec_all (score_step cfg) ops (score_genesis w)"
    and p: "fmlookup (Participants s) who = Some p"
  shows "pa_score p \<le> MAX_PERSONHOOD_THRESHOLD \<and>
    (is_recognized (pa_recognition p) \<longrightarrow> pa_reached p \<and> pa_ever_reached p) \<and>
    (is_externally_recognized (pa_recognition p) \<longleftrightarrow> (\<exists>al. who = Person al)) \<and>
    points_in (RoundsPoints s) (CurrentRoundIndex s) = CurrentRoundPoints s"
proof (intro conjI)
  have inv: "score_inv held s" by (rule reachable_score_inv[OF assms(1-3)])
  then have ok: "participant_ok who p" using p by (rule inv_lookup(1))
  show "pa_score p \<le> MAX_PERSONHOOD_THRESHOLD" "is_recognized (pa_recognition p) \<longrightarrow> pa_reached p \<and> pa_ever_reached p"
    "is_externally_recognized (pa_recognition p) \<longleftrightarrow> (\<exists>al. who = Person al)"
    using ok by (cases "pa_recognition p"; cases who; simp add: participant_ok.simps is_externally_recognized_def)+
  show "points_in (RoundsPoints s) (CurrentRoundIndex s) = CurrentRoundPoints s"
    using inv by (simp add: score_inv_def rounds_ok_def)
qed


lemma reachable_participants_consistent_witness:
  "\<exists>p. fmlookup (Participants sex_state) (Account 2) = Some p \<and> pa_reached p"
proof -
  obtain p where p: "fmlookup (Participants sex_state) (Account 2) = Some p" "pa_recognition p = RecognizedId 0"
    using sex_run(3) by (cases "fmlookup (Participants sex_state) (Account 2)") auto
  then show ?thesis
    using reachable_participants_consistent[OF sex_funds_laws sex_run(1)[unfolded sex_genesis_def] refl,
        folded sex_genesis_def, OF p(1)] by auto
qed


lemma accepted_thresholds_total_monotone_witness:
  "calculate_personhood_threshold 10
     (exec_all (score_step sex_cfg) [OpSetThresholds SexRoot [\<lparr>pt_population = max_of 32, pt_score = 7\<rparr>]] sex_state) = 7"
proof -
  have "is_ok (set_personhood_threshold_schedule sex_cfg SexRoot [\<lparr>pt_population = max_of 32, pt_score = 7\<rparr>] sex_state)"
    by code_simp
  then obtain s' info where c:
      "set_personhood_threshold_schedule sex_cfg SexRoot [\<lparr>pt_population = max_of 32, pt_score = 7\<rparr>] sex_state = Inr (s', info)"
    by (auto simp: is_ok_iff)
  have "exec_all (score_step sex_cfg) [OpSetThresholds SexRoot [\<lparr>pt_population = max_of 32, pt_score = 7\<rparr>]] sex_state = s'"
    using c by (simp add: exec_op_def called_def)
  then show ?thesis using accepted_thresholds_total_monotone[OF c, of 10 10] by (simp add: max_of_def)
qed

subsection \<open>A payout ends and pays\<close>

text \<open>The loop, when the limit covers all points of the round.\<close>

lemma payout_loop_all:
  assumes "distinct order" "length order < limit"
  shows "\<exists>credited s'. payout_loop rnd r limit order credited0 s = (credited, True, s') \<and>
    (\<forall>who. fmlookup (Participants s') who = (if who \<in> set order
       then map_option (\<lambda>p. p\<lparr>pa_credit := sat_add 128 (pa_credit p) (points_reward rnd (get_or 0 (RoundsPoints s) (r, who)))\<rparr>)
              (fmlookup (Participants s) who)
       else fmlookup (Participants s) who)) \<and>
    (\<forall>k. fmlookup (RoundsPoints s') k = (if fst k = r \<and> snd k \<in> set order then None else fmlookup (RoundsPoints s) k)) \<and>
    (\<exists>ps pts. s' = s\<lparr>Participants := ps, RoundsPoints := pts\<rparr>)"
  using assms
proof (induction order arbitrary: limit credited0 s)
  case Nil
  have "\<exists>ps pts. s = s\<lparr>Participants := ps, RoundsPoints := pts\<rparr>"
    by (rule exI[of _ "Participants s"], rule exI[of _ "RoundsPoints s"]) simp
  then show ?case using Nil by auto
next
  case (Cons who order)
  then obtain n where n: "limit = Suc n" "length order < n" by (cases limit) auto
  let ?n = "get_or 0 (RoundsPoints s) (r, who)"
  let ?s1 = "s\<lparr>RoundsPoints := fmdrop (r, who) (RoundsPoints s)\<rparr>"
  let ?up = "\<lambda>p. p\<lparr>pa_credit := sat_add 128 (pa_credit p) (points_reward rnd ?n)\<rparr>"
  define s2 where "s2 = (case fmlookup (Participants s) who of None \<Rightarrow> ?s1
    | Some p \<Rightarrow> ?s1\<lparr>Participants := fmupd who (?up p) (Participants s)\<rparr>)"
  define c2 where "c2 = (case fmlookup (Participants s) who of None \<Rightarrow> credited0 | Some p \<Rightarrow> sat_add 128 credited0 (points_reward rnd ?n))"
  have step: "payout_loop rnd r limit (who # order) credited0 s = payout_loop rnd r n order c2 s2"
    using n by (cases "fmlookup (Participants s) who") (simp_all add: Let_def s2_def c2_def)
  have p2: "fmlookup (Participants s2) w = (if w = who then map_option ?up (fmlookup (Participants s) who) else fmlookup (Participants s) w)" for w
    by (cases "fmlookup (Participants s) who") (auto simp: s2_def)
  have r2: "RoundsPoints s2 = fmdrop (r, who) (RoundsPoints s)" by (cases "fmlookup (Participants s) who") (auto simp: s2_def)
  have g2: "get_or 0 (RoundsPoints s2) (r, w) = get_or 0 (RoundsPoints s) (r, w)" if "w \<noteq> who" for w using that r2 by simp
  obtain ps where f2: "s2 = s\<lparr>Participants := ps, RoundsPoints := fmdrop (r, who) (RoundsPoints s)\<rparr>"
  proof (cases "fmlookup (Participants s) who")
    case None
    then show ?thesis using that[of "Participants s"] by (simp add: s2_def)
  next
    case (Some p)
    then show ?thesis using that[of "fmupd who (?up p) (Participants s)"] by (simp add: s2_def)
  qed
  have d: "distinct order" using Cons.prems by simp
  from Cons.IH[OF d n(2), of c2 s2] obtain credited s' where l: "payout_loop rnd r n order c2 s2 = (credited, True, s')"
    and p: "\<And>w. fmlookup (Participants s') w = (if w \<in> set order
       then map_option (\<lambda>p. p\<lparr>pa_credit := sat_add 128 (pa_credit p) (points_reward rnd (get_or 0 (RoundsPoints s2) (r, w)))\<rparr>)
              (fmlookup (Participants s2) w)
       else fmlookup (Participants s2) w)"
    and q: "\<And>k. fmlookup (RoundsPoints s') k = (if fst k = r \<and> snd k \<in> set order then None else fmlookup (RoundsPoints s2) k)"
    and f: "\<exists>ps pts. s' = s2\<lparr>Participants := ps, RoundsPoints := pts\<rparr>"
    by blast
  have who: "who \<notin> set order" using Cons.prems by simp
  have "fmlookup (Participants s') w = (if w \<in> set (who # order)
       then map_option (\<lambda>p. p\<lparr>pa_credit := sat_add 128 (pa_credit p) (points_reward rnd (get_or 0 (RoundsPoints s) (r, w)))\<rparr>)
              (fmlookup (Participants s) w)
       else fmlookup (Participants s) w)" for w
    unfolding p using who g2[of w] p2[of w] by (cases "w = who") (auto simp del: fmlookup_dom_iff)
  moreover have "fmlookup (RoundsPoints s') k = (if fst k = r \<and> snd k \<in> set (who # order) then None else fmlookup (RoundsPoints s) k)" for k
    unfolding q r2 by (cases k) auto
  moreover have "\<exists>ps pts. s' = s\<lparr>Participants := ps, RoundsPoints := pts\<rparr>" using f unfolding f2 by auto
  ultimately show ?case unfolding step using l by blast
qed

text \<open>
  What the currency does when the funds are there: an exact release of funds on hold succeeds, and what was released
  can be held again.
\<close>

definition funds_available :: "('acc, 'x, 'w, 'o, 'm, 'sig) scfg \<Rightarrow> (score_hold_reason \<Rightarrow> 'w \<Rightarrow> balance) \<Rightarrow> bool" where
  "funds_available cfg held \<longleftrightarrow>
     (\<forall>r a w. a \<le> held r w \<longrightarrow> is_ok (s_release cfg r (s_pot cfg) a Exact w)) \<and>
     (\<forall>r a w w' n. s_release cfg r (s_pot cfg) a Exact w = Inr (w', n) \<longrightarrow> (\<forall>q. is_ok (s_hold cfg q (s_pot cfg) n w')))"


lemma sex_funds_available: "funds_available sex_cfg sex_held"
  by (auto simp: funds_available_def sex_cfg_def Let_def)


subsection \<open>What the code leaves open\<close>

text \<open>
  The limit of \<open>operate_payout_round\<close> is not part of its validation: a call with limit 0 is valid, blocks the tag of
  the round in the pool, and pays nobody.
\<close>

lemma operate_limit_zero_no_progress:
  assumes "fmlookup (RoundPayouts s) r = Some rnd"
  shows "is_ok (authorize_operate_payout_round r s)"
    and "operate_payout_round cfg order origin r 0 s = Inr (s', info) \<Longrightarrow> Participants s' = Participants s \<and> RoundsPoints s' = RoundsPoints s"
proof -
  show "is_ok (authorize_operate_payout_round r s)"
    using assms by (simp add: authorize_operate_payout_round_def validate_operate_payout_round_def)
  have l: "payout_loop rnd r 0 order 0 s = (0, False, s)" by (cases order) simp_all
  have "Participants s' = Participants s \<and> RoundsPoints s' = RoundsPoints s"
    if "operate_in_layer cfg order r 0 rnd s = Inr s'" for s'
    using that by (auto simp: operate_in_layer_def l res_simps Let_def)
  then show "operate_payout_round cfg order origin r 0 s = Inr (s', info) \<Longrightarrow> Participants s' = Participants s \<and> RoundsPoints s' = RoundsPoints s"
    using assms by (auto simp: validate_operate_payout_round_def operate_payout_round_def recycle_round_payout_def
        score_deposit_def res_simps Let_def split: sum.splits if_splits)
qed

text \<open>
  A schedule of no rounds is accepted; when the current round ends, a round of its amount is started, for which
  nothing was put on hold.
\<close>

lemma score_empty_schedule_starts_unfunded:
  "let s = exec_all (score_step sex_cfg) [OpSchedulePayoutRounds SexRoot 100 1 10, OpTransitionRound 1 SexAuthorized 0,
      OpSchedulePayoutRounds SexRoot 500 0 10, OpTransitionRound 11 SexAuthorized 0] sex_genesis
   in map_option ri_credit (RoundPlanning s) = Some 500 \<and> sex_held Payout (s_world s) = 100 \<and> reserved_funds s = 600"
  by code_simp

end
