(* ===== verification/PeopleChain.thy ===== *)
theory PeopleChain
  imports PeopleProperties
begin

text \<open>
  The world of a pallet above the registry of people, \<^verbatim>\<open>pallets/people-multi/src/lib.rs\<close>: the clock, the currency, and the
  state of the registry. The runtimes configure the \<open>People\<close> of those pallets with it.
\<close>

record ('cw, 'acc, 'm, 'ms) chain =
  ch_now :: secs
  ch_funds :: 'cw
  ch_people :: "('acc, 'm, 'ms) pst"

definition put_people ::
  "('x people_err + ('acc, 'm, 'ms) pst) \<Rightarrow> ('cw, 'acc, 'm, 'ms) chain \<Rightarrow> 'x people_err + ('cw, 'acc, 'm, 'ms) chain" where
  "put_people res w = bindE res (\<lambda>p. Inr (w\<lparr>ch_people := p\<rparr>))"

lemma put_people_Inr: "put_people res w = Inr w' \<longleftrightarrow> (\<exists>p. res = Inr p \<and> w' = w\<lparr>ch_people := p\<rparr>)"
  by (auto simp: put_people_def res_simps)

definition ids_left :: "('cw, 'acc, 'm, 'ms) chain \<Rightarrow> bool" where
  "ids_left w \<longleftrightarrow> NextPersonalId (ch_people w) < max_of 64"

text \<open>A run whose steps are checked with a stronger condition.\<close>

lemma run_ok_mono: "(\<And>c s. ok c s \<Longrightarrow> ok' c s) \<Longrightarrow> run_ok step ok cs s \<Longrightarrow> run_ok step ok' cs s"
  by (induction cs arbitrary: s) auto

end
