(* ===== verification/ScorePeople.thy ===== *)
theory ScorePeople
  imports ScoreRegistry Score_Properties PeopleChain
begin

text \<open>
  The score pallet, \<^verbatim>\<open>pallets/score/src/lib.rs\<close>, on the model of the registry of people, \<^verbatim>\<open>pallets/people-multi/src/lib.rs\<close>:
  the runtime configures \<open>People\<close> of the one with the other. \<open>on_people\<close> replaces the registry of a configuration.
\<close>

definition on_people ::
  "('pacc, 'm, 'ms, 'x, 'po, 'proof, 'psig) pcfg \<Rightarrow> ('acc, 'x people_err, ('cw, 'pacc, 'm, 'ms) chain, 'o, 'm, 'sig) scfg
     \<Rightarrow> ('acc, 'x people_err, ('cw, 'pacc, 'm, 'ms) chain, 'o, 'm, 'sig) scfg" where
  "on_people pcfg cfg = cfg\<lparr>
     ppl_reserve := (\<lambda>w. let (i, p) = reserve_new_id (ch_people w) in (i, w\<lparr>ch_people := p\<rparr>)),
     ppl_recognize := (\<lambda>i k w. put_people (recognize_personhood pcfg (ch_now w) i k (ch_people w)) w),
     ppl_suspend := (\<lambda>is w. put_people (suspend_personhood pcfg (ch_now w) is (ch_people w)) w),
     ppl_start_session := (\<lambda>w. put_people (start_people_set_mutation_session pcfg (ch_people w)) w),
     ppl_end_session := (\<lambda>w. put_people (end_people_set_mutation_session pcfg (ch_people w)) w),
     ppl_can_start_session := (\<lambda>w. can_start_people_set_mutation_session pcfg (ch_people w)),
     active_people := (\<lambda>w. people_active_count pcfg (ch_people w))\<rparr>"

text \<open>The currency and the account counters leave the registry alone.\<close>

definition funds_local :: "('acc, 'x people_err, ('cw, 'pacc, 'm, 'ms) chain, 'o, 'm, 'sig) scfg \<Rightarrow> bool" where
  "funds_local cfg \<longleftrightarrow> (\<forall>c w w'. funds_do cfg c w = Inr w' \<longrightarrow> ch_people w' = ch_people w)"

definition chain_good ::
  "('acc, 'x people_err, ('cw, 'pacc, 'm, 'ms) chain, 'o, 'm, 'sig) scfg \<Rightarrow> ('cw, 'pacc, 'm, 'ms) chain \<Rightarrow> bool" where
  "chain_good cfg w \<longleftrightarrow> funds_local cfg \<and> people_inv (ch_people w)"

definition open_ids :: "('acc, 'm, 'ms) pst \<Rightarrow> personal_id set" where
  "open_ids p = {i. \<exists>r. fmlookup (People p) i = Some r \<and> history_open (pr_history r)}"

definition recognized_on :: "('cw, 'pacc, 'm, 'ms) chain \<Rightarrow> personal_id set" where
  "recognized_on w = open_ids (ch_people w)"

definition known_on :: "('cw, 'pacc, 'm, 'ms) chain \<Rightarrow> personal_id set" where
  "known_on w = {i. i < NextPersonalId (ch_people w)}"

lemma open_ids_service [simp]: "open_ids (p\<lparr>service := ms\<rparr>) = open_ids p"
  by (simp add: open_ids_def)

lemma funds_do_on_people: "funds_do (on_people pcfg cfg) c w = funds_do cfg c w"
  by (cases c) (simp_all add: on_people_def)

lemma recognized_after:
  assumes inv: "people_inv p" and run: "recognize_personhood pcfg t i k p = Inr p'"
  shows "open_ids p' = insert i (open_ids p)"
proof -
  obtain r where r: "People p' = fmupd i r (People p)" "history_open (pr_history r)"
  proof (cases k)
    case None
    then obtain r0 h where "People p' = fmupd i (r0\<lparr>pr_history := h\<rparr>) (People p)" "open_history (pr_history r0) t = Inr h"
      using run by (auto simp: recognize_personhood_def res_simps people_deposit_def)
    then show ?thesis using that by (auto simp: open_history_Inr history_open_def)
  next
    case (Some key)
    then have "People p' = fmupd i \<lparr>pr_key = key, pr_account = None, pr_history = open_since t\<rparr> (People p)"
      using run by (auto simp: recognize_personhood_def res_simps people_deposit_def Let_def)
    then show ?thesis using that by (simp add: open_since_def history_open_def)
  qed
  then show ?thesis by (auto simp: open_ids_def)
qed

lemma suspended_after:
  fixes pcfg :: "('acc, 'm, 'ms, 'x, 'o, 'proof, 'sig) pcfg"
  assumes run: "suspend_personhood pcfg t [i] p = Inr p'"
  shows "open_ids p' = open_ids p - {i}"
    and "NextPersonalId p' = NextPersonalId p"
proof -
  obtain recs ms where c: "close_histories t [i] {} p = (Inr recs :: 'x people_err + _)" and p': "store_suspended recs (p\<lparr>service := ms\<rparr>) = p'"
    using run unfolding suspend_personhood_def bindE_Inr with_service_Inr sum.inject by blast
  obtain r prev h where r: "fmlookup (People p) i = Some r" "close_history (pr_history r) t = Some (prev, h)"
    using c by (auto simp: res_simps)
  have "\<not> history_open h" by (rule close_history_closes[OF r(2)])
  then show "open_ids p' = open_ids p - {i}"
    using suspend_result[OF run] r by (auto simp: open_ids_def split: if_splits)
  show "NextPersonalId p' = NextPersonalId p" by (simp add: p'[symmetric] store_suspended_frame)
qed

interpretation people_reg: people_registry "on_people pcfg cfg" "chain_good cfg" ids_left recognized_on known_on
  for pcfg :: "('pacc, 'm, 'ms, 'x, 'po, 'proof, 'psig) pcfg"
    and cfg :: "('acc, 'x people_err, ('cw, 'pacc, 'm, 'ms) chain, 'o, 'm, 'sig) scfg"
proof
  fix w w' :: "('cw, 'pacc, 'm, 'ms) chain" and i k c
  assume g: "chain_good cfg w"
  then have inv: "people_inv (ch_people w)" and loc: "funds_local cfg" by (simp_all add: chain_good_def)
  show "recognized_on w \<subseteq> known_on w"
    using people_inv_parts(5)[OF inv] unfolding ids_ok_def recognized_on_def open_ids_def known_on_def by auto
  show "ids_left w \<Longrightarrow> ppl_reserve (on_people pcfg cfg) w = (i, w') \<Longrightarrow>
      chain_good cfg w' \<and> i \<notin> known_on w \<and> known_on w' = insert i (known_on w) \<and> recognized_on w' = recognized_on w"
  proof -
    assume room: "ids_left w" and run: "ppl_reserve (on_people pcfg cfg) w = (i, w')"
    obtain p where p: "reserve_new_id (ch_people w) = (i, p)" and w': "w' = w\<lparr>ch_people := p\<rparr>"
      using run by (auto simp: on_people_def split: prod.splits)
    have "i = NextPersonalId (ch_people w)" using p by (auto simp: reserve_new_id_def Let_def)
    then show ?thesis using reserve_new_id_inv[OF inv _ p] room loc
      by (auto simp: w' ids_left_def chain_good_def known_on_def recognized_on_def open_ids_def)
  qed
  show "ppl_recognize (on_people pcfg cfg) i k w = Inr w' \<Longrightarrow>
      chain_good cfg w' \<and> known_on w' = known_on w \<and> recognized_on w' = insert i (recognized_on w)"
  proof -
    assume "ppl_recognize (on_people pcfg cfg) i k w = Inr w'"
    then obtain p where p: "recognize_personhood pcfg (ch_now w) i k (ch_people w) = Inr p" and w': "w' = w\<lparr>ch_people := p\<rparr>"
      by (auto simp: on_people_def put_people_def res_simps)
    show ?thesis using recognize_inv[OF inv p] recognized_after[OF inv p] loc
      by (simp add: w' chain_good_def known_on_def recognized_on_def)
  qed
  show "ppl_suspend (on_people pcfg cfg) [i] w = Inr w' \<Longrightarrow>
      chain_good cfg w' \<and> known_on w' = known_on w \<and> recognized_on w' = recognized_on w - {i}"
  proof -
    assume "ppl_suspend (on_people pcfg cfg) [i] w = Inr w'"
    then obtain p where p: "suspend_personhood pcfg (ch_now w) [i] (ch_people w) = Inr p" and w': "w' = w\<lparr>ch_people := p\<rparr>"
      by (auto simp: on_people_def put_people_def res_simps)
    show ?thesis using suspend_inv[OF inv p] suspended_after[OF p] loc
      by (simp add: w' chain_good_def known_on_def recognized_on_def)
  qed
  show "ppl_start_session (on_people pcfg cfg) w = Inr w' \<Longrightarrow>
      chain_good cfg w' \<and> known_on w' = known_on w \<and> recognized_on w' = recognized_on w"
    using inv loc by (auto simp: on_people_def put_people_def start_people_set_mutation_session_def res_simps chain_good_def known_on_def recognized_on_def)
  show "ppl_end_session (on_people pcfg cfg) w = Inr w' \<Longrightarrow>
      chain_good cfg w' \<and> known_on w' = known_on w \<and> recognized_on w' = recognized_on w"
    using inv loc by (auto simp: on_people_def put_people_def end_people_set_mutation_session_def res_simps chain_good_def known_on_def recognized_on_def)
  show "funds_do (on_people pcfg cfg) c w = Inr w' \<Longrightarrow>
      chain_good cfg w' \<and> known_on w' = known_on w \<and> recognized_on w' = recognized_on w"
    using inv loc unfolding funds_do_on_people funds_local_def chain_good_def known_on_def recognized_on_def by metis
qed

interpretation score_people: pallet_machine "score_step (on_people pcfg cfg)"
  "people_side_ok (chain_good cfg) ids_left recognized_on known_on" "settled_on (chain_good cfg) recognized_on known_on"
  for pcfg :: "('pacc, 'm, 'ms, 'x, 'po, 'proof, 'psig) pcfg"
    and cfg :: "('acc, 'x people_err, ('cw, 'pacc, 'm, 'ms) chain, 'o, 'm, 'sig) scfg"
  by unfold_locales (rule people_reg.score_step_settled)

text \<open>
  C16: The game's view of recognition agrees with the registry in every reachable state: a participant the score pallet
  holds for recognized is a person with an open recognition there, a suspended one is not, and no two participants have
  the same personal id. The chain may start with any consistent registry and change it between the calls, as long as
  nobody else recognizes or suspends the participants.
\<close>

theorem recognized_participants_are_people:
  assumes "funds_local cfg" and "people_inv (ch_people w)"
    and "run_ok (score_step (on_people pcfg cfg)) (people_side_ok (chain_good cfg) ids_left recognized_on known_on) ops (score_genesis w)"
    and "s = exec_all (score_step (on_people pcfg cfg)) ops (score_genesis w)"
    and "fmlookup (Participants s) who = Some p"
  shows "(\<forall>i. pa_recognition p = RecognizedId i \<longrightarrow>
      (\<exists>r. fmlookup (People (ch_people (s_world s))) i = Some r \<and> history_open (pr_history r))) \<and>
    (\<forall>i. pa_recognition p = SuspendedId i \<longrightarrow>
      \<not> (\<exists>r. fmlookup (People (ch_people (s_world s))) i = Some r \<and> history_open (pr_history r))) \<and>
    (\<forall>i who' p'. fmlookup (Participants s) who' = Some p' \<and> pa_recognition p \<in> {RecognizedId i, SuspendedId i} \<and>
      pa_recognition p' \<in> {RecognizedId i, SuspendedId i} \<longrightarrow> who = who')"
proof (intro conjI allI impI)
  have "settled_on (chain_good cfg) recognized_on known_on (score_genesis w)"
    unfolding settled_on_def ids_agree_def using assms(1,2) by (simp add: chain_good_def score_genesis_def held_id_def)
  then have "settled_on (chain_good cfg) recognized_on known_on s" unfolding assms(4) by (rule score_people.exec_all_inv) (rule assms(3))
  then have a: "ids_agree recognized_on known_on s" by (simp add: settled_on_def)
  have h: "held_id (Participants s) who = (case pa_recognition p of RecognizedId i \<Rightarrow> Some (i, True)
      | SuspendedId i \<Rightarrow> Some (i, False) | _ \<Rightarrow> None)" using assms(5) by (simp add: held_id_def)
  show "pa_recognition p = RecognizedId i \<Longrightarrow>
      \<exists>r. fmlookup (People (ch_people (s_world s))) i = Some r \<and> history_open (pr_history r)"
    "pa_recognition p = SuspendedId i \<Longrightarrow>
      \<not> (\<exists>r. fmlookup (People (ch_people (s_world s))) i = Some r \<and> history_open (pr_history r))" for i
    using a h unfolding ids_agree_def recognized_on_def open_ids_def by auto
  fix i who' p'
  assume "fmlookup (Participants s) who' = Some p' \<and> pa_recognition p \<in> {RecognizedId i, SuspendedId i} \<and>
      pa_recognition p' \<in> {RecognizedId i, SuspendedId i}"
  then have p': "fmlookup (Participants s) who' = Some p'" and r: "pa_recognition p \<in> {RecognizedId i, SuspendedId i}"
    "pa_recognition p' \<in> {RecognizedId i, SuspendedId i}" by simp_all
  have "\<exists>b. held_id (Participants s) who = Some (i, b)" using h r(1) by auto
  moreover have "\<exists>b. held_id (Participants s) who' = Some (i, b)" using p' r(2) by (auto simp: held_id_def)
  ultimately show "who = who'" using a unfolding ids_agree_def by blast
qed

subsection \<open>An example\<close>

type_synonym sp_world = "(sex_world, nat, nat, nat list) chain"

definition sp_cfg :: "(nat, unit people_err, sp_world, sex_origin, nat, nat) scfg" where
  "sp_cfg = \<lparr>
     s_manager_or_root = (\<lambda>org. org = SexRoot),
     s_root = (\<lambda>org. org = SexRoot),
     s_authorized = (\<lambda>org. org = SexAuthorized),
     s_signed = (\<lambda>org. case org of SexSigned a \<Rightarrow> Some a | _ \<Rightarrow> None),
     s_participant = (\<lambda>_. None),
     s_person = (\<lambda>_ _. None),
     s_hash = (\<lambda>b. b),
     s_suffix = ''paseo'',
     s_pot = 0,
     s_max_schedules = 4,
     s_offchain_interval = 1,
     s_hold = (\<lambda>r _ a w. Inr (w\<lparr>ch_funds := sex_set r (sex_held r (ch_funds w) + a) (ch_funds w)\<rparr>)),
     s_release = (\<lambda>r _ a p w.
       let n = min a (sex_held r (ch_funds w)) in Inr (w\<lparr>ch_funds := sex_set r (sex_held r (ch_funds w) - n) (ch_funds w)\<rparr>, n)),
     s_transfer = (\<lambda>_ _ a _ w. Inr (w, a)),
     s_inc_sufficients = (\<lambda>_ w. w),
     s_dec_sufficients = (\<lambda>_ w. w),
     ppl_reserve = (\<lambda>w. (0, w)),
     ppl_recognize = (\<lambda>_ _ w. Inr w),
     ppl_suspend = (\<lambda>_ w. Inr w),
     ppl_start_session = (\<lambda>w. Inr w),
     ppl_end_session = (\<lambda>w. Inr w),
     ppl_can_start_session = (\<lambda>_. True),
     active_people = (\<lambda>_. 0),
     encode_account = (\<lambda>_. []),
     s_verify_signature = (\<lambda>_ _ _. True),
     w_transition = zero_weight, w_authorize_transition = zero_weight,
     w_operate = (\<lambda>_. zero_weight), w_authorize_operate = (\<lambda>_. zero_weight), ocw_fits = (\<lambda>_. True)\<rparr>"

lemma sp_funds_local: "funds_local sp_cfg"
proof -
  have "ch_people w' = ch_people w" if "funds_do sp_cfg c w = Inr w'" for c w w'
    using that by (cases c) (auto simp: sp_cfg_def Let_def)
  then show ?thesis by (simp add: funds_local_def)
qed

text \<open>Two players register; the second is absent often enough to be suspended.\<close>

definition sp_ops :: "(nat, sex_origin, nat, nat, sp_world) score_op list" where
  "sp_ops = [
     OpOnboard 1, OpOnboard 2, OpStartSession, OpSetAttendance (Account 1) True 0, OpSetAttendance (Account 2) True 0,
     OpEndSession, OpRegister (SexSigned 1) (Some (11, 0)), OpRegister (SexSigned 2) (Some (12, 0)), OpStartSession] @
     map (OpSetAttendance (Account 2) False) [1..<7]"

definition sp_genesis :: sp_world where
  "sp_genesis = \<lparr>ch_now = 5, ch_funds = \<lparr>sx_payout = 0, sx_credit = 0, sx_next = 0\<rparr>, ch_people = people_genesis []\<rparr>"

definition sp_state :: "(nat, sp_world) sst" where
  "sp_state = exec_all (score_step (on_people pex_cfg sp_cfg)) sp_ops (score_genesis sp_genesis)"

text \<open>The run has no step of the rest of the chain, so only the room for ids has to be checked.\<close>

definition sp_side_ok :: "(nat, sex_origin, nat, nat, sp_world) score_op \<Rightarrow> (nat, sp_world) sst \<Rightarrow> bool" where
  "sp_side_ok c s = (case c of OpRegister _ _ \<Rightarrow> ids_left (s_world s) | OpWorld _ \<Rightarrow> False | _ \<Rightarrow> True)"

lemma sp_run:
  "run_ok (score_step (on_people pex_cfg sp_cfg)) (people_side_ok (chain_good sp_cfg) ids_left recognized_on known_on) sp_ops
     (score_genesis sp_genesis)"
proof (rule run_ok_mono)
  show "run_ok (score_step (on_people pex_cfg sp_cfg)) sp_side_ok sp_ops (score_genesis sp_genesis)" by code_simp
  show "people_side_ok (chain_good sp_cfg) ids_left recognized_on known_on c s" if "sp_side_ok c s" for c s
    using that by (cases c) (simp_all add: sp_side_ok_def)
qed

lemma recognized_participants_are_people_witness:
  "(\<exists>r. fmlookup (People (ch_people (s_world sp_state))) 0 = Some r \<and> history_open (pr_history r)) \<and>
   \<not> (\<exists>r. fmlookup (People (ch_people (s_world sp_state))) 1 = Some r \<and> history_open (pr_history r))"
proof -
  have v: "map_option pa_recognition (fmlookup (Participants sp_state) (Account 1)) = Some (RecognizedId 0)"
    "map_option pa_recognition (fmlookup (Participants sp_state) (Account 2)) = Some (SuspendedId 1)" by code_simp+
  obtain p q where p: "fmlookup (Participants sp_state) (Account 1) = Some p" "pa_recognition p = RecognizedId 0"
    and q: "fmlookup (Participants sp_state) (Account 2) = Some q" "pa_recognition q = SuspendedId 1" using v by auto
  have g: "people_inv (ch_people sp_genesis)" by (simp add: sp_genesis_def people_genesis_inv)
  show ?thesis
    using recognized_participants_are_people[OF sp_funds_local g sp_run sp_state_def p(1)]
      recognized_participants_are_people[OF sp_funds_local g sp_run sp_state_def q(1)] p(2) q(2) by simp
qed

end
