(* ===== verification/NetworkSuffix.thy ===== *)
theory NetworkSuffix
  imports ProductContext
begin

text \<open>
  The pallet \<^verbatim>\<open>pallets/network-suffix/src/lib.rs\<close>: the network suffix of product contexts, a stored value with a
  configured default. It is never empty.
\<close>

record network_suffix_state =
  NetworkSuffix :: "bytes option"
  network_suffix_events :: "(bytes \<times> bytes) list"

datatype network_suffix_error = EmptySuffix

definition network_suffix :: "bytes \<Rightarrow> network_suffix_state \<Rightarrow> bytes" where
  "network_suffix default_suffix s = (case NetworkSuffix s of Some x \<Rightarrow> x | None \<Rightarrow> default_suffix)"

text \<open>The genesis build panics for an empty suffix.\<close>

definition network_suffix_genesis_build :: "bytes \<Rightarrow> network_suffix_state option" where
  "network_suffix_genesis_build suffix =
     (if suffix = [] then None else Some \<lparr>NetworkSuffix = Some suffix, network_suffix_events = []\<rparr>)"

definition set_network_suffix ::
  "('o \<Rightarrow> bool) \<Rightarrow> bytes \<Rightarrow> 'o \<Rightarrow> bytes \<Rightarrow> network_suffix_state
     \<Rightarrow> (network_suffix_error, 'x) dispatch_error + network_suffix_state" where
  "set_network_suffix update_origin default_suffix origin suffix s =
     bindE (ensure (update_origin origin) BadOrigin) (\<lambda>_.
     bindE (ensure (suffix \<noteq> []) (Module EmptySuffix)) (\<lambda>_.
     let old = network_suffix default_suffix s
     in Inr (s\<lparr>NetworkSuffix := Some suffix, network_suffix_events := network_suffix_events s @ [(old, suffix)]\<rparr>)))"

interpretation suffix: pallet_machine "\<lambda>(origin, suffix). set_network_suffix update_origin default_suffix origin suffix"
  "\<lambda>_ _. True" "\<lambda>s. network_suffix default_suffix s \<noteq> []"
  for update_origin and default_suffix
  by unfold_locales (auto simp: set_network_suffix_def network_suffix_def res_simps Let_def)

lemma run_ok_trivial: "run_ok step (\<lambda>_ _. True) ops s"
  by (induction ops arbitrary: s) simp_all

lemma network_suffix_never_empty:
  assumes "default_suffix \<noteq> []"
    and "step = (\<lambda>(origin, suffix). set_network_suffix update_origin default_suffix origin suffix)"
  shows "network_suffix default_suffix (exec_all step ops \<lparr>NetworkSuffix = None, network_suffix_events = []\<rparr>) \<noteq> []"
  unfolding assms(2)
  by (rule suffix.exec_all_inv[OF _ run_ok_trivial]) (use assms(1) in \<open>simp add: network_suffix_def\<close>)

end
