(* ===== verification/ProofOfInk.thy ===== *)
theory ProofOfInk
  imports Shared TxPriority "HOL-Library.Char_ord"
begin

text \<open>
  The pallet \<^verbatim>\<open>pallets/proof-of-ink/src/lib.rs\<close>: a candidate commits to a tattoo design, submits evidence of it, which
  the statement oracle judges, and becomes a person.

  \<open>poi_state\<close> holds the storage items under their names and \<open>p_world\<close> the rest of the chain: the registry of
  people, the oracle, the storage allocator, deposits, the currency and the reference counters of accounts.
  \<open>poi_config\<close> holds the pallet's \<open>Config\<close>. The ticket of the oracle is a number, as in the runtime, where the oracle
  is mob rule. The origins of the pallet itself are constructors beside the origins of the runtime. An operation of
  the world whose error the code drops leaves the world as it was when it fails.
\<close>

unbundle bit_operations_syntax

subsection \<open>Data\<close>

definition PROOF_OF_OWNERSHIP_PREFIX :: bytes where
  "PROOF_OF_OWNERSHIP_PREFIX = ''pop register using''"

record config_record =
  reroll_timeout :: block_number
  fasttrack_count :: nat
  maximum :: nat
  full_alloc_len :: nat
  full_alloc_count :: nat
  init_alloc_len :: nat
  init_alloc_count :: nat
  candidate_timeout :: block_number

definition default_config_record :: config_record where
  "default_config_record =
     \<lparr>reroll_timeout = 7 * 24 * 60 * 30, fasttrack_count = 4, maximum = 1000, full_alloc_len = 64 * 1024 * 1024,
      full_alloc_count = 32, init_alloc_len = 2 * 1024 * 1024, init_alloc_count = 8,
      candidate_timeout = 7 * 24 * 60 * 30\<rparr>"

datatype family_kind =
  FamDesigned nat | FamProceduralAccount | FamProceduralPersonal | FamProcedural nat

record family =
  fam_kind :: family_kind
  fam_id :: bytes

datatype design_status = Reserved | Committed

datatype ink_choice =
  ChooseDesignedElective nat nat
| ChooseProceduralAccount nat
| ChooseProceduralPersonal nat
| ChooseProcedural nat nat
| ChooseProceduralDerivative personal_id "personal_id option"

datatype ('dep, 'tk) credibility = Referred personal_id | Deposit 'dep | Invited 'tk

datatype allocation = Initial | InitDone | Full

datatype reward_kind = Enabled | Disabled

type_synonym oracle_ticket = nat

record ('dep, 'tk) selected =
  sel_since :: block_number
  sel_cred :: "('dep, 'tk) credibility"
  sel_reserved :: personal_id
  sel_entropy :: bytes
  sel_design :: ink_spec
  sel_allocation :: allocation
  sel_judging :: "oracle_ticket option"
  sel_failed :: nat

record proven =
  prv_design :: ink_spec
  prv_reserved :: personal_id
  prv_referred :: bool
  prv_invited :: bool

datatype ('dep, 'tk) candidate =
  Applied "('dep, 'tk) credibility" bytes block_number
| Selected "('dep, 'tk) selected"
| Proven proven

record 'acc poi_person =
  pp_design :: "ink_spec option"
  pp_active_referrals :: "'acc list"
  pp_allowed_tickets :: nat
  pp_bad_referrals :: nat
  pp_successful_referrals :: nat
  pp_referrals :: nat
  pp_derivatives :: nat
  pp_banned :: bool
  pp_pending_rewards :: nat

datatype ('acc, 'tk) poi_event =
  CandidateApplied 'acc
| JudgementRequested 'acc
| JudgementProvided 'acc judgement
| RetryGranted 'acc nat
| PersonRegistered 'acc personal_id
| Rerolled 'acc
| DesignCommitted 'acc personal_id
| FullyAllocated 'acc
| TimedOut 'acc
| FlakedOut 'acc
| TicketReferred personal_id 'tk
| TicketCancelled personal_id 'tk
| TicketApplied 'acc personal_id
| FamilyAdded nat family_kind bytes
| AllInvitesRemoved 'acc
| SomeInvitesRemoved 'acc
| InvitedCandidateApplied 'acc 'acc
| ReferralVoucherRegistered personal_id
| InvitesGranted 'acc nat
| InviteTicketSet 'acc 'tk
| InviteTicketCancelled 'acc 'tk
| ConfigurationSet config_record

datatype poi_error =
  InProgress | BadContext | UnexpectedJudgement | NotApplied | NotSelected | NotProven | AlreadyStarted
| NoMoreReferrals | TooEarly | DesignInvalid | DesignTaken | BadParent | BadFamily | WrongFamily | IndexTooBig
| Busy | Banned | Improbable | NoTicket | ReferredCandidateErr | NotReferredCandidate | NoRewardToRegister
| RewardToRegister | NoInvites | AlreadyInvited | NoReferrer | NotPoiPerson | InvalidProofOfOwnership
| InvalidReimbursementValues

record ('acc, 'tk, 'dep) poi_core =
  Candidates :: "('acc, ('dep, 'tk) candidate) storage_map"
  PoiPeople :: "(personal_id, 'acc poi_person) storage_map"
  ReferralTickets :: "(personal_id, 'tk list) storage_map"
  DesignFamilies :: "(nat, family) storage_map"
  CommittedDesigns :: "(nat \<times> nat, design_status) storage_map"
  AllocationCount :: nat
  Configuration :: config_record
  AvailableInvites :: "('acc, nat) storage_map"
  PendingInvites :: "('acc \<times> 'tk, unit) storage_map"
  ReferrerReimbursementValues :: "(balance \<times> nat) list option"
  ReferredReimbursementValues :: "(balance \<times> nat) list option"
  poi_events :: "('acc, 'tk) poi_event list"

record ('acc, 'tk, 'dep, 'w) poi_state = "('acc, 'tk, 'dep) poi_core" +
  p_world :: 'w

definition poi_genesis :: "'w \<Rightarrow> ('acc, 'tk, 'dep, 'w) poi_state" where
  "poi_genesis w = \<lparr>Candidates = fmempty, PoiPeople = fmempty, ReferralTickets = fmempty, DesignFamilies = fmempty,
     CommittedDesigns = fmempty, AllocationCount = 0, Configuration = default_config_record, AvailableInvites = fmempty,
     PendingInvites = fmempty, ReferrerReimbursementValues = None, ReferredReimbursementValues = None, poi_events = [],
     p_world = w\<rparr>"

text \<open>The origins: those of the runtime and the pallet's own.\<close>

datatype ('acc, 'o) poi_origin =
  Outer 'o | AuthorizedApplyWithSig 'acc | ReferredCandidate 'acc | InvitedCandidate 'acc

record ('acc, 'tk, 'dep, 'x, 'w, 'o, 'm, 'sig, 'ts) poi_config =
  c_signed :: "'o \<Rightarrow> 'acc option"
  c_root :: "'o \<Rightarrow> bool"
  c_manager_or_root :: "'o \<Rightarrow> bool"
  c_invitations :: "'o \<Rightarrow> bool"
  c_person :: "'o \<Rightarrow> personal_id option"
  c_encode :: "'acc \<Rightarrow> bytes"
  c_decode :: "bytes \<Rightarrow> 'acc option"
  c_random :: "bytes \<Rightarrow> 'w \<Rightarrow> bytes"
  c_verify_ticket :: "'ts \<Rightarrow> bytes \<Rightarrow> 'tk \<Rightarrow> bool"
  c_verify_member :: "'sig \<Rightarrow> bytes \<Rightarrow> 'm \<Rightarrow> bool"
  c_pot :: 'acc
  c_max_active_referrals :: nat
  c_max_retry_attempts :: nat
  c_pallet_index :: nat
  c_deposit_new :: "'acc \<Rightarrow> 'w \<Rightarrow> 'x + 'w \<times> 'dep"
  c_deposit_drop :: "'dep \<Rightarrow> 'acc \<Rightarrow> 'w \<Rightarrow> 'x + 'w"
  c_deposit_burn :: "'dep \<Rightarrow> 'acc \<Rightarrow> 'w \<Rightarrow> 'w"
  c_inc_sufficients :: "'acc \<Rightarrow> 'w \<Rightarrow> 'w"
  c_dec_sufficients :: "'acc \<Rightarrow> 'w \<Rightarrow> 'w"
  c_inc_providers :: "'acc \<Rightarrow> 'w \<Rightarrow> 'w"
  c_dec_providers :: "'acc \<Rightarrow> 'w \<Rightarrow> 'w"
  c_allocate :: "'acc \<Rightarrow> nat \<Rightarrow> nat \<Rightarrow> 'w \<Rightarrow> 'x + 'w"
  c_refresh :: "'acc \<Rightarrow> 'w \<Rightarrow> 'x + 'w"
  c_judge :: "statement \<Rightarrow> bytes \<Rightarrow> callback \<Rightarrow> 'w \<Rightarrow> 'x + 'w \<times> oracle_ticket"
  c_transfer :: "'acc \<Rightarrow> 'acc \<Rightarrow> balance \<Rightarrow> preservation \<Rightarrow> 'w \<Rightarrow> 'x + 'w \<times> balance"
  c_reserve :: "'w \<Rightarrow> personal_id \<times> 'w"
  c_renew :: "personal_id \<Rightarrow> 'w \<Rightarrow> 'x + 'w"
  c_cancel :: "personal_id \<Rightarrow> 'w \<Rightarrow> 'x + 'w"
  c_recognize :: "personal_id \<Rightarrow> 'm option \<Rightarrow> 'w \<Rightarrow> 'x + 'w"
  weight_judged :: "nat \<Rightarrow> weight"
  weight_flakeout :: "nat \<Rightarrow> weight"

type_synonym ('acc, 'tk, 'dep, 'x, 'w, 'o, 'm, 'sig, 'ts) icfg = "('acc, 'tk, 'dep, 'x, 'w, 'o, 'm, 'sig, 'ts) poi_config"
type_synonym ('acc, 'tk, 'dep, 'w) ist = "('acc, 'tk, 'dep, 'w) poi_state"
type_synonym 'x poi_err = "(poi_error, 'x) dispatch_error"
type_synonym ('acc, 'tk, 'dep, 'x, 'w) poi_result = "'x poi_err + ('acc, 'tk, 'dep, 'w) poi_state \<times> post_info"

definition poi_integrity_test :: "('acc, 'tk, 'dep, 'x, 'w, 'o, 'm, 'sig, 'ts) icfg \<Rightarrow> bool" where
  "poi_integrity_test cfg \<longleftrightarrow> c_max_active_referrals cfg \<le> 200"

definition poi_deposit :: "('acc, 'tk) poi_event \<Rightarrow> ('acc, 'tk, 'dep, 'w) ist \<Rightarrow> ('acc, 'tk, 'dep, 'w) ist" where
  "poi_deposit e s = s\<lparr>poi_events := poi_events s @ [e]\<rparr>"

definition put_candidate ::
  "'acc \<Rightarrow> ('dep, 'tk) candidate \<Rightarrow> ('acc, 'tk, 'dep, 'w) ist \<Rightarrow> ('acc, 'tk, 'dep, 'w) ist" where
  "put_candidate a c s = s\<lparr>Candidates := fmupd a c (Candidates s)\<rparr>"

definition remove_candidate :: "'acc \<Rightarrow> ('acc, 'tk, 'dep, 'w) ist \<Rightarrow> ('acc, 'tk, 'dep, 'w) ist" where
  "remove_candidate a s = s\<lparr>Candidates := fmdrop a (Candidates s)\<rparr>"

text \<open>A fallible operation of the world.\<close>

definition on_world ::
  "('w \<Rightarrow> 'x + 'w) \<Rightarrow> ('acc, 'tk, 'dep, 'w) ist \<Rightarrow> 'x poi_err + ('acc, 'tk, 'dep, 'w) ist" where
  "on_world f s = bindE (map_err Foreign (f (p_world s))) (\<lambda>w. Inr (s\<lparr>p_world := w\<rparr>))"

definition dec_sufficients ::
  "('acc, 'tk, 'dep, 'x, 'w, 'o, 'm, 'sig, 'ts) icfg \<Rightarrow> 'acc \<Rightarrow> ('acc, 'tk, 'dep, 'w) ist \<Rightarrow> ('acc, 'tk, 'dep, 'w) ist" where
  "dec_sufficients cfg a s = s\<lparr>p_world := c_dec_sufficients cfg a (p_world s)\<rparr>"

definition inc_sufficients ::
  "('acc, 'tk, 'dep, 'x, 'w, 'o, 'm, 'sig, 'ts) icfg \<Rightarrow> 'acc \<Rightarrow> ('acc, 'tk, 'dep, 'w) ist \<Rightarrow> ('acc, 'tk, 'dep, 'w) ist" where
  "inc_sufficients cfg a s = s\<lparr>p_world := c_inc_sufficients cfg a (p_world s)\<rparr>"

subsection \<open>Origins\<close>

fun poi_signer :: "('acc, 'tk, 'dep, 'x, 'w, 'o, 'm, 'sig, 'ts) icfg \<Rightarrow> ('acc, 'o) poi_origin \<Rightarrow> 'acc option" where
  "poi_signer cfg (Outer org) = c_signed cfg org"
| "poi_signer cfg _ = None"

fun outer :: "('o \<Rightarrow> bool) \<Rightarrow> ('acc, 'o) poi_origin \<Rightarrow> bool" where
  "outer P (Outer org) = P org"
| "outer P _ = False"

fun poi_person_origin :: "('acc, 'tk, 'dep, 'x, 'w, 'o, 'm, 'sig, 'ts) icfg \<Rightarrow> ('acc, 'o) poi_origin \<Rightarrow> personal_id option" where
  "poi_person_origin cfg (Outer org) = c_person cfg org"
| "poi_person_origin cfg _ = None"

definition ensure_signed_or_referred ::
  "('acc, 'tk, 'dep, 'x, 'w, 'o, 'm, 'sig, 'ts) icfg \<Rightarrow> ('acc, 'o) poi_origin \<Rightarrow> 'x poi_err + 'acc" where
  "ensure_signed_or_referred cfg origin =
     (case poi_signer cfg origin of
        Some signer \<Rightarrow> Inr signer
      | None \<Rightarrow> (case origin of ReferredCandidate referred \<Rightarrow> Inr referred | _ \<Rightarrow> Inl BadOrigin))"

definition ensure_credible ::
  "('acc, 'tk, 'dep, 'x, 'w, 'o, 'm, 'sig, 'ts) icfg \<Rightarrow> ('acc, 'o) poi_origin \<Rightarrow> 'x poi_err + 'acc" where
  "ensure_credible cfg origin =
     (case poi_signer cfg origin of
        Some signer \<Rightarrow> Inr signer
      | None \<Rightarrow> (case origin of
                   ReferredCandidate referred \<Rightarrow> Inr referred
                 | InvitedCandidate invitee \<Rightarrow> Inr invitee
                 | _ \<Rightarrow> Inl BadOrigin))"

definition ensure_signed_or_invited ::
  "('acc, 'tk, 'dep, 'x, 'w, 'o, 'm, 'sig, 'ts) icfg \<Rightarrow> ('acc, 'o) poi_origin \<Rightarrow> 'x poi_err + 'acc" where
  "ensure_signed_or_invited cfg origin =
     (case poi_signer cfg origin of
        Some signer \<Rightarrow> Inr signer
      | None \<Rightarrow> (case origin of InvitedCandidate invitee \<Rightarrow> Inr invitee | _ \<Rightarrow> Inl BadOrigin))"

subsection \<open>Designs\<close>

text \<open>A procedural seed has four bytes; bit \<open>p\<close> of it is bit \<open>p mod 8\<close> of byte \<open>p div 8\<close>.\<close>

definition byte_of :: "bytes \<Rightarrow> nat \<Rightarrow> nat" where
  "byte_of bs i = of_char (bs ! i)"

definition toggle_bit :: "bytes \<Rightarrow> nat \<Rightarrow> bytes" where
  "toggle_bit seed p = seed[p div 8 := char_of (byte_of seed (p div 8) XOR 2 ^ (p mod 8))]"

definition mutate_step :: "bytes \<Rightarrow> nat \<Rightarrow> bytes \<times> nat list \<Rightarrow> bytes \<times> nat list" where
  "mutate_step entropy i st =
     (let (seed, index) = st;
          remaining = 32 - i;
          p0 = byte_of entropy i mod remaining;
          p = (if p0 \<in> set index then remaining else p0)
      in (toggle_bit seed p, index @ [p]))"

definition mutate_seed :: "bytes \<Rightarrow> bytes \<Rightarrow> bytes" where
  "mutate_seed seed entropy = fst (fold (mutate_step entropy) [0..<3] (seed, []))"

definition seed_index_step :: "nat \<Rightarrow> nat list \<times> nat \<Rightarrow> nat list \<times> nat" where
  "seed_index_step i st =
     (let (index, id) = st;
          remaining = 32 - i
      in (index @ [fold (\<lambda>o1 x. if x \<ge> o1 then x + 1 else x) index (id mod remaining)], id div remaining))"

definition seed_indices :: "nat \<Rightarrow> nat list" where
  "seed_indices variant =
     (if variant < 8 then [variant * 4..<variant * 4 + 4]
      else fst (fold seed_index_step [0..<4] ([], variant)))"

definition entropy_to_seed :: "bytes \<Rightarrow> nat \<Rightarrow> bytes" where
  "entropy_to_seed entropy variant = map (\<lambda>i. entropy ! i) (seed_indices variant)"

definition parent_design ::
  "('acc, 'tk, 'dep, 'w) ist \<Rightarrow> personal_id \<Rightarrow> poi_error + nat \<times> bytes" where
  "parent_design s parent =
     bindE (ok_or (fmlookup (PoiPeople s) parent) BadParent) (\<lambda>person.
     bindE (ok_or (pp_design person) BadParent) (\<lambda>design.
     case design of Procedural family_id seed \<Rightarrow> Inr (family_id, seed) | _ \<Rightarrow> Inl DesignInvalid))"

definition bake_design ::
  "('acc, 'tk, 'dep, 'x, 'w, 'o, 'm, 'sig, 'ts) icfg \<Rightarrow> ink_choice \<Rightarrow> bytes \<Rightarrow> 'acc \<Rightarrow> personal_id
     \<Rightarrow> ('acc, 'tk, 'dep, 'w) ist \<Rightarrow> poi_error + ink_spec" where
  "bake_design cfg choice entropy account pid s =
     (case choice of
        ChooseDesignedElective family_id design_index \<Rightarrow>
          bindE (ensure (\<not> contains_key (CommittedDesigns s) (family_id, design_index)) DesignTaken) (\<lambda>_.
          bindE (ok_or (fmlookup (DesignFamilies s) family_id) BadFamily) (\<lambda>fam.
          case fam_kind fam of
            FamDesigned count \<Rightarrow>
              bindE (ensure (design_index < count) IndexTooBig) (\<lambda>_. Inr (DesignedElective family_id design_index))
          | _ \<Rightarrow> Inl WrongFamily))
      | ChooseProceduralAccount family_id \<Rightarrow>
          bindE (ok_or (fmlookup (DesignFamilies s) family_id) BadFamily) (\<lambda>fam.
          if fam_kind fam = FamProceduralAccount
          then Inr (ProceduralAccount family_id (take 32 (c_encode cfg account @ replicate 32 (char_of (0::nat)))))
          else Inl WrongFamily)
      | ChooseProceduralPersonal family_id \<Rightarrow>
          bindE (ok_or (fmlookup (DesignFamilies s) family_id) BadFamily) (\<lambda>fam.
          if fam_kind fam = FamProceduralPersonal then Inr (ProceduralPersonal family_id pid) else Inl WrongFamily)
      | ChooseProcedural family_id variant \<Rightarrow>
          bindE (ok_or (fmlookup (DesignFamilies s) family_id) BadFamily) (\<lambda>fam.
          case fam_kind fam of
            FamProcedural variants \<Rightarrow>
              bindE (ensure (variant < variants) IndexTooBig) (\<lambda>_.
              Inr (Procedural family_id (entropy_to_seed entropy variant)))
          | _ \<Rightarrow> Inl WrongFamily)
      | ChooseProceduralDerivative parent maybe_secondary \<Rightarrow>
          bindE (parent_design s parent) (\<lambda>(family_id, seed).
          bindE (case maybe_secondary of
                   None \<Rightarrow> Inr seed
                 | Some parent2 \<Rightarrow>
                     bindE (parent_design s parent2) (\<lambda>(_, seed2). Inr (seed[2 := seed2 ! 2, 3 := seed2 ! 3]))) (\<lambda>seed'.
          Inr (Procedural family_id (mutate_seed seed' entropy)))))"

definition release_design :: "ink_spec \<Rightarrow> ('acc, 'tk, 'dep, 'w) ist \<Rightarrow> ('acc, 'tk, 'dep, 'w) ist" where
  "release_design design s =
     (case design of
        DesignedElective family_id design_index \<Rightarrow>
          s\<lparr>CommittedDesigns := fmdrop (family_id, design_index) (CommittedDesigns s)\<rparr>
      | _ \<Rightarrow> s)"

definition mark_design :: "design_status \<Rightarrow> ink_spec \<Rightarrow> ('acc, 'tk, 'dep, 'w) ist \<Rightarrow> ('acc, 'tk, 'dep, 'w) ist" where
  "mark_design status design s =
     (case design of
        DesignedElective family_id design_index \<Rightarrow>
          s\<lparr>CommittedDesigns := fmupd (family_id, design_index) status (CommittedDesigns s)\<rparr>
      | _ \<Rightarrow> s)"

subsection \<open>Referrals\<close>

definition mutate_extant ::
  "personal_id \<Rightarrow> ('acc poi_person \<Rightarrow> 'acc poi_person) \<Rightarrow> ('acc, 'tk, 'dep, 'w) ist \<Rightarrow> ('acc, 'tk, 'dep, 'w) ist" where
  "mutate_extant referrer f s =
     (case fmlookup (PoiPeople s) referrer of
        None \<Rightarrow> s
      | Some person \<Rightarrow> s\<lparr>PoiPeople := fmupd referrer (f person) (PoiPeople s)\<rparr>)"

definition drop_referral :: "'acc \<Rightarrow> 'acc poi_person \<Rightarrow> 'acc poi_person" where
  "drop_referral target person =
     person\<lparr>pp_active_referrals := filter (\<lambda>x. x \<noteq> target) (pp_active_referrals person)\<rparr>"

definition referral_ok ::
  "('acc, 'tk, 'dep, 'x, 'w, 'o, 'm, 'sig, 'ts) icfg \<Rightarrow> personal_id \<Rightarrow> 'acc
     \<Rightarrow> ('acc, 'tk, 'dep, 'w) ist \<Rightarrow> ('acc, 'tk, 'dep, 'w) ist" where
  "referral_ok cfg referrer target s =
     mutate_extant referrer (\<lambda>person0.
       let person = drop_referral target person0 in
       person\<lparr>pp_successful_referrals := sat_inc 32 (pp_successful_referrals person),
              pp_pending_rewards := sat_inc 32 (pp_pending_rewards person),
              pp_allowed_tickets :=
                (if pp_allowed_tickets person < c_max_active_referrals cfg
                 then sat_inc 32 (pp_allowed_tickets person) else pp_allowed_tickets person)\<rparr>) s"

definition referral_flaked ::
  "('acc, 'tk, 'dep, 'x, 'w, 'o, 'm, 'sig, 'ts) icfg \<Rightarrow> personal_id \<Rightarrow> 'acc
     \<Rightarrow> ('acc, 'tk, 'dep, 'w) ist \<Rightarrow> ('acc, 'tk, 'dep, 'w) ist" where
  "referral_flaked cfg referrer target s =
     dec_sufficients cfg target (mutate_extant referrer (drop_referral target) s)"

definition referral_bad ::
  "('acc, 'tk, 'dep, 'x, 'w, 'o, 'm, 'sig, 'ts) icfg \<Rightarrow> personal_id \<Rightarrow> 'acc
     \<Rightarrow> ('acc, 'tk, 'dep, 'w) ist \<Rightarrow> ('acc, 'tk, 'dep, 'w) ist" where
  "referral_bad cfg referrer target s =
     dec_sufficients cfg target
       (mutate_extant referrer (\<lambda>person.
          (drop_referral target person)\<lparr>pp_bad_referrals := sat_inc 32 (pp_bad_referrals person)\<rparr>) s)"

definition referral_contemptuous ::
  "('acc, 'tk, 'dep, 'x, 'w, 'o, 'm, 'sig, 'ts) icfg \<Rightarrow> personal_id \<Rightarrow> 'acc
     \<Rightarrow> ('acc, 'tk, 'dep, 'w) ist \<Rightarrow> ('acc, 'tk, 'dep, 'w) ist" where
  "referral_contemptuous cfg referrer target s =
     dec_sufficients cfg target
       (mutate_extant referrer (\<lambda>person.
          (drop_referral target person)\<lparr>pp_bad_referrals := sat_inc 32 (pp_bad_referrals person), pp_banned := True\<rparr>) s)"

text \<open>
  What a candidate loses when the candidacy fails: the referrer is told with \<open>referral\<close>, the deposit is burned, the
  account of an invited candidate is released.
\<close>

definition lose_credibility ::
  "('acc, 'tk, 'dep, 'x, 'w, 'o, 'm, 'sig, 'ts) icfg
     \<Rightarrow> (personal_id \<Rightarrow> 'acc \<Rightarrow> ('acc, 'tk, 'dep, 'w) ist \<Rightarrow> ('acc, 'tk, 'dep, 'w) ist)
     \<Rightarrow> ('dep, 'tk) credibility \<Rightarrow> 'acc \<Rightarrow> ('acc, 'tk, 'dep, 'w) ist \<Rightarrow> ('acc, 'tk, 'dep, 'w) ist" where
  "lose_credibility cfg referral cred account s =
     (case cred of
        Referred who \<Rightarrow> referral who account s
      | Deposit ticket \<Rightarrow> s\<lparr>p_world := c_deposit_burn cfg ticket account (p_world s)\<rparr>
      | Invited _ \<Rightarrow> dec_sufficients cfg account s)"

text \<open>A deposit is given back; an error of that is dropped.\<close>

definition return_deposit ::
  "('acc, 'tk, 'dep, 'x, 'w, 'o, 'm, 'sig, 'ts) icfg \<Rightarrow> 'dep \<Rightarrow> 'acc \<Rightarrow> ('acc, 'tk, 'dep, 'w) ist \<Rightarrow> ('acc, 'tk, 'dep, 'w) ist" where
  "return_deposit cfg ticket account s =
     (case c_deposit_drop cfg ticket account (p_world s) of Inr w \<Rightarrow> s\<lparr>p_world := w\<rparr> | Inl _ \<Rightarrow> s)"

definition initial_referral_count :: "('dep, 'tk) credibility \<Rightarrow> ('acc, 'tk, 'dep, 'w) ist \<Rightarrow> nat" where
  "initial_referral_count cred s =
     (case cred of
        Referred who \<Rightarrow> (case fmlookup (PoiPeople s) who of Some record \<Rightarrow> length (pp_active_referrals record) | None \<Rightarrow> 0)
      | _ \<Rightarrow> 0)"

subsection \<open>Applying\<close>

definition apply_entropy ::
  "('acc, 'tk, 'dep, 'x, 'w, 'o, 'm, 'sig, 'ts) icfg \<Rightarrow> 'acc \<Rightarrow> ('acc, 'tk, 'dep, 'w) ist \<Rightarrow> bytes" where
  "apply_entropy cfg account s = c_random cfg (''poi/apply'' @ c_encode cfg account) (p_world s)"

definition poi_apply ::
  "('acc, 'tk, 'dep, 'x, 'w, 'o, 'm, 'sig, 'ts) icfg \<Rightarrow> block_number \<Rightarrow> ('acc, 'o) poi_origin
     \<Rightarrow> ('acc, 'tk, 'dep, 'w) ist \<Rightarrow> ('acc, 'tk, 'dep, 'x, 'w) poi_result" where
  "poi_apply cfg now origin s =
     bindE (ok_or (poi_signer cfg origin) BadOrigin) (\<lambda>account.
     bindE (ensure (\<not> contains_key (Candidates s) account) (Module InProgress)) (\<lambda>_.
     bindE (map_err Foreign (c_deposit_new cfg account (p_world s))) (\<lambda>(w, deposit).
     let s1 = s\<lparr>p_world := w\<rparr>;
         status = Applied (Deposit deposit) (apply_entropy cfg account s1) now
     in Inr (poi_deposit (CandidateApplied account) (put_candidate account status s1), pays_info Pays_Yes))))"

definition apply_with_signature ::
  "('acc, 'tk, 'dep, 'x, 'w, 'o, 'm, 'sig, 'ts) icfg \<Rightarrow> block_number \<Rightarrow> ('acc, 'o) poi_origin \<Rightarrow> personal_id \<Rightarrow> 'ts \<Rightarrow> 'tk
     \<Rightarrow> ('acc, 'tk, 'dep, 'w) ist \<Rightarrow> ('acc, 'tk, 'dep, 'x, 'w) poi_result" where
  "apply_with_signature cfg now origin referrer signature ticket s =
     (case origin of
        AuthorizedApplyWithSig account \<Rightarrow>
          bindE (ok_or (fmlookup (ReferralTickets s) referrer) (Module NoTicket)) (\<lambda>tickets.
          bindE (ensure (ticket \<in> set tickets \<and> c_verify_ticket cfg signature (c_encode cfg account) ticket)
                   (Module NoTicket)) (\<lambda>_.
          let tickets' = remove1 ticket tickets;
              s1 = s\<lparr>ReferralTickets := (if tickets' = [] then fmdrop referrer (ReferralTickets s)
                                         else fmupd referrer tickets' (ReferralTickets s))\<rparr>;
              status = Applied (Referred referrer) (apply_entropy cfg account s1) now in
          bindE (ok_or (fmlookup (PoiPeople s1) referrer) (Module NoReferrer)) (\<lambda>record.
          bindE (ensure (length (pp_active_referrals record) < c_max_active_referrals cfg) (Module NoMoreReferrals)) (\<lambda>_.
          let record' = record\<lparr>pp_active_referrals := pp_active_referrals record @ [account],
                              pp_referrals := sat_inc 32 (pp_referrals record)\<rparr>;
              s2 = put_candidate account status s1;
              s3 = s2\<lparr>PoiPeople := fmupd referrer record' (PoiPeople s2)\<rparr>
          in Inr (poi_deposit (TicketApplied account referrer) (inc_sufficients cfg account s3), pays_info Pays_No)))))
      | _ \<Rightarrow> Inl BadOrigin)"

definition apply_with_invitation ::
  "('acc, 'tk, 'dep, 'x, 'w, 'o, 'm, 'sig, 'ts) icfg \<Rightarrow> block_number \<Rightarrow> ('acc, 'o) poi_origin \<Rightarrow> 'acc \<Rightarrow> 'tk
     \<Rightarrow> ('acc, 'tk, 'dep, 'w) ist \<Rightarrow> ('acc, 'tk, 'dep, 'x, 'w) poi_result" where
  "apply_with_invitation cfg now origin inviter ticket s =
     (case origin of
        InvitedCandidate account \<Rightarrow>
          bindE (ensure (contains_key (PendingInvites s) (inviter, ticket)) (Module NoTicket)) (\<lambda>_.
          let s1 = s\<lparr>PendingInvites := fmdrop (inviter, ticket) (PendingInvites s)\<rparr>;
              status = Applied (Invited ticket) (apply_entropy cfg account s1) now
          in Inr (poi_deposit (InvitedCandidateApplied account inviter)
                    (inc_sufficients cfg account (put_candidate account status s1)), pays_info Pays_No))
      | _ \<Rightarrow> Inl BadOrigin)"

definition reroll ::
  "('acc, 'tk, 'dep, 'x, 'w, 'o, 'm, 'sig, 'ts) icfg \<Rightarrow> block_number \<Rightarrow> ('acc, 'o) poi_origin
     \<Rightarrow> ('acc, 'tk, 'dep, 'w) ist \<Rightarrow> ('acc, 'tk, 'dep, 'x, 'w) poi_result" where
  "reroll cfg now origin s =
     bindE (ensure_credible cfg origin) (\<lambda>account.
     bindE (ok_or (fmlookup (Candidates s) account) (Module NotApplied)) (\<lambda>status.
     case status of
       Applied cred _ entropy_since \<Rightarrow>
         (let expiry = sat_add 32 entropy_since (reroll_timeout (Configuration s)) in
          bindE (ensure (expiry \<le> now) (Module TooEarly)) (\<lambda>_.
          Inr (poi_deposit (Rerolled account)
                 (put_candidate account (Applied cred (apply_entropy cfg account s) expiry) s), pays_info Pays_No)))
     | _ \<Rightarrow> Inl (Module NotApplied)))"

definition flakeout ::
  "('acc, 'tk, 'dep, 'x, 'w, 'o, 'm, 'sig, 'ts) icfg \<Rightarrow> ('acc, 'o) poi_origin
     \<Rightarrow> ('acc, 'tk, 'dep, 'w) ist \<Rightarrow> ('acc, 'tk, 'dep, 'x, 'w) poi_result" where
  "flakeout cfg origin s =
     bindE (ensure_credible cfg origin) (\<lambda>account.
     bindE (ok_or (fmlookup (Candidates s) account) (Module NotApplied)) (\<lambda>status.
     case status of
       Applied cred _ _ \<Rightarrow>
         (let count = initial_referral_count cred s;
              s1 = (case cred of
                      Referred who \<Rightarrow> referral_flaked cfg who account s
                    | Deposit deposit \<Rightarrow> return_deposit cfg deposit account s
                    | Invited _ \<Rightarrow> dec_sufficients cfg account s)
          in Inr (poi_deposit (FlakedOut account) (remove_candidate account s1),
                  \<lparr>actual_weight = Some (weight_flakeout cfg (count - 1)), pays_fee = Pays_Yes\<rparr>))
     | _ \<Rightarrow> Inl (Module BadContext)))"

subsection \<open>Committing to a design\<close>

definition commit ::
  "('acc, 'tk, 'dep, 'x, 'w, 'o, 'm, 'sig, 'ts) icfg \<Rightarrow> block_number \<Rightarrow> ('acc, 'o) poi_origin \<Rightarrow> ink_choice
     \<Rightarrow> personal_id option \<Rightarrow> ('acc, 'tk, 'dep, 'w) ist \<Rightarrow> ('acc, 'tk, 'dep, 'x, 'w) poi_result" where
  "commit cfg now origin choice require_id s =
     bindE (ensure_credible cfg origin) (\<lambda>account.
     bindE (ok_or (fmlookup (Candidates s) account) (Module NotApplied)) (\<lambda>status.
     case status of
       Applied cred entropy _ \<Rightarrow>
         (let config = Configuration s;
              alloc_count = AllocationCount s in
          bindE (ensure (alloc_count < maximum config) (Module Busy)) (\<lambda>_.
          bindE (case require_id of
                   Some pid \<Rightarrow> bindE (on_world (c_renew cfg pid) s) (\<lambda>s1. Inr (pid, s1))
                 | None \<Rightarrow> (let (pid, w) = c_reserve cfg (p_world s) in Inr (pid, s\<lparr>p_world := w\<rparr>))) (\<lambda>(pid, s1).
          bindE (map_err Module (bake_design cfg choice entropy account pid s1)) (\<lambda>design.
          let s2 = mark_design Reserved design s1;
              (alloc, len, count) =
                (if alloc_count < fasttrack_count config
                 then (Full, full_alloc_len config, full_alloc_count config)
                 else (Initial, init_alloc_len config, init_alloc_count config)) in
          bindE (on_world (c_allocate cfg account len count) s2) (\<lambda>s3.
          let s4 = s3\<lparr>AllocationCount := sat_inc 32 alloc_count\<rparr>;
              status' = Selected \<lparr>sel_since = now, sel_cred = cred, sel_reserved = pid, sel_entropy = entropy,
                                  sel_design = design, sel_allocation = alloc, sel_judging = None, sel_failed = 0\<rparr>
          in Inr (poi_deposit (DesignCommitted account pid) (put_candidate account status' s4), pays_info Pays_No))))))
     | _ \<Rightarrow> Inl (Module NotApplied)))"

definition allocate_full ::
  "('acc, 'tk, 'dep, 'x, 'w, 'o, 'm, 'sig, 'ts) icfg \<Rightarrow> ('acc, 'o) poi_origin
     \<Rightarrow> ('acc, 'tk, 'dep, 'w) ist \<Rightarrow> ('acc, 'tk, 'dep, 'x, 'w) poi_result" where
  "allocate_full cfg origin s =
     bindE (ensure_credible cfg origin) (\<lambda>account.
     bindE (ok_or (fmlookup (Candidates s) account) (Module NotApplied)) (\<lambda>status.
     case status of
       Selected sel \<Rightarrow>
         bindE (ensure (sel_allocation sel = InitDone) (Module Improbable)) (\<lambda>_.
         let config = Configuration s;
             len = full_alloc_len config - init_alloc_len config;
             count = full_alloc_count config - init_alloc_count config in
         bindE (on_world (c_allocate cfg account len count) s) (\<lambda>s1.
         Inr (poi_deposit (FullyAllocated account)
                (put_candidate account (Selected (sel\<lparr>sel_allocation := Full\<rparr>)) s1), pays_info Pays_No)))
     | _ \<Rightarrow> Inl (Module BadContext)))"

text \<open>The sum in \<open>timeout\<close> is not checked and wraps in the \<open>u32\<close> of the block number.\<close>

definition timeout ::
  "('acc, 'tk, 'dep, 'x, 'w, 'o, 'm, 'sig, 'ts) icfg \<Rightarrow> block_number \<Rightarrow> ('acc, 'o) poi_origin \<Rightarrow> 'acc
     \<Rightarrow> ('acc, 'tk, 'dep, 'w) ist \<Rightarrow> ('acc, 'tk, 'dep, 'x, 'w) poi_result" where
  "timeout cfg now origin account s =
     bindE (ok_or (poi_signer cfg origin) BadOrigin) (\<lambda>_.
     bindE (ok_or (fmlookup (Candidates s) account) (Module NotApplied)) (\<lambda>status.
     case status of
       Selected sel \<Rightarrow>
         bindE (ensure (now > (sel_since sel + candidate_timeout (Configuration s)) mod 2 ^ 32) (Module TooEarly)) (\<lambda>_.
         let s1 = lose_credibility cfg (referral_bad cfg) (sel_cred sel) account s;
             s2 = s1\<lparr>AllocationCount := AllocationCount s1 - 1\<rparr> in
         bindE (on_world (c_cancel cfg (sel_reserved sel)) s2) (\<lambda>s3.
         Inr (poi_deposit (TimedOut account) (release_design (sel_design sel) (remove_candidate account s3)),
              pays_info Pays_No)))
     | _ \<Rightarrow> Inl (Module BadContext)))"

subsection \<open>Evidence and judgement\<close>

definition CONTEXT_SIZE :: nat where
  "CONTEXT_SIZE = 64"

definition judged_callback :: "('acc, 'tk, 'dep, 'x, 'w, 'o, 'm, 'sig, 'ts) icfg \<Rightarrow> callback" where
  "judged_callback cfg = \<lparr>cb_pallet_index = c_pallet_index cfg, cb_call_index = 2\<rparr>"

definition submit_evidence ::
  "('acc, 'tk, 'dep, 'x, 'w, 'o, 'm, 'sig, 'ts) icfg \<Rightarrow> ('acc, 'o) poi_origin \<Rightarrow> bytes
     \<Rightarrow> ('acc, 'tk, 'dep, 'w) ist \<Rightarrow> ('acc, 'tk, 'dep, 'x, 'w) poi_result" where
  "submit_evidence cfg origin evidence s =
     bindE (ensure_credible cfg origin) (\<lambda>account.
     bindE (ok_or (fmlookup (Candidates s) account) (Module NotApplied)) (\<lambda>status.
     case status of
       Selected sel \<Rightarrow>
         bindE (ensure (sel_judging sel = None) (Module AlreadyStarted)) (\<lambda>_.
         let context = take CONTEXT_SIZE (c_encode cfg account);
             stmt = ProofOfInk (sel_design sel) evidence (sel_allocation sel = Initial) in
         bindE (map_err Foreign (c_judge cfg stmt context (judged_callback cfg) (p_world s))) (\<lambda>(w, ticket).
         Inr (poi_deposit (JudgementRequested account)
                (put_candidate account (Selected (sel\<lparr>sel_judging := Some ticket\<rparr>)) (s\<lparr>p_world := w\<rparr>)),
              pays_info (if sel_failed sel = 0 then Pays_No else Pays_Yes))))
     | _ \<Rightarrow> Inl (Module NotSelected)))"

text \<open>The candidacy fails: what \<open>judged\<close> does on contempt, and when no retry is left.\<close>

definition fail_candidate ::
  "('acc, 'tk, 'dep, 'x, 'w, 'o, 'm, 'sig, 'ts) icfg
     \<Rightarrow> (personal_id \<Rightarrow> 'acc \<Rightarrow> ('acc, 'tk, 'dep, 'w) ist \<Rightarrow> ('acc, 'tk, 'dep, 'w) ist)
     \<Rightarrow> 'acc \<Rightarrow> ('dep, 'tk) selected \<Rightarrow> judgement
     \<Rightarrow> ('acc, 'tk, 'dep, 'w) ist \<Rightarrow> 'x poi_err + ('acc, 'tk, 'dep, 'w) ist" where
  "fail_candidate cfg referral account sel judgement s =
     bindE (on_world (c_cancel cfg (sel_reserved sel)) (lose_credibility cfg referral (sel_cred sel) account s)) (\<lambda>s1.
     let s2 = s1\<lparr>AllocationCount := AllocationCount s1 - 1\<rparr>
     in Inr (poi_deposit (JudgementProvided account judgement)
               (release_design (sel_design sel) (remove_candidate account s2))))"

definition judged ::
  "('acc, 'tk, 'dep, 'x, 'w, 'o, 'm, 'sig, 'ts) icfg \<Rightarrow> ('acc, 'o) poi_origin \<Rightarrow> oracle_ticket \<Rightarrow> bytes \<Rightarrow> judgement
     \<Rightarrow> ('acc, 'tk, 'dep, 'w) ist \<Rightarrow> ('acc, 'tk, 'dep, 'x, 'w) poi_result" where
  "judged cfg origin ticket context judgement s =
     bindE (ensure (outer (c_root cfg) origin) BadOrigin) (\<lambda>_.
     bindE (ok_or (c_decode cfg context) (Module BadContext)) (\<lambda>account.
     bindE (ok_or (fmlookup (Candidates s) account) (Module BadContext)) (\<lambda>status.
     case status of
       Selected sel0 \<Rightarrow>
         bindE (ok_or (sel_judging sel0) (Module BadContext)) (\<lambda>i.
         bindE (ensure (i = ticket) (Module UnexpectedJudgement)) (\<lambda>_.
         let sel = sel0\<lparr>sel_judging := None\<rparr>;
             info = \<lparr>actual_weight = Some (weight_judged cfg (initial_referral_count (sel_cred sel) s - 1)),
                     pays_fee = Pays_No\<rparr>;
             finish = (\<lambda>status' s'. Inr (poi_deposit (JudgementProvided account judgement)
                                          (put_candidate account status' s'), info)) in
         if judgement = Contempt
         then bindE (fail_candidate cfg (referral_contemptuous cfg) account sel judgement s) (\<lambda>s1. Inr (s1, info))
         else if judgement = Truth Truth_False \<or> sel_allocation sel = InitDone
         then (let failed = sat_inc 32 (sel_failed sel) in
               if failed > c_max_retry_attempts cfg
               then bindE (fail_candidate cfg (referral_bad cfg) account sel judgement s) (\<lambda>s1. Inr (s1, info))
               else bindE (on_world (c_refresh cfg account) (poi_deposit (RetryGranted account failed) s)) (\<lambda>s1.
                    finish (Selected (sel\<lparr>sel_failed := failed\<rparr>)) s1))
         else (case sel_allocation sel of
                 Full \<Rightarrow>
                   (let s1 = s\<lparr>AllocationCount := AllocationCount s - 1\<rparr>;
                        s2 = (case sel_cred sel of
                                Referred who \<Rightarrow> referral_ok cfg who account s1
                              | Deposit deposit \<Rightarrow> return_deposit cfg deposit account s1
                              | Invited _ \<Rightarrow> s1);
                        s3 = mark_design Committed (sel_design sel) s2
                    in finish (Proven \<lparr>prv_design = sel_design sel, prv_reserved = sel_reserved sel,
                                       prv_referred = (case sel_cred sel of Referred _ \<Rightarrow> True | _ \<Rightarrow> False),
                                       prv_invited = (case sel_cred sel of Invited _ \<Rightarrow> True | _ \<Rightarrow> False)\<rparr>) s3)
               | _ \<Rightarrow> finish (Selected (sel\<lparr>sel_allocation := InitDone\<rparr>)) s)))
     | _ \<Rightarrow> Inl (Module BadContext))))"

subsection \<open>Rewards and registration\<close>

text \<open>The last value of the list is used first; its count says how often.\<close>

definition pay_reward ::
  "('acc, 'tk, 'dep, 'x, 'w, 'o, 'm, 'sig, 'ts) icfg \<Rightarrow> 'acc \<Rightarrow> (balance \<times> nat) list option \<Rightarrow> 'w
     \<Rightarrow> 'x + ((balance \<times> nat) list option \<times> 'w)" where
  "pay_reward cfg destination stored w =
     (let reward_values = (case stored of Some vs \<Rightarrow> vs | None \<Rightarrow> []) in
      if reward_values = [] \<or> snd (last reward_values) = 0 then Inr (stored, w)
      else (let (current_value, count) = last reward_values in
            bindE (c_transfer cfg (c_pot cfg) destination current_value Expendable w) (\<lambda>(w', _).
            Inr (Some (if count - 1 > 0 then butlast reward_values @ [(current_value, count - 1)]
                       else butlast reward_values), w'))))"

definition register_referred_reward ::
  "('acc, 'tk, 'dep, 'x, 'w, 'o, 'm, 'sig, 'ts) icfg \<Rightarrow> 'acc \<Rightarrow> ('acc, 'tk, 'dep, 'w) ist
     \<Rightarrow> 'x poi_err + ('acc, 'tk, 'dep, 'w) ist" where
  "register_referred_reward cfg destination s =
     bindE (map_err Foreign (pay_reward cfg destination (ReferredReimbursementValues s) (p_world s))) (\<lambda>(vs, w).
     Inr (s\<lparr>ReferredReimbursementValues := vs, p_world := w\<rparr>))"

definition register_referrer_reward ::
  "('acc, 'tk, 'dep, 'x, 'w, 'o, 'm, 'sig, 'ts) icfg \<Rightarrow> 'acc \<Rightarrow> ('acc, 'tk, 'dep, 'w) ist
     \<Rightarrow> 'x poi_err + ('acc, 'tk, 'dep, 'w) ist" where
  "register_referrer_reward cfg destination s =
     bindE (map_err Foreign (pay_reward cfg destination (ReferrerReimbursementValues s) (p_world s))) (\<lambda>(vs, w).
     Inr (s\<lparr>ReferrerReimbursementValues := vs, p_world := w\<rparr>))"

definition new_poi_person :: "ink_spec \<Rightarrow> 'acc poi_person" where
  "new_poi_person design =
     \<lparr>pp_design = Some design, pp_active_referrals = [], pp_allowed_tickets = 1, pp_bad_referrals = 0,
      pp_successful_referrals = 0, pp_referrals = 0, pp_derivatives = 0, pp_banned = False, pp_pending_rewards = 0\<rparr>"

definition register_proven_candidate ::
  "('acc, 'tk, 'dep, 'x, 'w, 'o, 'm, 'sig, 'ts) icfg \<Rightarrow> 'acc \<Rightarrow> personal_id \<Rightarrow> 'm \<Rightarrow> ink_spec \<Rightarrow> 'acc \<Rightarrow> reward_kind
     \<Rightarrow> 'sig \<Rightarrow> ('acc, 'tk, 'dep, 'w) ist \<Rightarrow> 'x poi_err + ('acc, 'tk, 'dep, 'w) ist" where
  "register_proven_candidate cfg account pid key design destination kind proof_of_ownership s =
     bindE (ensure (c_verify_member cfg proof_of_ownership (PROOF_OF_OWNERSHIP_PREFIX @ c_encode cfg account) key)
              (Module InvalidProofOfOwnership)) (\<lambda>_.
     let s1 = remove_candidate account s;
         s2 = s1\<lparr>PoiPeople := fmupd pid (new_poi_person design) (PoiPeople s1)\<rparr> in
     bindE (on_world (c_recognize cfg pid (Some key)) s2) (\<lambda>s3.
     bindE (if kind = Enabled then register_referrer_reward cfg destination s3 else Inr s3) (\<lambda>s4.
     bindE (register_referred_reward cfg destination s4) (\<lambda>s5.
     Inr (poi_deposit (PersonRegistered account pid) s5)))))"

definition register_referred ::
  "('acc, 'tk, 'dep, 'x, 'w, 'o, 'm, 'sig, 'ts) icfg \<Rightarrow> ('acc, 'o) poi_origin \<Rightarrow> 'm \<Rightarrow> 'acc \<Rightarrow> 'sig
     \<Rightarrow> ('acc, 'tk, 'dep, 'w) ist \<Rightarrow> ('acc, 'tk, 'dep, 'x, 'w) poi_result" where
  "register_referred cfg origin key destination proof_of_ownership s =
     bindE (ensure_signed_or_referred cfg origin) (\<lambda>account.
     bindE (ok_or (fmlookup (Candidates s) account) (Module NotApplied)) (\<lambda>status.
     case status of
       Proven prv \<Rightarrow>
         bindE (ensure (prv_referred prv) (Module NotReferredCandidate)) (\<lambda>_.
         bindE (register_proven_candidate cfg account (prv_reserved prv) key (prv_design prv) destination Disabled
                  proof_of_ownership s) (\<lambda>s1.
         Inr (dec_sufficients cfg account s1, pays_info Pays_No)))
     | _ \<Rightarrow> Inl (Module NotProven)))"

definition register_non_referred ::
  "('acc, 'tk, 'dep, 'x, 'w, 'o, 'm, 'sig, 'ts) icfg \<Rightarrow> ('acc, 'o) poi_origin \<Rightarrow> 'm \<Rightarrow> 'acc \<Rightarrow> 'sig
     \<Rightarrow> ('acc, 'tk, 'dep, 'w) ist \<Rightarrow> ('acc, 'tk, 'dep, 'x, 'w) poi_result" where
  "register_non_referred cfg origin key destination proof_of_ownership s =
     bindE (ensure_signed_or_invited cfg origin) (\<lambda>account.
     bindE (ok_or (fmlookup (Candidates s) account) (Module NotApplied)) (\<lambda>status.
     case status of
       Proven prv \<Rightarrow>
         bindE (ensure (\<not> prv_referred prv) (Module ReferredCandidateErr)) (\<lambda>_.
         let s1 = (if prv_invited prv then dec_sufficients cfg account s else s) in
         bindE (register_proven_candidate cfg account (prv_reserved prv) key (prv_design prv) destination Enabled
                  proof_of_ownership s1) (\<lambda>s2.
         Inr (s2, pays_info Pays_No)))
     | _ \<Rightarrow> Inl (Module NotProven)))"

subsection \<open>Referral tickets\<close>

definition poi_ensure_person ::
  "('acc, 'tk, 'dep, 'x, 'w, 'o, 'm, 'sig, 'ts) icfg \<Rightarrow> ('acc, 'o) poi_origin \<Rightarrow> ('acc, 'tk, 'dep, 'w) ist
     \<Rightarrow> 'x poi_err + personal_id \<times> 'acc poi_person" where
  "poi_ensure_person cfg origin s =
     bindE (ok_or (poi_person_origin cfg origin) BadOrigin) (\<lambda>referrer.
     bindE (ok_or (fmlookup (PoiPeople s) referrer) (Module NotPoiPerson)) (\<lambda>record.
     bindE (ensure (\<not> pp_banned record) (Module Banned)) (\<lambda>_.
     Inr (referrer, record))))"

definition set_referral_ticket ::
  "('acc, 'tk, 'dep, 'x, 'w, 'o, 'm, 'sig, 'ts) icfg \<Rightarrow> ('acc, 'o) poi_origin \<Rightarrow> 'tk
     \<Rightarrow> ('acc, 'tk, 'dep, 'w) ist \<Rightarrow> ('acc, 'tk, 'dep, 'x, 'w) poi_result" where
  "set_referral_ticket cfg origin ticket s =
     bindE (poi_ensure_person cfg origin s) (\<lambda>(referrer, record).
     bindE (ensure (pp_pending_rewards record = 0) (Module RewardToRegister)) (\<lambda>_.
     bindE (ensure (length (pp_active_referrals record) < c_max_active_referrals cfg) (Module NoMoreReferrals)) (\<lambda>_.
     bindE (case fmlookup (ReferralTickets s) referrer of
              Some tickets \<Rightarrow>
                bindE (ensure (pp_allowed_tickets record > length tickets) (Module NoMoreReferrals)) (\<lambda>_.
                ensure (length tickets + length (pp_active_referrals record) < c_max_active_referrals cfg)
                  (Module NoMoreReferrals))
            | None \<Rightarrow> Inr ()) (\<lambda>_.
     case fmlookup (ReferralTickets s) referrer of
       Some tickets \<Rightarrow>
         if ticket \<in> set tickets then Inr (s, pays_info Pays_Yes)
         else bindE (ensure (length tickets < c_max_active_referrals cfg) (Module NoMoreReferrals)) (\<lambda>_.
              Inr (poi_deposit (TicketReferred referrer ticket)
                     (s\<lparr>ReferralTickets := fmupd referrer (tickets @ [ticket]) (ReferralTickets s)\<rparr>), pays_info Pays_No))
     | None \<Rightarrow>
         bindE (ensure (1 \<le> c_max_active_referrals cfg) (Module NoMoreReferrals)) (\<lambda>_.
         Inr (poi_deposit (TicketReferred referrer ticket)
                (s\<lparr>ReferralTickets := fmupd referrer [ticket] (ReferralTickets s)\<rparr>), pays_info Pays_No))))))"

definition cancel_referral_ticket ::
  "('acc, 'tk, 'dep, 'x, 'w, 'o, 'm, 'sig, 'ts) icfg \<Rightarrow> ('acc, 'o) poi_origin \<Rightarrow> 'tk
     \<Rightarrow> ('acc, 'tk, 'dep, 'w) ist \<Rightarrow> ('acc, 'tk, 'dep, 'x, 'w) poi_result" where
  "cancel_referral_ticket cfg origin ticket s =
     bindE (poi_ensure_person cfg origin s) (\<lambda>(referrer, record).
     bindE (ok_or (fmlookup (ReferralTickets s) referrer) (Module NoTicket)) (\<lambda>tickets.
     bindE (ensure (ticket \<in> set tickets) (Module NoTicket)) (\<lambda>_.
     Inr (poi_deposit (TicketCancelled referrer ticket)
            (s\<lparr>ReferralTickets := fmupd referrer (filter (\<lambda>t. t \<noteq> ticket) tickets) (ReferralTickets s)\<rparr>),
          pays_info Pays_No))))"

definition register_successful_referral_reward ::
  "('acc, 'tk, 'dep, 'x, 'w, 'o, 'm, 'sig, 'ts) icfg \<Rightarrow> ('acc, 'o) poi_origin \<Rightarrow> 'acc
     \<Rightarrow> ('acc, 'tk, 'dep, 'w) ist \<Rightarrow> ('acc, 'tk, 'dep, 'x, 'w) poi_result" where
  "register_successful_referral_reward cfg origin destination s =
     bindE (poi_ensure_person cfg origin s) (\<lambda>(referrer, record).
     bindE (ensure (1 \<le> pp_pending_rewards record) (Module NoRewardToRegister)) (\<lambda>_.
     bindE (register_referrer_reward cfg destination s) (\<lambda>s1.
     let record' = record\<lparr>pp_pending_rewards := pp_pending_rewards record - 1\<rparr>
     in Inr (poi_deposit (ReferralVoucherRegistered referrer)
               (s1\<lparr>PoiPeople := fmupd referrer record' (PoiPeople s1)\<rparr>), pays_info Pays_No))))"

subsection \<open>Invitations\<close>

definition grant_invites ::
  "('acc, 'tk, 'dep, 'x, 'w, 'o, 'm, 'sig, 'ts) icfg \<Rightarrow> ('acc, 'o) poi_origin \<Rightarrow> 'acc \<Rightarrow> nat
     \<Rightarrow> ('acc, 'tk, 'dep, 'w) ist \<Rightarrow> ('acc, 'tk, 'dep, 'x, 'w) poi_result" where
  "grant_invites cfg origin account count s =
     bindE (ensure (outer (c_invitations cfg) origin) BadOrigin) (\<lambda>_.
     Inr (poi_deposit (InvitesGranted account count)
            (s\<lparr>AvailableInvites := fmupd account (sat_add 32 (get_or 0 (AvailableInvites s) account) count)
                 (AvailableInvites s)\<rparr>), pays_info Pays_Yes))"

text \<open>\<open>order\<close> lists the pending tickets of the account in the order in which \<open>clear_prefix\<close> meets them.\<close>

definition remove_available_and_pending_invites ::
  "('acc, 'tk, 'dep, 'x, 'w, 'o, 'm, 'sig, 'ts) icfg \<Rightarrow> 'tk list \<Rightarrow> ('acc, 'o) poi_origin \<Rightarrow> 'acc \<Rightarrow> nat
     \<Rightarrow> ('acc, 'tk, 'dep, 'w) ist \<Rightarrow> ('acc, 'tk, 'dep, 'x, 'w) poi_result" where
  "remove_available_and_pending_invites cfg order origin account limit s =
     bindE (ensure (outer (c_invitations cfg) origin) BadOrigin) (\<lambda>_.
     let s1 = s\<lparr>AvailableInvites := fmdrop account (AvailableInvites s),
               PendingInvites := fold (\<lambda>t. fmdrop (account, t)) (take limit order) (PendingInvites s)\<rparr>
     in Inr (poi_deposit (if length order > limit then SomeInvitesRemoved account else AllInvitesRemoved account) s1,
             pays_info Pays_Yes))"

definition set_invite_ticket ::
  "('acc, 'tk, 'dep, 'x, 'w, 'o, 'm, 'sig, 'ts) icfg \<Rightarrow> ('acc, 'o) poi_origin \<Rightarrow> 'tk
     \<Rightarrow> ('acc, 'tk, 'dep, 'w) ist \<Rightarrow> ('acc, 'tk, 'dep, 'x, 'w) poi_result" where
  "set_invite_ticket cfg origin ticket s =
     bindE (ok_or (poi_signer cfg origin) BadOrigin) (\<lambda>inviter.
     bindE (ensure (1 \<le> get_or 0 (AvailableInvites s) inviter) (Module NoInvites)) (\<lambda>_.
     bindE (ensure (\<not> contains_key (PendingInvites s) (inviter, ticket)) (Module AlreadyInvited)) (\<lambda>_.
     let available = get_or 0 (AvailableInvites s) inviter - 1
     in Inr (poi_deposit (InviteTicketSet inviter ticket)
               (s\<lparr>PendingInvites := fmupd (inviter, ticket) () (PendingInvites s),
                  AvailableInvites := (if available > 0 then fmupd inviter available (AvailableInvites s)
                                       else fmdrop inviter (AvailableInvites s))\<rparr>), pays_info Pays_Yes))))"

definition cancel_invite_ticket ::
  "('acc, 'tk, 'dep, 'x, 'w, 'o, 'm, 'sig, 'ts) icfg \<Rightarrow> ('acc, 'o) poi_origin \<Rightarrow> 'tk
     \<Rightarrow> ('acc, 'tk, 'dep, 'w) ist \<Rightarrow> ('acc, 'tk, 'dep, 'x, 'w) poi_result" where
  "cancel_invite_ticket cfg origin ticket s =
     bindE (ok_or (poi_signer cfg origin) BadOrigin) (\<lambda>inviter.
     bindE (ensure (contains_key (PendingInvites s) (inviter, ticket)) (Module NoTicket)) (\<lambda>_.
     Inr (poi_deposit (InviteTicketCancelled inviter ticket)
            (s\<lparr>PendingInvites := fmdrop (inviter, ticket) (PendingInvites s),
               AvailableInvites := fmupd inviter (sat_add 32 (get_or 0 (AvailableInvites s) inviter) 1)
                 (AvailableInvites s)\<rparr>), pays_info Pays_Yes)))"

subsection \<open>Management\<close>

definition add_design_family ::
  "('acc, 'tk, 'dep, 'x, 'w, 'o, 'm, 'sig, 'ts) icfg \<Rightarrow> ('acc, 'o) poi_origin \<Rightarrow> nat \<Rightarrow> family_kind \<Rightarrow> bytes
     \<Rightarrow> ('acc, 'tk, 'dep, 'w) ist \<Rightarrow> ('acc, 'tk, 'dep, 'x, 'w) poi_result" where
  "add_design_family cfg origin index kind fid s =
     bindE (ensure (outer (c_manager_or_root cfg) origin) BadOrigin) (\<lambda>_.
     Inr (poi_deposit (FamilyAdded index kind fid)
            (s\<lparr>DesignFamilies := fmupd index \<lparr>fam_kind = kind, fam_id = fid\<rparr> (DesignFamilies s)\<rparr>), pays_info Pays_No))"

definition set_configuration ::
  "('acc, 'tk, 'dep, 'x, 'w, 'o, 'm, 'sig, 'ts) icfg \<Rightarrow> ('acc, 'o) poi_origin \<Rightarrow> config_record
     \<Rightarrow> ('acc, 'tk, 'dep, 'w) ist \<Rightarrow> ('acc, 'tk, 'dep, 'x, 'w) poi_result" where
  "set_configuration cfg origin config s =
     bindE (ensure (outer (c_manager_or_root cfg) origin) BadOrigin) (\<lambda>_.
     Inr (poi_deposit (ConfigurationSet config) (s\<lparr>Configuration := config\<rparr>), pays_info Pays_No))"

definition values_valid :: "(balance \<times> nat) list \<Rightarrow> bool" where
  "values_valid vs = list_all (\<lambda>(v, count). v > 0 \<and> count > 0) vs"

definition set_reimbursement_values ::
  "('acc, 'tk, 'dep, 'x, 'w, 'o, 'm, 'sig, 'ts) icfg \<Rightarrow> ('acc, 'o) poi_origin \<Rightarrow> (balance \<times> nat) list
     \<Rightarrow> (balance \<times> nat) list \<Rightarrow> ('acc, 'tk, 'dep, 'w) ist \<Rightarrow> ('acc, 'tk, 'dep, 'x, 'w) poi_result" where
  "set_reimbursement_values cfg origin referred_values referrer_values s =
     bindE (ensure (outer (c_manager_or_root cfg) origin) BadOrigin) (\<lambda>_.
     bindE (ensure (length referred_values = length referrer_values) (Module InvalidReimbursementValues)) (\<lambda>_.
     bindE (ensure (values_valid referred_values) (Module InvalidReimbursementValues)) (\<lambda>_.
     bindE (ensure (values_valid referrer_values) (Module InvalidReimbursementValues)) (\<lambda>_.
     Inr (s\<lparr>ReferredReimbursementValues := Some referred_values, ReferrerReimbursementValues := Some referrer_values\<rparr>,
          pays_info Pays_No)))))"

subsection \<open>Calls and the transaction extension\<close>

text \<open>The calls of the pallet, with those of other pallets, which only change the world.\<close>

datatype ('acc, 'tk, 'm, 'sig, 'ts, 'w) poi_call =
  CallApply
| CallSubmitEvidence bytes
| CallJudged oracle_ticket bytes judgement
| CallRegisterReferred 'm 'acc 'sig
| CallRegisterNonReferred 'm 'acc 'sig
| CallReroll
| CallCommit ink_choice "personal_id option"
| CallAllocateFull
| CallTimeout 'acc
| CallFlakeout
| CallApplyWithSignature personal_id 'ts 'tk
| CallApplyWithInvitation 'acc 'tk 'ts
| CallAddDesignFamily nat family_kind bytes
| CallSetReferralTicket 'tk
| CallCancelReferralTicket 'tk
| CallRegisterReward 'acc
| CallGrantInvites 'acc nat
| CallRemoveInvites 'acc nat "'tk list"
| CallSetInviteTicket 'tk
| CallCancelInviteTicket 'tk
| CallSetConfiguration config_record
| CallSetReimbursementValues "(balance \<times> nat) list" "(balance \<times> nat) list"
| CallOther 'w

fun poi_dispatch ::
  "('acc, 'tk, 'dep, 'x, 'w, 'o, 'm, 'sig, 'ts) icfg \<Rightarrow> block_number \<Rightarrow> ('acc, 'o) poi_origin
     \<Rightarrow> ('acc, 'tk, 'm, 'sig, 'ts, 'w) poi_call \<Rightarrow> ('acc, 'tk, 'dep, 'w) ist \<Rightarrow> ('acc, 'tk, 'dep, 'x, 'w) poi_result" where
  "poi_dispatch cfg now org CallApply s = poi_apply cfg now org s"
| "poi_dispatch cfg now org (CallSubmitEvidence e) s = submit_evidence cfg org e s"
| "poi_dispatch cfg now org (CallJudged t ctx j) s = judged cfg org t ctx j s"
| "poi_dispatch cfg now org (CallRegisterReferred k d p) s = register_referred cfg org k d p s"
| "poi_dispatch cfg now org (CallRegisterNonReferred k d p) s = register_non_referred cfg org k d p s"
| "poi_dispatch cfg now org CallReroll s = reroll cfg now org s"
| "poi_dispatch cfg now org (CallCommit c r) s = commit cfg now org c r s"
| "poi_dispatch cfg now org CallAllocateFull s = allocate_full cfg org s"
| "poi_dispatch cfg now org (CallTimeout a) s = timeout cfg now org a s"
| "poi_dispatch cfg now org CallFlakeout s = flakeout cfg org s"
| "poi_dispatch cfg now org (CallApplyWithSignature r g t) s = apply_with_signature cfg now org r g t s"
| "poi_dispatch cfg now org (CallApplyWithInvitation i t _) s = apply_with_invitation cfg now org i t s"
| "poi_dispatch cfg now org (CallAddDesignFamily i k f) s = add_design_family cfg org i k f s"
| "poi_dispatch cfg now org (CallSetReferralTicket t) s = set_referral_ticket cfg org t s"
| "poi_dispatch cfg now org (CallCancelReferralTicket t) s = cancel_referral_ticket cfg org t s"
| "poi_dispatch cfg now org (CallRegisterReward d) s = register_successful_referral_reward cfg org d s"
| "poi_dispatch cfg now org (CallGrantInvites a n) s = grant_invites cfg org a n s"
| "poi_dispatch cfg now org (CallRemoveInvites a n order) s = remove_available_and_pending_invites cfg order org a n s"
| "poi_dispatch cfg now org (CallSetInviteTicket t) s = set_invite_ticket cfg org t s"
| "poi_dispatch cfg now org (CallCancelInviteTicket t) s = cancel_invite_ticket cfg org t s"
| "poi_dispatch cfg now org (CallSetConfiguration c) s = set_configuration cfg org c s"
| "poi_dispatch cfg now org (CallSetReimbursementValues a b) s = set_reimbursement_values cfg org a b s"
| "poi_dispatch cfg now org (CallOther w) s = Inr (s\<lparr>p_world := w\<rparr>, pays_info Pays_Yes)"

text \<open>
  \<^verbatim>\<open>extension.rs\<close>. The nonce check of the framework is a parameter: \<open>validate_nonce\<close> gives the tags that the transaction
  requires and provides, \<open>prepare_nonce\<close> increments the nonce.
\<close>

datatype 'n as_poi_info = AsApplyWithSig 'n | AsReferred 'n | AsInvited 'n

fun poi_nonce :: "'n as_poi_info \<Rightarrow> 'n" where
  "poi_nonce (AsApplyWithSig n) = n"
| "poi_nonce (AsReferred n) = n"
| "poi_nonce (AsInvited n) = n"

definition is_referred_candidate :: "('dep, 'tk) candidate \<Rightarrow> bool" where
  "is_referred_candidate c =
     (case c of
        Applied (Referred _) _ _ \<Rightarrow> True
      | Selected sel \<Rightarrow> (case sel_cred sel of Referred _ \<Rightarrow> True | _ \<Rightarrow> False)
      | Proven prv \<Rightarrow> prv_referred prv
      | _ \<Rightarrow> False)"

definition is_invited_candidate :: "('dep, 'tk) candidate \<Rightarrow> bool" where
  "is_invited_candidate c =
     (case c of
        Applied (Invited _) _ _ \<Rightarrow> True
      | Selected sel \<Rightarrow> (case sel_cred sel of Invited _ \<Rightarrow> True | _ \<Rightarrow> False)
      | Proven prv \<Rightarrow> prv_invited prv
      | _ \<Rightarrow> False)"

fun is_poi_call :: "('acc, 'tk, 'm, 'sig, 'ts, 'w) poi_call \<Rightarrow> bool" where
  "is_poi_call (CallOther _) = False"
| "is_poi_call _ = True"

definition validate_apply_with_sig ::
  "('acc, 'tk, 'dep, 'x, 'w, 'o, 'm, 'sig, 'ts) icfg \<Rightarrow> ('acc \<Rightarrow> 'n \<Rightarrow> 'w \<Rightarrow> invalid_transaction + 't list \<times> 't list)
     \<Rightarrow> 'n \<Rightarrow> 'acc option \<Rightarrow> ('acc, 'tk, 'm, 'sig, 'ts, 'w) poi_call \<Rightarrow> ('acc, 'tk, 'dep, 'w) ist
     \<Rightarrow> invalid_transaction + ('t list \<times> 't list) \<times> 'acc option \<times> ('acc, 'o) poi_origin \<times> ('acc, 'tk, 'dep, 'w) ist" where
  "validate_apply_with_sig cfg validate_nonce nonce signer call s =
     bindE (ok_or signer InvalidCall) (\<lambda>who.
     case call of
       CallApplyWithSignature referrer signature ticket \<Rightarrow>
         bindE (ensure (\<not> contains_key (Candidates s) who) InvalidBadSigner) (\<lambda>_.
         bindE (ok_or (fmlookup (PoiPeople s) referrer) InvalidBadProof) (\<lambda>record.
         bindE (ensure (\<not> pp_banned record) InvalidBadProof) (\<lambda>_.
         bindE (ok_or (fmlookup (ReferralTickets s) referrer) InvalidBadProof) (\<lambda>tickets.
         bindE (ensure (ticket \<in> set tickets \<and> c_verify_ticket cfg signature (c_encode cfg who) ticket) InvalidBadProof) (\<lambda>_.
         let s1 = s\<lparr>p_world := c_inc_providers cfg who (p_world s)\<rparr> in
         bindE (validate_nonce who nonce (p_world s1)) (\<lambda>tags.
         Inr (tags, Some who, AuthorizedApplyWithSig who, s1)))))))
     | _ \<Rightarrow> Inl InvalidCall)"

definition validate_referred ::
  "('acc \<Rightarrow> 'n \<Rightarrow> 'w \<Rightarrow> invalid_transaction + 't list \<times> 't list)
     \<Rightarrow> 'n \<Rightarrow> 'acc option \<Rightarrow> ('acc, 'tk, 'm, 'sig, 'ts, 'w) poi_call \<Rightarrow> ('acc, 'tk, 'dep, 'w) ist
     \<Rightarrow> invalid_transaction + ('t list \<times> 't list) \<times> 'acc option \<times> ('acc, 'o) poi_origin \<times> ('acc, 'tk, 'dep, 'w) ist" where
  "validate_referred validate_nonce nonce signer call s =
     bindE (ok_or signer InvalidCall) (\<lambda>who.
     bindE (ok_or (fmlookup (Candidates s) who) InvalidCall) (\<lambda>candidate.
     bindE (ensure (is_poi_call call) InvalidCall) (\<lambda>_.
     bindE (ensure (is_referred_candidate candidate) InvalidCall) (\<lambda>_.
     bindE (validate_nonce who nonce (p_world s)) (\<lambda>tags.
     Inr (tags, Some who, ReferredCandidate who, s))))))"

definition validate_invited ::
  "('acc, 'tk, 'dep, 'x, 'w, 'o, 'm, 'sig, 'ts) icfg \<Rightarrow> ('acc \<Rightarrow> 'n \<Rightarrow> 'w \<Rightarrow> invalid_transaction + 't list \<times> 't list)
     \<Rightarrow> 'n \<Rightarrow> 'acc option \<Rightarrow> ('acc, 'tk, 'm, 'sig, 'ts, 'w) poi_call \<Rightarrow> ('acc, 'tk, 'dep, 'w) ist
     \<Rightarrow> invalid_transaction + ('t list \<times> 't list) \<times> 'acc option \<times> ('acc, 'o) poi_origin \<times> ('acc, 'tk, 'dep, 'w) ist" where
  "validate_invited cfg validate_nonce nonce signer call s =
     bindE (ok_or signer InvalidCall) (\<lambda>who.
     bindE (case call of
              CallApplyWithInvitation inviter ticket signature \<Rightarrow>
                bindE (ensure (\<not> contains_key (Candidates s) who) InvalidBadSigner) (\<lambda>_.
                bindE (ensure (c_verify_ticket cfg signature (c_encode cfg who) ticket) InvalidBadSigner) (\<lambda>_.
                bindE (ensure (contains_key (PendingInvites s) (inviter, ticket)) InvalidCall) (\<lambda>_.
                Inr (s\<lparr>p_world := c_inc_providers cfg who (p_world s)\<rparr>))))
            | _ \<Rightarrow>
                bindE (ensure (is_poi_call call) InvalidCall) (\<lambda>_.
                bindE (ensure (case fmlookup (Candidates s) who of
                                 Some c \<Rightarrow> is_invited_candidate c | None \<Rightarrow> False) InvalidBadSigner) (\<lambda>_.
                Inr s))) (\<lambda>s1.
     bindE (validate_nonce who nonce (p_world s1)) (\<lambda>tags.
     Inr (tags, Some who, InvitedCandidate who, s1))))"

definition as_poi_validate ::
  "('acc, 'tk, 'dep, 'x, 'w, 'o, 'm, 'sig, 'ts) icfg \<Rightarrow> ('acc \<Rightarrow> 'n \<Rightarrow> 'w \<Rightarrow> invalid_transaction + 't list \<times> 't list)
     \<Rightarrow> 'n as_poi_info option \<Rightarrow> 'o \<Rightarrow> ('acc, 'tk, 'm, 'sig, 'ts, 'w) poi_call \<Rightarrow> ('acc, 'tk, 'dep, 'w) ist
     \<Rightarrow> invalid_transaction + ('t list \<times> 't list) \<times> 'acc option \<times> ('acc, 'o) poi_origin \<times> ('acc, 'tk, 'dep, 'w) ist" where
  "as_poi_validate cfg validate_nonce ext origin call s =
     (case ext of
        Some (AsApplyWithSig nonce) \<Rightarrow> validate_apply_with_sig cfg validate_nonce nonce (c_signed cfg origin) call s
      | Some (AsReferred nonce) \<Rightarrow> validate_referred validate_nonce nonce (c_signed cfg origin) call s
      | Some (AsInvited nonce) \<Rightarrow> validate_invited cfg validate_nonce nonce (c_signed cfg origin) call s
      | None \<Rightarrow> Inr (([], []), None, Outer origin, s))"

text \<open>The account whose provider reference is taken back after the dispatch.\<close>

definition as_poi_prepare ::
  "('acc \<Rightarrow> 'n \<Rightarrow> 'w \<Rightarrow> invalid_transaction + 'w) \<Rightarrow> 'n as_poi_info option \<Rightarrow> 'acc option
     \<Rightarrow> ('acc, 'tk, 'm, 'sig, 'ts, 'w) poi_call \<Rightarrow> ('acc, 'tk, 'dep, 'w) ist
     \<Rightarrow> invalid_transaction + 'acc option \<times> ('acc, 'tk, 'dep, 'w) ist" where
  "as_poi_prepare prepare_nonce ext val call s =
     (case val of
        Some account \<Rightarrow>
          bindE (ok_or (map_option poi_nonce ext) InvalidBadProof) (\<lambda>nonce.
          bindE (prepare_nonce account nonce (p_world s)) (\<lambda>w.
          let dec_providers = (case ext of
                  Some (AsApplyWithSig _) \<Rightarrow> True
                | Some (AsInvited _) \<Rightarrow> (case call of CallApplyWithInvitation _ _ _ \<Rightarrow> True | _ \<Rightarrow> False)
                | _ \<Rightarrow> False)
          in Inr (if dec_providers then Some account else None, s\<lparr>p_world := w\<rparr>)))
      | None \<Rightarrow> Inr (None, s))"

definition as_poi_post_dispatch ::
  "('acc, 'tk, 'dep, 'x, 'w, 'o, 'm, 'sig, 'ts) icfg \<Rightarrow> 'acc option \<Rightarrow> ('acc, 'tk, 'dep, 'w) ist \<Rightarrow> ('acc, 'tk, 'dep, 'w) ist" where
  "as_poi_post_dispatch cfg pre s =
     (case pre of Some account \<Rightarrow> s\<lparr>p_world := c_dec_providers cfg account (p_world s)\<rparr> | None \<Rightarrow> s)"

text \<open>A transaction: validation, preparation, dispatch, which may fail and then changes nothing, and what follows it.\<close>

definition poi_transaction ::
  "('acc, 'tk, 'dep, 'x, 'w, 'o, 'm, 'sig, 'ts) icfg \<Rightarrow> ('acc \<Rightarrow> 'n \<Rightarrow> 'w \<Rightarrow> invalid_transaction + 't list \<times> 't list)
     \<Rightarrow> ('acc \<Rightarrow> 'n \<Rightarrow> 'w \<Rightarrow> invalid_transaction + 'w) \<Rightarrow> block_number
     \<Rightarrow> 'n as_poi_info option \<Rightarrow> 'o \<Rightarrow> ('acc, 'tk, 'm, 'sig, 'ts, 'w) poi_call \<Rightarrow> ('acc, 'tk, 'dep, 'w) ist
     \<Rightarrow> invalid_transaction + ('acc, 'tk, 'dep, 'w) ist" where
  "poi_transaction cfg validate_nonce prepare_nonce now ext origin call s =
     bindE (as_poi_validate cfg validate_nonce ext origin call s) (\<lambda>(_, val, origin', s1).
     bindE (as_poi_prepare prepare_nonce ext val call s1) (\<lambda>(pre, s2).
     let s3 = (case poi_dispatch cfg now origin' call s2 of Inr (s', _) \<Rightarrow> s' | Inl _ \<Rightarrow> s2)
     in Inr (as_poi_post_dispatch cfg pre s3)))"

end
