(* ===== verification/ProofOfInk_Designs.thy ===== *)
theory ProofOfInk_Designs
  imports ProofOfInk "HOL-Library.Code_Target_Nat"
begin

text \<open>
  The designs and the rewards of \<^verbatim>\<open>pallets/proof-of-ink/src/lib.rs\<close>: what a derived seed keeps of its parent, which bytes
  of the entropy a variant selects, and the order in which reimbursements are paid.
\<close>

subsection \<open>The bits of a seed\<close>

definition seed_bit :: "bytes \<Rightarrow> nat \<Rightarrow> bool" where
  "seed_bit seed p = bit (byte_of seed (p div 8)) (p mod 8)"

lemma byte_of_less: "byte_of bs i < 256"
  using of_char_mod_256 [of "bs ! i", where 'a = nat] unfolding byte_of_def
  by (metis mod_less_divisor zero_less_numeral)

lemma toggle_bit_length [simp]: "length (toggle_bit seed p) = length seed"
  by (simp add: toggle_bit_def)

lemma byte_toggled:
  assumes "k < (8::nat)" "n < 256"
  shows "(of_char (char_of ((n::nat) XOR 2 ^ k) :: char) :: nat) = n XOR 2 ^ k"
proof -
  have n: "take_bit 8 n = n" using assms by (simp add: take_bit_nat_eq_self_iff)
  have k: "take_bit 8 ((2::nat) ^ k) = 2 ^ k" using assms power_strict_increasing[of k 8 "2::nat"] by (simp add: take_bit_nat_eq_self_iff)
  have "take_bit 8 (n XOR 2 ^ k) = n XOR 2 ^ k" by (simp only: take_bit_xor n k)
  then have "(n XOR 2 ^ k) mod 2 ^ 8 = n XOR 2 ^ k" by (simp only: take_bit_eq_mod)
  then have m: "(n XOR 2 ^ k) mod 256 = n XOR 2 ^ k" by simp
  show ?thesis by (simp only: of_char_of m)
qed

lemma byte_of_update: "i < length bs \<Longrightarrow> byte_of (bs[i := c]) j = (if j = i then of_char c else byte_of bs j)"
  by (simp add: byte_of_def)

lemma seed_bit_toggle:
  assumes "length seed = 4" "p < 32" "q < 32"
  shows "seed_bit (toggle_bit seed p) q \<longleftrightarrow> (if q = p then \<not> seed_bit seed q else seed_bit seed q)"
proof (cases "q div 8 = p div 8")
  case True
  have "byte_of (toggle_bit seed p) (q div 8) = byte_of seed (p div 8) XOR 2 ^ (p mod 8)"
    using True assms by (simp only: toggle_bit_def byte_of_update[of "p div 8" seed] byte_toggled[OF _ byte_of_less]) simp
  moreover have "q mod 8 = p mod 8 \<longleftrightarrow> q = p" using True by (metis div_mult_mod_eq)
  ultimately show ?thesis using True by (auto simp: seed_bit_def bit_xor_iff bit_exp_iff)
next
  case False
  then have "byte_of (toggle_bit seed p) (q div 8) = byte_of seed (q div 8)" using assms by (simp add: toggle_bit_def byte_of_update)
  then show ?thesis using False by (auto simp: seed_bit_def)
qed

subsection \<open>Derived seeds\<close>

text \<open>The three positions: the third may fall on one of the first two, and then takes the change back.\<close>

definition mutate_positions :: "bytes \<Rightarrow> nat list" where
  "mutate_positions entropy =
     (let p0 = byte_of entropy 0 mod 32;
          q1 = byte_of entropy 1 mod 31; p1 = (if q1 = p0 then 31 else q1);
          q2 = byte_of entropy 2 mod 30; p2 = (if q2 = p0 \<or> q2 = p1 then 30 else q2)
      in [p0, p1, p2])"

lemma upt_3: "[0..<3] = [0, 1, 2 :: nat]"
  by (simp add: numeral_eq_Suc)

lemma mutate_seed_eq:
  "mutate_seed seed entropy = fold (\<lambda>p sd. toggle_bit sd p) (mutate_positions entropy) seed"
  by (simp add: mutate_seed_def mutate_step_def mutate_positions_def upt_3 Let_def)

lemma mutate_positions_facts:
  "\<exists>p0 p1 p2. mutate_positions entropy = [p0, p1, p2] \<and> p0 < 32 \<and> p1 < 32 \<and> p2 < 32 \<and> p0 \<noteq> p1"
proof -
  define p0 where "p0 = byte_of entropy 0 mod 32"
  define q1 where "q1 = byte_of entropy 1 mod 31"
  define q2 where "q2 = byte_of entropy 2 mod 30"
  define p1 where "p1 = (if q1 = p0 then 31 else q1)"
  define p2 where "p2 = (if q2 = p0 \<or> q2 = p1 then 30 else q2)"
  have "p0 < 32" "q1 < 31" "q2 < 30" by (simp_all add: p0_def q1_def q2_def)
  then have "p0 < 32" "p1 < 32" "p2 < 32" "p0 \<noteq> p1" by (auto simp: p1_def p2_def)
  moreover have "mutate_positions entropy = [p0, p1, p2]"
    unfolding mutate_positions_def Let_def p0_def[symmetric] q1_def[symmetric] q2_def[symmetric] p1_def[symmetric] p2_def[symmetric]
    by (rule refl)
  ultimately show ?thesis by blast
qed



text \<open>With the entropy 30, 0, 0 the third position is the first one, and only bit 0 changes.\<close>

lemma mutation_of_one_bit:
  "mutate_positions (map char_of [30, 0, 0 :: nat]) = [30, 0, 30]"
  by code_simp

subsection \<open>Variants\<close>

text \<open>The variant is read off its first three positions.\<close>

definition variant_of :: "nat list \<Rightarrow> nat" where
  "variant_of is =
     (if is ! 1 = is ! 0 + 1 \<and> is ! 2 = is ! 0 + 2 then is ! 0 div 4
      else is ! 0 + 32 * (if is ! 0 < is ! 1 then is ! 1 - 1 else is ! 1))"

lemma upt_4: "[0..<4] = [0, 1, 2, 3 :: nat]"
  by (simp add: numeral_eq_Suc)

lemma seed_indices_long:
  assumes "8 \<le> v" "v < 256"
  shows "\<exists>i2 i3. seed_indices v =
      [v mod 32, if v mod 32 \<le> v div 32 then v div 32 + 1 else v div 32, i2, i3] \<and> i2 \<le> 2 \<and> i3 \<le> 3"
proof -
  have k: "v div 32 mod 31 = v div 32" "v div 32 div 31 = 0" using assms by simp_all
  show ?thesis using assms(1) by (simp add: seed_indices_def upt_4 seed_index_step_def Let_def k)
qed

lemma seed_indices_ok:
  assumes "v < 256"
  shows "length (seed_indices v) = 4" "i \<in> set (seed_indices v) \<Longrightarrow> i < 32" "variant_of (seed_indices v) = v"
proof -
  have "length (seed_indices v) = 4 \<and> (\<forall>i\<in>set (seed_indices v). i < 32) \<and> variant_of (seed_indices v) = v"
  proof (cases "v < 8")
    case True
    then have "seed_indices v = [v * 4, v * 4 + 1, v * 4 + 2, v * 4 + 3]"
      by (simp add: seed_indices_def upt_rec numeral_eq_Suc)
    then show ?thesis using True by (simp add: variant_of_def)
  next
    case False
    then obtain i2 i3 where i: "seed_indices v =
        [v mod 32, if v mod 32 \<le> v div 32 then v div 32 + 1 else v div 32, i2, i3]" "i2 \<le> 2" "i3 \<le> 3"
      using seed_indices_long[of v] assms by auto
    have k: "v div 32 < 8" "v mod 32 < 32" using assms by simp_all
    have v: "v mod 32 + 32 * (v div 32) = v" by simp
    have "\<not> (v div 32 = 0 \<and> v mod 32 = 0)" using False v by presburger
    then have "variant_of (seed_indices v) = v" unfolding i(1) variant_of_def using i(2,3) v by auto
    then show ?thesis using i(2,3) k by (simp add: i(1))
  qed
  then show "length (seed_indices v) = 4" "i \<in> set (seed_indices v) \<Longrightarrow> i < 32" "variant_of (seed_indices v) = v" by auto
qed

text \<open>
  Each of the 256 variants takes four bytes of the 32 bytes of entropy, never reads beyond them, and no two
  variants take the same four in the same order.
\<close>

theorem variants_select_entropy:
  assumes "v < 256" "length entropy = 32"
  shows "length (entropy_to_seed entropy v) = 4 \<and> (\<forall>i\<in>set (seed_indices v). i < length entropy) \<and>
    (\<forall>u < 256. seed_indices u = seed_indices v \<longrightarrow> u = v)"
proof (intro conjI ballI allI impI)
  show "length (entropy_to_seed entropy v) = 4"
    using seed_indices_ok(1)[OF assms(1)] by (simp add: entropy_to_seed_def)
  show "i < length entropy" if "i \<in> set (seed_indices v)" for i
    unfolding assms(2) using seed_indices_ok(2)[OF assms(1) that] .
  show "u = v" if "u < 256" "seed_indices u = seed_indices v" for u
    using seed_indices_ok(3)[OF that(1)] seed_indices_ok(3)[OF assms(1)] unfolding that(2) by (rule trans[OF sym])
qed

lemma variants_select_entropy_witness:
  "entropy_to_seed (map char_of [0..<32 :: nat]) 33 = map char_of [1, 2, 0, 1 :: nat] \<and> (seed_indices 34 = seed_indices 33 \<longrightarrow> False)"
proof -
  have "\<forall>u < 256. seed_indices u = seed_indices 33 \<longrightarrow> u = 33"
    by (rule conjunct2[OF conjunct2[OF variants_select_entropy[of 33 "map char_of [0..<32 :: nat]"]]]) simp_all
  from this[rule_format, of 34] have "seed_indices 34 = seed_indices 33 \<longrightarrow> False" by linarith
  moreover have "seed_indices 33 = [1, 2, 0, 1]" by code_simp
  ultimately show ?thesis by (simp add: entropy_to_seed_def)
qed

subsection \<open>Rewards\<close>

text \<open>The specification of the list of values with counts is the queue of the single rewards.\<close>

definition reward_queue :: "(balance \<times> nat) list \<Rightarrow> balance list" where
  "reward_queue vs = concat (map (\<lambda>(v, count). replicate count v) (rev vs))"

lemma values_valid_append: "values_valid (xs @ ys) \<longleftrightarrow> values_valid xs \<and> values_valid ys"
  by (simp add: values_valid_def)

text \<open>
  C31: The stored values with their counts are a queue of rewards: as long as it is not empty, a registration pays its
  head to the destination, exactly once, and leaves the rest; when it is empty, nothing is paid and nothing changes.
  A payment that fails changes nothing.
\<close>

theorem rewards_paid_in_order:
  assumes "values_valid vs"
  shows "case reward_queue vs of
      [] \<Rightarrow> pay_reward cfg destination (Some vs) w = Inr (Some vs, w)
    | v # queue \<Rightarrow> 0 < v \<and> (\<exists>vs'. values_valid vs' \<and> reward_queue vs' = queue \<and>
        pay_reward cfg destination (Some vs) w =
          bindE (c_transfer cfg (c_pot cfg) destination v Expendable w) (\<lambda>(w', _). Inr (Some vs', w')))"
proof (cases vs rule: rev_cases)
  case Nil
  then show ?thesis by (simp add: reward_queue_def pay_reward_def)
next
  case (snoc us x)
  obtain v n where x: "x = (v, n)" by force
  have n: "0 < v" "0 < n" "values_valid us" using assms snoc x by (auto simp: values_valid_def)
  then obtain k where k: "n = Suc k" using gr0_implies_Suc by blast
  have q: "reward_queue vs = v # replicate k v @ reward_queue us" using snoc x k by (simp add: reward_queue_def)
  let ?vs' = "if k > 0 then us @ [(v, k)] else us"
  have "values_valid ?vs'" "reward_queue ?vs' = replicate k v @ reward_queue us"
    using n by (auto simp: values_valid_append reward_queue_def) (simp add: values_valid_def)
  moreover have "pay_reward cfg destination (Some vs) w =
      bindE (c_transfer cfg (c_pot cfg) destination v Expendable w) (\<lambda>(w', _). Inr (Some ?vs', w'))"
    using snoc x k by (simp add: pay_reward_def)
  ultimately show ?thesis unfolding q using n(1) by auto
qed

lemma rewards_paid_in_order_witness:
  "reward_queue [(5, 1), (7, 2)] = [7, 7, 5] \<and>
   (\<forall>(cfg :: (nat, nat, nat, unit, nat, unit, nat, nat, nat) icfg) dest w. \<exists>vs'. reward_queue vs' = [7, 5] \<and>
     pay_reward cfg dest (Some [(5, 1), (7, 2)]) w =
       bindE (c_transfer cfg (c_pot cfg) dest 7 Expendable w) (\<lambda>(w', _). Inr (Some vs', w')))"
proof -
  have "values_valid [(5, 1), (7, 2)]" by (simp add: values_valid_def)
  note r = rewards_paid_in_order[OF this]
  have q: "reward_queue [(5, 1), (7, 2)] = [7, 7, 5]" by (simp add: reward_queue_def numeral_eq_Suc)
  have "\<exists>vs'. reward_queue vs' = [7, 5] \<and> pay_reward cfg dest (Some [(5, 1), (7, 2)]) w =
      bindE (c_transfer cfg (c_pot cfg) dest 7 Expendable w) (\<lambda>(w', _). Inr (Some vs', w'))"
    for cfg :: "(nat, nat, nat, unit, nat, unit, nat, nat, nat) icfg" and dest w
    using r[of cfg dest w] unfolding q by auto
  then show ?thesis using q by blast
qed

end
