(* ===== verification/ProofOfInk_Invariant.thy ===== *)
theory ProofOfInk_Invariant
  imports ProofOfInk_Designs
begin

text \<open>
  The invariant of \<^verbatim>\<open>pallets/proof-of-ink/src/lib.rs\<close>, stated on what the storage says about designs, referrals, ids
  and allocations.

  \<^item> \<open>claims_ok\<close>: every elective design in \<open>CommittedDesigns\<close> has exactly one holder, a candidate or a person, and is
    committed once the holder is proven.
  \<^item> \<open>referrals_ok\<close>: the active referrals of a person are exactly the candidates who applied with that person's tickets,
    and with the tickets given out they stay below the limit.
  \<^item> \<open>AllocationCount\<close> is the number of candidates who are selected.
  \<^item> \<open>ids_held\<close>: the ids of candidates are distinct and reserved in the registry, and the people of the pallet are
    known there.
\<close>

subsection \<open>What the storage says\<close>

datatype 'acc holder = HCandidate 'acc | HPerson personal_id

fun elective :: "ink_spec \<Rightarrow> (nat \<times> nat) option" where
  "elective (DesignedElective f d) = Some (f, d)"
| "elective _ = None"

fun cand_claim :: "('dep, 'tk) candidate \<Rightarrow> ((nat \<times> nat) \<times> design_status) option" where
  "cand_claim (Applied _ _ _) = None"
| "cand_claim (Selected sel) = map_option (\<lambda>k. (k, Reserved)) (elective (sel_design sel))"
| "cand_claim (Proven prv) = map_option (\<lambda>k. (k, Committed)) (elective (prv_design prv))"

definition pers_claim :: "'acc poi_person \<Rightarrow> ((nat \<times> nat) \<times> design_status) option" where
  "pers_claim p = Option.bind (pp_design p) (\<lambda>d. map_option (\<lambda>k. (k, Committed)) (elective d))"

fun claim_of ::
  "('acc, ('dep, 'tk) candidate) fmap \<Rightarrow> (personal_id, 'acc poi_person) fmap \<Rightarrow> 'acc holder
     \<Rightarrow> ((nat \<times> nat) \<times> design_status) option" where
  "claim_of cs ps (HCandidate a) = Option.bind (fmlookup cs a) cand_claim"
| "claim_of cs ps (HPerson i) = Option.bind (fmlookup ps i) pers_claim"

fun cand_referrer :: "('dep, 'tk) candidate \<Rightarrow> personal_id option" where
  "cand_referrer (Applied (Referred i) _ _) = Some i"
| "cand_referrer (Selected sel) = (case sel_cred sel of Referred i \<Rightarrow> Some i | _ \<Rightarrow> None)"
| "cand_referrer _ = None"

definition referrer_of :: "('acc, ('dep, 'tk) candidate) fmap \<Rightarrow> 'acc \<Rightarrow> personal_id option" where
  "referrer_of cs a = Option.bind (fmlookup cs a) cand_referrer"

definition active_of :: "(personal_id, 'acc poi_person) fmap \<Rightarrow> personal_id \<Rightarrow> 'acc list option" where
  "active_of ps i = map_option pp_active_referrals (fmlookup ps i)"

fun cand_id :: "('dep, 'tk) candidate \<Rightarrow> personal_id option" where
  "cand_id (Applied _ _ _) = None"
| "cand_id (Selected sel) = Some (sel_reserved sel)"
| "cand_id (Proven prv) = Some (prv_reserved prv)"

definition id_of :: "('acc, ('dep, 'tk) candidate) fmap \<Rightarrow> 'acc \<Rightarrow> personal_id option" where
  "id_of cs a = Option.bind (fmlookup cs a) cand_id"

fun is_selected :: "('dep, 'tk) candidate \<Rightarrow> bool" where
  "is_selected (Selected _) = True"
| "is_selected _ = False"

definition selected_count :: "('acc, ('dep, 'tk) candidate) fmap \<Rightarrow> nat" where
  "selected_count cs = fmsum (\<lambda>_ c. of_bool (is_selected c)) cs"

lemma selected_count_card: "selected_count cs = card {a. \<exists>sel. fmlookup cs a = Some (Selected sel)}"
proof -
  have "(\<Sum>k\<in>fmdom' cs. of_bool (is_selected (the (fmlookup cs k))) :: nat)
      = card {k \<in> fmdom' cs. is_selected (the (fmlookup cs k))}"
    by (simp add: sum.inter_filter[symmetric] of_bool_def)
  also have "{k \<in> fmdom' cs. is_selected (the (fmlookup cs k))} = {a. \<exists>sel. fmlookup cs a = Some (Selected sel)}"
    by (auto simp: fmlookup_dom'_iff elim!: is_selected.elims)
  finally show ?thesis by (simp add: selected_count_def fmsum_def)
qed

lemma selected_count_simps:
  "selected_count (fmupd a c cs) = selected_count (fmdrop a cs) + of_bool (is_selected c)"
  "fmlookup cs a = Some c \<Longrightarrow> selected_count (fmdrop a cs) = selected_count cs - of_bool (is_selected c)"
  "fmlookup cs a = None \<Longrightarrow> selected_count (fmdrop a cs) = selected_count cs"
  using fmsum_drop_add[of cs a c "\<lambda>_ c. of_bool (is_selected c)"]
  by (simp_all add: selected_count_def fmsum_upd fmsum_drop_None)

lemma selected_count_pos: "fmlookup cs a = Some (Selected sel) \<Longrightarrow> 0 < selected_count cs"
  using fmsum_ge[of cs a "Selected sel" "\<lambda>_ c. of_bool (is_selected c)"] by (simp add: selected_count_def)

subsection \<open>Designs and their holders\<close>

definition claims_ok :: "('h \<Rightarrow> ('k \<times> 'v) option) \<Rightarrow> ('k, 'v) fmap \<Rightarrow> bool" where
  "claims_ok H ds \<longleftrightarrow>
     (\<forall>h k st. H h = Some (k, st) \<longrightarrow> fmlookup ds k = Some st) \<and>
     (\<forall>k. contains_key ds k \<longrightarrow> (\<exists>h st. H h = Some (k, st))) \<and>
     (\<forall>h h' k st st'. H h = Some (k, st) \<and> H h' = Some (k, st') \<longrightarrow> h = h')"

lemma claims_okI:
  assumes "\<And>h k st. H h = Some (k, st) \<Longrightarrow> fmlookup ds k = Some st"
    and "\<And>k st. fmlookup ds k = Some st \<Longrightarrow> \<exists>h st. H h = Some (k, st)"
    and "\<And>h h' k st st'. H h = Some (k, st) \<Longrightarrow> H h' = Some (k, st') \<Longrightarrow> h = h'"
  shows "claims_ok H ds"
  unfolding claims_ok_def using assms by blast

lemma claims_okD:
  assumes "claims_ok H ds"
  shows "H h = Some (k, st) \<Longrightarrow> fmlookup ds k = Some st"
    and "fmlookup ds k = Some st \<Longrightarrow> \<exists>h. H h = Some (k, st)"
    and "H h = Some (k, st) \<Longrightarrow> H h' = Some (k, st') \<Longrightarrow> h = h'"
  using assms unfolding claims_ok_def by (metis option.distinct(1) option.inject)+

lemma claims_new:
  assumes ok: "claims_ok H ds" and h: "H h = None" and k: "fmlookup ds k = None"
  shows "claims_ok (H(h := Some (k, st))) (fmupd k st ds)"
proof (rule claims_okI)
  note d = claims_okD[OF ok]
  show "fmlookup (fmupd k st ds) k' = Some st'" if "(H(h := Some (k, st))) h' = Some (k', st')" for h' k' st'
    using that d(1)[of h' k' st'] k by (auto split: if_splits)
  show "\<exists>h' st'. (H(h := Some (k, st))) h' = Some (k', st')" if "fmlookup (fmupd k st ds) k' = Some st'" for k' st'
  proof (cases "k' = k")
    case False
    then have "fmlookup ds k' = Some st'" using that by simp
    then obtain h' where "H h' = Some (k', st')" using d(2) by blast
    then show ?thesis using h by (intro exI[of _ h']) auto
  qed auto
  show "h1 = h2" if "(H(h := Some (k, st))) h1 = Some (k', st1)" "(H(h := Some (k, st))) h2 = Some (k', st2)" for h1 h2 k' st1 st2
    using that d(1)[of h1] d(1)[of h2] d(3)[of h1 k' st1 h2 st2] k by (auto split: if_splits)
qed

lemma claims_release:
  assumes ok: "claims_ok H ds" and h: "H h = Some (k, st)"
  shows "claims_ok (H(h := None)) (fmdrop k ds)"
proof (rule claims_okI)
  note d = claims_okD[OF ok]
  show "fmlookup (fmdrop k ds) k' = Some st'" if "(H(h := None)) h' = Some (k', st')" for h' k' st'
    using that d(1)[of h' k' st'] d(3)[OF h, of h' st'] by (auto split: if_splits)
  show "\<exists>h' st'. (H(h := None)) h' = Some (k', st')" if "fmlookup (fmdrop k ds) k' = Some st'" for k' st'
  proof -
    have k': "k' \<noteq> k" "fmlookup ds k' = Some st'" using that by (auto split: if_splits)
    then obtain h' where "H h' = Some (k', st')" using d(2) by blast
    then show ?thesis using h k'(1) by (intro exI[of _ h']) auto
  qed
  show "h1 = h2" if "(H(h := None)) h1 = Some (k', st1)" "(H(h := None)) h2 = Some (k', st2)" for h1 h2 k' st1 st2
    using that d(3)[of h1 k' st1 h2 st2] by (auto split: if_splits)
qed

lemma claims_confirm:
  assumes ok: "claims_ok H ds" and h: "H h = Some (k, st)"
  shows "claims_ok (H(h := Some (k, st'))) (fmupd k st' ds)"
proof -
  have "claims_ok (H(h := None, h := Some (k, st'))) (fmupd k st' (fmdrop k ds))"
    by (rule claims_new[OF claims_release[OF ok h]]) simp_all
  then show ?thesis by (simp add: fmupd_fmdrop_eq)
qed

lemma claims_move:
  assumes ok: "claims_ok H ds" and h: "H h' = None" "h \<noteq> h'"
  shows "claims_ok (H(h' := H h, h := None)) ds"
proof (rule claims_okI)
  note d = claims_okD[OF ok]
  have at: "H (if g = h' then h else g) = Some x \<and> g \<noteq> h" if "(H(h' := H h, h := None)) g = Some x" for g x
    using that by (auto split: if_splits)
  show "fmlookup ds k = Some st" if "(H(h' := H h, h := None)) g = Some (k, st)" for g k st
    by (rule d(1)[OF conjunct1[OF at[OF that]]])
  show "\<exists>g st. (H(h' := H h, h := None)) g = Some (k, st)" if "fmlookup ds k = Some st" for k st
  proof -
    have "\<exists>g. H g = Some (k, st)" by (rule d(2)[OF that])
    then obtain g where g: "H g = Some (k, st)" by blast
    show ?thesis using g h by (intro exI[of _ "if g = h then h' else g"]) auto
  qed
  fix h1 h2 k st1 st2
  assume a: "(H(h' := H h, h := None)) h1 = Some (k, st1)" "(H(h' := H h, h := None)) h2 = Some (k, st2)"
  have "(if h1 = h' then h else h1) = (if h2 = h' then h else h2)"
    by (rule d(3)[OF conjunct1[OF at[OF a(1)]] conjunct1[OF at[OF a(2)]]])
  then show "h1 = h2" using at[OF a(1)] at[OF a(2)] by (simp split: if_splits)
qed

subsection \<open>Referrals and tickets\<close>

definition referrals_ok ::
  "nat \<Rightarrow> ('acc \<Rightarrow> 'i option) \<Rightarrow> ('i \<Rightarrow> 'acc list option) \<Rightarrow> ('i \<Rightarrow> 'tk list) \<Rightarrow> bool" where
  "referrals_ok mx F A T \<longleftrightarrow>
     (\<forall>i xs. A i = Some xs \<longrightarrow> distinct xs \<and> set xs = {a. F a = Some i} \<and> distinct (T i) \<and> length (T i) + length xs \<le> mx) \<and>
     (\<forall>a i. F a = Some i \<longrightarrow> (\<exists>xs. A i = Some xs)) \<and> (\<forall>i. A i = None \<longrightarrow> T i = [])"

lemma referrals_okI:
  assumes "\<And>i xs. A i = Some xs \<Longrightarrow> distinct xs" "\<And>i xs. A i = Some xs \<Longrightarrow> set xs = {a. F a = Some i}"
    and "\<And>i xs. A i = Some xs \<Longrightarrow> distinct (T i)" "\<And>i xs. A i = Some xs \<Longrightarrow> length (T i) + length xs \<le> mx"
    and "\<And>a i. F a = Some i \<Longrightarrow> A i = None \<Longrightarrow> False" "\<And>i. A i = None \<Longrightarrow> T i = []"
  shows "referrals_ok mx F A T"
  unfolding referrals_ok_def using assms by (metis option.exhaust)

lemma referrals_okD:
  assumes "referrals_ok mx F A T"
  shows "A i = Some xs \<Longrightarrow> distinct xs" "A i = Some xs \<Longrightarrow> set xs = {a. F a = Some i}"
    and "A i = Some xs \<Longrightarrow> distinct (T i)" "A i = Some xs \<Longrightarrow> length (T i) + length xs \<le> mx"
    and "F a = Some i \<Longrightarrow> \<exists>xs. A i = Some xs" "A i = None \<Longrightarrow> T i = []"
  using assms unfolding referrals_ok_def by blast+

lemma referrals_drop:
  assumes ok: "referrals_ok mx F A T" and a: "F a = Some i"
  shows "referrals_ok mx (F(a := None)) (A(i := map_option (filter (\<lambda>x. x \<noteq> a)) (A i))) T"
proof (rule referrals_okI)
  note d = referrals_okD[OF ok]
  obtain xs where xs: "A i = Some xs" using d(5)[OF a] by blast
  let ?A = "A(i := map_option (filter (\<lambda>x. x \<noteq> a)) (A i))"
  fix j ys assume y: "?A j = Some ys"
  then have old: "\<exists>zs. A j = Some zs \<and> ys = filter (\<lambda>x. x \<noteq> a) zs"
  proof (cases "j = i")
    case False
    then have aj: "A j = Some ys" using y by simp
    then have "a \<notin> set ys" using d(2)[OF aj] a False by simp
    then have "filter (\<lambda>x. x \<noteq> a) ys = ys" by (intro filter_True) auto
    then show ?thesis using aj by auto
  qed (auto simp: xs)
  then obtain zs where z: "A j = Some zs" "ys = filter (\<lambda>x. x \<noteq> a) zs" by blast
  show "distinct ys" "distinct (T j)" using d(1,3)[OF z(1)] z(2) by simp_all
  show "set ys = {b. (F(a := None)) b = Some j}" using d(2)[OF z(1)] z(2) by auto
  have "length ys \<le> length zs" by (simp add: z(2))
  then show "length (T j) + length ys \<le> mx" using d(4)[OF z(1)] by linarith
next
  note d = referrals_okD[OF ok]
  fix j assume "(A(i := map_option (filter (\<lambda>x. x \<noteq> a)) (A i))) j = None"
  then have n: "A j = None" by (auto split: if_splits)
  then show "T j = []" by (rule d(6))
  fix b assume "(F(a := None)) b = Some j"
  then have "F b = Some j" by (auto split: if_splits)
  then show False using d(5) n by fastforce
qed

lemma referrals_none: "referrals_ok mx F A T \<Longrightarrow> F a = None \<Longrightarrow> referrals_ok mx (F(a := None)) A T"
  by (simp add: fun_upd_idem)

lemma referrals_apply:
  assumes ok: "referrals_ok mx F A T" and a: "F a = None" and xs: "A i = Some xs" and t: "t \<in> set (T i)"
  shows "referrals_ok mx (F(a := Some i)) (A(i := Some (xs @ [a]))) (T(i := remove1 t (T i)))"
proof (rule referrals_okI)
  note d = referrals_okD[OF ok]
  have n: "a \<notin> set xs" using d(2)[OF xs] a by simp
  have l: "length (remove1 t (T i)) + length (xs @ [a]) \<le> mx"
  proof -
    have "length (remove1 t (T i)) + 1 = length (T i)" using length_pos_if_in_set[OF t] t by (simp add: length_remove1)
    then show ?thesis using d(4)[OF xs] by simp
  qed
  fix j ys assume y: "(A(i := Some (xs @ [a]))) j = Some ys"
  have "distinct ys \<and> set ys = {b. (F(a := Some i)) b = Some j} \<and> distinct ((T(i := remove1 t (T i))) j) \<and>
      length ((T(i := remove1 t (T i))) j) + length ys \<le> mx"
  proof (cases "j = i")
    case True
    then have ys: "ys = xs @ [a]" using y by simp
    show ?thesis unfolding ys True using d(1-3)[OF xs] n l a by (simp add: distinct_remove1) blast
  next
    case False
    then have aj: "A j = Some ys" using y by simp
    show ?thesis using d(1-4)[OF aj] False a by auto
  qed
  then show "distinct ys" "set ys = {b. (F(a := Some i)) b = Some j}" "distinct ((T(i := remove1 t (T i))) j)"
    "length ((T(i := remove1 t (T i))) j) + length ys \<le> mx" by blast+
next
  note d = referrals_okD[OF ok]
  fix j assume n: "(A(i := Some (xs @ [a]))) j = None"
  then show "(T(i := remove1 t (T i))) j = []" using d(6)[of j] by (cases "j = i") simp_all
  have ji: "j \<noteq> i" "A j = None" using n by (auto split: if_splits)
  fix b assume "(F(a := Some i)) b = Some j"
  then have "F b = Some j" using ji by (auto split: if_splits)
  then show False using d(5) ji(2) by fastforce
qed

lemma referrals_tickets:
  assumes ok: "referrals_ok mx F A T" and xs: "A i = Some xs" and ts: "distinct ts" "length ts + length xs \<le> mx"
  shows "referrals_ok mx F A (T(i := ts))"
proof (rule referrals_okI)
  note d = referrals_okD[OF ok]
  show "distinct ys" "set ys = {a. F a = Some j}" if "A j = Some ys" for j ys using d(1,2)[OF that] by simp_all
  show "distinct ((T(i := ts)) j)" "length ((T(i := ts)) j) + length ys \<le> mx" if "A j = Some ys" for j ys
    using d(3,4)[OF that] that xs ts by (cases "j = i"; simp)+
  show False if "F a = Some j" "A j = None" for a j using d(5)[OF that(1)] that(2) by simp
  show "(T(i := ts)) j = []" if "A j = None" for j using d(6)[OF that] that xs by (cases "j = i") simp_all
qed

lemma referrals_new:
  assumes ok: "referrals_ok mx F A T" and i: "A i = None"
  shows "referrals_ok mx F (A(i := Some [])) T"
proof (rule referrals_okI)
  note d = referrals_okD[OF ok]
  have n: "{a. F a = Some i} = {}" using d(5) i by fastforce
  fix j xs assume y: "(A(i := Some [])) j = Some xs"
  show "distinct xs" "distinct (T j)" "set xs = {a. F a = Some j}" "length (T j) + length xs \<le> mx"
    using y d(1-4)[of j xs] d(6)[OF i] n by (auto split: if_splits)
next
  note d = referrals_okD[OF ok]
  show "T j = []" if "(A(i := Some [])) j = None" for j using that d(6)[of j] by (auto split: if_splits)
  show False if "F a = Some j" "(A(i := Some [])) j = None" for a j using that d(5)[of a j] by (auto split: if_splits)
qed

subsection \<open>Ids\<close>

definition ids_held ::
  "('acc \<Rightarrow> personal_id option) \<Rightarrow> personal_id set \<Rightarrow> personal_id set \<Rightarrow> personal_id set \<Rightarrow> bool" where
  "ids_held I own reserved people \<longleftrightarrow>
     (\<forall>a i. I a = Some i \<longrightarrow> i \<in> reserved) \<and> (\<forall>a b i. I a = Some i \<and> I b = Some i \<longrightarrow> a = b) \<and>
     own \<subseteq> people \<and> reserved \<inter> people = {}"

lemma ids_held_new:
  "ids_held I own R P \<Longrightarrow> i \<notin> R \<Longrightarrow> i \<notin> P \<Longrightarrow> I a = None \<Longrightarrow> ids_held (I(a := Some i)) own (insert i R) P"
  unfolding ids_held_def by auto

lemma ids_held_cancel:
  "ids_held I own R P \<Longrightarrow> I a = Some i \<Longrightarrow> ids_held (I(a := None)) own (R - {i}) P"
  unfolding ids_held_def by auto

lemma ids_held_register:
  "ids_held I own R P \<Longrightarrow> I a = Some i \<Longrightarrow> ids_held (I(a := None)) (insert i own) (R - {i}) (insert i P)"
  unfolding ids_held_def by auto

subsection \<open>The invariant\<close>

definition poi_inv ::
  "('acc, 'tk, 'dep, 'x, 'w, 'o, 'm, 'sig, 'ts) icfg \<Rightarrow> ('w \<Rightarrow> bool) \<Rightarrow> ('w \<Rightarrow> personal_id set) \<Rightarrow> ('w \<Rightarrow> personal_id set)
     \<Rightarrow> ('acc, 'tk, 'dep, 'w) ist \<Rightarrow> bool" where
  "poi_inv cfg good reserved people s \<longleftrightarrow>
     good (p_world s) \<and>
     AllocationCount s = selected_count (Candidates s) \<and>
     claims_ok (claim_of (Candidates s) (PoiPeople s)) (CommittedDesigns s) \<and>
     referrals_ok (c_max_active_referrals cfg) (referrer_of (Candidates s)) (active_of (PoiPeople s))
       (get_or [] (ReferralTickets s)) \<and>
     ids_held (id_of (Candidates s)) {i. contains_key (PoiPeople s) i} (reserved (p_world s)) (people (p_world s)) \<and>
     (\<forall>vs. ReferrerReimbursementValues s = Some vs \<longrightarrow> values_valid vs) \<and>
     (\<forall>vs. ReferredReimbursementValues s = Some vs \<longrightarrow> values_valid vs)"

lemma poi_invD:
  assumes "poi_inv cfg good reserved people s"
  shows "good (p_world s)" "AllocationCount s = selected_count (Candidates s)"
    and "claims_ok (claim_of (Candidates s) (PoiPeople s)) (CommittedDesigns s)"
    and "referrals_ok (c_max_active_referrals cfg) (referrer_of (Candidates s)) (active_of (PoiPeople s)) (get_or [] (ReferralTickets s))"
    and "ids_held (id_of (Candidates s)) {i. contains_key (PoiPeople s) i} (reserved (p_world s)) (people (p_world s))"
    and "\<And>vs. ReferrerReimbursementValues s = Some vs \<Longrightarrow> values_valid vs"
    and "\<And>vs. ReferredReimbursementValues s = Some vs \<Longrightarrow> values_valid vs"
  using assms by (simp_all add: poi_inv_def)

lemma poi_inv_genesis:
  "good w \<Longrightarrow> reserved w \<inter> people w = {} \<Longrightarrow> poi_inv cfg good reserved people (poi_genesis w)"
  by (auto simp: poi_inv_def poi_genesis_def selected_count_def claims_ok_def referrals_ok_def ids_held_def referrer_of_def
      active_of_def id_of_def elim!: claim_of.elims)

text \<open>What an update of the storage does to the views.\<close>

lemma claim_of_updates:
  "claim_of (fmupd a c cs) ps = (claim_of cs ps)(HCandidate a := cand_claim c)"
  "claim_of (fmdrop a cs) ps = (claim_of cs ps)(HCandidate a := None)"
  "claim_of cs (fmupd i p ps) = (claim_of cs ps)(HPerson i := pers_claim p)"
proof -
  show "claim_of (fmupd a c cs) ps = (claim_of cs ps)(HCandidate a := cand_claim c)"
  proof
    fix h show "claim_of (fmupd a c cs) ps h = ((claim_of cs ps)(HCandidate a := cand_claim c)) h" by (cases h) auto
  qed
  show "claim_of (fmdrop a cs) ps = (claim_of cs ps)(HCandidate a := None)"
  proof
    fix h show "claim_of (fmdrop a cs) ps h = ((claim_of cs ps)(HCandidate a := None)) h" by (cases h) auto
  qed
  show "claim_of cs (fmupd i p ps) = (claim_of cs ps)(HPerson i := pers_claim p)"
  proof
    fix h show "claim_of cs (fmupd i p ps) h = ((claim_of cs ps)(HPerson i := pers_claim p)) h" by (cases h) auto
  qed
qed

lemma view_updates:
  "referrer_of (fmupd a c cs) = (referrer_of cs)(a := cand_referrer c)"
  "referrer_of (fmdrop a cs) = (referrer_of cs)(a := None)"
  "id_of (fmupd a c cs) = (id_of cs)(a := cand_id c)"
  "id_of (fmdrop a cs) = (id_of cs)(a := None)"
  "active_of (fmupd i p ps) = (active_of ps)(i := Some (pp_active_referrals p))"
  "get_or [] (fmupd i ts tm) = (get_or [] tm)(i := ts)"
  "get_or [] (fmdrop i tm) = (get_or [] tm)(i := [])"
  by (rule ext, simp add: referrer_of_def id_of_def active_of_def)+

lemmas poi_views = claim_of_updates view_updates

lemma view_lookup:
  assumes "fmlookup cs a = Some c"
  shows "claim_of cs ps (HCandidate a) = cand_claim c" "referrer_of cs a = cand_referrer c" "id_of cs a = cand_id c"
  using assms by (simp_all add: referrer_of_def id_of_def)

lemma view_absent:
  assumes "fmlookup cs a = None"
  shows "claim_of cs ps (HCandidate a) = None" "referrer_of cs a = None" "id_of cs a = None"
  using assms by (simp_all add: referrer_of_def id_of_def)

lemma fun_upd_same: "f x = y \<Longrightarrow> f(x := y) = f"
  by (simp add: fun_upd_idem)

text \<open>A person whose record changes, but neither the design nor the referrals.\<close>

lemma person_kept:
  assumes "fmlookup ps i = Some p" "pp_design p' = pp_design p"
  shows "claim_of cs (fmupd i p' ps) = claim_of cs ps" "{j. contains_key (fmupd i p' ps) j} = {j. contains_key ps j}"
proof -
  have "claim_of cs ps (HPerson i) = pers_claim p'" using assms by (simp add: pers_claim_def)
  then show "claim_of cs (fmupd i p' ps) = claim_of cs ps" unfolding claim_of_updates by (rule fun_upd_same)
  show "{j. contains_key (fmupd i p' ps) j} = {j. contains_key ps j}" using assms(1) by (auto split: if_splits)
qed

end
