(* ===== verification/ProofOfInk_Steps.thy ===== *)
theory ProofOfInk_Steps
  imports ProofOfInk_Invariant
begin

text \<open>
  Every transaction of \<^verbatim>\<open>pallets/proof-of-ink/src/lib.rs\<close> keeps the invariant. The locale \<open>people_reservations\<close> is the
  interface of the registry of people, \<^verbatim>\<open>support/src/traits/reality.rs\<close>, as the pallet uses it: ids are reserved,
  given back, or turned into people. The lemmas of the handlers are proved once inside it.
\<close>

subsection \<open>The interface of the registry\<close>

text \<open>The operations of the rest of the chain that do not concern the registry.\<close>

datatype ('acc, 'dep, 'n) world_call =
  DepositNew 'acc | DepositDrop 'dep 'acc | DepositBurn 'dep 'acc | IncSuff 'acc | DecSuff 'acc | IncProv 'acc | DecProv 'acc
| AllocateStorage 'acc nat nat | RefreshAllocation 'acc | JudgeStatement statement bytes callback | TransferFunds 'acc balance
| PrepareNonce 'acc 'n

definition succeed :: "'e + 'a \<Rightarrow> 'a option" where
  "succeed m = (case m of Inr x \<Rightarrow> Some x | Inl _ \<Rightarrow> None)"

lemma succeed_simps [simp]: "succeed (Inr x) = Some x" "succeed (Inl e) = None"
  by (simp_all add: succeed_def)

fun world_do ::
  "('acc, 'tk, 'dep, 'x, 'w, 'o, 'm, 'sig, 'ts) icfg \<Rightarrow> ('acc \<Rightarrow> 'n \<Rightarrow> 'w \<Rightarrow> invalid_transaction + 'w)
     \<Rightarrow> ('acc, 'dep, 'n) world_call \<Rightarrow> 'w \<Rightarrow> 'w option" where
  "world_do cfg prep (DepositNew a) w = map_option fst (succeed (c_deposit_new cfg a w))"
| "world_do cfg prep (DepositDrop d a) w = succeed (c_deposit_drop cfg d a w)"
| "world_do cfg prep (DepositBurn d a) w = Some (c_deposit_burn cfg d a w)"
| "world_do cfg prep (IncSuff a) w = Some (c_inc_sufficients cfg a w)"
| "world_do cfg prep (DecSuff a) w = Some (c_dec_sufficients cfg a w)"
| "world_do cfg prep (IncProv a) w = Some (c_inc_providers cfg a w)"
| "world_do cfg prep (DecProv a) w = Some (c_dec_providers cfg a w)"
| "world_do cfg prep (AllocateStorage a n m) w = succeed (c_allocate cfg a n m w)"
| "world_do cfg prep (RefreshAllocation a) w = succeed (c_refresh cfg a w)"
| "world_do cfg prep (JudgeStatement st ctx cb) w = map_option fst (succeed (c_judge cfg st ctx cb w))"
| "world_do cfg prep (TransferFunds a n) w = map_option fst (succeed (c_transfer cfg (c_pot cfg) a n Expendable w))"
| "world_do cfg prep (PrepareNonce a n) w = succeed (prep a n w)"

definition unchanged_on ::
  "('w \<Rightarrow> bool) \<Rightarrow> ('w \<Rightarrow> bool) \<Rightarrow> ('w \<Rightarrow> personal_id set) \<Rightarrow> ('w \<Rightarrow> personal_id set) \<Rightarrow> 'w \<Rightarrow> 'w \<Rightarrow> bool" where
  "unchanged_on good room reserved people w w' \<longleftrightarrow>
     (good w \<longrightarrow> good w' \<and> reserved w' = reserved w \<and> people w' = people w \<and> (room w \<longrightarrow> room w'))"

text \<open>The account of an origin that applies is not a candidate yet: what the extension checks.\<close>

definition applicant_ok :: "('acc, 'o) poi_origin \<Rightarrow> ('acc, 'tk, 'm, 'sig, 'ts, 'w) poi_call \<Rightarrow> ('acc, 'tk, 'dep, 'w) ist \<Rightarrow> bool" where
  "applicant_ok origin call s \<longleftrightarrow>
     (\<forall>a. origin = AuthorizedApplyWithSig a \<longrightarrow> fmlookup (Candidates s) a = None) \<and>
     (\<forall>a i t g. origin = InvitedCandidate a \<and> call = CallApplyWithInvitation i t g \<longrightarrow> fmlookup (Candidates s) a = None)"

text \<open>
  The side conditions of a step: there is room for an id where one is reserved, the configured maximum is a \<open>u32\<close>, and
  the rest of the chain keeps the reservations of candidates and the people of the pallet.
\<close>

definition poi_call_ok ::
  "('w \<Rightarrow> bool) \<Rightarrow> ('w \<Rightarrow> bool) \<Rightarrow> ('w \<Rightarrow> personal_id set) \<Rightarrow> ('w \<Rightarrow> personal_id set)
     \<Rightarrow> ('acc, 'tk, 'm, 'sig, 'ts, 'w) poi_call \<Rightarrow> ('acc, 'tk, 'dep, 'w) ist \<Rightarrow> bool" where
  "poi_call_ok good room reserved people call s \<longleftrightarrow>
     maximum (Configuration s) \<le> max_of 32 \<and>
     (case call of
        CallCommit _ None \<Rightarrow> room (p_world s)
      | CallOther w \<Rightarrow> good w \<and> (\<forall>a i. id_of (Candidates s) a = Some i \<longrightarrow> i \<in> reserved w) \<and>
          (\<forall>i. contains_key (PoiPeople s) i \<longrightarrow> i \<in> people w)
      | _ \<Rightarrow> True)"

subsection \<open>The branches of a judgement\<close>

definition judged_info ::
  "('acc, 'tk, 'dep, 'x, 'w, 'o, 'm, 'sig, 'ts) icfg \<Rightarrow> ('dep, 'tk) selected \<Rightarrow> ('acc, 'tk, 'dep, 'w) ist \<Rightarrow> post_info" where
  "judged_info cfg sel s = \<lparr>actual_weight = Some (weight_judged cfg (initial_referral_count (sel_cred sel) s - 1)), pays_fee = Pays_No\<rparr>"

lemma judged_branches:
  assumes root: "outer (c_root cfg) origin" and a: "c_decode cfg context = Some a"
    and c: "fmlookup (Candidates s) a = Some (Selected sel)" and j: "sel_judging sel = Some ticket"
  defines "sel1 \<equiv> sel\<lparr>sel_judging := None\<rparr>"
  shows "judged cfg origin ticket context judgement s =
    (if judgement = Contempt
     then bindE (fail_candidate cfg (referral_contemptuous cfg) a sel1 judgement s) (\<lambda>s1. Inr (s1, judged_info cfg sel s))
     else if judgement = Truth Truth_False \<or> sel_allocation sel = InitDone
     then if sat_inc 32 (sel_failed sel) > c_max_retry_attempts cfg
          then bindE (fail_candidate cfg (referral_bad cfg) a sel1 judgement s) (\<lambda>s1. Inr (s1, judged_info cfg sel s))
          else bindE (on_world (c_refresh cfg a) (poi_deposit (RetryGranted a (sat_inc 32 (sel_failed sel))) s)) (\<lambda>s1.
               Inr (poi_deposit (JudgementProvided a judgement)
                 (put_candidate a (Selected (sel1\<lparr>sel_failed := sat_inc 32 (sel_failed sel)\<rparr>)) s1), judged_info cfg sel s))
     else if sel_allocation sel = Full
     then Inr (poi_deposit (JudgementProvided a judgement)
            (put_candidate a (Proven \<lparr>prv_design = sel_design sel, prv_reserved = sel_reserved sel,
                prv_referred = (case sel_cred sel of Referred _ \<Rightarrow> True | _ \<Rightarrow> False),
                prv_invited = (case sel_cred sel of Invited _ \<Rightarrow> True | _ \<Rightarrow> False)\<rparr>)
              (mark_design Committed (sel_design sel)
                (case sel_cred sel of
                   Referred who \<Rightarrow> referral_ok cfg who a (s\<lparr>AllocationCount := AllocationCount s - 1\<rparr>)
                 | Deposit deposit \<Rightarrow> return_deposit cfg deposit a (s\<lparr>AllocationCount := AllocationCount s - 1\<rparr>)
                 | Invited _ \<Rightarrow> s\<lparr>AllocationCount := AllocationCount s - 1\<rparr>))), judged_info cfg sel s)
     else Inr (poi_deposit (JudgementProvided a judgement)
            (put_candidate a (Selected (sel1\<lparr>sel_allocation := InitDone\<rparr>)) s), judged_info cfg sel s))"
  using root a c j unfolding judged_def sel1_def judged_info_def
  by (cases "sel_allocation sel"; cases "sel_cred sel") (simp_all add: Let_def)

subsection \<open>The interface\<close>

locale people_reservations =
  fixes cfg :: "('acc, 'tk, 'dep, 'x, 'w, 'o, 'm, 'sig, 'ts) icfg"
    and prepare_nonce :: "'acc \<Rightarrow> 'n \<Rightarrow> 'w \<Rightarrow> invalid_transaction + 'w"
    and good :: "'w \<Rightarrow> bool"
    and room :: "'w \<Rightarrow> bool"
    and reserved :: "'w \<Rightarrow> personal_id set"
    and people :: "'w \<Rightarrow> personal_id set"
  assumes apart_law: "good w \<Longrightarrow> reserved w \<inter> people w = {}"
    and reserve_law: "good w \<Longrightarrow> room w \<Longrightarrow> c_reserve cfg w = (i, w') \<Longrightarrow>
      good w' \<and> i \<notin> reserved w \<and> i \<notin> people w \<and> reserved w' = insert i (reserved w) \<and> people w' = people w"
    and renew_law: "good w \<Longrightarrow> c_renew cfg i w = Inr w' \<Longrightarrow>
      good w' \<and> i \<notin> reserved w \<and> i \<notin> people w \<and> reserved w' = insert i (reserved w) \<and> people w' = people w"
    and cancel_law: "good w \<Longrightarrow> c_cancel cfg i w = Inr w' \<Longrightarrow>
      good w' \<and> reserved w' = reserved w - {i} \<and> people w' = people w"
    and cancel_ok: "good w \<Longrightarrow> i \<in> reserved w \<Longrightarrow> is_ok (c_cancel cfg i w)"
    and recognize_law: "good w \<Longrightarrow> c_recognize cfg i (Some k) w = Inr w' \<Longrightarrow>
      good w' \<and> reserved w' = reserved w - {i} \<and> people w' = insert i (people w)"
    and other_law: "world_do cfg prepare_nonce c w = Some w' \<Longrightarrow> unchanged_on good room reserved people w w'"

context people_reservations
begin

abbreviation inv :: "('acc, 'tk, 'dep, 'w) ist \<Rightarrow> bool" where
  "inv \<equiv> poi_inv cfg good reserved people"

abbreviation unchanged :: "'w \<Rightarrow> 'w \<Rightarrow> bool" where
  "unchanged \<equiv> unchanged_on good room reserved people"

lemmas unchanged_def = unchanged_on_def [of good room reserved people]

lemma unchanged_refl [simp]: "unchanged w w"
  by (simp add: unchanged_def)

lemma unchanged_trans: "unchanged w w1 \<Longrightarrow> unchanged w1 w2 \<Longrightarrow> unchanged w w2"
  by (simp add: unchanged_def)

lemma world_unchanged:
  shows "c_deposit_new cfg a w = Inr (w', dep) \<Longrightarrow> unchanged w w'"
    and "c_deposit_drop cfg dep a w = Inr w' \<Longrightarrow> unchanged w w'"
    and "unchanged w (c_deposit_burn cfg dep a w)"
    and "unchanged w (c_inc_sufficients cfg a w)" "unchanged w (c_dec_sufficients cfg a w)"
    and "unchanged w (c_inc_providers cfg a w)" "unchanged w (c_dec_providers cfg a w)"
    and "c_allocate cfg a n m w = Inr w' \<Longrightarrow> unchanged w w'"
    and "c_refresh cfg a w = Inr w' \<Longrightarrow> unchanged w w'"
    and "c_judge cfg st ctx cb w = Inr (w', t) \<Longrightarrow> unchanged w w'"
    and "c_transfer cfg (c_pot cfg) a n Expendable w = Inr (w', k) \<Longrightarrow> unchanged w w'"
    and "prepare_nonce a nn w = Inr w' \<Longrightarrow> unchanged w w'"
  using other_law[of "DepositNew a" w w'] other_law[of "DepositDrop dep a" w w'] other_law[of "DepositBurn dep a" w]
    other_law[of "IncSuff a" w] other_law[of "DecSuff a" w] other_law[of "IncProv a" w] other_law[of "DecProv a" w]
    other_law[of "AllocateStorage a n m" w w'] other_law[of "RefreshAllocation a" w w'] other_law[of "JudgeStatement st ctx cb" w w']
    other_law[of "TransferFunds a n" w w'] other_law[of "PrepareNonce a nn" w w']
  by simp_all

subsection \<open>Steps that leave the views alone\<close>

text \<open>The fields the invariant reads.\<close>

lemma inv_cong:
  assumes "inv s" "unchanged (p_world s) (p_world s')"
    and "Candidates s' = Candidates s" "AllocationCount s' = AllocationCount s" "CommittedDesigns s' = CommittedDesigns s"
    and "PoiPeople s' = PoiPeople s" "ReferralTickets s' = ReferralTickets s"
    and "ReferrerReimbursementValues s' = ReferrerReimbursementValues s"
    and "ReferredReimbursementValues s' = ReferredReimbursementValues s"
  shows "inv s'"
  using assms unfolding poi_inv_def unchanged_def by simp

lemma inv_deposit [simp]: "inv (poi_deposit e s) = inv s"
  by (simp add: poi_deposit_def poi_inv_def)

lemma inv_same_world: "inv s \<Longrightarrow> unchanged (p_world s) w \<Longrightarrow> inv (s\<lparr>p_world := w\<rparr>)"
  by (rule inv_cong) simp_all

text \<open>A candidate whose status changes, but nothing another candidate or person could see.\<close>

lemma inv_candidate:
  assumes inv: "inv s" and c: "fmlookup (Candidates s) a = Some c"
    and same: "cand_claim c' = cand_claim c" "cand_referrer c' = cand_referrer c" "cand_id c' = cand_id c"
      "is_selected c' = is_selected c"
  shows "inv (put_candidate a c' s)"
proof -
  have "claim_of (fmupd a c' (Candidates s)) ps = claim_of (Candidates s) ps" for ps
    unfolding claim_of_updates by (rule fun_upd_same) (simp add: c same)
  moreover have "referrer_of (fmupd a c' (Candidates s)) = referrer_of (Candidates s)" "id_of (fmupd a c' (Candidates s)) = id_of (Candidates s)"
    unfolding view_updates by (simp_all add: fun_upd_same view_lookup[OF c] same)
  moreover have "selected_count (fmupd a c' (Candidates s)) = selected_count (Candidates s)"
    unfolding selected_count_simps(1) selected_count_simps(2)[OF c] same
    using selected_count_pos[of "Candidates s" a] c by (cases c) simp_all
  ultimately show ?thesis using inv by (simp add: poi_inv_def put_candidate_def)
qed

text \<open>A new candidate.\<close>

lemma count_new: "fmlookup cs a = None \<Longrightarrow> selected_count (fmupd a c cs) = selected_count cs + of_bool (is_selected c)"
  by (simp add: selected_count_simps)

lemma inv_new_candidate:
  assumes inv: "inv s" and none: "fmlookup (Candidates s) a = None"
    and c: "cand_claim c = None" "cand_referrer c = None" "cand_id c = None" "\<not> is_selected c"
  shows "inv (put_candidate a c s)"
proof -
  have "claim_of (fmupd a c (Candidates s)) ps = claim_of (Candidates s) ps" for ps
    unfolding claim_of_updates by (rule fun_upd_same) (simp add: none c)
  moreover have "referrer_of (fmupd a c (Candidates s)) = referrer_of (Candidates s)" "id_of (fmupd a c (Candidates s)) = id_of (Candidates s)"
    unfolding view_updates by (simp_all add: fun_upd_same view_absent[OF none] c)
  ultimately show ?thesis using inv count_new[OF none, of c] c(4) by (simp add: poi_inv_def put_candidate_def)
qed

subsection \<open>What becomes of the credibility\<close>

definition cred_referrer :: "('dep, 'tk) credibility \<Rightarrow> personal_id option" where
  "cred_referrer cred = (case cred of Referred i \<Rightarrow> Some i | _ \<Rightarrow> None)"

text \<open>\<open>settles a cred s s'\<close>: the referrer, if there is one, no longer lists \<open>a\<close>, and nothing else changes.\<close>

definition settles ::
  "'acc \<Rightarrow> ('dep, 'tk) credibility \<Rightarrow> ('acc, 'tk, 'dep, 'w) ist \<Rightarrow> ('acc, 'tk, 'dep, 'w) ist \<Rightarrow> bool" where
  "settles a cred s s' \<longleftrightarrow>
     (\<exists>ps w. s' = s\<lparr>PoiPeople := ps, p_world := w\<rparr> \<and> unchanged (p_world s) w \<and>
       (\<forall>cs :: ('acc, ('dep, 'tk) candidate) fmap. claim_of cs ps = claim_of cs (PoiPeople s)) \<and>
       {j. contains_key ps j} = {j. contains_key (PoiPeople s) j} \<and>
       (case cred_referrer cred of
          Some i \<Rightarrow> active_of ps = (active_of (PoiPeople s))(i := map_option (filter (\<lambda>x. x \<noteq> a)) (active_of (PoiPeople s) i))
        | None \<Rightarrow> active_of ps = active_of (PoiPeople s)))"

lemma settles_world:
  assumes "cred_referrer cred = None" "unchanged (p_world s) w"
  shows "settles a cred s (s\<lparr>p_world := w\<rparr>)"
  unfolding settles_def using assms by (intro exI[of _ "PoiPeople s"] exI[of _ w]) simp

lemma settles_mutate:
  assumes f: "\<And>p. pp_design (f p) = pp_design p" "\<And>p. pp_active_referrals (f p) = filter (\<lambda>x. x \<noteq> a) (pp_active_referrals p)"
    and w: "unchanged (p_world s) w"
  shows "settles a (Referred i) s ((mutate_extant i f s)\<lparr>p_world := w\<rparr>)"
proof (cases "fmlookup (PoiPeople s) i")
  case None
  then have "active_of (PoiPeople s) i = None" by (simp add: active_of_def)
  then show ?thesis unfolding settles_def using None w
    by (intro exI[of _ "PoiPeople s"] exI[of _ w]) (simp add: mutate_extant_def cred_referrer_def fun_upd_same)
next
  case (Some p)
  have k: "claim_of cs (fmupd i (f p) (PoiPeople s)) = claim_of cs (PoiPeople s)" for cs :: "('acc, ('dep, 'tk) candidate) fmap"
    by (rule person_kept(1)[OF Some f(1)])
  have "active_of (PoiPeople s) i = Some (pp_active_referrals p)" using Some by (simp add: active_of_def)
  then show ?thesis unfolding settles_def using Some w k person_kept(2)[OF Some f(1)]
    by (intro exI[of _ "fmupd i (f p) (PoiPeople s)"] exI[of _ w])
      (simp add: mutate_extant_def cred_referrer_def poi_views f(2))
qed

lemma mutate_world: "p_world (mutate_extant i f s) = p_world s"
  by (simp add: mutate_extant_def split: option.splits)

lemma mutate_same_world: "(mutate_extant i f s)\<lparr>p_world := p_world s\<rparr> = mutate_extant i f s"
  by (simp add: mutate_extant_def split: option.splits)

lemma referral_settles:
  "settles a (Referred i) s (referral_ok cfg i a s)"
  "settles a (Referred i) s (referral_flaked cfg i a s)"
  "settles a (Referred i) s (referral_bad cfg i a s)"
  "settles a (Referred i) s (referral_contemptuous cfg i a s)"
proof -
  have "settles a (Referred i) s ((referral_ok cfg i a s)\<lparr>p_world := p_world s\<rparr>)"
    unfolding referral_ok_def by (rule settles_mutate) (simp_all add: drop_referral_def Let_def)
  then show "settles a (Referred i) s (referral_ok cfg i a s)" by (simp add: referral_ok_def mutate_same_world)
  show "settles a (Referred i) s (referral_flaked cfg i a s)"
    unfolding referral_flaked_def dec_sufficients_def mutate_world
    by (rule settles_mutate) (simp_all add: drop_referral_def world_unchanged)
  show "settles a (Referred i) s (referral_bad cfg i a s)"
    unfolding referral_bad_def dec_sufficients_def mutate_world
    by (rule settles_mutate) (simp_all add: drop_referral_def world_unchanged)
  show "settles a (Referred i) s (referral_contemptuous cfg i a s)"
    unfolding referral_contemptuous_def dec_sufficients_def mutate_world
    by (rule settles_mutate) (simp_all add: drop_referral_def world_unchanged)
qed

lemma lose_settles:
  assumes "\<And>i. settles a (Referred i) s (referral i a s)"
  shows "settles a cred s (lose_credibility cfg referral cred a s)"
proof (cases cred)
  case (Referred i)
  then show ?thesis using assms by (simp add: lose_credibility_def)
next
  case (Deposit d)
  then show ?thesis using settles_world[of cred s "c_deposit_burn cfg d a (p_world s)"]
    by (simp add: lose_credibility_def cred_referrer_def world_unchanged)
next
  case (Invited t)
  then show ?thesis using settles_world[of cred s "c_dec_sufficients cfg a (p_world s)"]
    by (simp add: lose_credibility_def dec_sufficients_def cred_referrer_def world_unchanged)
qed

lemma return_deposit_settles:
  assumes "cred_referrer cred = None"
  shows "settles a cred s (return_deposit cfg d a s)"
proof (cases "c_deposit_drop cfg d a (p_world s)")
  case (Inl e)
  then show ?thesis using settles_world[OF assms, of s "p_world s"] by (simp add: return_deposit_def)
next
  case (Inr w)
  then show ?thesis using settles_world[OF assms world_unchanged(2)[OF Inr]] by (simp add: return_deposit_def)
qed

lemma settles_referrals:
  assumes st: "settles a cred s s'" and ok: "referrals_ok mx F (active_of (PoiPeople s)) T" and a: "F a = cred_referrer cred"
  shows "referrals_ok mx (F(a := None)) (active_of (PoiPeople s')) T"
proof (cases "cred_referrer cred")
  case None
  then show ?thesis using st ok a unfolding settles_def by (auto simp: fun_upd_same)
next
  case (Some i)
  then have "F a = Some i" using a by simp
  from referrals_drop[OF ok this] show ?thesis using st Some unfolding settles_def by auto
qed

lemma settlesD:
  assumes "settles a cred s s'"
  shows "Candidates s' = Candidates s" "AllocationCount s' = AllocationCount s" "CommittedDesigns s' = CommittedDesigns s"
    "ReferralTickets s' = ReferralTickets s" "ReferrerReimbursementValues s' = ReferrerReimbursementValues s"
    "ReferredReimbursementValues s' = ReferredReimbursementValues s" "unchanged (p_world s) (p_world s')"
    "claim_of (cs :: ('acc, ('dep, 'tk) candidate) fmap) (PoiPeople s') = claim_of cs (PoiPeople s)"
    "{j. contains_key (PoiPeople s') j} = {j. contains_key (PoiPeople s) j}"
proof -
  obtain ps w where "s' = s\<lparr>PoiPeople := ps, p_world := w\<rparr>" "unchanged (p_world s) w"
    and "\<forall>cs :: ('acc, ('dep, 'tk) candidate) fmap. claim_of cs ps = claim_of cs (PoiPeople s)"
    and "{j. contains_key ps j} = {j. contains_key (PoiPeople s) j}" using assms unfolding settles_def by blast
  then show "Candidates s' = Candidates s" "AllocationCount s' = AllocationCount s" "CommittedDesigns s' = CommittedDesigns s"
    "ReferralTickets s' = ReferralTickets s" "ReferrerReimbursementValues s' = ReferrerReimbursementValues s"
    "ReferredReimbursementValues s' = ReferredReimbursementValues s" "unchanged (p_world s) (p_world s')"
    "claim_of (cs :: ('acc, ('dep, 'tk) candidate) fmap) (PoiPeople s') = claim_of cs (PoiPeople s)"
    "{j. contains_key (PoiPeople s') j} = {j. contains_key (PoiPeople s) j}" by simp_all
qed

subsection \<open>Applying\<close>

lemma on_world_Inr: "on_world f s = Inr s' \<longleftrightarrow> (\<exists>w. f (p_world s) = Inr w \<and> s' = s\<lparr>p_world := w\<rparr>)"
  by (auto simp: on_world_def res_simps)

text \<open>A handler for one status of the candidate succeeds in that status.\<close>

lemma status_Inr [res_simps]:
  "(case st of Applied c e t \<Rightarrow> f c e t | Selected _ \<Rightarrow> Inl x | Proven _ \<Rightarrow> Inl y) = Inr r \<longleftrightarrow>
    (\<exists>c e t. st = Applied c e t \<and> f c e t = Inr r)"
  "(case st of Applied _ _ _ \<Rightarrow> Inl x | Selected sel \<Rightarrow> g sel | Proven _ \<Rightarrow> Inl y) = Inr r \<longleftrightarrow>
    (\<exists>sel. st = Selected sel \<and> g sel = Inr r)"
  "(case st of Applied _ _ _ \<Rightarrow> Inl x | Selected _ \<Rightarrow> Inl y | Proven prv \<Rightarrow> h prv) = Inr r \<longleftrightarrow>
    (\<exists>prv. st = Proven prv \<and> h prv = Inr r)"
  by (cases st; simp)+

lemma poi_apply_inv:
  assumes inv: "inv s" and run: "poi_apply cfg now origin s = Inr (s', info)"
  shows "inv s'"
proof -
  obtain a w d e where n: "fmlookup (Candidates s) a = None" and w: "c_deposit_new cfg a (p_world s) = Inr (w, d)"
    and s': "s' = poi_deposit (CandidateApplied a) (put_candidate a (Applied (Deposit d) e now) (s\<lparr>p_world := w\<rparr>))"
    using run by (auto simp: poi_apply_def res_simps Let_def)
  show ?thesis unfolding s' inv_deposit
    by (rule inv_new_candidate[OF inv_same_world[OF inv world_unchanged(1)[OF w]]]) (simp_all add: n)
qed

lemma apply_with_invitation_inv:
  assumes inv: "inv s" and run: "apply_with_invitation cfg now origin inviter ticket s = Inr (s', info)"
    and new: "\<And>a. origin = InvitedCandidate a \<Longrightarrow> fmlookup (Candidates s) a = None"
  shows "inv s'"
proof -
  obtain a e where a: "origin = InvitedCandidate a"
    and s': "s' = poi_deposit (InvitedCandidateApplied a inviter) (inc_sufficients cfg a
        (put_candidate a (Applied (Invited ticket) e now) (s\<lparr>PendingInvites := fmdrop (inviter, ticket) (PendingInvites s)\<rparr>)))"
    using run by (cases origin) (auto simp: apply_with_invitation_def res_simps Let_def)
  have "inv (put_candidate a (Applied (Invited ticket) e now) (s\<lparr>PendingInvites := fmdrop (inviter, ticket) (PendingInvites s)\<rparr>))"
    by (rule inv_new_candidate[OF inv_cong[OF inv]]) (simp_all add: new[OF a])
  then show ?thesis unfolding s' inv_deposit inc_sufficients_def by (rule inv_same_world) (rule world_unchanged)
qed

lemma apply_with_signature_inv:
  assumes inv: "inv s" and run: "apply_with_signature cfg now origin referrer signature ticket s = Inr (s', info)"
    and new: "\<And>a. origin = AuthorizedApplyWithSig a \<Longrightarrow> fmlookup (Candidates s) a = None"
  shows "inv s'"
proof -
  obtain a e tickets p where a: "origin = AuthorizedApplyWithSig a" and t: "fmlookup (ReferralTickets s) referrer = Some tickets"
    "ticket \<in> set tickets" and p: "fmlookup (PoiPeople s) referrer = Some p"
    and s': "s' = poi_deposit (TicketApplied a referrer) (inc_sufficients cfg a
        (s\<lparr>ReferralTickets := (if remove1 ticket tickets = [] then fmdrop referrer (ReferralTickets s)
               else fmupd referrer (remove1 ticket tickets) (ReferralTickets s)),
            Candidates := fmupd a (Applied (Referred referrer) e now) (Candidates s),
            PoiPeople := fmupd referrer (p\<lparr>pp_active_referrals := pp_active_referrals p @ [a], pp_referrals := sat_inc 32 (pp_referrals p)\<rparr>)
              (PoiPeople s)\<rparr>))"
    using run by (cases origin; simp add: apply_with_signature_def res_simps Let_def put_candidate_def cong: if_cong) blast
  note d = poi_invD[OF inv]
  have n: "fmlookup (Candidates s) a = None" by (rule new[OF a])
  let ?T = "if remove1 ticket tickets = [] then fmdrop referrer (ReferralTickets s)
               else fmupd referrer (remove1 ticket tickets) (ReferralTickets s)"
  let ?p = "p\<lparr>pp_active_referrals := pp_active_referrals p @ [a], pp_referrals := sat_inc 32 (pp_referrals p)\<rparr>"
  have T: "get_or [] ?T = (get_or [] (ReferralTickets s))(referrer := remove1 ticket (get_or [] (ReferralTickets s) referrer))"
    by (simp add: view_updates get_or_Some[OF t(1)])
  have A: "active_of (PoiPeople s) referrer = Some (pp_active_referrals p)" by (simp add: active_of_def p)
  have "referrals_ok (c_max_active_referrals cfg) ((referrer_of (Candidates s))(a := Some referrer))
      ((active_of (PoiPeople s))(referrer := Some (pp_active_referrals p @ [a]))) (get_or [] ?T)"
    unfolding T by (rule referrals_apply[OF d(4) _ A]) (simp_all add: view_absent[OF n] get_or_Some[OF t(1)] t(2))
  moreover have "claim_of (fmupd a (Applied (Referred referrer) e now) (Candidates s)) (fmupd referrer ?p (PoiPeople s))
      = claim_of (Candidates s) (PoiPeople s)"
    unfolding claim_of_updates(1) person_kept(1)[OF p, of ?p, simplified] by (rule fun_upd_same) (simp add: n)
  moreover have "id_of (fmupd a (Applied (Referred referrer) e now) (Candidates s)) = id_of (Candidates s)"
    unfolding view_updates by (rule fun_upd_same) (simp add: view_absent[OF n])
  moreover have "{j. contains_key (fmupd referrer ?p (PoiPeople s)) j} = {j. contains_key (PoiPeople s) j}"
    by (rule person_kept(2)[OF p]) simp
  ultimately have "inv (s\<lparr>ReferralTickets := ?T, Candidates := fmupd a (Applied (Referred referrer) e now) (Candidates s),
      PoiPeople := fmupd referrer ?p (PoiPeople s)\<rparr>)"
    using d unfolding poi_inv_def by (simp add: view_updates count_new[OF n])
  then show ?thesis unfolding s' inv_deposit inc_sufficients_def by (rule inv_same_world) (rule world_unchanged)
qed

lemma reroll_inv:
  assumes inv: "inv s" and run: "reroll cfg now origin s = Inr (s', info)"
  shows "inv s'"
proof -
  obtain a cred e0 t0 e t where c: "fmlookup (Candidates s) a = Some (Applied cred e0 t0)"
    and s': "s' = poi_deposit (Rerolled a) (put_candidate a (Applied cred e t) s)"
    using run by (auto simp: reroll_def res_simps Let_def)
  show ?thesis unfolding s' inv_deposit by (rule inv_candidate[OF inv c]) (simp_all, cases cred, simp_all)
qed

text \<open>A candidate who leaves before committing.\<close>

lemma leave_applied:
  assumes inv: "inv s" and c: "fmlookup (Candidates s) a = Some (Applied cred e t)" and st: "settles a cred s s1"
  shows "inv (remove_candidate a s1)"
proof -
  note d = poi_invD[OF inv] and k = settlesD[OF st]
  have F: "referrer_of (Candidates s) a = cred_referrer cred"
    unfolding view_lookup(2)[OF c] by (cases cred) (simp_all add: cred_referrer_def)
  have "claim_of (fmdrop a (Candidates s)) ps = claim_of (Candidates s) ps" for ps
    unfolding claim_of_updates by (rule fun_upd_same) (simp add: c)
  moreover have "id_of (fmdrop a (Candidates s)) = id_of (Candidates s)"
    unfolding view_updates by (rule fun_upd_same) (simp add: view_lookup[OF c])
  moreover have "selected_count (fmdrop a (Candidates s)) = selected_count (Candidates s)"
    by (simp add: selected_count_simps(2)[OF c])
  moreover note settles_referrals[OF st d(4) F]
  ultimately show ?thesis using d k unfolding poi_inv_def remove_candidate_def unchanged_def by (simp add: view_updates)
qed

lemma flakeout_inv:
  assumes inv: "inv s" and run: "flakeout cfg origin s = Inr (s', info)"
  shows "inv s'"
proof -
  obtain a cred e t where c: "fmlookup (Candidates s) a = Some (Applied cred e t)"
    and s': "s' = poi_deposit (FlakedOut a) (remove_candidate a (case cred of
                      Referred who \<Rightarrow> referral_flaked cfg who a s
                    | Deposit deposit \<Rightarrow> return_deposit cfg deposit a s
                    | Invited _ \<Rightarrow> dec_sufficients cfg a s))"
    using run by (auto simp: flakeout_def res_simps Let_def)
  have "settles a cred s (case cred of Referred who \<Rightarrow> referral_flaked cfg who a s
      | Deposit deposit \<Rightarrow> return_deposit cfg deposit a s | Invited _ \<Rightarrow> dec_sufficients cfg a s)"
  proof (cases cred)
    case (Invited tk)
    then show ?thesis using settles_world[of cred s "c_dec_sufficients cfg a (p_world s)"]
      by (simp add: dec_sufficients_def cred_referrer_def world_unchanged)
  qed (simp_all add: referral_settles return_deposit_settles cred_referrer_def)
  then show ?thesis unfolding s' inv_deposit by (rule leave_applied[OF inv c])
qed

subsection \<open>Committing\<close>

lemma family_Inr [res_simps]:
  "(case fk of FamDesigned n \<Rightarrow> f n | FamProceduralAccount \<Rightarrow> Inl x | FamProceduralPersonal \<Rightarrow> Inl y | FamProcedural m \<Rightarrow> Inl z) = Inr r
    \<longleftrightarrow> (\<exists>n. fk = FamDesigned n \<and> f n = Inr r)"
  "(case fk of FamDesigned n \<Rightarrow> Inl x | FamProceduralAccount \<Rightarrow> Inl y | FamProceduralPersonal \<Rightarrow> Inl z | FamProcedural m \<Rightarrow> g m) = Inr r
    \<longleftrightarrow> (\<exists>m. fk = FamProcedural m \<and> g m = Inr r)"
  by (cases fk; simp)+

text \<open>What \<open>bake_design\<close> gives for an elective design: a design nobody holds.\<close>

lemma bake_elective:
  assumes "bake_design cfg choice e a i s = Inr design" "elective design = Some k"
  shows "fmlookup (CommittedDesigns s) k = None"
proof (cases choice)
  case (ChooseDesignedElective f d)
  then show ?thesis using assms by (auto simp: bake_design_def res_simps)
next
  case (ChooseProcedural f v)
  then have False using assms by (auto simp: bake_design_def res_simps)
  then show ?thesis ..
next
  case (ChooseProceduralDerivative p q)
  then have False using assms by (auto simp: bake_design_def res_simps)
  then show ?thesis ..
qed (use assms in \<open>auto simp: bake_design_def res_simps split: if_splits\<close>)

lemma mark_design_frame:
  "mark_design st d s = s\<lparr>CommittedDesigns := (case elective d of Some k \<Rightarrow> fmupd k st (CommittedDesigns s) | None \<Rightarrow> CommittedDesigns s)\<rparr>"
  by (cases d) (simp_all add: mark_design_def)

lemma release_design_frame:
  "release_design d s = s\<lparr>CommittedDesigns := (case elective d of Some k \<Rightarrow> fmdrop k (CommittedDesigns s) | None \<Rightarrow> CommittedDesigns s)\<rparr>"
  by (cases d) (simp_all add: release_design_def)

lemma commit_core_inv:
  assumes inv: "inv s" and c: "fmlookup (Candidates s) a = Some (Applied cred e t)"
    and n: "AllocationCount s < max_of 32"
    and w1: "good w1 \<and> i \<notin> reserved (p_world s) \<and> i \<notin> people (p_world s) \<and>
      reserved w1 = insert i (reserved (p_world s)) \<and> people w1 = people (p_world s)"
    and w2: "unchanged w1 w2"
    and free: "\<And>k. elective design = Some k \<Longrightarrow> fmlookup (CommittedDesigns s) k = None"
    and sel: "sel_cred sel = cred" "sel_reserved sel = i" "sel_design sel = design"
  shows "inv (s\<lparr>p_world := w2, AllocationCount := sat_inc 32 (AllocationCount s), Candidates := fmupd a (Selected sel) (Candidates s),
    CommittedDesigns := (case elective design of Some k \<Rightarrow> fmupd k Reserved (CommittedDesigns s) | None \<Rightarrow> CommittedDesigns s)\<rparr>)"
proof -
  note d = poi_invD[OF inv]
  have H: "claim_of (Candidates s) ps (HCandidate a) = None" for ps by (simp add: c)
  have "claims_ok (claim_of (fmupd a (Selected sel) (Candidates s)) (PoiPeople s))
      (case elective design of Some k \<Rightarrow> fmupd k Reserved (CommittedDesigns s) | None \<Rightarrow> CommittedDesigns s)"
  proof (cases "elective design")
    case None
    then have "claim_of (fmupd a (Selected sel) (Candidates s)) (PoiPeople s) = claim_of (Candidates s) (PoiPeople s)"
      unfolding claim_of_updates by (intro fun_upd_same) (simp add: c sel)
    then show ?thesis using None d(3) by simp
  next
    case (Some k)
    then show ?thesis using claims_new[OF d(3) H free[OF Some]] by (simp add: claim_of_updates sel)
  qed
  moreover have "referrer_of (fmupd a (Selected sel) (Candidates s)) = referrer_of (Candidates s)"
    unfolding view_updates by (rule fun_upd_same) (cases cred; simp add: view_lookup[OF c] sel)
  moreover have "ids_held (id_of (fmupd a (Selected sel) (Candidates s))) {j. contains_key (PoiPeople s) j} (reserved w2) (people w2)"
    using ids_held_new[OF d(5), of i a] w1 w2 unfolding unchanged_def by (simp add: view_updates view_lookup[OF c] sel)
  moreover have "sat_inc 32 (AllocationCount s) = selected_count (fmupd a (Selected sel) (Candidates s))"
    using n d(2) by (simp add: selected_count_simps(1) selected_count_simps(2)[OF c] sat_inc_exact)
  moreover have "good w2" using w1 w2 unfolding unchanged_def by blast
  ultimately show ?thesis using d unfolding poi_inv_def by simp
qed

lemma commit_inv:
  assumes inv: "inv s" and run: "commit cfg now origin choice req s = Inr (s', info)"
    and room: "req = None \<Longrightarrow> room (p_world s)" and mx: "maximum (Configuration s) \<le> max_of 32"
  shows "inv s'"
proof -
  obtain a cred e t where c: "fmlookup (Candidates s) a = Some (Applied cred e t)"
      and n: "AllocationCount s < maximum (Configuration s)"
      and r: "bindE (case req of
                   Some pid \<Rightarrow> bindE (on_world (c_renew cfg pid) s) (\<lambda>s1. Inr (pid, s1))
                 | None \<Rightarrow> (let (pid, w) = c_reserve cfg (p_world s) in Inr (pid, s\<lparr>p_world := w\<rparr>))) (\<lambda>(pid, s1).
          bindE (map_err Module (bake_design cfg choice e a pid s1)) (\<lambda>design.
          let s2 = mark_design Reserved design s1;
              (alloc, len, count) =
                (if AllocationCount s < fasttrack_count (Configuration s)
                 then (Full, full_alloc_len (Configuration s), full_alloc_count (Configuration s))
                 else (Initial, init_alloc_len (Configuration s), init_alloc_count (Configuration s))) in
          bindE (on_world (c_allocate cfg a len count) s2) (\<lambda>s3.
          let s4 = s3\<lparr>AllocationCount := sat_inc 32 (AllocationCount s)\<rparr>;
              status' = Selected \<lparr>sel_since = now, sel_cred = cred, sel_reserved = pid, sel_entropy = e,
                                  sel_design = design, sel_allocation = alloc, sel_judging = None, sel_failed = 0\<rparr>
          in Inr (poi_deposit (DesignCommitted a pid) (put_candidate a status' s4), pays_info Pays_No)))) = Inr (s', info)"
      using run unfolding commit_def Let_def by (auto simp: res_simps)
    obtain i s1 where i: "(case req of
                   Some pid \<Rightarrow> bindE (on_world (c_renew cfg pid) s) (\<lambda>s1. Inr (pid, s1))
                 | None \<Rightarrow> (let (pid, w) = c_reserve cfg (p_world s) in Inr (pid, s\<lparr>p_world := w\<rparr>))) = Inr (i, s1)"
      and r1: "bindE (map_err Module (bake_design cfg choice e a i s1)) (\<lambda>design.
          let s2 = mark_design Reserved design s1;
              (alloc, len, count) =
                (if AllocationCount s < fasttrack_count (Configuration s)
                 then (Full, full_alloc_len (Configuration s), full_alloc_count (Configuration s))
                 else (Initial, init_alloc_len (Configuration s), init_alloc_count (Configuration s))) in
          bindE (on_world (c_allocate cfg a len count) s2) (\<lambda>s3.
          let s4 = s3\<lparr>AllocationCount := sat_inc 32 (AllocationCount s)\<rparr>;
              status' = Selected \<lparr>sel_since = now, sel_cred = cred, sel_reserved = i, sel_entropy = e,
                                  sel_design = design, sel_allocation = alloc, sel_judging = None, sel_failed = 0\<rparr>
          in Inr (poi_deposit (DesignCommitted a i) (put_candidate a status' s4), pays_info Pays_No))) = Inr (s', info)"
      using r by (auto simp: bindE_Inr)
    have "\<exists>w1. s1 = s\<lparr>p_world := w1\<rparr> \<and>
        (case req of Some pid \<Rightarrow> c_renew cfg pid (p_world s) = Inr w1 \<and> pid = i | None \<Rightarrow> c_reserve cfg (p_world s) = (i, w1))"
      using i by (cases req) (auto simp: on_world_Inr res_simps Let_def split: prod.split_asm)
    then obtain w1 where w1: "s1 = s\<lparr>p_world := w1\<rparr>"
      "case req of Some pid \<Rightarrow> c_renew cfg pid (p_world s) = Inr w1 \<and> pid = i | None \<Rightarrow> c_reserve cfg (p_world s) = (i, w1)" by blast
    obtain design alloc len cnt w2 where b: "bake_design cfg choice e a i s1 = Inr design" and w2: "c_allocate cfg a len cnt w1 = Inr w2"
    and s': "s' = poi_deposit (DesignCommitted a i) (put_candidate a (Selected \<lparr>sel_since = now, sel_cred = cred, sel_reserved = i,
          sel_entropy = e, sel_design = design, sel_allocation = alloc, sel_judging = None, sel_failed = 0\<rparr>)
          ((mark_design Reserved design s1)\<lparr>p_world := w2, AllocationCount := sat_inc 32 (AllocationCount s)\<rparr>))"
      using r1 by (auto simp: res_simps Let_def on_world_Inr w1(1) mark_design_frame split: if_split_asm prod.split_asm)
  let ?sel = "\<lparr>sel_since = now, sel_cred = cred, sel_reserved = i, sel_entropy = e, sel_design = design,
      sel_allocation = alloc, sel_judging = None, sel_failed = 0\<rparr>"
  have s'': "s' = poi_deposit (DesignCommitted a i)
        (s\<lparr>p_world := w2, AllocationCount := sat_inc 32 (AllocationCount s), Candidates := fmupd a (Selected ?sel) (Candidates s),
           CommittedDesigns := (case elective design of Some k \<Rightarrow> fmupd k Reserved (CommittedDesigns s) | None \<Rightarrow> CommittedDesigns s)\<rparr>)"
    unfolding s' w1(1) put_candidate_def mark_design_frame by (cases s) (simp cong: option.case_cong)
  have "good w1 \<and> i \<notin> reserved (p_world s) \<and> i \<notin> people (p_world s) \<and>
      reserved w1 = insert i (reserved (p_world s)) \<and> people w1 = people (p_world s)"
    using w1(2) poi_invD(1)[OF inv] room reserve_law[of "p_world s" i w1] renew_law[of "p_world s" i w1]
    by (cases req) auto
  moreover have "AllocationCount s < max_of 32" using n mx by linarith
  moreover have "fmlookup (CommittedDesigns s) k = None" if "elective design = Some k" for k
    using bake_elective[OF b that] w1(1) by simp
  ultimately show ?thesis unfolding s'' inv_deposit
    by (intro commit_core_inv[OF inv c _ _ world_unchanged(8)[OF w2]]) simp_all
qed

lemma allocate_full_inv:
  assumes inv: "inv s" and run: "allocate_full cfg origin s = Inr (s', info)"
  shows "inv s'"
proof -
  obtain a sel len cnt w where c: "fmlookup (Candidates s) a = Some (Selected sel)" and w: "c_allocate cfg a len cnt (p_world s) = Inr w"
    and s': "s' = poi_deposit (FullyAllocated a) (put_candidate a (Selected (sel\<lparr>sel_allocation := Full\<rparr>)) (s\<lparr>p_world := w\<rparr>))"
    using run by (auto simp: allocate_full_def res_simps Let_def on_world_Inr)
  show ?thesis unfolding s' inv_deposit
    by (rule inv_candidate[OF inv_same_world[OF inv world_unchanged(8)[OF w]], of a "Selected sel"]) (simp_all add: c)
qed

lemma submit_evidence_inv:
  assumes inv: "inv s" and run: "submit_evidence cfg origin ev s = Inr (s', info)"
  shows "inv s'"
proof -
  obtain a sel st ctx cb w t where c: "fmlookup (Candidates s) a = Some (Selected sel)" and w: "c_judge cfg st ctx cb (p_world s) = Inr (w, t)"
    and s': "s' = poi_deposit (JudgementRequested a) (put_candidate a (Selected (sel\<lparr>sel_judging := Some t\<rparr>)) (s\<lparr>p_world := w\<rparr>))"
    using run by (auto simp: submit_evidence_def res_simps Let_def)
  show ?thesis unfolding s' inv_deposit
    by (rule inv_candidate[OF inv_same_world[OF inv world_unchanged(10)[OF w]], of a "Selected sel"]) (simp_all add: c)
qed

subsection \<open>A candidacy that fails\<close>

lemma fail_core_inv:
  assumes inv: "inv s" and c: "fmlookup (Candidates s) a = Some (Selected sel)" and st: "settles a (sel_cred sel) s s1"
    and w: "c_cancel cfg (sel_reserved sel) (p_world s1) = Inr w"
  shows "inv (s1\<lparr>p_world := w, AllocationCount := AllocationCount s1 - 1, Candidates := fmdrop a (Candidates s1),
      CommittedDesigns := (case elective (sel_design sel) of Some k \<Rightarrow> fmdrop k (CommittedDesigns s1) | None \<Rightarrow> CommittedDesigns s1)\<rparr>)"
proof -
  note d = poi_invD[OF inv] and k = settlesD[OF st]
  have g: "good (p_world s1)" "reserved (p_world s1) = reserved (p_world s)" "people (p_world s1) = people (p_world s)"
    using k(7) d(1) unfolding unchanged_def by blast+
  note cl = cancel_law[OF g(1) w]
  have "referrer_of (Candidates s) a = cred_referrer (sel_cred sel)"
    unfolding view_lookup(2)[OF c] by (simp add: cred_referrer_def)
  note rf = settles_referrals[OF st d(4) this]
  have "claims_ok ((claim_of (Candidates s) (PoiPeople s))(HCandidate a := None))
      (case elective (sel_design sel) of Some k \<Rightarrow> fmdrop k (CommittedDesigns s1) | None \<Rightarrow> CommittedDesigns s1)"
  proof (cases "elective (sel_design sel)")
    case None
    then have "(claim_of (Candidates s) (PoiPeople s))(HCandidate a := None) = claim_of (Candidates s) (PoiPeople s)"
      by (intro fun_upd_same) (simp add: c)
    then show ?thesis using None d(3) by (simp add: k(3))
  next
    case (Some kk)
    have "claim_of (Candidates s) (PoiPeople s) (HCandidate a) = Some (kk, Reserved)" by (simp add: c Some)
    then show ?thesis using claims_release[OF d(3)] Some by (simp add: k(3))
  qed
  moreover have "ids_held ((id_of (Candidates s))(a := None)) {j. contains_key (PoiPeople s) j} (reserved w) (people w)"
    using ids_held_cancel[OF d(5), of a "sel_reserved sel"] cl g by (simp add: view_lookup[OF c])
  moreover have "AllocationCount s - 1 = selected_count (fmdrop a (Candidates s))"
    by (simp add: selected_count_simps(2)[OF c] d(2))
  ultimately show ?thesis using d k rf cl unfolding poi_inv_def by (simp add: poi_views)
qed

lemma fail_candidate_inv:
  assumes inv: "inv s" and c: "fmlookup (Candidates s) a = Some (Selected sel)"
    and rf: "\<And>i. settles a (Referred i) s (referral i a s)" and sel': "sel_cred sel' = sel_cred sel"
      "sel_reserved sel' = sel_reserved sel" "sel_design sel' = sel_design sel"
    and run: "fail_candidate cfg referral a sel' j s = Inr s'"
  shows "inv s'"
proof -
  let ?s1 = "lose_credibility cfg referral (sel_cred sel) a s"
  obtain w where w: "c_cancel cfg (sel_reserved sel) (p_world ?s1) = Inr w"
    and s': "s' = poi_deposit (JudgementProvided a j) (release_design (sel_design sel)
        (remove_candidate a (?s1\<lparr>p_world := w, AllocationCount := AllocationCount ?s1 - 1\<rparr>)))"
    using run sel' by (auto simp: fail_candidate_def res_simps on_world_Inr Let_def)
  show ?thesis using fail_core_inv[OF inv c lose_settles[of a s referral "sel_cred sel", OF rf] w]
    unfolding s' inv_deposit release_design_frame remove_candidate_def by (simp cong: option.case_cong)
qed

lemma count_then_world: "s\<lparr>AllocationCount := n, p_world := w\<rparr> = s\<lparr>p_world := w, AllocationCount := n\<rparr>"
  by (cases s) simp

lemma timeout_inv:
  assumes inv: "inv s" and run: "timeout cfg now origin a s = Inr (s', info)"
  shows "inv s'"
proof -
  obtain sel w where c: "fmlookup (Candidates s) a = Some (Selected sel)"
    and w: "c_cancel cfg (sel_reserved sel) (p_world (lose_credibility cfg (referral_bad cfg) (sel_cred sel) a s)) = Inr w"
    and s': "s' = poi_deposit (TimedOut a) (release_design (sel_design sel)
        (remove_candidate a ((lose_credibility cfg (referral_bad cfg) (sel_cred sel) a s)\<lparr>
          AllocationCount := AllocationCount (lose_credibility cfg (referral_bad cfg) (sel_cred sel) a s) - 1, p_world := w\<rparr>)))"
    using run by (auto simp: timeout_def res_simps on_world_Inr Let_def)
  show ?thesis using fail_core_inv[OF inv c lose_settles[of a s "referral_bad cfg" "sel_cred sel", OF referral_settles(3)] w]
    unfolding s' inv_deposit release_design_frame remove_candidate_def count_then_world by (simp cong: option.case_cong)
qed

subsection \<open>The judgement\<close>

text \<open>The candidacy is proven.\<close>

lemma prove_core_inv:
  assumes inv: "inv s" and c: "fmlookup (Candidates s) a = Some (Selected sel)" and st: "settles a (sel_cred sel) s s1"
    and prv: "prv_design prv = sel_design sel" "prv_reserved prv = sel_reserved sel"
  shows "inv (s1\<lparr>AllocationCount := AllocationCount s1 - 1,
      CommittedDesigns := (case elective (sel_design sel) of Some k \<Rightarrow> fmupd k Committed (CommittedDesigns s1) | None \<Rightarrow> CommittedDesigns s1),
      Candidates := fmupd a (Proven prv) (Candidates s1)\<rparr>)"
proof -
  note d = poi_invD[OF inv] and k = settlesD[OF st]
  have g: "good (p_world s1)" "reserved (p_world s1) = reserved (p_world s)" "people (p_world s1) = people (p_world s)"
    using k(7) d(1) unfolding unchanged_def by blast+
  have "referrer_of (Candidates s) a = cred_referrer (sel_cred sel)"
    unfolding view_lookup(2)[OF c] by (simp add: cred_referrer_def)
  note rf = settles_referrals[OF st d(4) this]
  have "claims_ok (claim_of (fmupd a (Proven prv) (Candidates s)) (PoiPeople s))
      (case elective (sel_design sel) of Some k \<Rightarrow> fmupd k Committed (CommittedDesigns s1) | None \<Rightarrow> CommittedDesigns s1)"
  proof (cases "elective (sel_design sel)")
    case None
    then have "claim_of (fmupd a (Proven prv) (Candidates s)) (PoiPeople s) = claim_of (Candidates s) (PoiPeople s)"
      unfolding claim_of_updates by (intro fun_upd_same) (simp add: c prv)
    then show ?thesis using None d(3) by (simp add: k(3))
  next
    case (Some kk)
    have "claim_of (Candidates s) (PoiPeople s) (HCandidate a) = Some (kk, Reserved)" by (simp add: c Some)
    then show ?thesis using claims_confirm[OF d(3)] Some by (simp add: k(3) claim_of_updates prv)
  qed
  moreover have "id_of (fmupd a (Proven prv) (Candidates s)) = id_of (Candidates s)"
    unfolding view_updates by (rule fun_upd_same) (simp add: view_lookup[OF c] prv)
  moreover have "AllocationCount s - 1 = selected_count (fmupd a (Proven prv) (Candidates s))"
    by (simp add: selected_count_simps(1) selected_count_simps(2)[OF c] d(2))
  ultimately show ?thesis using d k rf g unfolding poi_inv_def by (simp add: view_updates)
qed

text \<open>\<open>judged\<close> in a state where the candidate waits for this judgement, branch by branch.\<close>

lemma approve_settles:
  "settles a cred s (case cred of
     Referred who \<Rightarrow> referral_ok cfg who a s | Deposit deposit \<Rightarrow> return_deposit cfg deposit a s | Invited _ \<Rightarrow> s)"
proof (cases cred)
  case (Invited t)
  have "cred_referrer cred = None" by (simp add: Invited cred_referrer_def)
  from settles_world[OF this unchanged_refl] show ?thesis by (simp add: Invited)
qed (simp_all add: referral_settles return_deposit_settles cred_referrer_def)

lemma approve_count:
  "(case cred of
     Referred who \<Rightarrow> referral_ok cfg who a (s\<lparr>AllocationCount := n\<rparr>)
   | Deposit deposit \<Rightarrow> return_deposit cfg deposit a (s\<lparr>AllocationCount := n\<rparr>)
   | Invited _ \<Rightarrow> s\<lparr>AllocationCount := n\<rparr>) =
   (case cred of
     Referred who \<Rightarrow> referral_ok cfg who a s | Deposit deposit \<Rightarrow> return_deposit cfg deposit a s | Invited _ \<Rightarrow> s)\<lparr>AllocationCount := n\<rparr>"
  by (cases s) (auto simp: referral_ok_def mutate_extant_def return_deposit_def split: credibility.split option.split sum.split)

lemma judged_inv:
  assumes inv: "inv s" and run: "judged cfg origin ticket context judgement s = Inr (s', info)"
  shows "inv s'"
proof -
  obtain a sel where root: "outer (c_root cfg) origin" and a: "c_decode cfg context = Some a"
    and c: "fmlookup (Candidates s) a = Some (Selected sel)" and j: "sel_judging sel = Some ticket"
    using run by (auto simp: judged_def res_simps)
  note b = run[unfolded judged_branches[OF root a c j]]
  let ?sel1 = "sel\<lparr>sel_judging := None\<rparr>"
  have same: "sel_cred ?sel1 = sel_cred sel" "sel_reserved ?sel1 = sel_reserved sel" "sel_design ?sel1 = sel_design sel" by simp_all
  consider "judgement = Contempt" | "judgement \<noteq> Contempt" "judgement = Truth Truth_False \<or> sel_allocation sel = InitDone"
    | "judgement \<noteq> Contempt" "\<not> (judgement = Truth Truth_False \<or> sel_allocation sel = InitDone)" "sel_allocation sel = Full"
    | "judgement \<noteq> Contempt" "\<not> (judgement = Truth Truth_False \<or> sel_allocation sel = InitDone)" "sel_allocation sel \<noteq> Full" by blast
  then show ?thesis
  proof cases
    case 1
    then have "fail_candidate cfg (referral_contemptuous cfg) a ?sel1 judgement s = Inr s'"
      using b by (auto simp: res_simps)
    from fail_candidate_inv[OF inv c referral_settles(4) same this] show ?thesis .
  next
    case 2
    show ?thesis
    proof (cases "sat_inc 32 (sel_failed sel) > c_max_retry_attempts cfg")
      case True
      then have "fail_candidate cfg (referral_bad cfg) a ?sel1 judgement s = Inr s'" using b 2 by (auto simp: res_simps)
      from fail_candidate_inv[OF inv c referral_settles(3) same this] show ?thesis .
    next
      case False
      let ?s0 = "poi_deposit (RetryGranted a (sat_inc 32 (sel_failed sel))) s"
      obtain w where w: "c_refresh cfg a (p_world ?s0) = Inr w"
        and s': "s' = poi_deposit (JudgementProvided a judgement)
            (put_candidate a (Selected (?sel1\<lparr>sel_failed := sat_inc 32 (sel_failed sel)\<rparr>)) (?s0\<lparr>p_world := w\<rparr>))"
        using b 2 False by (auto simp: res_simps on_world_Inr)
      have i: "inv (?s0\<lparr>p_world := w\<rparr>)" by (rule inv_same_world[OF _ world_unchanged(9)[OF w]]) (simp add: inv)
      show ?thesis unfolding s' inv_deposit
        by (rule inv_candidate[OF i, of a "Selected sel"]) (simp_all add: c poi_deposit_def)
    qed
  next
    case 3
    let ?s1 = "case sel_cred sel of Referred who \<Rightarrow> referral_ok cfg who a s
      | Deposit deposit \<Rightarrow> return_deposit cfg deposit a s | Invited _ \<Rightarrow> s"
    note st = approve_settles[of a "sel_cred sel" s] and k = settlesD[OF approve_settles[of a "sel_cred sel" s]]
    let ?prv = "\<lparr>prv_design = sel_design sel, prv_reserved = sel_reserved sel,
        prv_referred = (case sel_cred sel of Referred _ \<Rightarrow> True | _ \<Rightarrow> False),
        prv_invited = (case sel_cred sel of Invited _ \<Rightarrow> True | _ \<Rightarrow> False)\<rparr>"
    have p: "prv_design ?prv = sel_design sel" "prv_reserved ?prv = sel_reserved sel" by simp_all
    have s': "s' = poi_deposit (JudgementProvided a judgement) (put_candidate a (Proven ?prv)
          (mark_design Committed (sel_design sel) (?s1\<lparr>AllocationCount := AllocationCount s - 1\<rparr>)))"
      using b 3 unfolding approve_count by auto
    show ?thesis using prove_core_inv[OF inv c st p]
      unfolding s' inv_deposit mark_design_frame put_candidate_def by (simp add: k(2) cong: option.case_cong)
  next
    case 4
    then have s': "s' = poi_deposit (JudgementProvided a judgement) (put_candidate a (Selected (?sel1\<lparr>sel_allocation := InitDone\<rparr>)) s)"
      using b by auto
    show ?thesis unfolding s' inv_deposit by (rule inv_candidate[OF inv c]) simp_all
  qed
qed

subsection \<open>Registration\<close>

lemma pay_reward_valid:
  assumes run: "pay_reward cfg dest stored w = Inr (stored', w')" and v: "\<And>vs. stored = Some vs \<Longrightarrow> values_valid vs"
  shows "unchanged w w'" "stored' = Some vs' \<Longrightarrow> values_valid vs'"
proof -
  let ?vs = "case stored of Some vs \<Rightarrow> vs | None \<Rightarrow> []"
  have vv: "values_valid ?vs" using v by (cases stored) (simp_all add: values_valid_def)
  have "unchanged w w' \<and> (\<forall>vs'. stored' = Some vs' \<longrightarrow> values_valid vs')"
  proof (cases "?vs = [] \<or> snd (last ?vs) = 0")
    case True
    then show ?thesis using run v by (auto simp: pay_reward_def Let_def)
  next
    case False
    then obtain us x n where us: "?vs = us @ [(x, n)]" by (metis append_butlast_last_id prod.collapse)
    obtain t where t: "c_transfer cfg (c_pot cfg) dest x Expendable w = Inr (w', t)"
      and s': "stored' = Some (if n - 1 > 0 then us @ [(x, n - 1)] else us)"
      using run False us by (auto simp: pay_reward_def Let_def res_simps)
    show ?thesis using world_unchanged(11)[OF t] vv us s' by (auto simp: values_valid_def split: if_splits)
  qed
  then show "unchanged w w'" "stored' = Some vs' \<Longrightarrow> values_valid vs'" by blast+
qed

lemma referred_reward_inv:
  assumes inv: "inv s" and run: "register_referred_reward cfg dest s = Inr s'"
  shows "inv s'"
proof -
  obtain vs w where p: "pay_reward cfg dest (ReferredReimbursementValues s) (p_world s) = Inr (vs, w)"
    and s': "s' = s\<lparr>ReferredReimbursementValues := vs, p_world := w\<rparr>"
    using run by (auto simp: register_referred_reward_def res_simps)
  note v = pay_reward_valid[OF p poi_invD(7)[OF inv]]
  show ?thesis using inv v unfolding s' poi_inv_def unchanged_def by simp
qed

lemma referrer_reward_inv:
  assumes inv: "inv s" and run: "register_referrer_reward cfg dest s = Inr s'"
  shows "inv s' \<and> PoiPeople s' = PoiPeople s"
proof -
  obtain vs w where p: "pay_reward cfg dest (ReferrerReimbursementValues s) (p_world s) = Inr (vs, w)"
    and s': "s' = s\<lparr>ReferrerReimbursementValues := vs, p_world := w\<rparr>"
    using run by (auto simp: register_referrer_reward_def res_simps)
  note v = pay_reward_valid[OF p poi_invD(6)[OF inv]]
  show ?thesis using inv v unfolding s' poi_inv_def unchanged_def by simp
qed

lemma register_core_inv:
  assumes inv: "inv s" and c: "fmlookup (Candidates s) a = Some (Proven prv)"
    and w: "c_recognize cfg (prv_reserved prv) (Some key) (p_world s) = Inr w"
  shows "inv (s\<lparr>p_world := w, Candidates := fmdrop a (Candidates s),
    PoiPeople := fmupd (prv_reserved prv) (new_poi_person (prv_design prv)) (PoiPeople s)\<rparr>)"
proof -
  note d = poi_invD[OF inv] and r = recognize_law[OF poi_invD(1)[OF inv] w]
  let ?i = "prv_reserved prv" and ?p = "new_poi_person (prv_design prv)"
  have i: "id_of (Candidates s) a = Some ?i" by (simp add: view_lookup[OF c])
  have new: "fmlookup (PoiPeople s) ?i = None" using d(5) i unfolding ids_held_def by blast
  have A: "active_of (PoiPeople s) ?i = None" by (simp add: active_of_def new)
  have "claim_of (fmdrop a (Candidates s)) (fmupd ?i ?p (PoiPeople s)) =
      (claim_of (Candidates s) (PoiPeople s))(HPerson ?i := claim_of (Candidates s) (PoiPeople s) (HCandidate a), HCandidate a := None)"
    unfolding claim_of_updates
    by (cases "elective (prv_design prv)") (auto simp: c pers_claim_def new_poi_person_def fun_eq_iff)
  then have cl: "claims_ok (claim_of (fmdrop a (Candidates s)) (fmupd ?i ?p (PoiPeople s))) (CommittedDesigns s)"
    using claims_move[OF d(3), of "HPerson ?i" "HCandidate a"] by (simp add: new)
  have rf: "referrals_ok (c_max_active_referrals cfg) (referrer_of (fmdrop a (Candidates s))) (active_of (fmupd ?i ?p (PoiPeople s)))
      (get_or [] (ReferralTickets s))"
    using referrals_new[OF referrals_none[OF d(4), of a] A] by (simp add: view_updates view_lookup[OF c] new_poi_person_def)
  have own: "{j. contains_key (fmupd ?i ?p (PoiPeople s)) j} = insert ?i {j. contains_key (PoiPeople s) j}" by auto
  have "ids_held (id_of (fmdrop a (Candidates s))) {j. contains_key (fmupd ?i ?p (PoiPeople s)) j} (reserved w) (people w)"
    unfolding own using ids_held_register[OF d(5) i] r by (simp add: view_updates)
  moreover have "AllocationCount s = selected_count (fmdrop a (Candidates s))"
    by (simp add: selected_count_simps(2)[OF c] d(2))
  ultimately show ?thesis using d cl rf r unfolding poi_inv_def by simp
qed

lemma remove_world: "p_world (remove_candidate a s) = p_world s"
  by (simp add: remove_candidate_def)

lemma register_proven_inv:
  assumes inv: "inv s" and c: "fmlookup (Candidates s) a = Some (Proven prv)"
    and run: "register_proven_candidate cfg a (prv_reserved prv) key (prv_design prv) dest kind proof s = Inr s'"
  shows "inv s'"
proof -
  let ?s2 = "(remove_candidate a s)\<lparr>PoiPeople := fmupd (prv_reserved prv) (new_poi_person (prv_design prv)) (PoiPeople (remove_candidate a s))\<rparr>"
  obtain w s4 s5 where w: "c_recognize cfg (prv_reserved prv) (Some key) (p_world s) = Inr w"
    and s4: "(if kind = Enabled then register_referrer_reward cfg dest (?s2\<lparr>p_world := w\<rparr>) else Inr (?s2\<lparr>p_world := w\<rparr>)) = Inr s4"
    and s5: "register_referred_reward cfg dest s4 = Inr s5" and s': "s' = poi_deposit (PersonRegistered a (prv_reserved prv)) s5"
    using run by (auto simp: register_proven_candidate_def res_simps on_world_Inr remove_world Let_def)
  have "?s2\<lparr>p_world := w\<rparr> = s\<lparr>p_world := w, Candidates := fmdrop a (Candidates s),
      PoiPeople := fmupd (prv_reserved prv) (new_poi_person (prv_design prv)) (PoiPeople s)\<rparr>"
    by (cases s) (simp add: remove_candidate_def)
  then have "inv (?s2\<lparr>p_world := w\<rparr>)" using register_core_inv[OF inv c w] by simp
  then have "inv s4" using s4 referrer_reward_inv[of "?s2\<lparr>p_world := w\<rparr>" dest s4] by (cases kind) simp_all
  from referred_reward_inv[OF this s5] show ?thesis by (simp add: s')
qed

lemma register_referred_inv:
  assumes inv: "inv s" and run: "register_referred cfg origin key dest proof s = Inr (s', info)"
  shows "inv s'"
proof -
  obtain a prv s1 where c: "fmlookup (Candidates s) a = Some (Proven prv)"
    and r: "register_proven_candidate cfg a (prv_reserved prv) key (prv_design prv) dest Disabled proof s = Inr s1"
    and s': "s' = dec_sufficients cfg a s1" using run by (auto simp: register_referred_def res_simps)
  show ?thesis unfolding s' dec_sufficients_def by (rule inv_same_world[OF register_proven_inv[OF inv c r] world_unchanged(5)])
qed

lemma register_non_referred_inv:
  assumes inv: "inv s" and run: "register_non_referred cfg origin key dest proof s = Inr (s', info)"
  shows "inv s'"
proof -
  obtain a prv where c: "fmlookup (Candidates s) a = Some (Proven prv)"
    and r: "register_proven_candidate cfg a (prv_reserved prv) key (prv_design prv) dest Enabled proof
        (if prv_invited prv then dec_sufficients cfg a s else s) = Inr s'" using run by (auto simp: register_non_referred_def res_simps Let_def)
  have "inv (if prv_invited prv then dec_sufficients cfg a s else s)"
    using inv_same_world[OF inv world_unchanged(5)] inv by (simp add: dec_sufficients_def)
  moreover have "fmlookup (Candidates (if prv_invited prv then dec_sufficients cfg a s else s)) a = Some (Proven prv)"
    using c by (simp add: dec_sufficients_def)
  ultimately show ?thesis using r by (rule register_proven_inv)
qed

subsection \<open>Tickets, invitations and management\<close>

lemma poi_ensure_person_Inr:
  "poi_ensure_person cfg origin s = Inr (i, p) \<longleftrightarrow>
     poi_person_origin cfg origin = Some i \<and> fmlookup (PoiPeople s) i = Some p \<and> \<not> pp_banned p"
  by (auto simp: poi_ensure_person_def res_simps)

lemma tickets_inv:
  assumes inv: "inv s" and p: "fmlookup (PoiPeople s) i = Some p"
    and ts: "distinct ts" "length ts + length (pp_active_referrals p) \<le> c_max_active_referrals cfg"
  shows "inv (s\<lparr>ReferralTickets := fmupd i ts (ReferralTickets s)\<rparr>)"
proof -
  have "active_of (PoiPeople s) i = Some (pp_active_referrals p)" by (simp add: active_of_def p)
  from referrals_tickets[OF poi_invD(4)[OF inv] this ts] show ?thesis
    using inv unfolding poi_inv_def by (simp add: view_updates)
qed

lemma inv_tickets:
  assumes "inv s" "fmlookup (PoiPeople s) i = Some p" "fmlookup (ReferralTickets s) i = Some ts"
  shows "distinct ts" "length ts + length (pp_active_referrals p) \<le> c_max_active_referrals cfg"
  using referrals_okD(3,4)[OF poi_invD(4)[OF assms(1)], of i "pp_active_referrals p"] assms(2,3)
  by (simp_all add: active_of_def get_or_Some)

lemma set_referral_ticket_inv:
  assumes inv: "inv s" and run: "set_referral_ticket cfg origin ticket s = Inr (s', info)"
  shows "inv s'"
proof -
  obtain i p where o: "poi_person_origin cfg origin = Some i" and p: "fmlookup (PoiPeople s) i = Some p" and b: "\<not> pp_banned p"
    and len: "length (pp_active_referrals p) < c_max_active_referrals cfg"
    using run unfolding set_referral_ticket_def by (auto simp: res_simps poi_ensure_person_Inr)
  show ?thesis
  proof (cases "fmlookup (ReferralTickets s) i")
    case None
    have "inv (s\<lparr>ReferralTickets := fmupd i [ticket] (ReferralTickets s)\<rparr>)" by (rule tickets_inv[OF inv p]) (use len in simp_all)
    moreover have "s' = poi_deposit (TicketReferred i ticket) (s\<lparr>ReferralTickets := fmupd i [ticket] (ReferralTickets s)\<rparr>)"
      using run unfolding set_referral_ticket_def by (simp add: res_simps poi_ensure_person_def o p b None)
    ultimately show ?thesis by simp
  next
    case (Some ts)
    show ?thesis
    proof (cases "ticket \<in> set ts")
      case False
      have *: "length ts + length (pp_active_referrals p) < c_max_active_referrals cfg"
        "s' = poi_deposit (TicketReferred i ticket) (s\<lparr>ReferralTickets := fmupd i (ts @ [ticket]) (ReferralTickets s)\<rparr>)"
        using run False unfolding set_referral_ticket_def by (simp_all add: res_simps poi_ensure_person_def o p b Some)
      have "inv (s\<lparr>ReferralTickets := fmupd i (ts @ [ticket]) (ReferralTickets s)\<rparr>)"
        by (rule tickets_inv[OF inv p]) (use *(1) False inv_tickets(1)[OF inv p Some] in simp_all)
      then show ?thesis using *(2) by simp
    next
      case True
      then have "s' = s" using run unfolding set_referral_ticket_def by (simp add: res_simps poi_ensure_person_def o p b Some)
      then show ?thesis using inv by simp
    qed
  qed
qed

lemma cancel_referral_ticket_inv:
  assumes inv: "inv s" and run: "cancel_referral_ticket cfg origin ticket s = Inr (s', info)"
  shows "inv s'"
proof -
  obtain i p ts where p: "fmlookup (PoiPeople s) i = Some p" and t: "fmlookup (ReferralTickets s) i = Some ts"
    and s': "s' = poi_deposit (TicketCancelled i ticket)
      (s\<lparr>ReferralTickets := fmupd i (filter (\<lambda>t. t \<noteq> ticket) ts) (ReferralTickets s)\<rparr>)"
    using run unfolding cancel_referral_ticket_def by (auto simp: res_simps poi_ensure_person_Inr)
  have "length (filter (\<lambda>t. t \<noteq> ticket) ts) \<le> length ts" by simp
  then have "length (filter (\<lambda>t. t \<noteq> ticket) ts) + length (pp_active_referrals p) \<le> c_max_active_referrals cfg"
    using inv_tickets(2)[OF inv p t] by linarith
  then show ?thesis unfolding s' inv_deposit
    by (rule tickets_inv[OF inv p distinct_filter[OF inv_tickets(1)[OF inv p t]]])
qed

lemma register_reward_inv:
  assumes inv: "inv s" and run: "register_successful_referral_reward cfg origin dest s = Inr (s', info)"
  shows "inv s'"
proof -
  obtain i p s1 where p: "fmlookup (PoiPeople s) i = Some p" and r: "register_referrer_reward cfg dest s = Inr s1"
    and s': "s' = poi_deposit (ReferralVoucherRegistered i)
        (s1\<lparr>PoiPeople := fmupd i (p\<lparr>pp_pending_rewards := pp_pending_rewards p - 1\<rparr>) (PoiPeople s1)\<rparr>)"
    using run unfolding register_successful_referral_reward_def by (auto simp: res_simps poi_ensure_person_Inr Let_def)
  have i1: "inv s1" and p1: "fmlookup (PoiPeople s1) i = Some p" using referrer_reward_inv[OF inv r] p by simp_all
  let ?p = "p\<lparr>pp_pending_rewards := pp_pending_rewards p - 1\<rparr>"
  have "active_of (fmupd i ?p (PoiPeople s1)) = active_of (PoiPeople s1)"
    unfolding view_updates by (rule fun_upd_same) (simp add: active_of_def p1)
  moreover have "claim_of cs (fmupd i ?p (PoiPeople s1)) = claim_of cs (PoiPeople s1)" for cs :: "('acc, ('dep, 'tk) candidate) fmap"
    by (rule person_kept(1)[OF p1]) simp
  moreover have "{j. contains_key (fmupd i ?p (PoiPeople s1)) j} = {j. contains_key (PoiPeople s1) j}"
    by (rule person_kept(2)[OF p1]) simp
  ultimately show ?thesis using i1 unfolding s' inv_deposit unfolding poi_inv_def by simp
qed

lemma management_inv:
  assumes inv: "inv s"
  shows "grant_invites cfg org a n s = Inr (s', info) \<Longrightarrow> inv s'"
    and "remove_available_and_pending_invites cfg order org a n s = Inr (s', info) \<Longrightarrow> inv s'"
    and "set_invite_ticket cfg org t s = Inr (s', info) \<Longrightarrow> inv s'"
    and "cancel_invite_ticket cfg org t s = Inr (s', info) \<Longrightarrow> inv s'"
    and "add_design_family cfg org fi k fid s = Inr (s', info) \<Longrightarrow> inv s'"
    and "set_configuration cfg org c s = Inr (s', info) \<Longrightarrow> inv s'"
    and "set_reimbursement_values cfg org v1 v2 s = Inr (s', info) \<Longrightarrow> inv s'"
  using inv
  by (auto simp: grant_invites_def remove_available_and_pending_invites_def set_invite_ticket_def cancel_invite_ticket_def
      add_design_family_def set_configuration_def set_reimbursement_values_def res_simps Let_def poi_inv_def poi_deposit_def)

subsection \<open>Transactions\<close>

lemma dispatch_inv:
  assumes inv: "inv s" and run: "poi_dispatch cfg now origin call s = Inr (s', info)"
    and ok: "poi_call_ok good room reserved people call s" and new: "applicant_ok origin call s"
  shows "inv s'"
proof (cases call)
  case (CallOther w)
  have "good w" "reserved w \<inter> people w = {}" using ok CallOther apart_law unfolding poi_call_ok_def by auto
  then show ?thesis using run CallOther ok inv unfolding poi_inv_def poi_call_ok_def ids_held_def by auto
next
  case (CallCommit choice req)
  have "req = None \<Longrightarrow> room (p_world s)" using ok CallCommit by (simp add: poi_call_ok_def)
  then show ?thesis using run CallCommit ok commit_inv[OF inv] by (simp add: poi_call_ok_def)
next
  case (CallApplyWithSignature r g t)
  then show ?thesis using run new apply_with_signature_inv[OF inv] by (simp add: applicant_ok_def)
next
  case (CallApplyWithInvitation i t g)
  then show ?thesis using run new apply_with_invitation_inv[OF inv] by (simp add: applicant_ok_def)
qed (use run in \<open>simp_all add: poi_apply_inv[OF inv] submit_evidence_inv[OF inv] judged_inv[OF inv] register_referred_inv[OF inv]
      register_non_referred_inv[OF inv] reroll_inv[OF inv] allocate_full_inv[OF inv] timeout_inv[OF inv] flakeout_inv[OF inv]
      set_referral_ticket_inv[OF inv] cancel_referral_ticket_inv[OF inv] register_reward_inv[OF inv] management_inv[OF inv]\<close>)

lemma as_poi_validate_ok:
  assumes "as_poi_validate cfg vn ext org call s = Inr (tags, val, origin, s1)"
  shows "\<exists>w. s1 = s\<lparr>p_world := w\<rparr> \<and> unchanged (p_world s) w" "applicant_ok origin call s"
proof -
  have id: "\<exists>w. s = s\<lparr>p_world := w\<rparr> \<and> unchanged (p_world s) w" by (rule exI[of _ "p_world s"]) simp
  have "(\<exists>w. s1 = s\<lparr>p_world := w\<rparr> \<and> unchanged (p_world s) w) \<and> applicant_ok origin call s"
  proof (cases ext)
    case None
    then show ?thesis using assms id by (auto simp: as_poi_validate_def applicant_ok_def)
  next
    case (Some e)
    show ?thesis
    proof (cases e)
      case (AsApplyWithSig n)
      then show ?thesis using assms Some
        by (cases call) (auto simp: as_poi_validate_def validate_apply_with_sig_def res_simps applicant_ok_def world_unchanged Let_def)
    next
      case (AsReferred n)
      then show ?thesis using assms Some id by (auto simp: as_poi_validate_def validate_referred_def res_simps applicant_ok_def)
    next
      case (AsInvited n)
      then show ?thesis using assms Some id
        by (cases call) (auto simp: as_poi_validate_def validate_invited_def res_simps applicant_ok_def world_unchanged)
    qed
  qed
  then show "\<exists>w. s1 = s\<lparr>p_world := w\<rparr> \<and> unchanged (p_world s) w" "applicant_ok origin call s" by blast+
qed

lemma as_poi_prepare_ok:
  assumes "as_poi_prepare prepare_nonce ext val call s = Inr (pre, s1)"
  shows "\<exists>w. s1 = s\<lparr>p_world := w\<rparr> \<and> unchanged (p_world s) w"
proof (cases val)
  case None
  then show ?thesis using assms by (intro exI[of _ "p_world s"]) (simp add: as_poi_prepare_def)
next
  case (Some a)
  then show ?thesis using assms world_unchanged(12) by (auto simp: as_poi_prepare_def res_simps Let_def)
qed

lemma poi_transaction_inv:
  assumes inv: "inv s" and ok: "poi_call_ok good room reserved people call s"
    and run: "poi_transaction cfg vn prepare_nonce now ext org call s = Inr s'"
  shows "inv s'"
proof -
  obtain tags val origin s1 pre s2 where v: "as_poi_validate cfg vn ext org call s = Inr (tags, val, origin, s1)"
    and p: "as_poi_prepare prepare_nonce ext val call s1 = Inr (pre, s2)"
    and s': "s' = as_poi_post_dispatch cfg pre (case poi_dispatch cfg now origin call s2 of Inr (t, _) \<Rightarrow> t | Inl _ \<Rightarrow> s2)"
    using run by (auto simp: poi_transaction_def res_simps Let_def)
  obtain w1 where w1: "s1 = s\<lparr>p_world := w1\<rparr>" "unchanged (p_world s) w1" using as_poi_validate_ok(1)[OF v] by blast
  obtain w2 where w2: "s2 = s1\<lparr>p_world := w2\<rparr>" "unchanged w1 w2" using as_poi_prepare_ok[OF p] w1(1) by auto
  have u: "unchanged (p_world s) w2" by (rule unchanged_trans[OF w1(2) w2(2)])
  have s2: "s2 = s\<lparr>p_world := w2\<rparr>" using w1 w2 by simp
  have i2: "inv s2" unfolding s2 by (rule inv_same_world[OF inv u])
  have "room (p_world s) \<longrightarrow> room w2" using u poi_invD(1)[OF inv] unfolding unchanged_def by blast
  then have ok2: "poi_call_ok good room reserved people call s2" using ok unfolding s2 poi_call_ok_def by (auto split: poi_call.split option.split)
  have new: "applicant_ok origin call s2" using as_poi_validate_ok(2)[OF v] by (simp add: s2 applicant_ok_def)
  have "inv (case poi_dispatch cfg now origin call s2 of Inr (t, _) \<Rightarrow> t | Inl _ \<Rightarrow> s2)"
    using i2 dispatch_inv[OF i2 _ ok2 new] by (auto split: sum.split)
  then show ?thesis unfolding s' as_poi_post_dispatch_def
    using inv_same_world[OF _ world_unchanged(7)] by (auto split: option.split)
qed

end

end
