(* ===== verification/ProofOfInk_Judgement.thy ===== *)
theory ProofOfInk_Judgement
  imports ProofOfInk_Steps
begin

text \<open>
  The verdict of the oracle, \<^verbatim>\<open>judged\<close> of \<^verbatim>\<open>pallets/proof-of-ink/src/lib.rs\<close>, against its specification: what becomes of
  the candidate depends on the verdict, on how much evidence was judged before, and on the number of failures.
\<close>

subsection \<open>The specification\<close>

datatype verdict = Dismissed | Retry | HalfWay | Accepted

definition verdict_on :: "nat \<Rightarrow> ('dep, 'tk) selected \<Rightarrow> judgement \<Rightarrow> verdict" where
  "verdict_on retries sel j =
     (if j = Contempt then Dismissed
      else if j = Truth Truth_True \<and> sel_allocation sel = Initial then HalfWay
      else if j = Truth Truth_True \<and> sel_allocation sel = Full then Accepted
      else if sat_inc 32 (sel_failed sel) \<le> retries then Retry
      else Dismissed)"

definition status_after :: "nat \<Rightarrow> ('dep, 'tk) selected \<Rightarrow> judgement \<Rightarrow> ('dep, 'tk) candidate option" where
  "status_after retries sel j =
     (case verdict_on retries sel j of
        Dismissed \<Rightarrow> None
      | Retry \<Rightarrow> Some (Selected (sel\<lparr>sel_judging := None, sel_failed := sat_inc 32 (sel_failed sel)\<rparr>))
      | HalfWay \<Rightarrow> Some (Selected (sel\<lparr>sel_judging := None, sel_allocation := InitDone\<rparr>))
      | Accepted \<Rightarrow> Some (Proven \<lparr>prv_design = sel_design sel, prv_reserved = sel_reserved sel,
          prv_referred = (case sel_cred sel of Referred _ \<Rightarrow> True | _ \<Rightarrow> False),
          prv_invited = (case sel_cred sel of Invited _ \<Rightarrow> True | _ \<Rightarrow> False)\<rparr>))"

definition put_status ::
  "'acc \<Rightarrow> ('dep, 'tk) candidate option \<Rightarrow> ('acc, ('dep, 'tk) candidate) fmap \<Rightarrow> ('acc, ('dep, 'tk) candidate) fmap" where
  "put_status a st cs = (case st of Some c \<Rightarrow> fmupd a c cs | None \<Rightarrow> fmdrop a cs)"

lemma fmlookup_put_status [simp]: "fmlookup (put_status a st cs) b = (if b = a then st else fmlookup cs b)"
  by (simp add: put_status_def split: option.split)

lemma verdict_dismissed:
  assumes "j = Contempt \<or> j \<noteq> Contempt \<and> (j = Truth Truth_False \<or> sel_allocation sel = InitDone) \<and> \<not> sat_inc 32 (sel_failed sel) \<le> n"
  shows "status_after n sel j = None"
  using assms by (auto simp: status_after_def verdict_on_def)

context people_reservations
begin

subsection \<open>A judgement is applied\<close>

lemma mutate_at:
  assumes "fmlookup (PoiPeople s) i = Some p"
  shows "fmlookup (PoiPeople (mutate_extant i f s)) i = Some (f p)"
  using assms by (simp add: mutate_extant_def)

lemma lose_banned:
  assumes "sel_cred sel = Referred i" "fmlookup (PoiPeople s) i = Some p"
  shows "\<exists>p'. fmlookup (PoiPeople (lose_credibility cfg (referral_contemptuous cfg) (sel_cred sel) a s)) i = Some p' \<and> pp_banned p'"
  using mutate_at[OF assms(2)] by (simp add: assms(1) lose_credibility_def referral_contemptuous_def dec_sufficients_def)

lemma fail_candidate_ok:
  assumes inv: "inv s" and c: "fmlookup (Candidates s) a = Some (Selected sel)"
    and rf: "\<And>i. settles a (Referred i) s (referral i a s)"
  shows "\<exists>s'. fail_candidate cfg referral a (sel\<lparr>sel_judging := None\<rparr>) j s = Inr s' \<and> Candidates s' = fmdrop a (Candidates s) \<and>
    reserved (p_world s') = reserved (p_world s) - {sel_reserved sel} \<and>
    (\<forall>k. elective (sel_design sel) = Some k \<longrightarrow> fmlookup (CommittedDesigns s') k = None) \<and>
    PoiPeople s' = PoiPeople (lose_credibility cfg referral (sel_cred sel) a s)"
proof -
  let ?s1 = "lose_credibility cfg referral (sel_cred sel) a s"
  note k = settlesD[OF lose_settles[of a s referral "sel_cred sel", OF rf]]
  have "sel_reserved sel \<in> reserved (p_world s)"
    using poi_invD(5)[OF inv] view_lookup(3)[OF c] unfolding ids_held_def by simp
  then have g: "good (p_world ?s1)" "sel_reserved sel \<in> reserved (p_world ?s1)" "reserved (p_world ?s1) = reserved (p_world s)"
    using k(7) poi_invD(1)[OF inv] unfolding unchanged_def by auto
  obtain w where w: "c_cancel cfg (sel_reserved sel) (p_world ?s1) = Inr w"
    using cancel_ok[OF g(1,2)] by (cases "c_cancel cfg (sel_reserved sel) (p_world ?s1)") auto
  show ?thesis using w cancel_law[OF g(1) w] k(1) g(3)
    by (auto simp: fail_candidate_def on_world_def remove_candidate_def release_design_frame Let_def poi_deposit_def split: option.split)
qed

lemma referrer_known:
  assumes inv: "inv s" and c: "fmlookup (Candidates s) a = Some (Selected sel)" and i: "sel_cred sel = Referred i"
  shows "\<exists>p. fmlookup (PoiPeople s) i = Some p"
proof -
  have "referrer_of (Candidates s) a = Some i" using view_lookup(2)[OF c] i by simp
  then show ?thesis using referrals_okD(5)[OF poi_invD(4)[OF inv]] by (auto simp: active_of_def)
qed

lemma judged_applies:
  assumes inv: "inv s" and root: "outer (c_root cfg) origin" and a: "c_decode cfg context = Some a"
    and c: "fmlookup (Candidates s) a = Some (Selected sel)" and t: "sel_judging sel = Some ticket"
    and refresh: "is_ok (c_refresh cfg a (p_world s))"
  shows "\<exists>s' info. judged cfg origin ticket context j s = Inr (s', info) \<and>
    Candidates s' = put_status a (status_after (c_max_retry_attempts cfg) sel j) (Candidates s) \<and>
    (status_after (c_max_retry_attempts cfg) sel j = None \<longrightarrow>
       reserved (p_world s') = reserved (p_world s) - {sel_reserved sel} \<and>
       (\<forall>k. elective (sel_design sel) = Some k \<longrightarrow> fmlookup (CommittedDesigns s') k = None)) \<and>
    (\<forall>i. j = Contempt \<and> sel_cred sel = Referred i \<longrightarrow> (\<exists>p. fmlookup (PoiPeople s') i = Some p \<and> pp_banned p))"
proof -
  note b = judged_branches[OF root a c t, where judgement = j]
  let ?st = "status_after (c_max_retry_attempts cfg) sel j"
  consider "j = Contempt"
    | "j \<noteq> Contempt" "j = Truth Truth_False \<or> sel_allocation sel = InitDone" "sat_inc 32 (sel_failed sel) > c_max_retry_attempts cfg"
    | "j \<noteq> Contempt" "j = Truth Truth_False \<or> sel_allocation sel = InitDone" "\<not> sat_inc 32 (sel_failed sel) > c_max_retry_attempts cfg"
    | "j = Truth Truth_True" "sel_allocation sel = Full" | "j = Truth Truth_True" "sel_allocation sel = Initial"
    by (cases j rule: judgement_cases; cases "sel_allocation sel"; fastforce)
  then show ?thesis
  proof cases
    case 1
    obtain s' where s': "fail_candidate cfg (referral_contemptuous cfg) a (sel\<lparr>sel_judging := None\<rparr>) j s = Inr s'"
      "Candidates s' = fmdrop a (Candidates s)" "reserved (p_world s') = reserved (p_world s) - {sel_reserved sel}"
      "\<forall>k. elective (sel_design sel) = Some k \<longrightarrow> fmlookup (CommittedDesigns s') k = None"
      "PoiPeople s' = PoiPeople (lose_credibility cfg (referral_contemptuous cfg) (sel_cred sel) a s)"
      using fail_candidate_ok[OF inv c, where referral = "referral_contemptuous cfg", OF referral_settles(4)] by blast
    have "?st = None" using 1 by (intro verdict_dismissed) simp
    moreover have "\<exists>p. fmlookup (PoiPeople s') i = Some p \<and> pp_banned p" if "sel_cred sel = Referred i" for i
      using lose_banned[OF that] referrer_known[OF inv c that] s'(5) by auto
    ultimately show ?thesis using b s' 1 by (simp add: put_status_def)
  next
    case 2
    obtain s' where s': "fail_candidate cfg (referral_bad cfg) a (sel\<lparr>sel_judging := None\<rparr>) j s = Inr s'"
      "Candidates s' = fmdrop a (Candidates s)" "reserved (p_world s') = reserved (p_world s) - {sel_reserved sel}"
      "\<forall>k. elective (sel_design sel) = Some k \<longrightarrow> fmlookup (CommittedDesigns s') k = None"
      using fail_candidate_ok[OF inv c, where referral = "referral_bad cfg", OF referral_settles(3)] by blast
    have "?st = None" using 2 by (intro verdict_dismissed) simp
    then show ?thesis using b s' 2 by (simp add: put_status_def)
  next
    case 3
    obtain w where "c_refresh cfg a (p_world s) = Inr w" using refresh by (cases "c_refresh cfg a (p_world s)") auto
    then have "judged cfg origin ticket context j s = Inr (poi_deposit (JudgementProvided a j)
        (put_candidate a (Selected (sel\<lparr>sel_judging := None, sel_failed := sat_inc 32 (sel_failed sel)\<rparr>))
          ((poi_deposit (RetryGranted a (sat_inc 32 (sel_failed sel))) s)\<lparr>p_world := w\<rparr>)), judged_info cfg sel s)"
      using b 3 by (simp add: on_world_def poi_deposit_def)
    moreover have "?st = Some (Selected (sel\<lparr>sel_judging := None, sel_failed := sat_inc 32 (sel_failed sel)\<rparr>))"
      using 3 by (auto simp: status_after_def verdict_on_def)
    ultimately show ?thesis using 3(1) by (simp add: poi_deposit_def put_candidate_def put_status_def)
  next
    case 4
    let ?prv = "\<lparr>prv_design = sel_design sel, prv_reserved = sel_reserved sel,
        prv_referred = (case sel_cred sel of Referred _ \<Rightarrow> True | _ \<Rightarrow> False),
        prv_invited = (case sel_cred sel of Invited _ \<Rightarrow> True | _ \<Rightarrow> False)\<rparr>"
    let ?s1 = "case sel_cred sel of Referred who \<Rightarrow> referral_ok cfg who a s
      | Deposit deposit \<Rightarrow> return_deposit cfg deposit a s | Invited _ \<Rightarrow> s"
    have "judged cfg origin ticket context j s = Inr (poi_deposit (JudgementProvided a j) (put_candidate a (Proven ?prv)
          (mark_design Committed (sel_design sel) (?s1\<lparr>AllocationCount := AllocationCount s - 1\<rparr>))), judged_info cfg sel s)"
      using b 4 unfolding approve_count by simp
    moreover have "Candidates ?s1 = Candidates s" by (rule settlesD(1)[OF approve_settles[of a "sel_cred sel" s]])
    moreover have "?st = Some (Proven ?prv)" using 4 by (simp add: status_after_def verdict_on_def)
    ultimately show ?thesis using 4(1) by (simp add: poi_deposit_def put_candidate_def put_status_def mark_design_frame)
  next
    case 5
    then have "?st = Some (Selected (sel\<lparr>sel_judging := None, sel_allocation := InitDone\<rparr>))"
      by (simp add: status_after_def verdict_on_def)
    then show ?thesis using b 5 by (simp add: poi_deposit_def put_candidate_def put_status_def)
  qed
qed

end

end
