(* ===== verification/ProofOfInk_People.thy ===== *)
theory ProofOfInk_People
  imports ProofOfInk_Judgement PeopleChain
begin

text \<open>
  Proof of ink, \<^verbatim>\<open>pallets/proof-of-ink/src/lib.rs\<close>, on the model of the registry of people,
  \<^verbatim>\<open>pallets/people-multi/src/lib.rs\<close>: the reservations of candidates and the people of the pallet are those of the
  registry. The properties hold for every run of transactions and of the rest of the chain.
\<close>

definition on_registry ::
  "('pacc, 'm, 'ms, 'x, 'po, 'proof, 'psig) pcfg
     \<Rightarrow> ('acc, 'tk, 'dep, 'x people_err, ('cw, 'pacc, 'm, 'ms) chain, 'o, 'm, 'sig, 'ts) icfg
     \<Rightarrow> ('acc, 'tk, 'dep, 'x people_err, ('cw, 'pacc, 'm, 'ms) chain, 'o, 'm, 'sig, 'ts) icfg" where
  "on_registry pcfg cfg = cfg\<lparr>
     c_reserve := (\<lambda>w. let (i, p) = reserve_new_id (ch_people w) in (i, w\<lparr>ch_people := p\<rparr>)),
     c_renew := (\<lambda>i w. put_people (renew_id_reservation i (ch_people w)) w),
     c_cancel := (\<lambda>i w. put_people (cancel_id_reservation i (ch_people w)) w),
     c_recognize := (\<lambda>i k w. put_people (recognize_personhood pcfg (ch_now w) i k (ch_people w)) w)\<rparr>"

text \<open>The deposits, the account counters, storage allowances, the oracle and the nonces leave the registry alone.\<close>

definition world_local ::
  "('acc, 'tk, 'dep, 'x, ('cw, 'pacc, 'm, 'ms) chain, 'o, 'm, 'sig, 'ts) icfg
     \<Rightarrow> ('acc \<Rightarrow> 'n \<Rightarrow> ('cw, 'pacc, 'm, 'ms) chain \<Rightarrow> invalid_transaction + ('cw, 'pacc, 'm, 'ms) chain) \<Rightarrow> bool" where
  "world_local cfg prep \<longleftrightarrow> (\<forall>c w w'. world_do cfg prep c w = Some w' \<longrightarrow> ch_people w' = ch_people w)"

definition registry_good ::
  "('acc, 'tk, 'dep, 'x, ('cw, 'pacc, 'm, 'ms) chain, 'o, 'm, 'sig, 'ts) icfg
     \<Rightarrow> ('acc \<Rightarrow> 'n \<Rightarrow> ('cw, 'pacc, 'm, 'ms) chain \<Rightarrow> invalid_transaction + ('cw, 'pacc, 'm, 'ms) chain)
     \<Rightarrow> ('cw, 'pacc, 'm, 'ms) chain \<Rightarrow> bool" where
  "registry_good cfg prep w \<longleftrightarrow> world_local cfg prep \<and> people_inv (ch_people w)"

definition reserved_on :: "('cw, 'acc, 'm, 'ms) chain \<Rightarrow> personal_id set" where
  "reserved_on w = {i. contains_key (ReservedPersonalId (ch_people w)) i}"

definition people_on :: "('cw, 'acc, 'm, 'ms) chain \<Rightarrow> personal_id set" where
  "people_on w = {i. contains_key (People (ch_people w)) i}"

lemma world_do_on_registry: "world_do (on_registry pcfg cfg) prep c w = world_do cfg prep c w"
  by (cases c) (simp_all add: on_registry_def)

lemma recognize_key_result:
  assumes "recognize_personhood pcfg t i (Some k) p = Inr p'"
  shows "{j. contains_key (People p') j} = insert i {j. contains_key (People p) j}"
    and "{j. contains_key (ReservedPersonalId p') j} = {j. contains_key (ReservedPersonalId p) j} - {i}"
  using assms by (auto simp: recognize_personhood_def res_simps people_deposit_def Let_def split: if_splits)

lemma registry_apart: "people_inv p \<Longrightarrow> contains_key (ReservedPersonalId p) i \<Longrightarrow> \<not> contains_key (People p) i"
  using people_inv_parts(5) unfolding ids_ok_def by blast

lemma registry_below: "people_inv p \<Longrightarrow> contains_key (ReservedPersonalId p) i \<or> contains_key (People p) i \<Longrightarrow> i < NextPersonalId p"
  using people_inv_parts(5) unfolding ids_ok_def by blast

interpretation ink_registry: people_reservations "on_registry pcfg cfg" prep "registry_good cfg prep" ids_left reserved_on people_on
  for pcfg :: "('pacc, 'm, 'ms, 'x, 'po, 'proof, 'psig) pcfg"
    and cfg :: "('acc, 'tk, 'dep, 'x people_err, ('cw, 'pacc, 'm, 'ms) chain, 'o, 'm, 'sig, 'ts) icfg"
    and prep :: "'acc \<Rightarrow> 'n \<Rightarrow> ('cw, 'pacc, 'm, 'ms) chain \<Rightarrow> invalid_transaction + ('cw, 'pacc, 'm, 'ms) chain"
proof
  fix w w' :: "('cw, 'pacc, 'm, 'ms) chain" and i k
  show "unchanged_on (registry_good cfg prep) ids_left reserved_on people_on w w'"
    if "world_do (on_registry pcfg cfg) prep c w = Some w'" for c :: "('acc, 'dep, 'n) world_call"
    using that unfolding world_do_on_registry unchanged_on_def registry_good_def world_local_def ids_left_def reserved_on_def people_on_def
    by metis
  assume g: "registry_good cfg prep w"
  then have inv: "people_inv (ch_people w)" and loc: "world_local cfg prep" by (simp_all add: registry_good_def)
  note defs = on_registry_def registry_good_def reserved_on_def people_on_def put_people_Inr
  show "reserved_on w \<inter> people_on w = {}" using registry_apart[OF inv] by (auto simp: reserved_on_def people_on_def)
  show "registry_good cfg prep w' \<and> i \<notin> reserved_on w \<and> i \<notin> people_on w \<and> reserved_on w' = insert i (reserved_on w) \<and> people_on w' = people_on w"
    if room: "ids_left w" and run: "c_reserve (on_registry pcfg cfg) w = (i, w')"
  proof -
    obtain p where p: "reserve_new_id (ch_people w) = (i, p)" and w': "w' = w\<lparr>ch_people := p\<rparr>"
      using run by (auto simp: on_registry_def split: prod.splits)
    have "\<not> contains_key (ReservedPersonalId (ch_people w)) (NextPersonalId (ch_people w))"
      "\<not> contains_key (People (ch_people w)) (NextPersonalId (ch_people w))"
      using registry_below[OF inv, of "NextPersonalId (ch_people w)"] by blast+
    moreover have "i = NextPersonalId (ch_people w)" "People p = People (ch_people w)"
      "ReservedPersonalId p = fmupd i () (ReservedPersonalId (ch_people w))" using p by (auto simp: reserve_new_id_def Let_def)
    ultimately show ?thesis using reserve_new_id_inv[OF inv _ p] room loc by (auto simp: w' ids_left_def defs)
  qed
  show "registry_good cfg prep w' \<and> i \<notin> reserved_on w \<and> i \<notin> people_on w \<and> reserved_on w' = insert i (reserved_on w) \<and> people_on w' = people_on w"
    if run: "c_renew (on_registry pcfg cfg) i w = Inr w'"
  proof -
    obtain p where p: "(renew_id_reservation i (ch_people w) :: 'x people_err + _) = Inr p" and w': "w' = w\<lparr>ch_people := p\<rparr>"
      using run by (auto simp: defs)
    have "People p = People (ch_people w)" "ReservedPersonalId p = fmupd i () (ReservedPersonalId (ch_people w))"
      "\<not> contains_key (People (ch_people w)) i" "\<not> contains_key (ReservedPersonalId (ch_people w)) i"
      using p by (auto simp: renew_id_reservation_def split: if_splits)
    then show ?thesis using renew_inv[OF inv p] loc by (auto simp: w' defs)
  qed
  show "registry_good cfg prep w' \<and> reserved_on w' = reserved_on w - {i} \<and> people_on w' = people_on w"
    if run: "c_cancel (on_registry pcfg cfg) i w = Inr w'"
  proof -
    obtain p where p: "(cancel_id_reservation i (ch_people w) :: 'x people_err + _) = Inr p" and w': "w' = w\<lparr>ch_people := p\<rparr>"
      using run by (auto simp: defs)
    have "People p = People (ch_people w)" "ReservedPersonalId p = fmdrop i (ReservedPersonalId (ch_people w))"
      using p by (auto simp: cancel_id_reservation_def res_simps)
    then show ?thesis using cancel_inv[OF inv p] loc by (auto simp: w' defs)
  qed
  show "is_ok (c_cancel (on_registry pcfg cfg) i w)" if "i \<in> reserved_on w"
    using that by (simp add: on_registry_def put_people_def cancel_id_reservation_def reserved_on_def)
  show "registry_good cfg prep w' \<and> reserved_on w' = reserved_on w - {i} \<and> people_on w' = insert i (people_on w)"
    if run: "c_recognize (on_registry pcfg cfg) i (Some k) w = Inr w'"
  proof -
    obtain p where p: "recognize_personhood pcfg (ch_now w) i (Some k) (ch_people w) = Inr p" and w': "w' = w\<lparr>ch_people := p\<rparr>"
      using run by (auto simp: defs)
    show ?thesis using recognize_inv[OF inv p] recognize_key_result[OF p] loc by (simp add: w' defs)
  qed
qed

subsection \<open>Runs\<close>

type_synonym ('acc, 'n, 'o, 'tk, 'm, 'sig, 'ts, 'w) poi_op =
  "block_number \<times> 'n as_poi_info option \<times> 'o \<times> ('acc, 'tk, 'm, 'sig, 'ts, 'w) poi_call"

fun poi_step ::
  "('acc, 'tk, 'dep, 'x, 'w, 'o, 'm, 'sig, 'ts) icfg \<Rightarrow> ('acc \<Rightarrow> 'n \<Rightarrow> 'w \<Rightarrow> invalid_transaction + 't list \<times> 't list)
     \<Rightarrow> ('acc \<Rightarrow> 'n \<Rightarrow> 'w \<Rightarrow> invalid_transaction + 'w) \<Rightarrow> ('acc, 'n, 'o, 'tk, 'm, 'sig, 'ts, 'w) poi_op
     \<Rightarrow> ('acc, 'tk, 'dep, 'w) ist \<Rightarrow> invalid_transaction + ('acc, 'tk, 'dep, 'w) ist" where
  "poi_step cfg vn prep (now, ext, origin, call) s = poi_transaction cfg vn prep now ext origin call s"

text \<open>
  The side condition of a step: an id is left where one is reserved, the configured maximum is a \<open>u32\<close>, and what the rest
  of the chain does keeps the registry consistent, the reservations of the candidates and the people of the pallet.
\<close>

fun poi_op_ok ::
  "('acc, 'tk, 'dep, 'x, ('cw, 'pacc, 'm, 'ms) chain, 'o, 'm, 'sig, 'ts) icfg
     \<Rightarrow> ('acc \<Rightarrow> 'n \<Rightarrow> ('cw, 'pacc, 'm, 'ms) chain \<Rightarrow> invalid_transaction + ('cw, 'pacc, 'm, 'ms) chain)
     \<Rightarrow> ('acc, 'n, 'o, 'tk, 'm, 'sig, 'ts, ('cw, 'pacc, 'm, 'ms) chain) poi_op
     \<Rightarrow> ('acc, 'tk, 'dep, ('cw, 'pacc, 'm, 'ms) chain) ist \<Rightarrow> bool" where
  "poi_op_ok cfg prep (now, ext, origin, call) s = poi_call_ok (registry_good cfg prep) ids_left reserved_on people_on call s"

interpretation poi: pallet_machine "poi_step (on_registry pcfg cfg) vn prep" "poi_op_ok cfg prep"
  "poi_inv (on_registry pcfg cfg) (registry_good cfg prep) reserved_on people_on"
  for pcfg :: "('pacc, 'm, 'ms, 'x, 'po, 'proof, 'psig) pcfg"
    and cfg :: "('acc, 'tk, 'dep, 'x people_err, ('cw, 'pacc, 'm, 'ms) chain, 'o, 'm, 'sig, 'ts) icfg"
    and vn :: "'acc \<Rightarrow> 'n \<Rightarrow> ('cw, 'pacc, 'm, 'ms) chain \<Rightarrow> invalid_transaction + 't list \<times> 't list" and prep
proof
  fix s s' and c :: "('acc, 'n, 'o, 'tk, 'm, 'sig, 'ts, ('cw, 'pacc, 'm, 'ms) chain) poi_op"
  assume "poi_inv (on_registry pcfg cfg) (registry_good cfg prep) reserved_on people_on s" "poi_op_ok cfg prep c s"
    "poi_step (on_registry pcfg cfg) vn prep c s = Inr s'"
  then show "poi_inv (on_registry pcfg cfg) (registry_good cfg prep) reserved_on people_on s'"
    by (cases c) (auto intro: ink_registry.poi_transaction_inv)
qed

lemma reachable_poi_inv:
  fixes cfg :: "('acc, 'tk, 'dep, 'x people_err, ('cw, 'pacc, 'm, 'ms) chain, 'o, 'm, 'sig, 'ts) icfg"
  assumes "world_local cfg prep" "people_inv (ch_people w)"
    and "run_ok (poi_step (on_registry pcfg cfg) vn prep) (poi_op_ok cfg prep) ops (poi_genesis w)"
  shows "poi_inv (on_registry pcfg cfg) (registry_good cfg prep) reserved_on people_on
    (exec_all (poi_step (on_registry pcfg cfg) vn prep) ops (poi_genesis w))"
proof (rule poi.exec_all_inv[OF poi_inv_genesis assms(3)])
  show "registry_good cfg prep w" using assms(1,2) by (simp add: registry_good_def)
  show "reserved_on w \<inter> people_on w = {}" using registry_apart[OF assms(2)] by (auto simp: reserved_on_def people_on_def)
qed

end
