(* ===== verification/ProofOfInk_Example.thy ===== *)
theory ProofOfInk_Example
  imports ProofOfInk_People
begin

text \<open>
  A small chain for \<^verbatim>\<open>pallets/proof-of-ink/src/lib.rs\<close> on which the properties are evaluated: accounts, keys and tickets
  are numbers, the funds are the number of the next ticket of the oracle, and the registry is that of the example of the
  people pallet. One candidate becomes a person and refers another one, whose evidence is waiting for a verdict.
\<close>

datatype iex_origin = IexRoot | IexSigned nat | IexPerson personal_id

type_synonym iex_world = "(nat, nat, nat, nat list) chain"

definition iex_cfg :: "(nat, nat, nat, unit people_err, iex_world, iex_origin, nat, nat, nat) poi_config" where
  "iex_cfg = \<lparr>
     c_signed = (\<lambda>org. case org of IexSigned a \<Rightarrow> Some a | _ \<Rightarrow> None),
     c_root = (\<lambda>org. org = IexRoot),
     c_manager_or_root = (\<lambda>org. org = IexRoot),
     c_invitations = (\<lambda>org. org = IexRoot),
     c_person = (\<lambda>org. case org of IexPerson i \<Rightarrow> Some i | _ \<Rightarrow> None),
     c_encode = (\<lambda>a. [char_of a]),
     c_decode = (\<lambda>bs. case bs of [c] \<Rightarrow> Some (of_char c) | _ \<Rightarrow> None),
     c_random = (\<lambda>_ _. replicate 32 (char_of (0 :: nat))),
     c_verify_ticket = (\<lambda>sg _ tk. sg = tk),
     c_verify_member = (\<lambda>sg _ k. sg = k),
     c_pot = 0,
     c_max_active_referrals = 2,
     c_max_retry_attempts = 1,
     c_pallet_index = 3,
     c_deposit_new = (\<lambda>a w. Inr (w, 100)),
     c_deposit_drop = (\<lambda>_ _ w. Inr w),
     c_deposit_burn = (\<lambda>_ _ w. w),
     c_inc_sufficients = (\<lambda>_ w. w),
     c_dec_sufficients = (\<lambda>_ w. w),
     c_inc_providers = (\<lambda>_ w. w),
     c_dec_providers = (\<lambda>_ w. w),
     c_allocate = (\<lambda>_ _ _ w. Inr w),
     c_refresh = (\<lambda>_ w. Inr w),
     c_judge = (\<lambda>_ _ _ w. Inr (w\<lparr>ch_funds := Suc (ch_funds w)\<rparr>, ch_funds w)),
     c_transfer = (\<lambda>_ _ n _ w. Inr (w, n)),
     c_reserve = (\<lambda>w. (0, w)),
     c_renew = (\<lambda>_ w. Inr w),
     c_cancel = (\<lambda>_ w. Inr w),
     c_recognize = (\<lambda>_ _ w. Inr w),
     weight_judged = (\<lambda>_. zero_weight),
     weight_flakeout = (\<lambda>_. zero_weight)\<rparr>"

definition iex_nonce :: "nat \<Rightarrow> unit \<Rightarrow> iex_world \<Rightarrow> invalid_transaction + iex_world" where
  "iex_nonce a n w = Inr w"

definition iex_check :: "nat \<Rightarrow> unit \<Rightarrow> iex_world \<Rightarrow> invalid_transaction + unit list \<times> unit list" where
  "iex_check a n w = Inr ([], [])"

lemma iex_local: "world_local iex_cfg iex_nonce"
proof -
  have "ch_people w' = ch_people w" if "world_do iex_cfg iex_nonce c w = Some w'" for c w w'
    using that by (cases c) (auto simp: iex_cfg_def iex_nonce_def)
  then show ?thesis by (simp add: world_local_def)
qed

definition iex_world0 :: iex_world where
  "iex_world0 = \<lparr>ch_now = 5, ch_funds = 0, ch_people = people_genesis []\<rparr>"

definition iex_ops :: "(nat, unit, iex_origin, nat, nat, nat, nat, iex_world) poi_op list" where
  "iex_ops = [
     (1, None, IexRoot, CallAddDesignFamily 7 (FamDesigned 10) ''tribal''),
     (1, None, IexSigned 1, CallApply),
     (2, None, IexSigned 1, CallCommit (ChooseDesignedElective 7 4) None),
     (3, None, IexSigned 1, CallSubmitEvidence ''video''),
     (4, None, IexRoot, CallJudged 0 [char_of (1 :: nat)] (Truth Truth_True)),
     (5, None, IexSigned 1, CallRegisterNonReferred 11 1 11),
     (6, None, IexPerson 0, CallSetReferralTicket 70),
     (7, Some (AsApplyWithSig ()), IexSigned 2, CallApplyWithSignature 0 70 70),
     (8, Some (AsReferred ()), IexSigned 2, CallCommit (ChooseDesignedElective 7 5) None),
     (9, Some (AsReferred ()), IexSigned 2, CallSubmitEvidence ''photo'')]"

abbreviation iex_step where
  "iex_step \<equiv> poi_step (on_registry pex_cfg iex_cfg) iex_check iex_nonce"

definition iex_state :: "(nat, nat, nat, iex_world) ist" where
  "iex_state = exec_all iex_step iex_ops (poi_genesis iex_world0)"

definition iex_side_ok :: "(nat, unit, iex_origin, nat, nat, nat, nat, iex_world) poi_op \<Rightarrow> (nat, nat, nat, iex_world) ist \<Rightarrow> bool" where
  "iex_side_ok c s = (case c of (_, _, _, call) \<Rightarrow> maximum (Configuration s) \<le> max_of 32 \<and>
     (case call of CallCommit _ None \<Rightarrow> ids_left (p_world s) | CallOther _ \<Rightarrow> False | _ \<Rightarrow> True))"

lemma iex_run: "run_ok iex_step (poi_op_ok iex_cfg iex_nonce) iex_ops (poi_genesis iex_world0)"
proof (rule run_ok_mono)
  show "run_ok iex_step iex_side_ok iex_ops (poi_genesis iex_world0)" by code_simp
  show "poi_op_ok iex_cfg iex_nonce c s" if "iex_side_ok c s" for c s
  proof -
    obtain now ext org call where "c = (now, ext, org, call)" by (cases c)
    then show ?thesis using that by (cases call) (auto simp: iex_side_ok_def poi_call_ok_def split: option.splits)
  qed
qed

lemma iex_start: "people_inv (ch_people iex_world0)"
  by (simp add: iex_world0_def people_genesis_inv)

lemmas iex = iex_local iex_start iex_run iex_state_def

text \<open>What the storage holds at the end.\<close>

lemma iex_values:
  "fmlookup (CommittedDesigns iex_state) (7, 4) = Some Committed" "fmlookup (CommittedDesigns iex_state) (7, 5) = Some Reserved"
  "AllocationCount iex_state = 1" "map_option pp_active_referrals (fmlookup (PoiPeople iex_state) 0) = Some [2]"
  by code_simp+

end
