(* ===== verification/ProofOfInk_Properties.thy ===== *)
theory ProofOfInk_Properties
  imports ProofOfInk_Example
begin

text \<open>
  The properties of proof of ink, \<^verbatim>\<open>pallets/proof-of-ink/src/lib.rs\<close>, in every state that transactions and the rest of
  the chain can reach, with the pallet on the registry of people.
\<close>

subsection \<open>Designs, referrals and ids\<close>

text \<open>
  C17: In every reachable state an elective design is taken exactly when one holder has it, a candidate who committed to
  it or a person, and never two; it is final once the holder is proven. The number of allocations that
  limits \<open>commit\<close> is the number of selected candidates.
\<close>

theorem designs_have_one_holder:
  fixes cfg :: "('acc, 'tk, 'dep, 'x people_err, ('cw, 'pacc, 'm, 'ms) chain, 'o, 'm, 'sig, 'ts) icfg"
  assumes "world_local cfg prep" "people_inv (ch_people w)"
    and "run_ok (poi_step (on_registry pcfg cfg) vn prep) (poi_op_ok cfg prep) ops (poi_genesis w)"
    and "s = exec_all (poi_step (on_registry pcfg cfg) vn prep) ops (poi_genesis w)"
  shows "(\<forall>h k st. claim_of (Candidates s) (PoiPeople s) h = Some (k, st) \<longrightarrow> fmlookup (CommittedDesigns s) k = Some st) \<and>
    (\<forall>k st. fmlookup (CommittedDesigns s) k = Some st \<longrightarrow>
      (\<exists>!h. claim_of (Candidates s) (PoiPeople s) h = Some (k, st))) \<and>
    AllocationCount s = card {a. \<exists>sel. fmlookup (Candidates s) a = Some (Selected sel)}"
proof -
  note d = poi_invD[OF reachable_poi_inv[OF assms(1-3)], folded assms(4)]
  show ?thesis using claims_okD[OF d(3)] d(2) unfolding selected_count_card by (intro conjI allI impI) (blast, metis, simp)
qed

lemma designs_have_one_holder_witness:
  "(\<exists>!h. claim_of (Candidates iex_state) (PoiPeople iex_state) h = Some ((7, 4), Committed)) \<and>
   (\<exists>!h. claim_of (Candidates iex_state) (PoiPeople iex_state) h = Some ((7, 5), Reserved)) \<and>
   card {a. \<exists>sel. fmlookup (Candidates iex_state) a = Some (Selected sel)} = 1"
proof -
  have u: "\<exists>!h. claim_of (Candidates iex_state) (PoiPeople iex_state) h = Some (k, st)" if "fmlookup (CommittedDesigns iex_state) k = Some st" for k st
    using designs_have_one_holder[OF iex] that by blast
  have "AllocationCount iex_state = card {a. \<exists>sel. fmlookup (Candidates iex_state) a = Some (Selected sel)}"
    using designs_have_one_holder[OF iex] by blast
  then show ?thesis using u[OF iex_values(1)] u[OF iex_values(2)] iex_values(3) by simp
qed

text \<open>
  C20: In every reachable state the active referrals of a person are, each once, the candidates who applied with a ticket
  of that person and are not yet judged. With the tickets given out they are at most the configured maximum, so the
  two bounded vectors never overflow, and a referrer of a candidate is always a person of the pallet.
\<close>

theorem referrals_are_the_candidates:
  fixes cfg :: "('acc, 'tk, 'dep, 'x people_err, ('cw, 'pacc, 'm, 'ms) chain, 'o, 'm, 'sig, 'ts) icfg"
  assumes "world_local cfg prep" "people_inv (ch_people w)"
    and "run_ok (poi_step (on_registry pcfg cfg) vn prep) (poi_op_ok cfg prep) ops (poi_genesis w)"
    and "s = exec_all (poi_step (on_registry pcfg cfg) vn prep) ops (poi_genesis w)"
  shows "(\<forall>i p. fmlookup (PoiPeople s) i = Some p \<longrightarrow>
      distinct (pp_active_referrals p) \<and> set (pp_active_referrals p) = {a. referrer_of (Candidates s) a = Some i} \<and>
      distinct (get_or [] (ReferralTickets s) i) \<and>
      length (get_or [] (ReferralTickets s) i) + length (pp_active_referrals p) \<le> c_max_active_referrals cfg) \<and>
    (\<forall>a i. referrer_of (Candidates s) a = Some i \<longrightarrow> contains_key (PoiPeople s) i)"
proof -
  note d = referrals_okD[OF poi_invD(4)[OF reachable_poi_inv[OF assms(1-3)], folded assms(4)]]
  have m: "c_max_active_referrals (on_registry pcfg cfg) = c_max_active_referrals cfg" by (simp add: on_registry_def)
  have "active_of (PoiPeople s) i = Some (pp_active_referrals p)" if "fmlookup (PoiPeople s) i = Some p" for i p
    using that by (simp add: active_of_def)
  moreover have "contains_key (PoiPeople s) i" if "referrer_of (Candidates s) a = Some i" for a i
    using d(5)[OF that] by (auto simp: active_of_def)
  ultimately show ?thesis using d(1-4) unfolding m by blast
qed

lemma referrals_are_the_candidates_witness:
  "\<exists>p. fmlookup (PoiPeople iex_state) 0 = Some p \<and> pp_active_referrals p = [2] \<and>
     {a. referrer_of (Candidates iex_state) a = Some 0} = {2} \<and> length (get_or [] (ReferralTickets iex_state) 0) + 1 \<le> 2"
proof -
  obtain p where p: "fmlookup (PoiPeople iex_state) 0 = Some p" "pp_active_referrals p = [2]" using iex_values(4) by auto
  then have "set (pp_active_referrals p) = {a. referrer_of (Candidates iex_state) a = Some 0} \<and>
      length (get_or [] (ReferralTickets iex_state) 0) + length (pp_active_referrals p) \<le> c_max_active_referrals iex_cfg"
    using referrals_are_the_candidates[OF iex] by blast
  then show ?thesis using p by (simp add: iex_cfg_def)
qed

text \<open>
  C19: The personal id of a candidate who committed to a design stays reserved for that candidate in the registry until
  the candidate is registered or dismissed: no two candidates have the same id, none of them is the id of a person, and
  the people of the pallet are people of the registry.
\<close>

theorem candidate_ids_reserved:
  fixes cfg :: "('acc, 'tk, 'dep, 'x people_err, ('cw, 'pacc, 'm, 'ms) chain, 'o, 'm, 'sig, 'ts) icfg"
  assumes "world_local cfg prep" "people_inv (ch_people w)"
    and "run_ok (poi_step (on_registry pcfg cfg) vn prep) (poi_op_ok cfg prep) ops (poi_genesis w)"
    and "s = exec_all (poi_step (on_registry pcfg cfg) vn prep) ops (poi_genesis w)"
  shows "(\<forall>a i. id_of (Candidates s) a = Some i \<longrightarrow>
      contains_key (ReservedPersonalId (ch_people (p_world s))) i \<and> \<not> contains_key (People (ch_people (p_world s))) i \<and>
      \<not> contains_key (PoiPeople s) i \<and> (\<forall>b. id_of (Candidates s) b = Some i \<longrightarrow> b = a)) \<and>
    (\<forall>i. contains_key (PoiPeople s) i \<longrightarrow> contains_key (People (ch_people (p_world s))) i)"
proof -
  have "ids_held (id_of (Candidates s)) {i. contains_key (PoiPeople s) i} (reserved_on (p_world s)) (people_on (p_world s))"
    using poi_invD(5)[OF reachable_poi_inv[OF assms(1-3)], folded assms(4)] .
  then show ?thesis unfolding ids_held_def reserved_on_def people_on_def by blast
qed

lemma candidate_ids_reserved_witness:
  "contains_key (ReservedPersonalId (ch_people (p_world iex_state))) 1 \<and> \<not> contains_key (People (ch_people (p_world iex_state))) 1 \<and>
   contains_key (People (ch_people (p_world iex_state))) 0"
proof -
  have "id_of (Candidates iex_state) 2 = Some 1" "contains_key (PoiPeople iex_state) 0" using iex_values(4) by (code_simp, auto)
  then show ?thesis using candidate_ids_reserved[OF iex] by blast
qed

subsection \<open>Judgements\<close>



subsection \<open>The timeout\<close>

text \<open>
  With a timeout of \<open>2 ^ 32 - 1\<close> blocks the sum of \<open>timeout\<close> wraps: the candidate who committed to a design in block 8 is
  removed in block 9.
\<close>

lemma timeout_wraps:
  "is_ok (timeout (on_registry pex_cfg iex_cfg) 9 (Outer (IexSigned 5)) 2
     (iex_state\<lparr>Configuration := default_config_record\<lparr>candidate_timeout := 2 ^ 32 - 1\<rparr>\<rparr>))"
  by code_simp

end
