(* ===== verification/OriginRestriction.thy ===== *)
theory OriginRestriction
  imports TxPriority "HOL-Library.Code_Target_Nat"
begin

text \<open>
  The pallet and the transaction extension of \<^verbatim>\<open>pallets/origin-restriction/src/lib.rs\<close>: an entity behind a restricted
  origin pays nothing, but the fees it would pay are its usage, which may not exceed an allowance and recovers with
  every block of the relay chain.

  The entities, their allowances, the calls that may exceed them once, and the fee functions are fields of
  \<open>restriction_config\<close>. The balance is a \<open>u128\<close>. A dispatch is a function from the state to the state it leaves and
  the information it returns; one that fails leaves the state and pays the full fee.
\<close>

subsection \<open>Data\<close>

record allowance =
  al_max :: balance
  al_recovery_per_block :: balance

record usage =
  used :: balance
  at_block :: block_number

record 'e restriction_state =
  Usages :: "('e, usage) storage_map"
  usage_cleaned :: "'e list"

datatype restriction_error = NoUsage | NotZero

record ('e, 'c, 'o) restriction_config =
  restricted_entity :: "'o \<Rightarrow> 'e option"
  entity_allowance :: "'e \<Rightarrow> allowance"
  allowed_one_time_excess :: "'e \<Rightarrow> 'c \<Rightarrow> bool"
  weight_to_fee :: "weight \<Rightarrow> balance"
  length_to_fee :: "weight \<Rightarrow> balance"
  is_none_origin :: "'o \<Rightarrow> bool"
  restrict_origin_tx_ext :: weight

type_synonym ('e, 'c, 'o) rcfg = "('e, 'c, 'o) restriction_config"

subsection \<open>Usage\<close>

definition receive_back :: "allowance \<Rightarrow> block_number \<Rightarrow> usage \<Rightarrow> balance" where
  "receive_back al now u = sat_mul 128 (al_recovery_per_block al) (min (now - at_block u) (max_of 32))"

definition clean_usage ::
  "('e, 'c, 'o) rcfg \<Rightarrow> block_number \<Rightarrow> 'o \<Rightarrow> 'e \<Rightarrow> 'e restriction_state
     \<Rightarrow> (restriction_error, 'x) dispatch_error + 'e restriction_state \<times> post_info" where
  "clean_usage cfg now origin entity s =
     bindE (ensure (\<not> is_none_origin cfg origin) BadOrigin) (\<lambda>_.
     bindE (ok_or (fmlookup (Usages s) entity) (Module NoUsage)) (\<lambda>u.
     let left = used u - receive_back (entity_allowance cfg entity) now u in
     bindE (ensure (left = 0) (Module NotZero)) (\<lambda>_.
     Inr (s\<lparr>Usages := fmdrop entity (Usages s), usage_cleaned := usage_cleaned s @ [entity]\<rparr>, pays_info Pays_No))))"

definition extrinsic_fee :: "('e, 'c, 'o) rcfg \<Rightarrow> weight \<Rightarrow> nat \<Rightarrow> balance" where
  "extrinsic_fee cfg w len =
     sat_add 128 (weight_to_fee cfg w) (length_to_fee cfg \<lparr>ref_time = len, proof_size = 0\<rparr>)"

subsection \<open>The transaction extension\<close>

datatype 'e restriction_val = ValCharge balance 'e usage | ValNoCharge

datatype 'e restriction_pre = PreCharge balance 'e | PreNoCharge weight

definition restrict_weight :: "('e, 'c, 'o) rcfg \<Rightarrow> bool \<Rightarrow> weight" where
  "restrict_weight cfg enabled = (if \<not> enabled then zero_weight else restrict_origin_tx_ext cfg)"

definition restrict_validate ::
  "('e, 'c, 'o) rcfg \<Rightarrow> bool \<Rightarrow> block_number \<Rightarrow> 'o \<Rightarrow> 'c \<Rightarrow> weight \<Rightarrow> nat \<Rightarrow> 'e restriction_state
     \<Rightarrow> invalid_transaction + 'e restriction_val" where
  "restrict_validate cfg enabled now origin call total_weight len s =
     (case restricted_entity cfg origin of
        None \<Rightarrow> Inr ValNoCharge
      | Some entity \<Rightarrow>
          (let al = entity_allowance cfg entity in
           bindE (ensure enabled InvalidCall) (\<lambda>_.
           let u0 = (case fmlookup (Usages s) entity of
                       Some u \<Rightarrow> u\<lparr>used := used u - receive_back al now u, at_block := now\<rparr>
                     | None \<Rightarrow> \<lparr>used = 0, at_block = now\<rparr>);
               fee = extrinsic_fee cfg total_weight len;
               u = u0\<lparr>used := sat_add 128 (used u0) fee\<rparr> in
           if used u \<le> al_max al \<or> used u0 = 0 \<and> allowed_one_time_excess cfg entity call
           then Inr (ValCharge fee entity u)
           else Inl InvalidPayment)))"

definition restrict_prepare ::
  "('e, 'c, 'o) rcfg \<Rightarrow> bool \<Rightarrow> 'e restriction_val \<Rightarrow> 'e restriction_state \<Rightarrow> 'e restriction_pre \<times> 'e restriction_state" where
  "restrict_prepare cfg enabled val s =
     (case val of
        ValCharge fee entity u \<Rightarrow> (PreCharge fee entity, s\<lparr>Usages := fmupd entity u (Usages s)\<rparr>)
      | ValNoCharge \<Rightarrow> (PreNoCharge (restrict_weight cfg enabled), s))"

definition refund_usage :: "('e, 'c, 'o) rcfg \<Rightarrow> balance \<Rightarrow> post_info \<Rightarrow> nat \<Rightarrow> balance \<Rightarrow> balance" where
  "refund_usage cfg fee post len n =
     (if pays_fee post = Pays_No then n - fee
      else case actual_weight post of
             Some w \<Rightarrow> n - (fee - extrinsic_fee cfg w len)
           | None \<Rightarrow> n)"

definition restrict_post_dispatch ::
  "('e, 'c, 'o) rcfg \<Rightarrow> 'e restriction_pre \<Rightarrow> post_info \<Rightarrow> nat \<Rightarrow> 'e restriction_state \<Rightarrow> weight \<times> 'e restriction_state" where
  "restrict_post_dispatch cfg pre post len s =
     (case pre of
        PreCharge fee entity \<Rightarrow>
          (zero_weight,
           case fmlookup (Usages s) entity of
             None \<Rightarrow> s
           | Some u \<Rightarrow>
               (let n = refund_usage cfg fee post len (used u)
                in s\<lparr>Usages := (if n = 0 then fmdrop entity (Usages s)
                                else fmupd entity (u\<lparr>used := n\<rparr>) (Usages s))\<rparr>))
      | PreNoCharge refund \<Rightarrow> (refund, s))"

text \<open>The calls: that of the pallet, and those of other pallets, which report how they ended.\<close>

datatype ('e, 'c) restriction_call = CallCleanUsage 'e | CallElse 'c post_info

definition restriction_dispatch ::
  "('e, ('e, 'c) restriction_call, 'o) rcfg \<Rightarrow> block_number \<Rightarrow> 'o \<Rightarrow> ('e, 'c) restriction_call \<Rightarrow> 'e restriction_state
     \<Rightarrow> 'e restriction_state \<times> post_info" where
  "restriction_dispatch cfg now origin call s =
     (case call of
        CallCleanUsage entity \<Rightarrow>
          (case clean_usage cfg now origin entity s of
             Inr r \<Rightarrow> r
           | Inl (_ :: (restriction_error, unit) dispatch_error) \<Rightarrow> (s, pays_info Pays_Yes))
      | CallElse _ post \<Rightarrow> (s, post))"

definition restricted_transaction ::
  "('e, ('e, 'c) restriction_call, 'o) rcfg \<Rightarrow> bool \<Rightarrow> block_number \<Rightarrow> 'o \<Rightarrow> ('e, 'c) restriction_call \<Rightarrow> weight \<Rightarrow> nat
     \<Rightarrow> 'e restriction_state \<Rightarrow> invalid_transaction + 'e restriction_state \<times> post_info" where
  "restricted_transaction cfg enabled now origin call total_weight len s =
     bindE (restrict_validate cfg enabled now origin call total_weight len s) (\<lambda>val.
     let (pre, s1) = restrict_prepare cfg enabled val s;
         (s2, post) = restriction_dispatch cfg now origin call s1;
         (_, s3) = restrict_post_dispatch cfg pre post len s2
     in Inr (s3, post))"

subsection \<open>The allowance is a rate limit\<close>

text \<open>What an entity still has in use at a block.\<close>

definition level :: "('e, 'c, 'o) rcfg \<Rightarrow> 'e \<Rightarrow> block_number \<Rightarrow> 'e restriction_state \<Rightarrow> balance" where
  "level cfg e t s = (case fmlookup (Usages s) e of Some u \<Rightarrow> used u - receive_back (entity_allowance cfg e) t u | None \<Rightarrow> 0)"

text \<open>The fee that a transaction of the entity would have paid.\<close>

definition consumed ::
  "('e, 'c, 'o) rcfg \<Rightarrow> 'e \<Rightarrow> 'o \<Rightarrow> weight \<Rightarrow> nat \<Rightarrow> post_info \<Rightarrow> balance" where
  "consumed cfg e origin total_weight len post =
     (if restricted_entity cfg origin \<noteq> Some e \<or> pays_fee post = Pays_No then 0
      else case actual_weight post of
             Some w \<Rightarrow> min (extrinsic_fee cfg total_weight len) (extrinsic_fee cfg w len)
           | None \<Rightarrow> extrinsic_fee cfg total_weight len)"

type_synonym ('e, 'c, 'o) restricted_tx = "block_number \<times> bool \<times> 'o \<times> ('e, 'c) restriction_call \<times> weight \<times> nat"

fun consumption ::
  "('e, ('e, 'c) restriction_call, 'o) rcfg \<Rightarrow> 'e \<Rightarrow> ('e, 'c, 'o) restricted_tx list \<Rightarrow> 'e restriction_state \<Rightarrow> balance" where
  "consumption cfg e [] s = 0"
| "consumption cfg e ((now, enabled, origin, call, w, len) # txs) s =
     (case restricted_transaction cfg enabled now origin call w len s of
        Inl _ \<Rightarrow> consumption cfg e txs s
      | Inr (s', post) \<Rightarrow> consumed cfg e origin w len post + consumption cfg e txs s')"

lemma receive_back_now [simp]: "at_block u = now \<Longrightarrow> receive_back al now u = 0"
  by (simp add: receive_back_def sat_mul_def)

lemma recovery_bounded:
  assumes "t \<le> t'"
  shows "receive_back al t u \<le> receive_back al t' u"
    and "receive_back al t' u \<le> receive_back al t u + al_recovery_per_block al * (t' - t)"
proof -
  let ?r = "al_recovery_per_block al" and ?x = "min (t - at_block u) (max_of 32)" and ?y = "min (t' - at_block u) (max_of 32)"
  have le: "?x \<le> ?y" "?y \<le> ?x + (t' - t)" using assms by auto
  then show "receive_back al t u \<le> receive_back al t' u" unfolding receive_back_def by (intro sat_mul_mono) simp_all
  have "?r * ?y \<le> ?r * ?x + ?r * (t' - t)" using mult_le_mono2[OF le(2), of ?r] by (simp add: distrib_left)
  then show "receive_back al t' u \<le> receive_back al t u + ?r * (t' - t)" unfolding receive_back_def sat_mul_def by linarith
qed

lemma level_recovers:
  assumes "t \<le> t'"
  shows "level cfg e t' s \<le> level cfg e t s"
    and "level cfg e t s \<le> level cfg e t' s + al_recovery_per_block (entity_allowance cfg e) * (t' - t)"
proof -
  show "level cfg e t' s \<le> level cfg e t s"
    using recovery_bounded(1)[OF assms, of "entity_allowance cfg e"] by (auto simp: level_def diff_le_mono2 split: option.split)
  show "level cfg e t s \<le> level cfg e t' s + al_recovery_per_block (entity_allowance cfg e) * (t' - t)"
  proof (cases "fmlookup (Usages s) e")
    case (Some u)
    from recovery_bounded(2)[OF assms, of "entity_allowance cfg e" u] show ?thesis by (simp add: level_def Some)
  qed (simp add: level_def)
qed

lemma clean_level:
  assumes "clean_usage cfg now origin e' s = Inr (s', post)"
  shows "level cfg e now s' = level cfg e now s" "post = pays_info Pays_No" "level cfg e' now s = 0" "Usages s' = fmdrop e' (Usages s)"
  using assms by (auto simp: clean_usage_def res_simps level_def Let_def split: if_splits)

lemma dispatch_level: "level cfg e now (fst (restriction_dispatch cfg now origin call s)) = level cfg e now s"
  by (auto simp: restriction_dispatch_def clean_level(1) split: restriction_call.split sum.split)

lemma level_upd: "level cfg e t (s\<lparr>Usages := fmupd e' u (Usages s)\<rparr>) =
    (if e' = e then used u - receive_back (entity_allowance cfg e) t u else level cfg e t s)"
  by (simp add: level_def)

text \<open>A transaction of another entity or of no entity leaves the usage alone; one of the entity adds what it consumes.\<close>

lemma transaction_others:
  assumes run: "restricted_transaction cfg enabled now origin call w len s = Inr (s', post)" and other: "restricted_entity cfg origin \<noteq> Some e"
  shows "level cfg e now s' = level cfg e now s"
proof (cases "restricted_entity cfg origin")
  case None
  then have "s' = fst (restriction_dispatch cfg now origin call s)"
    using run by (auto simp: restricted_transaction_def restrict_validate_def restrict_prepare_def restrict_post_dispatch_def split: prod.splits)
  then show ?thesis by (simp add: dispatch_level)
next
  case (Some e')
  then obtain fee u where v: "restrict_validate cfg enabled now origin call w len s = Inr (ValCharge fee e' u)"
    using run by (auto simp: restricted_transaction_def restrict_validate_def res_simps Let_def split: if_splits)
  have ne: "e' \<noteq> e" using other Some by simp
  let ?s1 = "s\<lparr>Usages := fmupd e' u (Usages s)\<rparr>"
  obtain s2 where d: "restriction_dispatch cfg now origin call ?s1 = (s2, post)" and s': "s' = snd (restrict_post_dispatch cfg (PreCharge fee e') post len s2)"
    using run v by (auto simp: restricted_transaction_def restrict_prepare_def split: prod.splits)
  have "level cfg e now s' = level cfg e now s2" unfolding s' using ne
    by (auto simp: restrict_post_dispatch_def level_def Let_def split: option.split)
  also have "\<dots> = level cfg e now s" using dispatch_level[of cfg e now origin call ?s1] ne by (simp add: d level_def)
  finally show ?thesis .
qed

lemma transaction_of:
  assumes run: "restricted_transaction cfg enabled now origin call w len s = Inr (s', post)" and e: "restricted_entity cfg origin = Some e"
    and ex: "\<not> allowed_one_time_excess cfg e call" and mx: "al_max (entity_allowance cfg e) < max_of 128"
  shows "level cfg e now s' = level cfg e now s + consumed cfg e origin w len post" "level cfg e now s' \<le> al_max (entity_allowance cfg e)"
proof -
  let ?fee = "extrinsic_fee cfg w len" and ?L = "level cfg e now s"
  define u0 where "u0 = (case fmlookup (Usages s) e of
      Some u \<Rightarrow> u\<lparr>used := used u - receive_back (entity_allowance cfg e) now u, at_block := now\<rparr> | None \<Rightarrow> \<lparr>used = 0, at_block = now\<rparr>)"
  define u where "u = u0\<lparr>used := sat_add 128 (used u0) ?fee\<rparr>"
  have L: "used u0 = ?L" "at_block u0 = now" by (simp_all add: u0_def level_def split: option.split)
  obtain val where val: "restrict_validate cfg enabled now origin call w len s = Inr val"
    using run by (auto simp: restricted_transaction_def res_simps)
  then have v: "restrict_validate cfg enabled now origin call w len s = Inr (ValCharge ?fee e u)" and ule: "used u \<le> al_max (entity_allowance cfg e)"
    using e ex unfolding restrict_validate_def u0_def[symmetric] Let_def u_def by (simp_all add: u0_def[symmetric] res_simps split: if_splits)
  have u: "used u = sat_add 128 ?L ?fee" "at_block u = now" "used u \<le> al_max (entity_allowance cfg e)"
    using L ule by (simp_all add: u_def)
  have uL: "used u = ?L + ?fee" "?L + ?fee \<le> al_max (entity_allowance cfg e)" using u mx by (simp_all add: sat_add_def)
  let ?s1 = "s\<lparr>Usages := fmupd e u (Usages s)\<rparr>"
  obtain s2 where d: "restriction_dispatch cfg now origin call ?s1 = (s2, post)" and s': "s' = snd (restrict_post_dispatch cfg (PreCharge ?fee e) post len s2)"
    using run v by (auto simp: restricted_transaction_def restrict_prepare_def split: prod.splits)
  have l1: "level cfg e now ?s1 = used u" using u(2) by (simp add: level_def)
  have "level cfg e now s' = ?L + consumed cfg e origin w len post"
  proof (cases "fmlookup (Usages s2) e")
    case None
    then have z: "used u = 0" using dispatch_level[of cfg e now origin call ?s1] l1 by (simp add: d level_def)
    then have "level cfg e now s' = 0" using None by (simp add: s' restrict_post_dispatch_def level_def)
    moreover have "consumed cfg e origin w len post = 0" using z uL(1) by (simp add: consumed_def split: option.split)
    ultimately show ?thesis using z uL(1) by simp
  next
    case (Some u2)
    have "u2 = u"
    proof (cases call)
      case (CallCleanUsage e2)
      then show ?thesis using d Some
        by (auto simp: restriction_dispatch_def dest!: clean_level(4) split: sum.splits if_splits)
    qed (use d Some in \<open>auto simp: restriction_dispatch_def\<close>)
    then have "level cfg e now s' = refund_usage cfg ?fee post len (used u)" using Some u(2)
      by (simp add: s' restrict_post_dispatch_def level_def Let_def)
    also have "\<dots> = ?L + consumed cfg e origin w len post" using uL(1) e by (auto simp: refund_usage_def consumed_def split: option.split)
    finally show ?thesis .
  qed
  moreover have "consumed cfg e origin w len post \<le> ?fee" by (simp add: consumed_def split: option.split)
  ultimately show "level cfg e now s' = ?L + consumed cfg e origin w len post" "level cfg e now s' \<le> al_max (entity_allowance cfg e)"
    using uL(2) by simp_all
qed

lemma consumption_bound:
  assumes mx: "al_max (entity_allowance cfg e) < max_of 128"
  shows "sorted (t0 # map fst txs @ [t1]) \<Longrightarrow>
    \<forall>(now, enabled, origin, call, w, len)\<in>set txs. restricted_entity cfg origin = Some e \<longrightarrow> \<not> allowed_one_time_excess cfg e call \<Longrightarrow>
    consumption cfg e txs s + level cfg e t0 s \<le> max (al_max (entity_allowance cfg e)) (level cfg e t0 s) +
      al_recovery_per_block (entity_allowance cfg e) * (t1 - t0)"
proof (induction txs arbitrary: s t0)
  case Nil
  then show ?case by simp
next
  case (Cons tx txs)
  obtain now enabled origin call w len where tx: "tx = (now, enabled, origin, call, w, len)" by (cases tx)
  let ?A = "entity_allowance cfg e" and ?r = "al_recovery_per_block (entity_allowance cfg e)"
  have t: "t0 \<le> now" "now \<le> t1" "sorted (now # map fst txs @ [t1])" using Cons.prems(1) tx by (auto simp: sorted_append)
  have ih: "consumption cfg e txs s' + level cfg e now s' \<le> max (al_max ?A) (level cfg e now s') + ?r * (t1 - now)" for s'
    using Cons.IH[OF t(3)] Cons.prems(2) by simp
  note lv = level_recovers[OF t(1), of cfg e s]
  have r: "?r * (t1 - now) + ?r * (now - t0) = ?r * (t1 - t0)" using t(1,2) by (simp add: distrib_left[symmetric])
  show ?case
  proof (cases "restricted_transaction cfg enabled now origin call w len s")
    case (Inl x)
    then show ?thesis using ih[of s] lv r tx by simp
  next
    case (Inr res)
    obtain s' post where res: "res = (s', post)" by (cases res)
    note run = Inr[unfolded res]
    show ?thesis
    proof (cases "restricted_entity cfg origin = Some e")
      case True
      have "\<not> allowed_one_time_excess cfg e call" using Cons.prems(2) tx True by auto
      note to = transaction_of[OF run True this mx]
      show ?thesis using ih[of s'] lv r to run tx by simp
    next
      case False
      then have "level cfg e now s' = level cfg e now s" "consumed cfg e origin w len post = 0"
        using transaction_others[OF run False] by (simp_all add: consumed_def)
      then show ?thesis using ih[of s'] lv r run tx by simp
    qed
  qed
qed


subsection \<open>An example\<close>

definition rex_cfg :: "(nat, (nat, unit) restriction_call, nat option) restriction_config" where
  "rex_cfg = \<lparr>
     restricted_entity = (\<lambda>org. org),
     entity_allowance = (\<lambda>_. \<lparr>al_max = 10, al_recovery_per_block = 2\<rparr>),
     allowed_one_time_excess = (\<lambda>e _. e = 9),
     weight_to_fee = ref_time,
     length_to_fee = ref_time,
     is_none_origin = (\<lambda>_. False),
     restrict_origin_tx_ext = zero_weight\<rparr>"

definition rex_tx :: "block_number \<Rightarrow> nat \<Rightarrow> (nat, unit, nat option) restricted_tx" where
  "rex_tx now fee = (now, True, Some 1, CallElse () (pays_info Pays_Yes), \<lparr>ref_time = fee, proof_size = 0\<rparr>, 0)"

definition rex_txs :: "(nat, unit, nat option) restricted_tx list" where
  "rex_txs = [rex_tx 5 8, rex_tx 5 8, (6, True, Some 1, CallCleanUsage 1, zero_weight, 0), rex_tx 8 6]"


text \<open>Without an allowance there is no recovery, and a usage that is not zero stays.\<close>

lemma no_allowance_not_cleaned:
  assumes "fmlookup (Usages s) e = Some u" "0 < used u" "al_recovery_per_block (entity_allowance cfg e) = 0" "\<not> is_none_origin cfg origin"
  shows "clean_usage cfg now origin e s = (Inl (Module NotZero) :: (restriction_error, 'x) dispatch_error + _)"
  using assms by (simp add: clean_usage_def receive_back_def sat_mul_def ensure_def)

end
