(* ===== verification/RelayRandomness.thy ===== *)
theory RelayRandomness
  imports Prelude
begin

text \<open>
  The pallet \<^verbatim>\<open>pallets/relay-randomness/src/lib.rs\<close>: the randomness of the relay chain with the relay block by which
  everybody knew it. The state proof is what it serves: the block randomness (absent, or empty, or a value) and that
  of the last epoch; the hash and the configured offset of the relay parent are parameters.
\<close>

subsection \<open>Data and operations\<close>

record randomness_entry =
  randomness :: bytes
  moment :: block_number

record randomness_values =
  rv_block :: "randomness_entry option"
  rv_one_epoch_ago :: "randomness_entry option"

definition default_values :: randomness_values where
  "default_values = \<lparr>rv_block = None, rv_one_epoch_ago = None\<rparr>"

definition refresh_entry ::
  "randomness_entry option \<Rightarrow> bytes option \<Rightarrow> block_number \<Rightarrow> randomness_entry option" where
  "refresh_entry entry observed m =
     (case observed of
        None \<Rightarrow> entry
      | Some r \<Rightarrow>
          (case entry of
             Some e \<Rightarrow> if randomness e \<noteq> r then Some \<lparr>randomness = r, moment = m\<rparr> else entry
           | None \<Rightarrow> Some \<lparr>randomness = r, moment = m\<rparr>))"

definition on_relay_state_proof ::
  "nat \<Rightarrow> block_number \<Rightarrow> bytes option option \<Rightarrow> bytes option \<Rightarrow> randomness_values \<Rightarrow> randomness_values" where
  "on_relay_state_proof offset relay_block current_block one_epoch_ago vs =
     (let vrf = (case current_block of Some v \<Rightarrow> v | None \<Rightarrow> None);
          vrf_moment = relay_block - offset;
          epoch_moment = vrf_moment - 1
      in \<lparr>rv_block = refresh_entry (rv_block vs) vrf vrf_moment,
          rv_one_epoch_ago = refresh_entry (rv_one_epoch_ago vs) one_epoch_ago epoch_moment\<rparr>)"

definition block_randomness :: "randomness_values \<Rightarrow> (bytes \<times> block_number) option" where
  "block_randomness vs = map_option (\<lambda>e. (randomness e, moment e)) (rv_block vs)"

definition one_epoch_ago_randomness :: "randomness_values \<Rightarrow> (bytes \<times> block_number) option" where
  "one_epoch_ago_randomness vs = map_option (\<lambda>e. (randomness e, moment e)) (rv_one_epoch_ago vs)"

definition mix_subject ::
  "(bytes \<Rightarrow> bytes) \<Rightarrow> bytes \<Rightarrow> randomness_entry option \<Rightarrow> bytes \<times> block_number" where
  "mix_subject hash subject entry =
     (case entry of
        None \<Rightarrow> (hash subject, 0)
      | Some e \<Rightarrow> (hash (subject @ randomness e), moment e))"

definition random_block :: "(bytes \<Rightarrow> bytes) \<Rightarrow> bytes \<Rightarrow> randomness_values \<Rightarrow> bytes \<times> block_number" where
  "random_block hash subject vs = mix_subject hash subject (rv_block vs)"

definition random_one_epoch_ago :: "(bytes \<Rightarrow> bytes) \<Rightarrow> bytes \<Rightarrow> randomness_values \<Rightarrow> bytes \<times> block_number" where
  "random_one_epoch_ago hash subject vs = mix_subject hash subject (rv_one_epoch_ago vs)"

subsection \<open>What a moment says\<close>

text \<open>The blocks of the parachain: the relay parent and what its state serves.\<close>

type_synonym relay_observation = "block_number \<times> bytes option option \<times> bytes option"

definition observe_all :: "nat \<Rightarrow> relay_observation list \<Rightarrow> randomness_values" where
  "observe_all offset obs = fold (\<lambda>(r, v, e). on_relay_state_proof offset r v e) obs default_values"

text \<open>Relay parents do not go back, and the relay chain does not serve a value again once it served another one.\<close>

definition never_recurs :: "(block_number \<times> bytes option) list \<Rightarrow> bool" where
  "never_recurs xs \<longleftrightarrow>
     (\<forall>k < length xs. \<forall>j < k. \<forall>i < j. snd (xs ! i) = snd (xs ! k) \<and> snd (xs ! k) \<noteq> None \<and> snd (xs ! j) \<noteq> None \<longrightarrow>
       snd (xs ! j) = snd (xs ! k))"

lemma observe_all_snoc: "observe_all offset (obs @ [(r, v, e)]) = on_relay_state_proof offset r v e (observe_all offset obs)"
  by (simp add: observe_all_def)

text \<open>One of the two values, as a list of the values served.\<close>

definition refresh_all :: "(block_number \<Rightarrow> block_number) \<Rightarrow> (block_number \<times> bytes option) list \<Rightarrow> randomness_entry option" where
  "refresh_all mom xs = fold (\<lambda>(r, v) entry. refresh_entry entry v (mom r)) xs None"

lemma refresh_all_snoc: "refresh_all mom (xs @ [(r, v)]) = refresh_entry (refresh_all mom xs) v (mom r)"
  by (simp add: refresh_all_def)

lemma observe_values:
  "rv_block (observe_all offset obs) =
     refresh_all (\<lambda>r. r - offset) (map (\<lambda>(r, v, e). (r, case v of Some x \<Rightarrow> x | None \<Rightarrow> None)) obs)"
  "rv_one_epoch_ago (observe_all offset obs) = refresh_all (\<lambda>r. r - offset - 1) (map (\<lambda>(r, v, e). (r, e)) obs)"
proof (induction obs rule: rev_induct)
  case Nil
  case 1 then show ?case by (simp add: observe_all_def default_values_def refresh_all_def)
  case 2 then show ?case by (simp add: observe_all_def default_values_def refresh_all_def)
next
  case (snoc ob obs)
  obtain r v e where o: "ob = (r, v, e)" by (cases ob)
  case 1 show ?case using snoc(1) by (simp add: o observe_all_snoc refresh_all_snoc on_relay_state_proof_def Let_def)
  case 2 show ?case using snoc(2) by (simp add: o observe_all_snoc refresh_all_snoc on_relay_state_proof_def Let_def)
qed

lemma refresh_all_None: "refresh_all mom xs = None \<longleftrightarrow> (\<forall>x\<in>set xs. snd x = None)"
proof (induction xs rule: rev_induct)
  case (snoc x xs)
  then show ?case by (cases x) (auto simp: refresh_all_snoc refresh_entry_def split: option.splits)
qed (simp add: refresh_all_def)

text \<open>An entry was written at a block that served its value, after another value, and nothing else was served since.\<close>

lemma refresh_all_Some:
  "refresh_all mom xs = Some e \<Longrightarrow>
     \<exists>ys r zs. xs = ys @ (r, Some (randomness e)) # zs \<and> (\<forall>z\<in>set zs. snd z \<in> {None, Some (randomness e)}) \<and>
       moment e = mom r \<and> (\<forall>e'. refresh_all mom ys = Some e' \<longrightarrow> randomness e' \<noteq> randomness e)"
proof (induction xs rule: rev_induct)
  case Nil
  then show ?case by (simp add: refresh_all_def)
next
  case (snoc x xs)
  obtain r v where x: "x = (r, v)" by (cases x)
  have e: "refresh_entry (refresh_all mom xs) v (mom r) = Some e" using snoc.prems by (simp add: x refresh_all_snoc)
  show ?case
  proof (cases "refresh_all mom xs = Some e \<and> v \<in> {None, Some (randomness e)}")
    case True
    then obtain ys r' zs where "xs = ys @ (r', Some (randomness e)) # zs" "\<forall>z\<in>set zs. snd z \<in> {None, Some (randomness e)}"
      "moment e = mom r'" "\<forall>e'. refresh_all mom ys = Some e' \<longrightarrow> randomness e' \<noteq> randomness e" using snoc.IH by blast
    then show ?thesis using True x by (intro exI[of _ ys] exI[of _ r'] exI[of _ "zs @ [x]"]) auto
  next
    case False
    then have "v = Some (randomness e) \<and> moment e = mom r \<and> (\<forall>e'. refresh_all mom xs = Some e' \<longrightarrow> randomness e' \<noteq> randomness e)"
      using e by (auto simp: refresh_entry_def split: option.splits if_splits)
    then show ?thesis using x by (intro exI[of _ xs] exI[of _ r] exI[of _ "[]"]) auto
  qed
qed

lemma first_observation:
  assumes mom: "mono mom" and srt: "sorted (map fst xs)" and rec: "never_recurs xs" and e: "refresh_all mom xs = Some e"
  shows "\<exists>r. (r, Some (randomness e)) \<in> set xs \<and> moment e = mom r"
    and "(r, Some (randomness e)) \<in> set xs \<Longrightarrow> moment e \<le> mom r"
proof -
  obtain ys r0 zs where x: "xs = ys @ (r0, Some (randomness e)) # zs" and m: "moment e = mom r0"
    and before: "\<forall>e'. refresh_all mom ys = Some e' \<longrightarrow> randomness e' \<noteq> randomness e" using refresh_all_Some[OF e] by blast
  then show "\<exists>r. (r, Some (randomness e)) \<in> set xs \<and> moment e = mom r" by auto
  assume r: "(r, Some (randomness e)) \<in> set xs"
  have "(r, Some (randomness e)) \<notin> set ys"
  proof
    assume "(r, Some (randomness e)) \<in> set ys"
    then obtain i where i: "i < length ys" "ys ! i = (r, Some (randomness e))" by (auto simp: in_set_conv_nth)
    have "refresh_all mom ys \<noteq> None" using i(2) nth_mem[OF i(1)] unfolding refresh_all_None by (metis option.distinct(1) snd_conv)
    then obtain e' where e': "refresh_all mom ys = Some e'" "randomness e' \<noteq> randomness e" using before by auto
    obtain us r' vs where u: "ys = us @ (r', Some (randomness e')) # vs" "\<forall>z\<in>set vs. snd z \<in> {None, Some (randomness e')}"
      using refresh_all_Some[OF e'(1)] by blast
    have "i < length us"
    proof (rule ccontr)
      assume "\<not> i < length us"
      then have "ys ! i = (r', Some (randomness e')) \<or> ys ! i \<in> set vs"
        using i(1) by (cases "i = length us") (auto simp: u(1) nth_append nth_Cons split: nat.split)
      then show False using i(2) u(2) e'(2) by force
    qed
    moreover have "snd (xs ! i) = Some (randomness e)" using i by (simp add: x nth_append)
    moreover have "snd (xs ! length us) = Some (randomness e')" "snd (xs ! length ys) = Some (randomness e)"
      by (simp_all add: x u(1) nth_append)
    moreover have "length us < length ys" "length ys < length xs" by (simp_all add: x u(1))
    ultimately show False using rec e'(2) unfolding never_recurs_def by (metis option.distinct(1) option.inject)
  qed
  then have "r0 \<le> r" using r srt by (auto simp: x sorted_append)
  then show "moment e \<le> mom r" using mom by (simp add: m monoD)
qed

text \<open>
  C39: A stored value was unknown before its moment. If relay parents do not go back and the relay chain does not serve a
  value again after another one, the moment of the block randomness is the earliest block minus the offset at which it
  was served, and that of the epoch randomness one block before that: whoever committed at a relay block before the
  moment did so before any block that served the value was public for longer than the offset.
\<close>

theorem moment_is_first_observation:
  assumes "sorted (map fst obs)" and "vs = observe_all offset obs"
    and "never_recurs (map (\<lambda>(r, v, e). (r, case v of Some x \<Rightarrow> x | None \<Rightarrow> None)) obs)"
    and "never_recurs (map (\<lambda>(r, v, e). (r, e)) obs)"
  shows "(\<forall>x m. block_randomness vs = Some (x, m) \<longrightarrow>
      (\<exists>r e. (r, Some (Some x), e) \<in> set obs \<and> m = r - offset) \<and> (\<forall>r e. (r, Some (Some x), e) \<in> set obs \<longrightarrow> m \<le> r - offset)) \<and>
    (\<forall>x m. one_epoch_ago_randomness vs = Some (x, m) \<longrightarrow>
      (\<exists>r v. (r, v, Some x) \<in> set obs \<and> m = r - offset - 1) \<and> (\<forall>r v. (r, v, Some x) \<in> set obs \<longrightarrow> m \<le> r - offset - 1))"
proof (intro conjI allI impI)
  let ?b = "map (\<lambda>(r, v, e). (r, case v of Some x \<Rightarrow> x | None \<Rightarrow> None)) obs"
  let ?e = "map (\<lambda>(r, v, e). (r, e)) obs"
  have sb: "sorted (map fst ?b)" "sorted (map fst ?e)" using assms(1) by (simp_all add: case_prod_beta comp_def)
  have mb: "mono (\<lambda>r. r - offset)" "mono (\<lambda>r. r - offset - 1)" by (simp_all add: mono_def diff_le_mono)
  have ib: "(r, Some x) \<in> set ?b \<longleftrightarrow> (\<exists>e. (r, Some (Some x), e) \<in> set obs)" for r x by (force split: option.splits)
  have ie: "(r, Some x) \<in> set ?e \<longleftrightarrow> (\<exists>v. (r, v, Some x) \<in> set obs)" for r x by force
  fix x m
  {
    assume "block_randomness vs = Some (x, m)"
    then obtain en where en: "refresh_all (\<lambda>r. r - offset) ?b = Some en" "x = randomness en" "m = moment en"
      by (auto simp: block_randomness_def assms(2) observe_values)
    note f = first_observation[OF mb(1) sb(1) assms(3) en(1), folded en(2,3)]
    show "\<exists>r e. (r, Some (Some x), e) \<in> set obs \<and> m = r - offset" using f(1) unfolding ib by blast
    show "m \<le> r - offset" if "(r, Some (Some x), e) \<in> set obs" for r e using f(2)[of r] that unfolding ib by blast
  }
  assume "one_epoch_ago_randomness vs = Some (x, m)"
  then obtain en where en: "refresh_all (\<lambda>r. r - offset - 1) ?e = Some en" "x = randomness en" "m = moment en"
    by (auto simp: one_epoch_ago_randomness_def assms(2) observe_values)
  note f = first_observation[OF mb(2) sb(2) assms(4) en(1), folded en(2,3)]
  show "\<exists>r v. (r, v, Some x) \<in> set obs \<and> m = r - offset - 1" using f(1) unfolding ie by blast
  show "m \<le> r - offset - 1" if "(r, v, Some x) \<in> set obs" for r v using f(2)[of r] that unfolding ie by blast
qed

text \<open>The example of the module documentation: offset 2, the epochs of four blocks, relay parents 12 to 15.\<close>

definition doc_obs :: "relay_observation list" where
  "doc_obs = [(12, Some (Some ''v12''), Some ''e4''), (13, Some None, Some ''e4''), (14, Some (Some ''v14''), Some ''e5''),
     (15, Some (Some ''v15''), Some ''e5'')]"

lemma moment_is_first_observation_witness:
  "block_randomness (observe_all 2 doc_obs) = Some (''v15'', 13) \<and> one_epoch_ago_randomness (observe_all 2 doc_obs) = Some (''e5'', 11) \<and>
   (\<exists>r e. (r, Some (Some ''v15''), e) \<in> set doc_obs \<and> 13 = r - 2) \<and> (\<exists>r v. (r, v, Some ''e5'') \<in> set doc_obs \<and> 11 = r - 2 - 1)"
proof -
  have v: "block_randomness (observe_all 2 doc_obs) = Some (''v15'', 13)" "one_epoch_ago_randomness (observe_all 2 doc_obs) = Some (''e5'', 11)"
    by (simp_all add: doc_obs_def observe_all_def on_relay_state_proof_def default_values_def refresh_entry_def block_randomness_def
        one_epoch_ago_randomness_def Let_def)
  have s: "sorted (map fst doc_obs)" by (simp add: doc_obs_def)
  have "never_recurs (map (\<lambda>(r, v, e). (r, case v of Some x \<Rightarrow> x | None \<Rightarrow> None)) doc_obs)" "never_recurs (map (\<lambda>(r, v, e). (r, e)) doc_obs)"
    by (simp_all add: doc_obs_def never_recurs_def numeral_eq_Suc All_less_Suc)
  from moment_is_first_observation[OF s refl this] v show ?thesis by blast
qed

end
