(* ===== verification/Spec2Isabelle.thy ===== *)
theory Spec2Isabelle
  imports MobRule_Properties Members_Properties Members_Deletion PeopleMembers ChunksManager ScorePeople Score_Properties
    NetworkSuffix ProofOfInk_Properties OriginRestriction RelayRandomness
begin

text \<open>
  A verification development of the pallets that decide who is a person.

  \<^bold>\<open>The program.\<close> The repository is a set of FRAME pallets and the runtimes that configure them. Its core is the
  recognition of personhood. Two mechanisms prove that an account belongs to a person: \<^emph>\<open>proof of ink\<close>
  (\<^verbatim>\<open>pallets/proof-of-ink\<close>), where a candidate gets a tattoo of a design and submits evidence of it, and the weekly
  game, whose attendance \<^verbatim>\<open>pallets/score\<close> turns into a score. Evidence is judged by the people themselves in
  \<^verbatim>\<open>pallets/mob-rule\<close>, which calls the client back with the verdict. Both mechanisms reserve and recognize personal
  ids in the registry \<^verbatim>\<open>pallets/people-multi\<close>, which ties accounts to ids and to contextual aliases, and keeps the
  keys of recognized people in a collection of \<^verbatim>\<open>pallets/members\<close>. That pallet sorts keys into rings and builds the
  root of every ring, against which anonymous proofs of membership are verified; \<^verbatim>\<open>pallets/chunks-manager\<close> holds
  the chunks of the cryptographic setup for it. The shared vocabulary is in \<^verbatim>\<open>support/src\<close>.

  \<^bold>\<open>Conventions.\<close> An extrinsic is a function from the configuration, the block or time where it reads it, the
  origin and the arguments to a sum: \<open>Inl\<close> an error of the pallet's \<open>Error\<close> type, a bad origin or a foreign error,
  and then no state, since FRAME rolls back; \<open>Inr\<close> the new state, with the fee information where the code returns
  it. The state of a pallet is a record of its storage items, named as in the code, with the events it deposits. An
  integer of width \<open>w\<close> is a \<open>nat\<close> with saturation, overflow and wrap-around written out, bit fields are words. What
  the pallets call outside the repository (currency, codec, hashes, signatures, ring cryptography, weights, nonces)
  is a field of the configuration record, \<open>mob_config\<close>, \<open>members_config\<close>, \<open>people_config\<close>, \<open>score_config\<close>,
  \<open>poi_config\<close>; what a proof needs of it is a named hypothesis, such as \<open>funds_laws\<close>, and the example
  configurations satisfy it.
\<close>

text \<open>
  \<^bold>\<open>The theories.\<close>

  \<^item> \<open>Prelude\<close>: results, integers, storage maps, sums over maps, and the locale \<open>pallet_machine\<close>: a step function
    with a side condition on the steps and an invariant it keeps; then the invariant holds after every run.
    \<open>exec_all\<close> runs a list of operations, a failed one changes nothing; \<open>run_ok\<close> says that the side condition holds
    before every step. \<open>TxPriority\<close>, \<open>Reality\<close>, \<open>Shared\<close>: the modules of \<^verbatim>\<open>support/src\<close> that several pallets use.
    \<open>ProductContext\<close>: ring contexts of products and label formats.
  \<^item> \<open>MobRule\<close> models \<^verbatim>\<open>pallets/mob-rule/src/lib.rs\<close>, \<open>MobRule_Tally\<close> the meaning of its vote counting,
    \<open>MobRule_Invariant\<close> its entry points (\<open>mob_op\<close>, \<open>mob_step\<close>) and invariant, \<open>MobRule_Example\<close> a configuration,
    \<open>MobRule_Properties\<close> the properties.
  \<^item> \<open>Members_State\<close>, \<open>Members_Ops\<close>, \<open>Members_Calls\<close> model \<^verbatim>\<open>pallets/members/src/lib.rs\<close>: the data, the internal
    operations, the extrinsics with validation and the traits other pallets use. \<open>Members_View\<close> is one collection
    seen by itself, the abstract state of most proofs; \<open>Members_Moves\<close>, \<open>Members_Steps\<close>, \<open>Members_Onboard\<close>,
    \<open>Members_Queue\<close>, \<open>Members_Rings\<close>, \<open>Members_Removal\<close>, \<open>Members_Merge\<close> show that the loops of the code are
    sequences of moves of keys on that view; \<open>Members_Invariant\<close> puts the collections together. \<open>Members_Active\<close>
    and \<open>Members_Fifo\<close> are two abstractions: the set of active keys, and the queue and rings as lists.
    \<open>Members_Deletion\<close> is the dismantling of a collection as an inductive step relation with a measure.
    \<open>Members_Example\<close> and \<open>Members_Properties\<close> close the pallet.
  \<^item> \<open>PeopleMulti\<close> and \<open>PeopleExtension\<close> model \<^verbatim>\<open>pallets/people-multi/src/lib.rs\<close> and \<^verbatim>\<open>extension.rs\<close> over an abstract
    member service; \<open>PeopleInvariant\<close>, \<open>PeopleProperties\<close> the invariant and properties. \<open>PeopleMembers\<close> holds the
    locale \<open>member_registry\<close>, the contract between the registry and its member service, and interprets it on the
    model of the members pallet.
  \<^item> \<open>Score\<close> models \<^verbatim>\<open>pallets/score/src\<close> (\<^verbatim>\<open>lib.rs\<close>, \<^verbatim>\<open>types.rs\<close>, \<^verbatim>\<open>extension.rs\<close>, \<^verbatim>\<open>migration.rs\<close>);
    \<open>Score_Attendance\<close> the bit field and the schedules against their specifications, \<open>Score_Invariant\<close>,
    \<open>Score_Steps\<close>, \<open>Score_Properties\<close> well-formedness and funding. \<open>ScoreRegistry\<close> holds the locale
    \<open>people_registry\<close>, what the game relies on in the registry, and \<open>ScorePeople\<close> interprets it on the model of
    the people pallet.
  \<^item> \<open>ProofOfInk\<close> models \<^verbatim>\<open>pallets/proof-of-ink/src/lib.rs\<close> and \<^verbatim>\<open>extension.rs\<close>; \<open>ProofOfInk_Designs\<close> seeds, variants
    and rewards; \<open>ProofOfInk_Invariant\<close> and \<open>ProofOfInk_Steps\<close> the invariant, with the locale
    \<open>people_reservations\<close> for the registry; \<open>ProofOfInk_Judgement\<close> the specification of a verdict and the proof
    that \<open>judged\<close> implements it; \<open>ProofOfInk_People\<close> the interpretation on the people pallet;
    \<open>ProofOfInk_Example\<close> and \<open>ProofOfInk_Properties\<close> the rest. \<open>PeopleChain\<close> is the world that score and
    proof of ink share: clock, funds and registry.
  \<^item> \<open>ChunksManager\<close>, \<open>OriginRestriction\<close>, \<open>RelayRandomness\<close> and \<open>NetworkSuffix\<close> model the \<^verbatim>\<open>lib.rs\<close> of the pallets
    \<^verbatim>\<open>chunks-manager\<close>, \<^verbatim>\<open>origin-restriction\<close>, \<^verbatim>\<open>relay-randomness\<close> and \<^verbatim>\<open>network-suffix\<close>, with their properties.
\<close>

text \<open>
  \<^bold>\<open>What the theorems show.\<close>

  \<^item> Mob rule: in every reachable state a case is in one phase and its tally counts its votes; a definitive result
    stays; a payout can always be claimed; validation of unsigned calls agrees with their dispatch.
  \<^item> Members: every record says where its key is, no key is stored twice, the counters are exact; onboarding is
    first in, first out; roots include exactly the next keys; old roots verify for the retention period; sessions
    freeze the rings; deletions end, and an identifier is never used again.
  \<^item> People: accounts, aliases, ids and keys correspond one to one; ids are permanent; suspension is all or nothing;
    together with members, a person is recognized exactly while the person's key is active in the collection.
  \<^item> Score: scores and flags are consistent, the funds on hold cover every credit and every planned round, payouts
    complete; together with people, a participant held for recognized is recognized in the registry.
  \<^item> Proof of ink: a design has one holder, the count of allocations is exact, referrals are the candidates, ids of
    candidates are reserved in the registry, and the judgement a candidate waits for is always applied.
  \<^item> Chunks manager and contexts: uploaded chunks are read back, reading by pages is reading by index; contexts of
    different products, networks and uses differ.
  \<^item> Origin restriction and relay randomness: the allowance of an entity limits the rate of what it consumes; the
    moment of a random value is the first block that served it.

  \<^bold>\<open>Side conditions of runs.\<close> The properties of reachable states hold for every list of operations in any order and
  interleaving, with failures included, under the condition \<open>run_ok\<close>. \<open>mob_op_ok\<close>, \<open>members_op_ok\<close>, \<open>people_op_ok\<close>,
  \<open>score_op_ok\<close>, \<open>people_side_ok\<close> and \<open>poi_op_ok\<close> state it: counters have room below the width of their type, an
  operation the runtime only makes reachable for another pallet respects the contract of that pallet, and a step of
  the rest of the chain does not undo what the pallet relies on (held funds, reserved ids, recognitions). Each property has a witness:
  a run of a small configuration, evaluated by the kernel, on which all hypotheses hold.

  \<^bold>\<open>Loops and termination.\<close> Loops over storage are structural recursion on the list of keys in the order in which the
  storage iterates, which is an argument; loops bounded by a counter recurse on the counter. The only loop that may
  not end, \<open>get_chunks_loop\<close> for pages of size 0, is a partial function, and that reading ends otherwise is proved.

  \<^bold>\<open>Not modelled.\<close> The game itself, coinage, the airdrop and NFT pallets, \<^verbatim>\<open>people-lite\<close>, \<^verbatim>\<open>resources\<close>, \<^verbatim>\<open>pgas\<close>,
  \<^verbatim>\<open>honour\<close> and the pallets that carry messages to other chains: they are clients of the modelled core and change
  its state only through the operations modelled here. The ring cryptography, codecs and hashes are outside the
  repository or host interfaces and are parameters. Weights appear where the code computes with them, and are
  parameters there; benchmarks, mocks, tests, precompiles and the runtimes' configuration are left out, except for
  the wiring of the pallets that the compositions state.
\<close>

end
